(* ===== verification/Tz_Prelude.thy ===== *)
theory Tz_Prelude
  imports Main "HOL-Library.Word"
begin

text \<open>
  Shared vocabulary of the TrazelOs development: the fixed-width C integer types, the result
  type of kernel operations (a panic, an invalid memory access or an endless loop are values of
  \<open>kerror\<close>), sequencing of fallible operations, C for-loops over machine words, and the generic
  facts on words and lists that the component theories use.
\<close>

unbundle bit_operations_syntax

section \<open>Types and results\<close>

type_synonym u8 = "8 word"
type_synonym u16 = "16 word"
type_synonym u32 = "32 word"
type_synonym u64 = "64 word"

text \<open>
  \<open>Kernel_panic\<close> is the effect of KERNEL_PANIC and of a failed KERNEL_ASSERT, \<open>Fault\<close> an access
  outside every object the code owns (which C leaves undefined), \<open>Hang\<close> a loop that never ends.
\<close>

datatype kerror = Kernel_panic string | Fault | Hang

type_synonym 'a kres = "kerror + 'a"

definition kbind :: "'a kres \<Rightarrow> ('a \<Rightarrow> 'b kres) \<Rightarrow> 'b kres" where
  "kbind m f = (case m of Inl e \<Rightarrow> Inl e | Inr x \<Rightarrow> f x)"

definition kassert :: "bool \<Rightarrow> string \<Rightarrow> 'a kres \<Rightarrow> 'a kres" where
  "kassert c msg k = (if c then k else Inl (Kernel_panic msg))"

text \<open>Array accesses: out of range is a fault.\<close>

definition arr_get :: "'a list \<Rightarrow> nat \<Rightarrow> 'a kres" where
  "arr_get xs i = (if i < length xs then Inr (xs ! i) else Inl Fault)"

definition arr_set :: "'a list \<Rightarrow> nat \<Rightarrow> 'a \<Rightarrow> 'a list kres" where
  "arr_set xs i v = (if i < length xs then Inr (xs[i := v]) else Inl Fault)"

named_theorems kres_simps \<open>evaluation of results\<close>
named_theorems word_nat \<open>reading word arithmetic as arithmetic on nat\<close>

section \<open>Words\<close>

lemma unat_Suc_less [word_nat]: "i < (n::'a::len word) \<Longrightarrow> unat (i + 1) = Suc (unat i)"
proof -
  assume "i < n"
  then have "unat i < unat n" by (simp add: word_less_nat_alt)
  moreover have "unat n < 2 ^ LENGTH('a)" by (rule unsigned_less)
  ultimately have "unat i + 1 < 2 ^ LENGTH('a)" by linarith
  then show ?thesis by (simp add: unat_word_ariths)
qed

lemma unat_u64_less: "unat (x::u64) < 18446744073709551616"
proof -
  have "unat x < 2 ^ LENGTH(64)" by (rule unsigned_less)
  then show ?thesis by simp
qed

lemma unat_u32_less: "unat (x::u32) < 4294967296"
proof -
  have "unat x < 2 ^ LENGTH(32)" by (rule unsigned_less)
  then show ?thesis by simp
qed

lemma unat_u16_less: "unat (x::u16) < 65536"
proof -
  have "unat x < 2 ^ LENGTH(16)" by (rule unsigned_less)
  then show ?thesis by simp
qed

lemma unat_u8_less: "unat (x::u8) < 256"
proof -
  have "unat x < 2 ^ LENGTH(8)" by (rule unsigned_less)
  then show ?thesis by simp
qed

lemma unat_uminus_u64:
  assumes "a \<noteq> 0"
  shows "unat (- a :: u64) = 2 ^ 64 - unat a"
proof -
  have "0 < unat a" using assms by (simp add: unat_gt_0)
  then have "- a = word_of_nat (2 ^ 64 - unat a)"
    using unat_u64_less[of a] by (simp add: of_nat_diff)
  then show ?thesis using \<open>0 < unat a\<close> by (simp add: unat_of_nat)
qed

lemma sint_u64: "sint (v::u64) = (if uint v < 2 ^ 63 then uint v else uint v - 2 ^ 64)"
proof -
  have v: "0 \<le> uint v" "uint v < 2 ^ 64" using uint_range_size[of v] by (simp_all add: word_size)
  have s: "sint v = take_bit 64 (uint v) - 2 ^ 64 * of_bool (bit (uint v) 63)"
    by (simp add: sint_uint signed_take_bit_eq_take_bit_minus)
  have "bit (uint v) 63 \<longleftrightarrow> \<not> uint v < 2 ^ 63"
  proof (cases "uint v < 2 ^ 63")
    case True
    then show ?thesis using v by (simp add: bit_iff_odd div_pos_pos_trivial)
  next
    case False
    then have "uint v div 2 ^ 63 = 1" using v by (intro int_div_pos_eq[of _ _ _ "uint v - 2 ^ 63"]) simp_all
    then show ?thesis using False by (simp add: bit_iff_odd)
  qed
  then show ?thesis using s v by (simp add: take_bit_int_eq_self)
qed

lemmas unat_add_if_fits [word_nat] = unat_add_lem [THEN iffD1]
lemmas unat_mult_if_fits = unat_mult_lem [THEN iffD1]
lemmas unat_divmod [word_nat] = unat_div_distrib unat_mod_distrib

lemma div_shrinks: "2 \<le> b \<Longrightarrow> n div b \<noteq> 0 \<Longrightarrow> n div b < (n::nat)"
  by (intro div_less_dividend) (auto intro: gr0I)

text \<open>Masks as truncations, and bits beyond the width of a word.\<close>

lemma and_low_mask:
  "x AND 0xF = take_bit 4 (x::'a::len word)" "x AND 0xFF = take_bit 8 (x::'a::len word)"
  "x AND 0xFFFF = take_bit 16 (x::'a::len word)" "x AND 0xFFFFFF = take_bit 24 (x::'a::len word)"
  "x AND 0xFFFFFFFF = take_bit 32 (x::'a::len word)"
  by (simp_all add: take_bit_eq_mask mask_eq_exp_minus_1)

lemma bit_beyond:
  "8 \<le> n \<Longrightarrow> \<not> bit (b::u8) n" "16 \<le> n \<Longrightarrow> \<not> bit (h::u16) n" "32 \<le> n \<Longrightarrow> \<not> bit (w::u32) n"
  "64 \<le> n \<Longrightarrow> \<not> bit (v::u64) n"
  by (auto dest: bit_imp_le_length)

section \<open>C for-loops\<close>

text \<open>
  \<open>for_loop i n f s\<close> is \<^verbatim>\<open>for (; i < n; i++) body\<close> over an unsigned integer type: the counter
  is a word, the body may fail. The counter cannot wrap, because it is below the bound when it
  is incremented.
\<close>

function for_loop ::
  "'w::len word \<Rightarrow> 'w word \<Rightarrow> ('w word \<Rightarrow> 's \<Rightarrow> 's kres) \<Rightarrow> 's \<Rightarrow> 's kres" where
  "for_loop i n f s = (if i < n then kbind (f i s) (for_loop (i + 1) n f) else Inr s)"
  by pat_completeness auto
termination
  by (relation "measure (\<lambda>(i, n, f, s). unat n - unat i)")
    (auto simp: unat_Suc_less word_less_nat_alt)

declare for_loop.simps [simp del]

section \<open>Results\<close>

lemma kbind_simps [simp, kres_simps]:
  "kbind (Inl e) f = Inl e" "kbind (Inr x) f = f x"
  by (simp_all add: kbind_def)

lemma kbind_Inr_iff: "kbind m f = Inr y \<longleftrightarrow> (\<exists>x. m = Inr x \<and> f x = Inr y)"
  by (cases m) auto

lemma kbind_InrE [elim!]:
  assumes "kbind m f = Inr y"
  obtains x where "m = Inr x" "f x = Inr y"
  using assms by (cases m) auto

lemma kbind_assoc: "kbind (kbind m f) g = kbind m (\<lambda>x. kbind (f x) g)"
  by (cases m) auto

lemma kbind_Inr_right [simp]: "kbind m Inr = m"
  by (cases m) auto

lemma kassert_simps [simp, kres_simps]:
  "kassert True msg k = k" "kassert False msg k = Inl (Kernel_panic msg)"
  by (simp_all add: kassert_def)

lemma kassert_Inr_iff: "kassert c msg k = Inr y \<longleftrightarrow> c \<and> k = Inr y"
  by (simp add: kassert_def)

lemma arr_get_in [simp]: "i < length xs \<Longrightarrow> arr_get xs i = Inr (xs ! i)"
  by (simp add: arr_get_def)

lemma arr_set_in [simp]: "i < length xs \<Longrightarrow> arr_set xs i v = Inr (xs[i := v])"
  by (simp add: arr_set_def)

lemma arr_get_Inr_iff: "arr_get xs i = Inr v \<longleftrightarrow> i < length xs \<and> v = xs ! i"
  by (auto simp: arr_get_def)

lemma arr_set_Inr_iff: "arr_set xs i v = Inr ys \<longleftrightarrow> i < length xs \<and> ys = xs[i := v]"
  by (auto simp: arr_set_def)

section \<open>Reasoning about loops\<close>

lemma for_loop_done [simp]: "\<not> i < n \<Longrightarrow> for_loop i n f s = Inr s"
  by (simp add: for_loop.simps)

lemma for_loop_step:
  "i < n \<Longrightarrow> for_loop i n f s = kbind (f i s) (for_loop (i + 1) n f)"
  by (simp add: for_loop.simps)

text \<open>Total correctness of a loop from an invariant indexed by the counter read as a number.\<close>

lemma for_loop_total:
  assumes "P (unat i) s" and "i \<le> n"
    and step: "\<And>j t. i \<le> j \<Longrightarrow> j < n \<Longrightarrow> P (unat j) t \<Longrightarrow>
      \<exists>t'. f j t = Inr t' \<and> P (Suc (unat j)) t'"
  shows "\<exists>s'. for_loop i n f s = Inr s' \<and> P (unat n) s'"
  using assms
proof (induction i n f s rule: for_loop.induct)
  case (1 i n f s)
  show ?case
  proof (cases "i < n")
    case True
    obtain t where t: "f i s = Inr t" "P (Suc (unat i)) t"
      using "1.prems"(1) "1.prems"(3)[of i s] True by auto
    have le: "i + 1 \<le> n" "i \<le> i + 1"
      using True unat_Suc_less[OF True] by (simp_all add: word_le_nat_alt word_less_nat_alt)
    have "\<exists>s'. for_loop (i + 1) n f t = Inr s' \<and> P (unat n) s'"
    proof (rule "1.IH"[OF True])
      show "P (unat (i + 1)) t" using t(2) by (simp add: unat_Suc_less[OF True])
      show "i + 1 \<le> n" by (rule le)
      show "\<And>j t. i + 1 \<le> j \<Longrightarrow> j < n \<Longrightarrow> P (unat j) t \<Longrightarrow>
          \<exists>t'. f j t = Inr t' \<and> P (Suc (unat j)) t'"
        using "1.prems"(3) le(2) by (meson order_trans)
    qed
    then show ?thesis using True t(1) by (simp add: for_loop_step)
  next
    case False
    then have "i = n" using "1.prems"(2) by simp
    then show ?thesis using "1.prems"(1) by simp
  qed
qed

text \<open>Partial correctness, for bodies that may panic.\<close>

lemma for_loop_partial:
  assumes "for_loop i n f s = Inr s'" and "P (unat i) s" and "i \<le> n"
    and "\<And>j t t'. i \<le> j \<Longrightarrow> j < n \<Longrightarrow> P (unat j) t \<Longrightarrow> f j t = Inr t' \<Longrightarrow> P (Suc (unat j)) t'"
  shows "P (unat n) s'"
  using assms
proof (induction i n f s rule: for_loop.induct)
  case (1 i n f s)
  show ?case
  proof (cases "i < n")
    case True
    obtain t where t: "f i s = Inr t" "for_loop (i + 1) n f t = Inr s'"
      using "1.prems"(1) True by (auto simp: for_loop_step)
    have le: "i + 1 \<le> n" "i \<le> i + 1"
      using True unat_Suc_less[OF True] by (simp_all add: word_le_nat_alt word_less_nat_alt)
    show ?thesis
    proof (rule "1.IH"[OF True t(2)])
      show "P (unat (i + 1)) t"
        using "1.prems"(2) "1.prems"(4)[of i s t] True t(1) by (simp add: unat_Suc_less[OF True])
      show "i + 1 \<le> n" by (rule le)
      show "\<And>j u u'. i + 1 \<le> j \<Longrightarrow> j < n \<Longrightarrow> P (unat j) u \<Longrightarrow> f j u = Inr u' \<Longrightarrow>
          P (Suc (unat j)) u'"
        using "1.prems"(4) le(2) by (meson order_trans)
    qed
  next
    case False
    then show ?thesis using "1.prems" by simp
  qed
qed

text \<open>A loop that stores one value into the first cells of an array.\<close>

lemma arr_fill_loop:
  assumes "unat n \<le> length xs"
  shows "for_loop 0 n (\<lambda>i xs. arr_set xs (unat i) v) xs = Inr (replicate (unat n) v @ drop (unat n) xs)"
proof -
  have "\<exists>ys. for_loop 0 n (\<lambda>i xs. arr_set xs (unat i) v) xs = Inr ys \<and>
      ys = replicate (unat n) v @ drop (unat n) xs"
  proof (rule for_loop_total)
    fix j ys assume j: "j < n" and ys: "ys = replicate (unat j) v @ drop (unat j) xs"
    have "unat j < length xs" using j assms by (simp add: word_less_nat_alt)
    then show "\<exists>ys'. arr_set ys (unat j) v = Inr ys' \<and>
        ys' = replicate (Suc (unat j)) v @ drop (Suc (unat j)) xs"
      by (simp add: ys list_update_append Cons_nth_drop_Suc[symmetric] replicate_append_same[symmetric])
  qed simp_all
  then show ?thesis by simp
qed

end
