(* ===== verification/C_Strings.thy ===== *)
theory C_Strings
  imports Tz_Prelude
begin

text \<open>
  The string and number routines of utils/libc_tz (ctype.c, strings.c, integer_utils.c). A char
  pointer is the list of the bytes from that address to the end of its object, so running off
  the object is a fault. A C string is a list that holds a zero byte. The lemmas show that
  strlen, strcmp and strncmp compute on the text before the terminator, that string_reverse
  reverses it in place, and that itoa prints the digits of its argument.
\<close>

section \<open>ctype.c and strings.c\<close>

text \<open>String literals: the bytes of the characters and the terminator.\<close>

definition cstr :: "string \<Rightarrow> u8 list" where
  "cstr t = map of_char t @ [0]"

abbreviation (input) "NL \<equiv> [CHR 0x0A]"

text \<open>Characters are signed on this target, as the comparison in tolower sees them.\<close>

definition tolower :: "u8 \<Rightarrow> u8" where
  "tolower ch = (if sint ch \<ge> 65 \<and> sint ch \<le> 90 then ch + (97 - 65) else ch)"

text \<open>The counter of strlen is a 32-bit int; the result is sign-extended to 64 bits.\<close>

fun strlen_loop :: "u8 list \<Rightarrow> u32 \<Rightarrow> u64 kres" where
  "strlen_loop [] count = Inl Fault"
| "strlen_loop (c # str) count =
     (if c \<noteq> 0 then strlen_loop str (count + 1) else Inr (scast count))"

definition strlen :: "u8 list \<Rightarrow> u64 kres" where
  "strlen str = strlen_loop str 0"

fun strcmp :: "u8 list \<Rightarrow> u8 list \<Rightarrow> int kres" where
  "strcmp (a # str1) (b # str2) =
     (if a \<noteq> 0 \<and> a = b then strcmp str1 str2 else Inr (uint a - uint b))"
| "strcmp _ _ = Inl Fault"

text \<open>The loop of strncmp runs over i below n; the lists are the strings from index i on.\<close>

fun strncmp_loop :: "nat \<Rightarrow> u8 list \<Rightarrow> u8 list \<Rightarrow> int kres" where
  "strncmp_loop 0 str1 str2 = Inr 0"
| "strncmp_loop (Suc k) (a # str1) (b # str2) =
     (if a \<noteq> b then Inr (uint a - uint b)
      else if a = 0 then Inr 0
      else strncmp_loop k str1 str2)"
| "strncmp_loop (Suc k) _ _ = Inl Fault"

definition strncmp :: "u8 list \<Rightarrow> u8 list \<Rightarrow> u64 \<Rightarrow> int kres" where
  "strncmp str1 str2 n = strncmp_loop (unat n) str1 str2"

text \<open>The swap loop of string_reverse, for i from i0 below half the length.\<close>

primrec reverse_loop :: "nat \<Rightarrow> nat \<Rightarrow> nat \<Rightarrow> u8 list \<Rightarrow> u8 list" where
  "reverse_loop 0 i str_len str = str"
| "reverse_loop (Suc k) i str_len str =
     (let temp = str ! i;
          str = str[i := str ! (str_len - i - 1)];
          str = str[str_len - i - 1 := temp]
      in reverse_loop k (i + 1) str_len str)"

definition string_reverse :: "u8 list \<Rightarrow> u8 list kres" where
  "string_reverse str =
     kbind (strlen str) (\<lambda>l.
       let str_len = sint (ucast l :: u32)
       in Inr (reverse_loop (nat (str_len div 2)) 0 (nat str_len) str))"

section \<open>integer\_utils.c\<close>

datatype integer_base = INTEGER_BASE_HEX | INTEGER_BASE_DECIMAL | INTEGER_BASE_OCTAL

primrec base_to_digits_table :: "integer_base \<Rightarrow> u64" where
  "base_to_digits_table INTEGER_BASE_HEX = 16"
| "base_to_digits_table INTEGER_BASE_DECIMAL = 10"
| "base_to_digits_table INTEGER_BASE_OCTAL = 8"

definition number_to_base_digit :: "u8 \<Rightarrow> u8" where
  "number_to_base_digit digit = (if digit < 10 then digit + 48 else digit + 65 - 10)"

text \<open>The do-while loop; each round divides the value by at least 8, so it ends.\<close>

lemma base_to_digits_ge: "8 \<le> unat (base_to_digits_table base)"
  by (cases base) simp_all

function itoa_loop :: "integer_base \<Rightarrow> u64 \<Rightarrow> nat \<Rightarrow> u8 list \<Rightarrow> (nat \<times> u8 list) kres" where
  "itoa_loop base value buffer_index buffer =
     (let base_digit_count = base_to_digits_table base
      in kbind (arr_set buffer buffer_index
                  (number_to_base_digit (ucast (value mod base_digit_count)))) (\<lambda>buffer.
           let value = value div base_digit_count
           in if value \<noteq> 0 then itoa_loop base value (buffer_index + 1) buffer
              else Inr (buffer_index + 1, buffer)))"
  by pat_completeness auto
termination
proof (relation "measure (\<lambda>(base, v, i, buf). unat v)", goal_cases)
  case (2 base v i buf c buf' v')
  have "2 \<le> unat c" using 2(1) base_to_digits_ge[of base] by simp
  moreover have "unat v div unat c \<noteq> 0"
    using 2(2,3) by (simp add: word_unat_eq_iff unat_div_distrib)
  ultimately have "unat v div unat c < unat v" by (rule div_shrinks)
  then show ?case using 2(2) by (simp add: unat_div_distrib)
qed simp

declare itoa_loop.simps [simp del]

definition itoa_unsigned :: "u64 \<Rightarrow> u8 list \<Rightarrow> integer_base \<Rightarrow> u8 list kres" where
  "itoa_unsigned value buffer base =
     kbind (itoa_loop base value 0 buffer) (\<lambda>(buffer_index, buffer).
     kbind (arr_set buffer buffer_index 0) (\<lambda>buffer.
     string_reverse buffer))"

text \<open>
  The signed version leaves the first byte for the sign: the pointer moves on by one, and the
  sign is stored after the conversion. Negating the least value wraps.
\<close>

definition itoa_signed :: "u64 \<Rightarrow> u8 list \<Rightarrow> integer_base \<Rightarrow> u8 list kres" where
  "itoa_signed value buffer base =
     (if sint value < 0
      then (case buffer of
              [] \<Rightarrow> Inl Fault
            | b # rest \<Rightarrow>
                kbind (itoa_unsigned (- value) rest base) (\<lambda>rest. Inr (45 # rest)))
      else itoa_unsigned value buffer base)"

section \<open>Strings before their terminator\<close>

lemma scast_u32_small: "n < 2 ^ 31 \<Longrightarrow> scast (word_of_nat n :: u32) = (word_of_nat n :: u64)"
proof -
  assume "n < 2 ^ 31"
  then have "signed_take_bit 31 (int n) = int n"
    by (simp add: signed_take_bit_int_eq_self)
  then show ?thesis by (simp add: signed_of_nat)
qed

lemma strlen_loop_text:
  "0 \<notin> set cs \<Longrightarrow> strlen_loop (cs @ 0 # r) c = Inr (scast (c + word_of_nat (length cs)))"
  by (induction cs arbitrary: c) (auto simp: algebra_simps)

lemma strlen_text:
  "0 \<notin> set cs \<Longrightarrow> length cs < 2 ^ 31 \<Longrightarrow>
   strlen (cs @ 0 # r) = Inr (word_of_nat (length cs))"
  by (simp add: strlen_def strlen_loop_text scast_u32_small)

lemma strcmp_text:
  assumes "0 \<notin> set cs" "0 \<notin> set ds"
  shows "\<exists>d. strcmp (cs @ 0 # r) (ds @ 0 # r') = Inr d \<and> (d = 0 \<longleftrightarrow> cs = ds)"
  using assms
proof (induction cs arbitrary: ds)
  case Nil
  then show ?case by (cases ds) (auto simp: word_uint_eq_iff)
next
  case (Cons c cs)
  show ?case
  proof (cases ds)
    case Nil
    then show ?thesis using Cons.prems by (auto simp: word_uint_eq_iff)
  next
    case (Cons d ds')
    then show ?thesis using Cons.IH[of ds'] Cons.prems
      by (cases "c = d") (simp_all add: word_uint_eq_iff)
  qed
qed

text \<open>Comparing a string with a text of exactly n bytes is a test for a prefix.\<close>

lemma strncmp_loop_prefix:
  assumes "0 \<notin> set cs" "0 \<notin> set p"
  shows "\<exists>d. strncmp_loop (length p) (cs @ 0 # r) (p @ r') = Inr d \<and>
             (d = 0 \<longleftrightarrow> take (length p) cs = p)"
  using assms
proof (induction p arbitrary: cs)
  case Nil
  then show ?case by simp
next
  case (Cons q p)
  show ?case
  proof (cases cs)
    case Nil
    then show ?thesis using Cons.prems by (auto simp: word_uint_eq_iff)
  next
    case (Cons c cs')
    then show ?thesis using Cons.IH[of cs'] Cons.prems
      by (cases "c = q") (simp_all add: word_uint_eq_iff)
  qed
qed

lemma length_reverse_loop [simp]: "length (reverse_loop k i n str) = length str"
  by (induction k arbitrary: i str) (auto simp: Let_def)

lemma reverse_loop_nth:
  assumes "i + k \<le> n div 2" "n \<le> length str" "j < length str"
  shows "reverse_loop k i n str ! j =
    (if (i \<le> j \<and> j < i + k) \<or> (n - i - k \<le> j \<and> j < n - i) then str ! (n - 1 - j) else str ! j)"
  using assms
proof (induction k arbitrary: i str)
  case 0
  then show ?case by auto
next
  case (Suc k)
  let ?s = "str[i := str ! (n - i - 1), n - i - 1 := str ! i]"
  have "reverse_loop (Suc k) i n str ! j = reverse_loop k (i + 1) n ?s ! j"
    by (simp add: Let_def)
  also have "\<dots> = (if (i + 1 \<le> j \<and> j < i + 1 + k) \<or> (n - (i + 1) - k \<le> j \<and> j < n - (i + 1))
      then ?s ! (n - 1 - j) else ?s ! j)"
    using Suc.prems by (intro Suc.IH) auto
  finally have *: "reverse_loop (Suc k) i n str ! j = \<dots>" .
  consider "j = i" | "j = n - i - 1" "j \<noteq> i" | "j \<noteq> i" "j \<noteq> n - i - 1" by blast
  then show ?case
  proof cases
    case 3
    then have "n - 1 - j \<noteq> n - i - 1 \<or> n \<le> j" "n - 1 - j \<noteq> i \<or> n \<le> j" using Suc.prems by linarith+
    with 3 show ?thesis unfolding * using Suc.prems by auto
  qed (use * Suc.prems in auto)
qed

lemma string_reverse_text:
  assumes "0 \<notin> set cs" "length cs < 2 ^ 31"
  shows "string_reverse (cs @ 0 # r) = Inr (rev cs @ 0 # r)"
proof -
  let ?n = "length cs" and ?s = "cs @ 0 # r"
  have "signed_take_bit 31 (int ?n) = int ?n" "take_bit 64 ?n = ?n"
    using assms(2) by (simp_all add: signed_take_bit_int_eq_self take_bit_nat_eq_self)
  then have n: "sint (ucast (word_of_nat ?n :: u64) :: u32) = int ?n"
    by (simp add: unsigned_of_nat signed_of_nat)
  have "reverse_loop (?n div 2) 0 ?n ?s = rev cs @ 0 # r"
  proof (rule nth_equalityI)
    fix j assume "j < length (reverse_loop (?n div 2) 0 ?n ?s)"
    then have j: "j < length ?s" by simp
    show "reverse_loop (?n div 2) 0 ?n ?s ! j = (rev cs @ 0 # r) ! j"
    proof (cases "j < ?n")
      case True
      have "j = ?n - Suc j" if "\<not> j < ?n div 2" "\<not> ?n - ?n div 2 \<le> j"
        using that True by linarith
      then have "cs ! j = cs ! (?n - Suc j)" if "\<not> j < ?n div 2" "\<not> ?n - ?n div 2 \<le> j"
        using that by metis
      then show ?thesis using True j
        by (auto simp: reverse_loop_nth nth_append rev_nth)
    qed (use j in \<open>auto simp: reverse_loop_nth nth_append\<close>)
  qed simp
  then show ?thesis
    by (simp add: string_reverse_def strlen_text[OF assms] n nat_div_distrib)
qed

section \<open>Printing numbers\<close>

text \<open>The digits of a number, least significant first, and the value of a digit string.\<close>

function lsd :: "nat \<Rightarrow> nat \<Rightarrow> nat list" where
  "lsd b n = (if n div b = 0 \<or> b < 2 then [n mod b] else n mod b # lsd b (n div b))"
  by pat_completeness auto
termination
  by (relation "measure snd") (auto simp: div_shrinks)

declare lsd.simps [simp del]

definition digit_value :: "u8 \<Rightarrow> nat" where
  "digit_value c = (if c \<le> 57 then unat c - 48 else unat c - 55)"

definition parse_digits :: "nat \<Rightarrow> u8 list \<Rightarrow> nat" where
  "parse_digits b ds = foldl (\<lambda>acc c. acc * b + digit_value c) 0 ds"

definition digit_char :: "nat \<Rightarrow> u8" where
  "digit_char d = number_to_base_digit (word_of_nat d)"

lemma lsd_nonempty: "lsd b n \<noteq> []"
  by (subst lsd.simps) simp

lemma lsd_bound: "0 < b \<Longrightarrow> d \<in> set (lsd b n) \<Longrightarrow> d < b"
proof (induction b n rule: lsd.induct)
  case (1 b n)
  then show ?case by (auto simp: lsd.simps[of b n] split: if_splits)
qed

lemma length_lsd: "n < b ^ k \<Longrightarrow> 0 < k \<Longrightarrow> 2 \<le> b \<Longrightarrow> length (lsd b n) \<le> k"
proof (induction k arbitrary: n)
  case (Suc k)
  show ?case
  proof (cases "n div b = 0")
    case False
    then have "n div b < b ^ k" "0 < k"
      using Suc.prems by (auto simp: less_mult_imp_div_less mult.commute intro: gr0I)
    then show ?thesis using Suc.IH Suc.prems False by (simp add: lsd.simps[of b n])
  qed (simp add: lsd.simps[of b n])
qed simp

lemma last_lsd: "n \<noteq> 0 \<Longrightarrow> 2 \<le> b \<Longrightarrow> last (lsd b n) \<noteq> 0"
proof (induction b n rule: lsd.induct)
  case (1 b n)
  then show ?case using lsd_nonempty[of b "n div b"]
    by (auto simp: lsd.simps[of b n] div_eq_0_iff)
qed

lemma less_16_cases:
  "d < 16 \<Longrightarrow> d \<in> {0, 1, 2, 3, 4, 5, 6, 7, 8, 9, 10, 11, 12, 13, 14, 15 :: nat}"
  by (simp add: numeral_eq_Suc less_Suc_eq)

lemma digit_value_char: "d < 16 \<Longrightarrow> digit_value (digit_char d) = d"
  by (drule less_16_cases, elim insertE)
    (simp_all add: digit_value_def digit_char_def number_to_base_digit_def)

lemma digit_char_nonzero: "d < 16 \<Longrightarrow> digit_char d \<noteq> 0"
  by (drule less_16_cases, elim insertE)
    (simp_all add: digit_char_def number_to_base_digit_def)

lemma parse_lsd:
  "2 \<le> b \<Longrightarrow> b \<le> 16 \<Longrightarrow> parse_digits b (map digit_char (rev (lsd b n))) = n"
proof (induction b n rule: lsd.induct)
  case (1 b n)
  have "n mod b < 16" using 1 by (meson less_le_trans mod_less_divisor order_less_le_trans zero_less_numeral)
  then show ?case using 1
    by (auto simp: lsd.simps[of b n] parse_digits_def digit_value_char div_eq_0_iff)
qed

lemma base_digits_bounds:
  "2 \<le> unat (base_to_digits_table base)" "unat (base_to_digits_table base) \<le> 16"
  by (cases base; simp)+

text \<open>The loop writes the digits from the least significant one on.\<close>

lemma itoa_loop_digits:
  assumes "L = lsd (unat (base_to_digits_table base)) (unat v)" "i + length L \<le> length buf"
  shows "itoa_loop base v i buf =
    Inr (i + length L, take i buf @ map digit_char L @ drop (i + length L) buf)"
  using assms
proof (induction base v i buf arbitrary: L rule: itoa_loop.induct)
  case (1 base v i buf)
  let ?b = "base_to_digits_table base"
  let ?c = "digit_char (unat v mod unat ?b)"
  have "0 < length L" using "1.prems"(1) lsd_nonempty[of "unat ?b" "unat v"] by simp
  then have i: "i < length buf" using "1.prems"(2) by linarith
  have "word_of_nat (unat v mod unat ?b) = (ucast (v mod ?b) :: u8)"
    by (metis of_nat_unat unat_mod_distrib)
  then have c: "number_to_base_digit (ucast (v mod ?b)) = ?c"
    by (simp add: digit_char_def)
  show ?case
  proof (cases "v div ?b = 0")
    case True
    then have "unat v div unat ?b = 0" by (simp add: word_unat_eq_iff unat_div_distrib)
    then have "L = [unat v mod unat ?b]" using "1.prems"(1) by (simp add: lsd.simps)
    then show ?thesis using i c True
      by (simp add: itoa_loop.simps[of base v] upd_conv_take_nth_drop)
  next
    case False
    then have nz: "unat v div unat ?b \<noteq> 0" by (simp add: word_unat_eq_iff unat_div_distrib)
    define L' where "L' = lsd (unat ?b) (unat (v div ?b))"
    have L: "L = unat v mod unat ?b # L'"
      using "1.prems"(1) nz base_digits_bounds[of base]
      by (simp add: L'_def lsd.simps[of _ "unat v"] unat_div_distrib)
    have len: "i + 1 + length L' \<le> length (buf[i := ?c])" using "1.prems"(2) by (simp add: L)
    have set: "arr_set buf i (number_to_base_digit (ucast (v mod ?b))) = Inr (buf[i := ?c])"
      using i c by simp
    have "itoa_loop base (v div ?b) (i + 1) (buf[i := ?c]) =
      Inr (i + 1 + length L', take (i + 1) (buf[i := ?c]) @ map digit_char L' @
             drop (i + 1 + length L') (buf[i := ?c]))"
      by (rule "1.IH"[OF refl refl False L'_def len])
    moreover have "take (i + 1) (buf[i := ?c]) = take i buf @ [?c]"
      using i by (simp add: take_Suc_conv_app_nth)
    ultimately show ?thesis using set False
      by (simp add: itoa_loop.simps[of base v] L)
  qed
qed

text \<open>The digit string of a number, most significant digit first.\<close>

definition numeral_text :: "integer_base \<Rightarrow> u64 \<Rightarrow> u8 list" where
  "numeral_text base v = map digit_char (rev (lsd (unat (base_to_digits_table base)) (unat v)))"

lemma numeral_text_chars: "0 \<notin> set (numeral_text base v)"
  using lsd_bound[of "unat (base_to_digits_table base)" _ "unat v"] base_digits_bounds[of base]
    digit_char_nonzero by (fastforce simp: numeral_text_def)

lemma numeral_text_value:
  "parse_digits (unat (base_to_digits_table base)) (numeral_text base v) = unat v"
  using base_digits_bounds[of base] by (simp add: numeral_text_def parse_lsd)

lemma length_numeral_text: "length (numeral_text base v) \<le> 22"
proof -
  have "unat v < 8 ^ 22" using unat_u64_less[of v] by simp
  also have "(8 :: nat) ^ 22 \<le> unat (base_to_digits_table base) ^ 22"
    by (rule power_mono) (simp_all add: base_to_digits_ge)
  finally show ?thesis using base_digits_bounds[of base]
    by (simp add: numeral_text_def length_lsd)
qed

lemma numeral_text_zero: "numeral_text base 0 = [48]"
  by (cases base) (simp_all add: numeral_text_def lsd.simps digit_char_def number_to_base_digit_def)

lemma numeral_text_head:
  assumes "v \<noteq> 0"
  shows "hd (numeral_text base v) \<noteq> 48"
proof -
  let ?L = "lsd (unat (base_to_digits_table base)) (unat v)"
  have "last ?L \<noteq> 0" using assms base_digits_bounds[of base] by (simp add: last_lsd unat_eq_0)
  moreover have "last ?L < 16"
    using lsd_bound[of "unat (base_to_digits_table base)" "last ?L" "unat v"] lsd_nonempty
      base_digits_bounds[of base] by (simp add: order_less_le_trans)
  ultimately have "digit_value (digit_char (last ?L)) \<noteq> 0" by (simp add: digit_value_char)
  then have "digit_char (last ?L) \<noteq> 48" by (auto simp: digit_value_def)
  then show ?thesis using lsd_nonempty
    by (simp add: numeral_text_def hd_map hd_rev)
qed

lemma itoa_unsigned_text:
  assumes "length (numeral_text base v) < length buf"
  shows "itoa_unsigned v buf base =
    Inr (numeral_text base v @ 0 # drop (Suc (length (numeral_text base v))) buf)"
proof -
  define L where "L = lsd (unat (base_to_digits_table base)) (unat v)"
  have t: "numeral_text base v = map digit_char (rev L)" by (simp add: numeral_text_def L_def)
  have loop: "itoa_loop base v 0 buf = Inr (length L, map digit_char L @ drop (length L) buf)"
    using itoa_loop_digits[OF L_def, of 0 buf] assms t by simp
  have "0 \<notin> set (map digit_char L)" using numeral_text_chars[of base v] by (simp add: t)
  moreover have "length L < 2 ^ 31" using length_numeral_text[of base v] by (simp add: t)
  ultimately have "string_reverse (map digit_char L @ 0 # drop (Suc (length L)) buf) =
      Inr (rev (map digit_char L) @ 0 # drop (Suc (length L)) buf)"
    by (intro string_reverse_text) simp_all
  moreover have "arr_set (map digit_char L @ drop (length L) buf) (length L) 0 =
      Inr (map digit_char L @ 0 # drop (Suc (length L)) buf)"
    using assms t by (simp add: list_update_append Cons_nth_drop_Suc[symmetric])
  ultimately show ?thesis using loop by (simp add: itoa_unsigned_def t rev_map)
qed

section \<open>Properties\<close>

text \<open>C18: itoa_unsigned, given a buffer of at least 23 bytes, stores a terminated digit string that
  reads back as the value in each of the three bases, without leading zeros, and leaves the rest
  of the buffer alone.\<close>

theorem itoa_unsigned_roundtrip:
  assumes "23 \<le> length buf"
  shows "\<exists>ds. itoa_unsigned v buf base = Inr (ds @ 0 # drop (Suc (length ds)) buf) \<and> 0 \<notin> set ds \<and>
    parse_digits (unat (base_to_digits_table base)) ds = unat v \<and>
    (if v = 0 then ds = [48] else hd ds \<noteq> 48)"
  using itoa_unsigned_text[of base v buf] length_numeral_text[of base v] assms
  by (intro exI[of _ "numeral_text base v"])
    (simp add: numeral_text_chars numeral_text_value numeral_text_zero numeral_text_head)

theorem itoa_unsigned_roundtrip_witness:
  "\<exists>ds. itoa_unsigned 255 (replicate 23 7) INTEGER_BASE_HEX =
      Inr (ds @ 0 # drop (Suc (length ds)) (replicate 23 7)) \<and> parse_digits 16 ds = 255"
  using itoa_unsigned_roundtrip[of "replicate 23 7" 255 INTEGER_BASE_HEX] by auto

text \<open>C19: itoa_signed, given a buffer of at least 24 bytes, stores a terminated string that is the
  digit string of the value when it is not negative, and a minus sign followed by the digit
  string of its magnitude otherwise, the least 64-bit value included.\<close>

theorem itoa_signed_roundtrip:
  assumes "24 \<le> length buf"
  shows "\<exists>ds. itoa_signed v buf base =
      Inr ((if sint v < 0 then 45 # ds else ds) @ 0 #
           drop (Suc (length (if sint v < 0 then 45 # ds else ds))) buf) \<and> 0 \<notin> set ds \<and>
    int (parse_digits (unat (base_to_digits_table base)) ds) = \<bar>sint v\<bar>"
proof (cases "sint v < 0")
  case False
  then have "sint v = uint v" using uint_range_size[of v]
    by (simp add: sint_u64 word_size split: if_splits)
  then show ?thesis using False itoa_unsigned_text[of base v buf] length_numeral_text[of base v] assms
    by (intro exI[of _ "numeral_text base v"])
      (simp add: itoa_signed_def numeral_text_chars numeral_text_value)
next
  case True
  then obtain b rest where buf: "buf = b # rest" using assms by (cases buf) auto
  have "v \<noteq> 0" using True by auto
  then have "int (unat (- v)) = 2 ^ 64 - uint v"
    using unat_uminus_u64[of v] unat_u64_less[of v] by (simp add: of_nat_diff)
  moreover have "sint v = uint v - 2 ^ 64" using True by (simp add: sint_u64 split: if_splits)
  ultimately have "int (unat (- v)) = \<bar>sint v\<bar>" using True by simp
  then show ?thesis using True buf itoa_unsigned_text[of base "- v" rest]
      length_numeral_text[of base "- v"] assms
    by (intro exI[of _ "numeral_text base (- v)"])
      (simp add: itoa_signed_def numeral_text_chars numeral_text_value del: int_eq_iff_numeral)
qed

theorem itoa_signed_roundtrip_witness:
  "\<exists>ds. itoa_signed (2 ^ 63) (replicate 24 0) INTEGER_BASE_DECIMAL =
      Inr (45 # ds @ 0 # drop (Suc (Suc (length ds))) (replicate 24 0)) \<and>
    parse_digits 10 ds = 9223372036854775808"
  using itoa_signed_roundtrip[of "replicate 24 0" "2 ^ 63" INTEGER_BASE_DECIMAL] by auto

end
