(* ===== verification/Fifo.thy ===== *)
theory Fifo
  imports Tz_Prelude
begin

text \<open>
  The contract of a bounded first-in first-out queue, as the device drivers use it: a push is
  accepted while there is room, a pop returns the oldest element. The locale shows that any
  sequence of pushes and pops gives the answers of a bounded list. Ring_Buffer.thy interprets it.
\<close>

datatype 'a fifo_op = Push 'a | Pop

datatype 'a fifo_answer = Pushed bool | Popped "'a option"

text \<open>A sequence of operations on an implementation, and on a list with room for n elements.\<close>

fun fifo_run ::
  "('q \<Rightarrow> 'a \<Rightarrow> (bool \<times> 'q) kres) \<Rightarrow> ('q \<Rightarrow> ('a option \<times> 'q) kres) \<Rightarrow> 'a fifo_op list \<Rightarrow> 'q \<Rightarrow>
   ('a fifo_answer list \<times> 'q) kres" where
  "fifo_run push pop [] q = Inr ([], q)"
| "fifo_run push pop (Push x # ops) q =
     kbind (push q x) (\<lambda>(ok, q). kbind (fifo_run push pop ops q) (\<lambda>(as, q).
     Inr (Pushed ok # as, q)))"
| "fifo_run push pop (Pop # ops) q =
     kbind (pop q) (\<lambda>(r, q). kbind (fifo_run push pop ops q) (\<lambda>(as, q).
     Inr (Popped r # as, q)))"

fun list_run :: "nat \<Rightarrow> 'a fifo_op list \<Rightarrow> 'a list \<Rightarrow> 'a fifo_answer list \<times> 'a list" where
  "list_run n [] xs = ([], xs)"
| "list_run n (Push x # ops) xs =
     (let (as, ys) = list_run n ops (if length xs < n then xs @ [x] else xs)
      in (Pushed (length xs < n) # as, ys))"
| "list_run n (Pop # ops) xs =
     (let (as, ys) = list_run n ops (tl xs)
      in (Popped (case xs of [] \<Rightarrow> None | x # _ \<Rightarrow> Some x) # as, ys))"

locale fifo_queue =
  fixes inv :: "'q \<Rightarrow> bool"
    and contents :: "'q \<Rightarrow> 'a list"
    and room :: "'q \<Rightarrow> nat"
    and push :: "'q \<Rightarrow> 'a \<Rightarrow> (bool \<times> 'q) kres"
    and pop :: "'q \<Rightarrow> ('a option \<times> 'q) kres"
  assumes push_accepts: "inv q \<Longrightarrow> length (contents q) < room q \<Longrightarrow>
      \<exists>q'. push q x = Inr (True, q') \<and> inv q' \<and> room q' = room q \<and> contents q' = contents q @ [x]"
    and push_refuses: "inv q \<Longrightarrow> \<not> length (contents q) < room q \<Longrightarrow> push q x = Inr (False, q)"
    and pop_empty: "inv q \<Longrightarrow> contents q = [] \<Longrightarrow> pop q = Inr (None, q)"
    and pop_oldest: "inv q \<Longrightarrow> contents q = x # xs \<Longrightarrow>
      \<exists>q'. pop q = Inr (Some x, q') \<and> inv q' \<and> room q' = room q \<and> contents q' = xs"
begin

lemma run_refines_list:
  assumes "inv q"
  shows "\<exists>q'. fifo_run push pop ops q = Inr (fst (list_run (room q) ops (contents q)), q') \<and> inv q' \<and>
    room q' = room q \<and> contents q' = snd (list_run (room q) ops (contents q))"
  using assms
proof (induction ops arbitrary: q)
  case (Cons op ops)
  show ?case
  proof (cases op)
    case (Push x)
    show ?thesis
    proof (cases "length (contents q) < room q")
      case True
      then obtain q' where "push q x = Inr (True, q')" "inv q'" "room q' = room q"
        "contents q' = contents q @ [x]"
        using push_accepts Cons.prems by blast
      then show ?thesis using Cons.IH[of q'] Push True by (auto simp: case_prod_beta)
    next
      case False
      then show ?thesis using Cons Push push_refuses by (fastforce simp: case_prod_beta)
    qed
  next
    case Pop
    show ?thesis
    proof (cases "contents q")
      case Nil
      then show ?thesis using Cons Pop pop_empty by (fastforce simp: case_prod_beta)
    next
      case (Cons x xs)
      then obtain q' where "pop q = Inr (Some x, q')" "inv q'" "room q' = room q" "contents q' = xs"
        using pop_oldest Cons.prems by blast
      then show ?thesis using Cons.IH[of q'] Pop Cons by (auto simp: case_prod_beta)
    qed
  qed
qed simp

end

end
