(* ===== verification/Ring_Buffer.thy ===== *)
theory Ring_Buffer
  imports Fifo
begin

text \<open>
  The byte ring buffer of utils/libc_tz/ring_buffer.c. One slot is kept free, so that equal
  pointers mean empty. The abstraction \<open>rb_contents\<close> reads the stored bytes in order; every
  operation on a well-formed buffer is shown to act on it as on a bounded FIFO queue.
\<close>

record ring_buffer =
  write_ptr :: u64
  read_ptr :: u64
  buffer_size :: u64
  rb_buffer :: "u8 list"

text \<open>The buffer pointer given to ring_buffer_init may be NULL.\<close>

definition ring_buffer_init :: "ring_buffer \<Rightarrow> u8 list option \<Rightarrow> u64 \<Rightarrow> bool \<times> ring_buffer" where
  "ring_buffer_init rb buf sz =
     (case buf of
        None \<Rightarrow> (False, rb)
      | Some bs \<Rightarrow>
          if sz = 0 then (False, rb)
          else (True, rb\<lparr>rb_buffer := bs, buffer_size := sz, write_ptr := 0, read_ptr := 0\<rparr>))"

text \<open>A remainder by a zero buffer size is a divide error.\<close>

definition ring_buffer_push :: "ring_buffer \<Rightarrow> u8 \<Rightarrow> (bool \<times> ring_buffer) kres" where
  "ring_buffer_push rb data =
     (if buffer_size rb = 0 then Inl Fault
      else if (write_ptr rb + 1) mod buffer_size rb = read_ptr rb then Inr (False, rb)
      else kbind (arr_set (rb_buffer rb) (unat (write_ptr rb)) data) (\<lambda>bs.
           Inr (True, rb\<lparr>rb_buffer := bs, write_ptr := (write_ptr rb + 1) mod buffer_size rb\<rparr>)))"

text \<open>The byte read goes to an out parameter, which an empty buffer leaves alone.\<close>

definition ring_buffer_pop :: "ring_buffer \<Rightarrow> u8 \<Rightarrow> (bool \<times> u8 \<times> ring_buffer) kres" where
  "ring_buffer_pop rb data =
     (if read_ptr rb = write_ptr rb then Inr (False, data, rb)
      else kbind (arr_get (rb_buffer rb) (unat (read_ptr rb))) (\<lambda>b.
           if buffer_size rb = 0 then Inl Fault
           else Inr (True, b, rb\<lparr>read_ptr := (read_ptr rb + 1) mod buffer_size rb\<rparr>)))"

definition ring_buffer_is_empty :: "ring_buffer \<Rightarrow> bool" where
  "ring_buffer_is_empty rb = (read_ptr rb = write_ptr rb)"

section \<open>The stored bytes\<close>

definition rb_wf :: "ring_buffer \<Rightarrow> bool" where
  "rb_wf rb \<longleftrightarrow> read_ptr rb < buffer_size rb \<and> write_ptr rb < buffer_size rb \<and>
     length (rb_buffer rb) = unat (buffer_size rb)"

definition rb_count :: "ring_buffer \<Rightarrow> nat" where
  "rb_count rb =
     (unat (write_ptr rb) + unat (buffer_size rb) - unat (read_ptr rb)) mod unat (buffer_size rb)"

definition rb_contents :: "ring_buffer \<Rightarrow> u8 list" where
  "rb_contents rb =
     map (\<lambda>k. rb_buffer rb ! ((unat (read_ptr rb) + k) mod unat (buffer_size rb))) [0..<rb_count rb]"

lemma length_rb_contents [simp]: "length (rb_contents rb) = rb_count rb"
  by (simp add: rb_contents_def)

lemma rb_wf_nat:
  assumes "rb_wf rb"
  shows "unat (read_ptr rb) < unat (buffer_size rb)" "unat (write_ptr rb) < unat (buffer_size rb)"
    "length (rb_buffer rb) = unat (buffer_size rb)"
  using assms by (simp_all add: rb_wf_def word_less_nat_alt)

lemma unat_next_ptr:
  "p < n \<Longrightarrow> unat ((p + 1) mod n) = Suc (unat p) mod unat n" for p n :: u64
  by (simp add: unat_mod_distrib unat_Suc_less)

lemma next_ptr_less: "p < n \<Longrightarrow> (p + 1) mod n < n" for p n :: u64
  by (simp add: word_less_nat_alt unat_next_ptr)

text \<open>Circular distance and its behaviour when either end advances, on natural numbers.\<close>

lemma circ_push:
  fixes w r n :: nat
  assumes "w < n" "r < n"
  shows "Suc w mod n = r \<longleftrightarrow> (w + n - r) mod n = n - 1"
    and "Suc w mod n \<noteq> r \<Longrightarrow> (Suc w mod n + n - r) mod n = Suc ((w + n - r) mod n)"
    and "(r + (w + n - r) mod n) mod n = w"
proof -
  consider "r \<le> w" | "w < r" by linarith
  then show "Suc w mod n = r \<longleftrightarrow> (w + n - r) mod n = n - 1"
    using assms by cases (auto simp: mod_Suc le_mod_geq split: if_splits)
  from assms show "(r + (w + n - r) mod n) mod n = w"
    by (cases "r \<le> w") (auto simp: le_mod_geq)
  assume "Suc w mod n \<noteq> r"
  with assms show "(Suc w mod n + n - r) mod n = Suc ((w + n - r) mod n)"
    by (cases "r \<le> w") (auto simp: mod_Suc le_mod_geq split: if_splits)
qed

lemma circ_pop:
  fixes w r n :: nat
  assumes "w < n" "r < n" "r \<noteq> w"
  shows "Suc ((w + n - Suc r mod n) mod n) = (w + n - r) mod n"
  using assms by (cases "r \<le> w") (auto simp: mod_Suc le_mod_geq split: if_splits)

section \<open>FIFO behaviour\<close>

lemma rb_push_full:
  "rb_wf rb \<Longrightarrow> rb_count rb = unat (buffer_size rb) - 1 \<Longrightarrow> ring_buffer_push rb d = Inr (False, rb)"
  using circ_push(1)[OF rb_wf_nat(2,1), of rb]
  by (auto simp: ring_buffer_push_def rb_count_def rb_wf_def word_unat_eq_iff unat_next_ptr
      word_less_nat_alt)

lemma rb_push_space:
  assumes wf: "rb_wf rb" and space: "rb_count rb < unat (buffer_size rb) - 1"
  shows "\<exists>rb'. ring_buffer_push rb d = Inr (True, rb') \<and> rb_wf rb' \<and>
    buffer_size rb' = buffer_size rb \<and> rb_contents rb' = rb_contents rb @ [d]"
proof -
  let ?w = "unat (write_ptr rb)" and ?r = "unat (read_ptr rb)" and ?n = "unat (buffer_size rb)"
  note nat = rb_wf_nat[OF wf]
  let ?rb' = "rb\<lparr>rb_buffer := (rb_buffer rb)[?w := d],
    write_ptr := (write_ptr rb + 1) mod buffer_size rb\<rparr>"
  have wn: "write_ptr rb < buffer_size rb" using wf by (simp add: rb_wf_def)
  have nxt: "Suc ?w mod ?n \<noteq> ?r"
    using circ_push(1)[OF nat(2,1)] space by (auto simp: rb_count_def)
  have push: "ring_buffer_push rb d = Inr (True, ?rb')"
    using wf nat nxt wn
    by (auto simp: ring_buffer_push_def word_unat_eq_iff unat_next_ptr)
  have wf': "rb_wf ?rb'" using wf wn by (simp add: rb_wf_def next_ptr_less)
  have count: "rb_count ?rb' = Suc (rb_count rb)"
    using circ_push(2)[OF nat(2,1) nxt] by (simp add: rb_count_def unat_next_ptr[OF wn])
  have wpos: "(?r + rb_count rb) mod ?n = ?w"
    using circ_push(3)[OF nat(2,1)] by (simp add: rb_count_def)
  have old: "?w \<noteq> (?r + k) mod ?n" if "k < rb_count rb" for k
  proof
    assume "?w = (?r + k) mod ?n"
    then have "(?r + k) mod ?n = (?r + rb_count rb) mod ?n" by (simp add: wpos)
    moreover have "rb_count rb < ?n" using nat by (simp add: rb_count_def)
    ultimately show False using that nat(1) by (auto simp: mod_if split: if_splits)
  qed
  have "rb_contents ?rb' = rb_contents rb @ [d]"
    using old wpos nat by (simp add: rb_contents_def count)
  with push wf' show ?thesis by auto
qed

lemma rb_pop_empty: "rb_contents rb = [] \<Longrightarrow> rb_wf rb \<Longrightarrow> ring_buffer_pop rb x = Inr (False, x, rb)"
  using circ_push(3)[OF rb_wf_nat(2,1), of rb]
  by (auto simp: ring_buffer_pop_def rb_contents_def rb_count_def word_unat_eq_iff rb_wf_def
      word_less_nat_alt)

lemma rb_pop_nonempty:
  assumes wf: "rb_wf rb" and cont: "rb_contents rb = y # ys"
  shows "\<exists>rb'. ring_buffer_pop rb x = Inr (True, y, rb') \<and> rb_wf rb' \<and>
    buffer_size rb' = buffer_size rb \<and> rb_contents rb' = ys"
proof -
  let ?w = "unat (write_ptr rb)" and ?r = "unat (read_ptr rb)" and ?n = "unat (buffer_size rb)"
  note nat = rb_wf_nat[OF wf]
  let ?rb' = "rb\<lparr>read_ptr := (read_ptr rb + 1) mod buffer_size rb\<rparr>"
  have rn: "read_ptr rb < buffer_size rb" using wf by (simp add: rb_wf_def)
  have pos: "0 < rb_count rb" using cont by (metis length_rb_contents length_greater_0_conv list.distinct(1))
  then have ne: "?r \<noteq> ?w" using nat by (auto simp: rb_count_def)
  have count: "Suc (rb_count ?rb') = rb_count rb"
    using circ_pop[OF nat(2,1) ne] by (simp add: rb_count_def unat_next_ptr[OF rn])
  have y: "y = rb_buffer rb ! ?r" and ys: "ys = rb_contents ?rb'"
  proof -
    have "[0..<rb_count rb] = 0 # map Suc [0..<rb_count ?rb']"
      by (simp add: map_Suc_upt flip: count upt_conv_Cons)
    then have "rb_contents rb = rb_buffer rb ! ?r #
        map (\<lambda>k. rb_buffer rb ! ((?r + Suc k) mod ?n)) [0..<rb_count ?rb']"
      using nat by (simp add: rb_contents_def o_def)
    moreover have "(?r + Suc k) mod ?n = (Suc ?r mod ?n + k) mod ?n" for k
      by (simp add: mod_simps)
    ultimately have "rb_contents rb = rb_buffer rb ! ?r # rb_contents ?rb'"
      by (simp add: rb_contents_def[of ?rb'] unat_next_ptr[OF rn])
    with cont show "y = rb_buffer rb ! ?r" "ys = rb_contents ?rb'" by simp_all
  qed
  have "ring_buffer_pop rb x = Inr (True, y, ?rb')"
    using nat ne y by (auto simp: ring_buffer_pop_def)
  moreover have "rb_wf ?rb'" using wf rn by (simp add: rb_wf_def next_ptr_less)
  ultimately show ?thesis using ys by auto
qed

section \<open>The ring buffer as a bounded queue\<close>

text \<open>A pop whose out parameter is read only on success.\<close>

definition rb_pop :: "ring_buffer \<Rightarrow> (u8 option \<times> ring_buffer) kres" where
  "rb_pop rb = kbind (ring_buffer_pop rb 0) (\<lambda>(ok, data, rb). Inr (if ok then Some data else None, rb))"

definition rb_room :: "ring_buffer \<Rightarrow> nat" where
  "rb_room rb = unat (buffer_size rb) - 1"

lemma rb_push_refuses:
  assumes "rb_wf rb" "\<not> length (rb_contents rb) < rb_room rb"
  shows "ring_buffer_push rb d = Inr (False, rb)"
proof -
  have "rb_count rb < unat (buffer_size rb)" using rb_wf_nat[OF assms(1)] by (simp add: rb_count_def)
  then show ?thesis using assms by (intro rb_push_full) (simp_all add: rb_room_def)
qed

interpretation rb_fifo: fifo_queue rb_wf rb_contents rb_room ring_buffer_push rb_pop
proof (unfold_locales, goal_cases)
  case (1 q x)
  then show ?case using rb_push_space[of q x] by (auto simp: rb_room_def)
next
  case (4 q x xs)
  then show ?case using rb_pop_nonempty[of q x xs 0] by (auto simp: rb_pop_def rb_room_def)
qed (simp_all add: rb_push_refuses rb_pop_def rb_pop_empty)

lemma ring_buffer_init_wf:
  assumes "length bs = unat sz" "sz \<noteq> 0"
  shows "\<exists>rb'. ring_buffer_init rb (Some bs) sz = (True, rb') \<and> rb_wf rb' \<and>
    rb_contents rb' = [] \<and> rb_room rb' = unat sz - 1"
  using assms
  by (simp add: ring_buffer_init_def rb_wf_def rb_contents_def rb_count_def rb_room_def word_neq_0_conv)

section \<open>Properties\<close>

text \<open>C17: A ring buffer initialised over an array of sz bytes answers any sequence of pushes and
  pops as an empty list with room for sz - 1 bytes does, and never faults.\<close>

theorem ring_buffer_refines_queue:
  assumes "length bs = unat sz" "sz \<noteq> 0"
  shows "\<exists>rb' rb''. ring_buffer_init rb (Some bs) sz = (True, rb') \<and>
    fifo_run ring_buffer_push rb_pop ops rb' = Inr (fst (list_run (unat sz - 1) ops []), rb'') \<and>
    rb_contents rb'' = snd (list_run (unat sz - 1) ops [])"
  using ring_buffer_init_wf[OF assms, of rb] rb_fifo.run_refines_list[of _ ops] by fastforce

theorem ring_buffer_refines_queue_witness:
  "\<exists>rb' rb''. ring_buffer_init \<lparr>write_ptr = 9, read_ptr = 9, buffer_size = 9, rb_buffer = []\<rparr>
       (Some [0, 0, 0]) 3 = (True, rb') \<and>
     fifo_run ring_buffer_push rb_pop [Push 1, Push 2, Push 3, Pop, Push 4, Pop, Pop, Pop] rb' =
       Inr ([Pushed True, Pushed True, Pushed False, Popped (Some 1), Pushed True,
             Popped (Some 2), Popped (Some 4), Popped None], rb'')"
  using ring_buffer_refines_queue[of "[0, 0, 0]" 3
      "\<lparr>write_ptr = 9, read_ptr = 9, buffer_size = 9, rb_buffer = []\<rparr>"
      "[Push 1, Push 2, Push 3, Pop, Push 4, Pop, Pop, Pop]"]
  by (auto simp: Let_def)

end
