(* ===== verification/Mem_Utils.thy ===== *)
theory Mem_Utils
  imports Tz_Prelude
begin

text \<open>
  The byte-addressed memory the kernel works on, little-endian access to 16, 32 and 64 bit
  objects in it, and the two routines of utils/libc_tz/mem_utils.c. Addresses are 64-bit words
  and pointer increments wrap. The closed forms of memcpy and memset are proved for every count
  below 2 to the 64, memcpy also for overlapping buffers whenever the forward copy never
  overwrites a byte it still has to read.
\<close>

section \<open>Memory and little-endian objects\<close>

type_synonym mem = "u64 \<Rightarrow> u8"

fun le_word :: "u8 list \<Rightarrow> 'a::len word" where
  "le_word [] = 0"
| "le_word (b # bs) = ucast b OR push_bit 8 (le_word bs)"

definition le_bytes :: "nat \<Rightarrow> 'a::len word \<Rightarrow> u8 list" where
  "le_bytes k v = map (\<lambda>i. ucast (drop_bit (8 * i) v)) [0..<k]"

definition mem_bytes :: "mem \<Rightarrow> u64 \<Rightarrow> nat \<Rightarrow> u8 list" where
  "mem_bytes m a k = map (\<lambda>i. m (a + word_of_nat i)) [0..<k]"

definition mem_store :: "mem \<Rightarrow> u64 \<Rightarrow> u8 list \<Rightarrow> mem" where
  "mem_store m a bs = (\<lambda>x. if unat (x - a) < length bs then bs ! unat (x - a) else m x)"

definition read64 :: "mem \<Rightarrow> u64 \<Rightarrow> u64" where
  "read64 m a = le_word (mem_bytes m a 8)"

definition write64 :: "mem \<Rightarrow> u64 \<Rightarrow> u64 \<Rightarrow> mem" where
  "write64 m a v = mem_store m a (le_bytes 8 v)"

definition read16 :: "mem \<Rightarrow> u64 \<Rightarrow> u16" where
  "read16 m a = le_word (mem_bytes m a 2)"

definition read32 :: "mem \<Rightarrow> u64 \<Rightarrow> u32" where
  "read32 m a = le_word (mem_bytes m a 4)"

definition write16 :: "mem \<Rightarrow> u64 \<Rightarrow> u16 \<Rightarrow> mem" where
  "write16 m a v = mem_store m a (le_bytes 2 v)"

definition write32 :: "mem \<Rightarrow> u64 \<Rightarrow> u32 \<Rightarrow> mem" where
  "write32 m a v = mem_store m a (le_bytes 4 v)"

section \<open>utils/libc\_tz/mem\_utils.c\<close>

primrec memcpy_loop :: "nat \<Rightarrow> u64 \<Rightarrow> u64 \<Rightarrow> mem \<Rightarrow> mem" where
  "memcpy_loop 0 curr_dest curr_src m = m"
| "memcpy_loop (Suc k) curr_dest curr_src m =
     memcpy_loop k (curr_dest + 1) (curr_src + 1) (m(curr_dest := m curr_src))"

definition memcpy :: "u64 \<Rightarrow> u64 \<Rightarrow> u64 \<Rightarrow> mem \<Rightarrow> mem" where
  "memcpy dest src n m = memcpy_loop (unat n) dest src m"

primrec memset_loop :: "nat \<Rightarrow> u64 \<Rightarrow> u8 \<Rightarrow> mem \<Rightarrow> mem" where
  "memset_loop 0 curr_dest src m = m"
| "memset_loop (Suc k) curr_dest src m = memset_loop k (curr_dest + 1) src (m(curr_dest := src))"

definition memset :: "u64 \<Rightarrow> u8 \<Rightarrow> u64 \<Rightarrow> mem \<Rightarrow> mem" where
  "memset dest src n m = memset_loop (unat n) dest src m"

section \<open>Bits of little-endian objects\<close>

lemma bit_le_word:
  "bit (le_word bs :: 'a::len word) n \<longleftrightarrow>
     n < LENGTH('a) \<and> n div 8 < length bs \<and> bit (bs ! (n div 8)) (n mod 8)"
proof (induction bs arbitrary: n)
  case Nil
  then show ?case by simp
next
  case (Cons b bs)
  show ?case
  proof (cases "n < 8")
    case True
    then show ?thesis by (auto simp: bit_simps)
  next
    case False
    then obtain k where n: "n = 8 + k" using le_Suc_ex not_less by blast
    have "\<not> bit b n" using False by (auto dest: bit_imp_le_length)
    moreover have "(8 + k) div 8 = Suc (k div 8)" "(8 + k) mod 8 = k mod 8" by simp_all
    ultimately show ?thesis using Cons.IH[of k] by (auto simp: n bit_simps)
  qed
qed

lemma length_le_bytes [simp]: "length (le_bytes k v) = k"
  by (simp add: le_bytes_def)

lemma le_word_le_bytes [simp]:
  assumes "LENGTH('a) = 8 * k"
  shows "le_word (le_bytes k v) = (v :: 'a::len word)"
proof (rule bit_word_eqI)
  fix n assume n: "n < LENGTH('a)"
  then have "n div 8 < k" using assms by (simp add: less_mult_imp_div_less mult.commute)
  moreover have "8 * (n div 8) + n mod 8 = n" by simp
  ultimately show "bit (le_word (le_bytes k v) :: 'a word) n = bit v n"
    using n by (simp add: bit_le_word le_bytes_def bit_simps)
qed

lemma length_mem_bytes [simp]: "length (mem_bytes m a k) = k"
  by (simp add: mem_bytes_def)

lemma nth_mem_bytes [simp]: "i < k \<Longrightarrow> mem_bytes m a k ! i = m (a + word_of_nat i)"
  by (simp add: mem_bytes_def)

lemma mem_bytes_cong:
  "(\<And>i. i < k \<Longrightarrow> m (a + word_of_nat i) = m' (a' + word_of_nat i)) \<Longrightarrow>
   mem_bytes m a k = mem_bytes m' a' k"
  by (simp add: mem_bytes_def)

lemma mem_bytes_mem_store [simp]:
  assumes "length bs < 2 ^ 64"
  shows "mem_bytes (mem_store m a bs) a (length bs) = bs"
  by (rule nth_equalityI) (use assms in \<open>auto simp: mem_store_def unat_of_nat\<close>)

lemma mem_bytes_of_store:
  assumes "k + n \<le> length bs" "length bs < 2 ^ 64"
  shows "mem_bytes (mem_store m a bs) (a + word_of_nat k) n = take n (drop k bs)"
proof (rule nth_equalityI)
  fix i assume "i < length (mem_bytes (mem_store m a bs) (a + word_of_nat k) n)"
  then have i: "i < n" by simp
  have "unat (word_of_nat (k + i) :: u64) = k + i" using i assms by (simp only: unat_of_nat) simp
  moreover have "a + word_of_nat k + word_of_nat i - a = (word_of_nat (k + i) :: u64)" by simp
  ultimately show "mem_bytes (mem_store m a bs) (a + word_of_nat k) n ! i = take n (drop k bs) ! i"
    using i assms by (simp add: mem_store_def del: of_nat_add)
qed (use assms in simp)

lemma read64_write64_same [simp]: "read64 (write64 m a v) a = v"
  using mem_bytes_mem_store[of "le_bytes 8 v" m a] by (simp add: read64_def write64_def)

section \<open>Alignment: distinct 8-aligned objects do not overlap\<close>

lemma word_offset_unique:
  fixes a b :: u64
  assumes "8 dvd unat a" "8 dvd unat b" "i < 8" "unat ((b + word_of_nat i) - a) < 8"
  shows "a = b"
proof -
  define d where "d = unat (b + word_of_nat i - a)"
  have d: "d < 8" using assms(4) by (simp add: d_def)
  have eq: "b + word_of_nat i = a + word_of_nat d" by (simp add: d_def)
  have ub: "\<And>x::u64. 8 dvd unat x \<Longrightarrow> unat x + 7 < 2 ^ 64"
  proof -
    fix x :: u64 assume x: "8 dvd unat x"
    obtain q where "unat x = 8 * q" using x by (elim dvdE)
    then show "unat x + 7 < 2 ^ 64" using unat_u64_less[of x] by simp
  qed
  have "unat b + i = unat a + d"
    using arg_cong[OF eq, of unat] ub[OF assms(1)] ub[OF assms(2)] d assms(3)
    by (simp add: unat_word_ariths unat_of_nat)
  then have "unat a = unat b" using assms(1,2,3) d by presburger
  then show ?thesis by (simp add: word_unat_eq_iff)
qed

lemma read64_write64_other [simp]:
  assumes "8 dvd unat a" "8 dvd unat b" "a \<noteq> b"
  shows "read64 (write64 m a v) b = read64 m b"
proof -
  have "mem_bytes (write64 m a v) b 8 = mem_bytes m b 8"
    using word_offset_unique[OF assms(1,2)] assms(3)
    by (intro mem_bytes_cong) (auto simp: write64_def mem_store_def)
  then show ?thesis by (simp add: read64_def)
qed

section \<open>Closed forms of memcpy and memset\<close>

lemma unat_diff_succ:
  fixes a d :: u64
  assumes "k < 2 ^ 64"
  shows "unat (a - d) < Suc k \<longleftrightarrow> a = d \<or> unat (a - (d + 1)) < k"
proof (cases "a = d")
  case False
  then have "a - d \<noteq> 0" by simp
  then have "unat (a - d - 1) = unat (a - d) - 1" "0 < unat (a - d)"
    by (simp_all add: unat_minus_one unat_gt_0)
  then show ?thesis using False by (auto simp: diff_diff_eq)
qed simp

lemma memset_loop_closed:
  "k \<le> 2 ^ 64 \<Longrightarrow> memset_loop k d v m = (\<lambda>a. if unat (a - d) < k then v else m a)"
proof (induction k arbitrary: d m)
  case (Suc k)
  then show ?case by (auto simp: fun_eq_iff unat_diff_succ)
qed simp

lemma memcpy_loop_closed:
  assumes "k \<le> 2 ^ 64" "d = s \<or> k \<le> unat (d - s)"
  shows "memcpy_loop k d s m = (\<lambda>a. if unat (a - d) < k then m (s + (a - d)) else m a)"
  using assms
proof (induction k arbitrary: d s m)
  case (Suc k)
  have "memcpy_loop k (d + 1) (s + 1) (m(d := m s)) =
    (\<lambda>a. if unat (a - (d + 1)) < k then (m(d := m s)) (s + 1 + (a - (d + 1))) else (m(d := m s)) a)"
    using Suc.prems by (intro Suc.IH) auto
  moreover have "s + 1 + (a - (d + 1)) = s + (a - d)" for a by simp
  moreover have "(m(d := m s)) (s + (a - d)) = m (s + (a - d))" if "unat (a - (d + 1)) < k" for a
  proof (cases "s + (a - d) = d")
    case True
    then have a: "a - d = d - s" by (simp add: algebra_simps)
    have "unat (a - d) < Suc k" using that Suc.prems(1) by (simp add: unat_diff_succ)
    then have "d = s" using Suc.prems(2) a by auto
    then show ?thesis using True by simp
  qed simp
  ultimately show ?case using Suc.prems(1) by (auto simp: fun_eq_iff unat_diff_succ)
qed simp

lemma memset_closed: "memset d v n m = (\<lambda>a. if unat (a - d) < unat n then v else m a)"
  using unat_u64_less[of n] by (simp add: memset_def memset_loop_closed)

lemma memcpy_closed:
  assumes "d = s \<or> unat n \<le> unat (d - s)"
  shows "memcpy d s n m = (\<lambda>a. if unat (a - d) < unat n then m (s + (a - d)) else m a)"
  using assms unat_u64_less[of n] by (simp add: memcpy_def memcpy_loop_closed)

section \<open>What stays the same outside a region\<close>

lemma region_sub:
  fixes x b o1 :: u64
  assumes "unat (x - (b + o1)) < k" "unat o1 + k \<le> N" "N \<le> 2 ^ 64"
  shows "unat (x - b) < N"
proof -
  define y where "y = x - (b + o1)"
  have y: "unat y < k" "x - b = y + o1" using assms(1) by (simp_all add: y_def)
  then have "unat y + unat o1 < 2 ^ LENGTH(64)" using assms(2,3) by simp
  then have "unat (y + o1) = unat y + unat o1" by (rule unat_add_if_fits)
  then show ?thesis using y assms(2) by simp
qed

lemma memcpy_loop_outside:
  "\<not> unat (a - d) < k \<Longrightarrow> k \<le> 2 ^ 64 \<Longrightarrow> memcpy_loop k d s m a = m a"
proof (induction k arbitrary: d s m)
  case (Suc k)
  then have "a \<noteq> d" "\<not> unat (a - (d + 1)) < k" by (simp_all add: unat_diff_succ)
  then show ?case using Suc by simp
qed simp

lemma memcpy_outside: "\<not> unat (a - d) < unat n \<Longrightarrow> memcpy d s n m a = m a"
  using unat_u64_less[of n] by (simp add: memcpy_def memcpy_loop_outside)

lemma memset_outside: "\<not> unat (a - d) < unat n \<Longrightarrow> memset d v n m a = m a"
  by (simp add: memset_closed)

lemma mem_store_outside: "\<not> unat (a - d) < length bs \<Longrightarrow> mem_store m d bs a = m a"
  by (simp add: mem_store_def)

text \<open>Memories that agree outside a region of N bytes from b.\<close>

definition same_outside :: "u64 \<Rightarrow> nat \<Rightarrow> mem \<Rightarrow> mem \<Rightarrow> bool" where
  "same_outside b N m m' \<longleftrightarrow> (\<forall>x. \<not> unat (x - b) < N \<longrightarrow> m' x = m x)"

lemma same_outside_refl [simp]: "same_outside b N m m"
  by (simp add: same_outside_def)

lemma same_outside_trans: "same_outside b N m m' \<Longrightarrow> same_outside b N m' m'' \<Longrightarrow> same_outside b N m m''"
  by (simp add: same_outside_def)

lemma same_outside_memcpy:
  assumes "unat o1 + unat n \<le> N" "N \<le> 2 ^ 64"
  shows "same_outside b N m (memcpy (b + o1) src n m)"
  unfolding same_outside_def
  by (intro allI impI memcpy_outside notI) (erule notE, erule region_sub[OF _ assms])

lemma same_outside_memset:
  assumes "unat o1 + unat n \<le> N" "N \<le> 2 ^ 64"
  shows "same_outside b N m (memset (b + o1) v n m)"
  unfolding same_outside_def
  by (intro allI impI memset_outside notI) (erule notE, erule region_sub[OF _ assms])

lemma same_outside_store:
  assumes "unat o1 + length bs \<le> N" "N \<le> 2 ^ 64"
  shows "same_outside b N m (mem_store m (b + o1) bs)"
  unfolding same_outside_def
  by (intro allI impI mem_store_outside notI) (erule notE, erule region_sub[OF _ assms])

end
