(* ===== verification/Bitmap.thy ===== *)
theory Bitmap
  imports Tz_Prelude
begin

text \<open>
  The bitmap of utils/libc_tz/bitmap.c: a bit count and an array of bytes. Bit i is bit i mod 8
  of byte i div 8. The lemmas give the result of every operation in terms of the predicate
  \<open>bm_bit\<close> on bit numbers, for bitmaps whose array is long enough (\<open>bitmap_wf\<close>).
\<close>

unbundle bit_operations_syntax

record tz_bitmap =
  bit_count :: u64
  bitmap :: "u8 list"

definition bitmap_create :: "u8 list \<Rightarrow> u64 \<Rightarrow> tz_bitmap kres" where
  "bitmap_create buffer count =
     kbind (for_loop 0 ((count + 8 - 1) div 8) (\<lambda>i bs. arr_set bs (unat i) 0) buffer) (\<lambda>bs.
     Inr \<lparr>bit_count = count, bitmap = bs\<rparr>)"

definition bitmap_set_bit_value :: "tz_bitmap \<Rightarrow> u64 \<Rightarrow> bool \<Rightarrow> (int \<times> tz_bitmap) kres" where
  "bitmap_set_bit_value bm bit_index value =
     (if bit_index \<ge> bit_count bm then Inr (-1, bm)
      else
        let byte_index = bit_index div 8;
            bit_offset = bit_index mod 8;
            mask = push_bit (unat bit_offset) (1 :: u8)
        in kbind (arr_get (bitmap bm) (unat byte_index)) (\<lambda>b.
           kbind (arr_set (bitmap bm) (unat byte_index)
                    (if value then b OR mask else b AND NOT mask)) (\<lambda>bs.
           Inr (0, bm\<lparr>bitmap := bs\<rparr>))))"

definition bitmap_get_bit_value :: "tz_bitmap \<Rightarrow> u64 \<Rightarrow> int kres" where
  "bitmap_get_bit_value bm bit_index =
     (if bit_index \<ge> bit_count bm then Inr (-1)
      else
        let byte_index = bit_index div 8;
            bit_offset = bit_index mod 8
        in kbind (arr_get (bitmap bm) (unat byte_index)) (\<lambda>b.
           Inr (uint (drop_bit (unat bit_offset) b AND 1))))"

section \<open>Bits by number\<close>

definition bm_bit :: "tz_bitmap \<Rightarrow> nat \<Rightarrow> bool" where
  "bm_bit bm i = bit (bitmap bm ! (i div 8)) (i mod 8)"

definition bitmap_wf :: "tz_bitmap \<Rightarrow> bool" where
  "bitmap_wf bm \<longleftrightarrow> unat (bit_count bm) \<le> 8 * length (bitmap bm)"

lemma bitmap_wf_byte:
  "bitmap_wf bm \<Longrightarrow> i < unat (bit_count bm) \<Longrightarrow> i div 8 < length (bitmap bm)"
  by (simp add: bitmap_wf_def less_mult_imp_div_less mult.commute)

lemma bit_mask_update:
  fixes b :: u8
  assumes "k < 8"
  shows "bit (if v then b OR push_bit k 1 else b AND NOT (push_bit k 1)) j =
    (if j = k then v else bit b j)"
  using assms by (auto simp: bit_simps dest: bit_imp_le_length)

lemma bitmap_get_in:
  assumes "bitmap_wf bm" "i < bit_count bm"
  shows "bitmap_get_bit_value bm i = Inr (of_bool (bm_bit bm (unat i)))"
proof -
  have "uint (drop_bit k b AND 1) = of_bool (bit b k)" for k and b :: u8
    by (simp add: and_one_eq bit_iff_odd_drop_bit odd_iff_mod_2_eq_one)
  then show ?thesis
    using assms bitmap_wf_byte[of bm "unat i"]
    by (simp add: bitmap_get_bit_value_def bm_bit_def Let_def unat_divmod not_le word_less_nat_alt)
qed

lemma bitmap_get_out: "bit_count bm \<le> i \<Longrightarrow> bitmap_get_bit_value bm i = Inr (-1)"
  by (simp add: bitmap_get_bit_value_def)

lemma bitmap_set_out: "bit_count bm \<le> i \<Longrightarrow> bitmap_set_bit_value bm i v = Inr (-1, bm)"
  by (simp add: bitmap_set_bit_value_def)

text \<open>Setting a bit inside the bitmap, as a function of the bitmap.\<close>

definition bm_upd :: "tz_bitmap \<Rightarrow> nat \<Rightarrow> bool \<Rightarrow> tz_bitmap" where
  "bm_upd bm i v =
     bm\<lparr>bitmap := (bitmap bm)[i div 8 :=
       (let b = bitmap bm ! (i div 8); mask = push_bit (i mod 8) (1 :: u8)
        in if v then b OR mask else b AND NOT mask)]\<rparr>"

lemma bitmap_set_in:
  assumes "bitmap_wf bm" "i < bit_count bm"
  shows "bitmap_set_bit_value bm i v = Inr (0, bm_upd bm (unat i) v)"
  using assms bitmap_wf_byte[of bm "unat i"]
  by (simp add: bitmap_set_bit_value_def bm_upd_def Let_def unat_divmod not_le word_less_nat_alt)

lemma bm_upd_simps [simp]:
  "bit_count (bm_upd bm i v) = bit_count bm"
  "bitmap_wf (bm_upd bm i v) = bitmap_wf bm"
  by (simp_all add: bm_upd_def bitmap_wf_def)

lemma bm_bit_upd:
  assumes "bitmap_wf bm" "i < unat (bit_count bm)"
  shows "bm_bit (bm_upd bm i v) j = (if j = i then v else bm_bit bm j)"
proof (cases "i div 8 = j div 8")
  case True
  have eq: "j mod 8 = i mod 8 \<longleftrightarrow> j = i"
    using True mult_div_mod_eq[of 8 i] mult_div_mod_eq[of 8 j] by linarith
  let ?b = "bitmap bm ! (i div 8)" and ?m = "push_bit (i mod 8) 1"
  have "bm_bit (bm_upd bm i v) j = bit (if v then ?b OR ?m else ?b AND NOT ?m) (j mod 8)"
    unfolding bm_bit_def bm_upd_def Let_def True[symmetric]
    using bitmap_wf_byte[OF assms] by simp
  also have "\<dots> = (if j = i then v else bm_bit bm j)"
    by (subst bit_mask_update) (simp_all add: eq bm_bit_def True)
  finally show ?thesis .
next
  case False
  then show ?thesis by (auto simp: bm_bit_def bm_upd_def Let_def)
qed

lemma bitmap_create_ok:
  assumes "unat bc + 7 < 2 ^ 64" "(unat bc + 7) div 8 \<le> length buffer"
  shows "\<exists>bm. bitmap_create buffer bc = Inr bm \<and> bitmap_wf bm \<and> bit_count bm = bc \<and>
    length (bitmap bm) = length buffer \<and> (\<forall>i < unat bc. \<not> bm_bit bm i)"
proof -
  let ?n = "(bc + 8 - 1) div 8"
  have n: "unat ?n = (unat bc + 7) div 8"
  proof -
    have "unat (bc + 7) = unat bc + 7" using assms(1) by (simp add: unat_word_ariths)
    moreover have "bc + 8 - 1 = bc + 7" by simp
    ultimately show ?thesis by (simp only: unat_div_distrib) simp
  qed
  let ?bs = "replicate (unat ?n) 0 @ drop (unat ?n) buffer"
  have bs: "for_loop 0 ?n (\<lambda>i bs. arr_set bs (unat i) 0) buffer = Inr ?bs"
    using n assms(2) by (simp add: arr_fill_loop)
  have len: "length ?bs = length buffer" using n assms(2) by simp
  have "\<forall>i < unat bc. i div 8 < unat ?n" using n by auto
  moreover have "unat bc \<le> 8 * length buffer" using assms(2) by linarith
  ultimately show ?thesis using bs len
    by (simp add: bitmap_create_def bitmap_wf_def bm_bit_def nth_append)
qed

end
