(* ===== verification/Frame_Alloc.thy ===== *)
theory Frame_Alloc
  imports Tz_Prelude
begin

text \<open>
  The interface of the page-frame allocator as its clients (page tables, heap, processes) rely on
  it: requests are for runs of frames, a run handed out was free and is in use afterwards, every
  other frame keeps its state, and giving a run back frees exactly its frames. The locale derives
  what any sequence of requests and releases does; Pmm.thy interprets it on the bitmap allocator.
\<close>

section \<open>Frames and runs\<close>

abbreviation (input) "REGULAR_PAGE_SIZE \<equiv> (0x1000 :: u64)"

definition frame_addr :: "nat \<Rightarrow> u64" where
  "frame_addr k = word_of_nat k * REGULAR_PAGE_SIZE"

definition frame_of :: "u64 \<Rightarrow> nat" where
  "frame_of a = unat a div 4096"

definition run_frames :: "u64 \<times> u64 \<Rightarrow> nat set" where
  "run_frames b = {frame_of (fst b)..<frame_of (fst b) + unat (snd b)}"

datatype frame_op = Alloc_frames u64 | Free_frames nat

text \<open>
  Runs a sequence of requests against an allocator, keeping the runs held by the clients: a
  failed request adds none, and Free_frames i releases the i-th run held.
\<close>

fun frame_ops ::
  "(u64 \<Rightarrow> 's \<Rightarrow> (u64 \<times> 's) kres) \<Rightarrow> (u64 \<Rightarrow> u64 \<Rightarrow> 's \<Rightarrow> 's kres) \<Rightarrow> frame_op list \<Rightarrow>
   (u64 \<times> u64) list \<Rightarrow> 's \<Rightarrow> ((u64 \<times> u64) list \<times> 's) kres" where
  "frame_ops allocate release [] held s = Inr (held, s)"
| "frame_ops allocate release (Alloc_frames c # ops) held s =
     kbind (allocate c s) (\<lambda>(a, s).
     frame_ops allocate release ops (if a = 0 then held else (a, c) # held) s)"
| "frame_ops allocate release (Free_frames i # ops) held s =
     (if i < length held
      then kbind (release (fst (held ! i)) (snd (held ! i)) s) (\<lambda>s.
           frame_ops allocate release ops (take i held @ drop (Suc i) held) s)
      else frame_ops allocate release ops held s)"

definition runs_disjoint :: "(u64 \<times> u64) list \<Rightarrow> bool" where
  "runs_disjoint = sorted_wrt (\<lambda>b b'. run_frames b \<inter> run_frames b' = {})"

definition op_fits :: "nat \<Rightarrow> frame_op \<Rightarrow> bool" where
  "op_fits n op = (case op of Alloc_frames c \<Rightarrow> 0 < c \<and> unat c \<le> n | Free_frames i \<Rightarrow> True)"

lemma frame_of_frame_addr: "k < 2 ^ 52 \<Longrightarrow> frame_of (frame_addr k) = k"
  by (simp add: frame_of_def frame_addr_def unat_word_ariths unat_of_nat)

lemma frame_addr_unat: "i * REGULAR_PAGE_SIZE = frame_addr (unat i)"
  by (simp add: frame_addr_def)

lemma unat_frame_addr: "k < 2 ^ 52 \<Longrightarrow> unat (frame_addr k) = 4096 * k"
  by (simp add: frame_addr_def unat_word_ariths unat_of_nat)

lemma frame_addr_zero [simp]: "frame_addr 0 = 0"
  by (simp add: frame_addr_def)

lemma frame_addr_0: "k < 2 ^ 52 \<Longrightarrow> frame_addr k = 0 \<longleftrightarrow> k = 0"
  using unat_frame_addr[of k] by (auto simp: frame_addr_def word_unat_eq_iff)

section \<open>The contract\<close>

locale frame_allocator =
  fixes inv :: "'s \<Rightarrow> bool"
    and capacity :: "'s \<Rightarrow> nat"
    and in_use :: "'s \<Rightarrow> nat \<Rightarrow> bool"
    and allocate :: "u64 \<Rightarrow> 's \<Rightarrow> (u64 \<times> 's) kres"
    and release :: "u64 \<Rightarrow> u64 \<Rightarrow> 's \<Rightarrow> 's kres"
  assumes alloc_law: "inv s \<Longrightarrow> 0 < c \<Longrightarrow> unat c \<le> capacity s \<Longrightarrow>
      allocate c s = Inr (0, s) \<or>
      (\<exists>a s'. allocate c s = Inr (a, s') \<and> a \<noteq> 0 \<and> a = frame_addr (frame_of a) \<and> inv s' \<and>
        capacity s' = capacity s \<and> (\<forall>k \<in> run_frames (a, c). \<not> in_use s k) \<and>
        in_use s' = (\<lambda>k. in_use s k \<or> k \<in> run_frames (a, c)))"
    and free_law: "inv s \<Longrightarrow> a = frame_addr (frame_of a) \<Longrightarrow> frame_of a \<noteq> 0 \<Longrightarrow>
      (\<forall>k \<in> run_frames (a, c). in_use s k) \<Longrightarrow>
      \<exists>s'. release a c s = Inr s' \<and> inv s' \<and> capacity s' = capacity s \<and>
        in_use s' = (\<lambda>k. in_use s k \<and> k \<notin> run_frames (a, c))"
begin

definition held_ok :: "(nat \<Rightarrow> bool) \<Rightarrow> (u64 \<times> u64) list \<Rightarrow> 's \<Rightarrow> bool" where
  "held_ok used0 held s \<longleftrightarrow> inv s \<and> runs_disjoint held \<and>
     (\<forall>b \<in> set held. fst b \<noteq> 0 \<and> fst b = frame_addr (frame_of (fst b)) \<and>
        (\<forall>k \<in> run_frames b. \<not> used0 k)) \<and>
     in_use s = (\<lambda>k. used0 k \<or> (\<exists>b \<in> set held. k \<in> run_frames b))"

lemma held_ok_alloc:
  assumes "held_ok used0 held s" "0 < c" "unat c \<le> capacity s"
  shows "\<exists>a s'. allocate c s = Inr (a, s') \<and> capacity s' = capacity s \<and>
    held_ok used0 (if a = 0 then held else (a, c) # held) s'"
  using alloc_law[of s c] assms by (fastforce simp: held_ok_def runs_disjoint_def)

lemma held_ok_free:
  assumes "held_ok used0 held s" "i < length held"
  shows "\<exists>s'. release (fst (held ! i)) (snd (held ! i)) s = Inr s' \<and> capacity s' = capacity s \<and>
    held_ok used0 (take i held @ drop (Suc i) held) s'"
proof -
  let ?b = "held ! i"
  have split: "held = take i held @ ?b # drop (Suc i) held"
    using assms(2) by (simp add: id_take_nth_drop)
  have mem: "?b \<in> set held" using assms(2) by simp
  have "frame_of (fst ?b) \<noteq> 0"
    using assms(1) mem frame_addr_zero by (metis held_ok_def)
  then obtain s' where s': "release (fst ?b) (snd ?b) s = Inr s'" "inv s'" "capacity s' = capacity s"
    "in_use s' = (\<lambda>k. in_use s k \<and> k \<notin> run_frames ?b)"
    using free_law[of s "fst ?b" "snd ?b"] assms(1) mem by (auto simp: held_ok_def)
  have dj: "runs_disjoint (take i held @ ?b # drop (Suc i) held)"
    using assms(1) split by (simp add: held_ok_def)
  have "held_ok used0 (take i held @ drop (Suc i) held) s'"
    unfolding held_ok_def
  proof (intro conjI)
    show "runs_disjoint (take i held @ drop (Suc i) held)"
      using dj by (auto simp: runs_disjoint_def sorted_wrt_append)
    show "\<forall>b \<in> set (take i held @ drop (Suc i) held).
        fst b \<noteq> 0 \<and> fst b = frame_addr (frame_of (fst b)) \<and> (\<forall>k \<in> run_frames b. \<not> used0 k)"
      using assms(1) unfolding held_ok_def by (auto dest: in_set_takeD in_set_dropD)
    have "in_use s = (\<lambda>k. used0 k \<or> (\<exists>b \<in> set (take i held @ ?b # drop (Suc i) held). k \<in> run_frames b))"
      using assms(1) split by (simp add: held_ok_def)
    moreover have "\<forall>k \<in> run_frames ?b. \<not> used0 k" using assms(1) mem by (simp add: held_ok_def)
    ultimately show "in_use s' =
        (\<lambda>k. used0 k \<or> (\<exists>b \<in> set (take i held @ drop (Suc i) held). k \<in> run_frames b))"
      using s'(4) dj by (fastforce simp: runs_disjoint_def sorted_wrt_append fun_eq_iff)
  qed (use s' in simp)
  then show ?thesis using s' by blast
qed

lemma frame_ops_ok:
  assumes "held_ok used0 held s" "\<forall>op \<in> set ops. op_fits (capacity s) op"
  shows "\<exists>held' s'. frame_ops allocate release ops held s = Inr (held', s') \<and> held_ok used0 held' s'"
  using assms
proof (induction ops arbitrary: held s)
  case (Cons op ops)
  show ?case
  proof (cases op)
    case (Alloc_frames c)
    then obtain a s' where "allocate c s = Inr (a, s')" "capacity s' = capacity s"
      "held_ok used0 (if a = 0 then held else (a, c) # held) s'"
      using held_ok_alloc[of used0 held s c] Cons.prems by (auto simp: op_fits_def)
    then show ?thesis using Cons.prems Cons.IH[of _ s'] Alloc_frames by auto
  next
    case (Free_frames i)
    then show ?thesis using Cons held_ok_free[of used0 held s i]
      by (cases "i < length held") fastforce+
  qed
qed simp

end

end
