(* ===== verification/Pmm.thy ===== *)
theory Pmm
  imports Mem_Utils Bitmap Frame_Alloc
begin

text \<open>
  The physical memory manager, kernel/mm/pmm/pmm_bitmap.c: one bit per page frame, set when the
  frame is in use. The state holds the bitmap (its bytes, which init_pmm places in a usable
  region and marks as used) and the offset of the direct map. Loops keep their 64-bit counters,
  so the unsigned wrap-around in the bound of pmm_alloc_pages is part of the model. Console
  output (printk) has no effect on this state and is left out.
\<close>

unbundle bit_operations_syntax

section \<open>State and boot information\<close>

record pmm_state =
  g_bitmap :: tz_bitmap
  pmm_hhdm_offset :: u64

record limine_memmap_entry =
  me_base :: u64
  me_length :: u64
  me_type :: u64

abbreviation (input) "LIMINE_MEMMAP_USABLE \<equiv> (0 :: u64)"
abbreviation (input) "LIMINE_MEMMAP_ACPI_RECLAIMABLE \<equiv> (2 :: u64)"
abbreviation (input) "LIMINE_MEMMAP_BOOTLOADER_RECLAIMABLE \<equiv> (5 :: u64)"

definition DIV_ROUND_UP :: "u64 \<Rightarrow> u64 \<Rightarrow> u64" where
  "DIV_ROUND_UP x align = (x + align - 1) div align"

section \<open>Marking frames\<close>

definition set_page_as_used :: "u64 \<Rightarrow> 'a pmm_state_scheme \<Rightarrow> 'a pmm_state_scheme kres" where
  "set_page_as_used page_addr s =
     kbind (bitmap_set_bit_value (g_bitmap s) (page_addr div REGULAR_PAGE_SIZE) True) (\<lambda>(r, bm).
     kassert (r \<noteq> -1) ''PMM bitmap bit set out of bounds'' (Inr (s\<lparr>g_bitmap := bm\<rparr>)))"

definition set_page_as_unused :: "u64 \<Rightarrow> 'a pmm_state_scheme \<Rightarrow> 'a pmm_state_scheme kres" where
  "set_page_as_unused page_addr s =
     kbind (bitmap_set_bit_value (g_bitmap s) (page_addr div REGULAR_PAGE_SIZE) False) (\<lambda>(r, bm).
     kassert (r \<noteq> -1) ''PMM bitmap bit set out of bounds'' (Inr (s\<lparr>g_bitmap := bm\<rparr>)))"

definition mark_region_free ::
  "limine_memmap_entry \<Rightarrow> 'a pmm_state_scheme \<Rightarrow> 'a pmm_state_scheme kres" where
  "mark_region_free entry s =
     for_loop 0 (me_length entry div REGULAR_PAGE_SIZE)
       (\<lambda>i. set_page_as_unused (me_base entry + i * REGULAR_PAGE_SIZE)) s"

section \<open>Boot\<close>

fun get_ram_max_size :: "limine_memmap_entry list \<Rightarrow> u64 \<Rightarrow> u64" where
  "get_ram_max_size [] max_address = max_address"
| "get_ram_max_size (e # es) max_address =
     (if me_type e \<noteq> LIMINE_MEMMAP_USABLE \<and> me_type e \<noteq> LIMINE_MEMMAP_ACPI_RECLAIMABLE \<and>
         me_type e \<noteq> LIMINE_MEMMAP_BOOTLOADER_RECLAIMABLE
      then get_ram_max_size es max_address
      else let top = me_base e + me_length e
           in get_ram_max_size es (if top > max_address then top else max_address))"

text \<open>The index of the first usable region that can hold the bitmap, or -1.\<close>

fun get_bitmap_region_loop :: "int \<Rightarrow> limine_memmap_entry list \<Rightarrow> u64 \<Rightarrow> int" where
  "get_bitmap_region_loop i [] bytes = -1"
| "get_bitmap_region_loop i (e # es) bytes =
     (if me_type e \<noteq> LIMINE_MEMMAP_USABLE then get_bitmap_region_loop (i + 1) es bytes
      else if me_length e \<ge> bytes then i
      else get_bitmap_region_loop (i + 1) es bytes)"

definition get_bitmap_region :: "limine_memmap_entry list \<Rightarrow> u64 \<Rightarrow> int" where
  "get_bitmap_region entries physical_ram_size =
     (let bits_needed_for_bitmap = physical_ram_size div REGULAR_PAGE_SIZE;
          bytes_needed_for_bitmap = DIV_ROUND_UP bits_needed_for_bitmap 8
      in get_bitmap_region_loop 0 entries bytes_needed_for_bitmap)"

fun mark_usable_regions ::
  "limine_memmap_entry list \<Rightarrow> 'a pmm_state_scheme \<Rightarrow> 'a pmm_state_scheme kres" where
  "mark_usable_regions [] s = Inr s"
| "mark_usable_regions (e # es) s =
     (if me_type e = LIMINE_MEMMAP_USABLE
      then kbind (mark_region_free e s) (mark_usable_regions es)
      else mark_usable_regions es s)"

text \<open>
  The bitmap array is the memory of the chosen region as the direct map shows it; what it holds
  before bitmap_create is the content \<open>m\<close> of memory at boot.
\<close>

definition init_pmm ::
  "mem \<Rightarrow> limine_memmap_entry list option \<Rightarrow> u64 option \<Rightarrow> 'a pmm_state_scheme \<Rightarrow>
   'a pmm_state_scheme kres" where
  "init_pmm m memmap_response hhdm_response s =
     (case memmap_response of
        None \<Rightarrow> Inl (Kernel_panic ''Limine memmap response is NULL cannot initialize PMM'')
      | Some entries \<Rightarrow>
     (case hhdm_response of
        None \<Rightarrow> Inl (Kernel_panic ''Limine HHDM response is NULL cannot initialize PMM'')
      | Some offset \<Rightarrow>
        let s = s\<lparr>pmm_hhdm_offset := offset\<rparr>;
            systems_physical_ram_size = get_ram_max_size entries 0;
            bitmap_region_index = get_bitmap_region entries systems_physical_ram_size
        in kassert (bitmap_region_index \<noteq> -1)
             ''Couldn't find a big enough region for the pmm bitmap''
        (let bitmap_region = entries ! nat bitmap_region_index;
             bits_needed_for_bitmap = systems_physical_ram_size div REGULAR_PAGE_SIZE;
             bytes_needed_for_bitmap = DIV_ROUND_UP bits_needed_for_bitmap 8;
             pages_needed_for_bitmap = DIV_ROUND_UP bytes_needed_for_bitmap REGULAR_PAGE_SIZE
         in kbind (bitmap_create
                     (mem_bytes m (me_base bitmap_region + offset) (unat (me_length bitmap_region)))
                     bits_needed_for_bitmap) (\<lambda>bm.
            kbind (for_loop 0 bytes_needed_for_bitmap
                     (\<lambda>i bs. arr_set bs (unat i) 0xFF) (bitmap bm)) (\<lambda>bs.
            kbind (mark_usable_regions entries (s\<lparr>g_bitmap := bm\<lparr>bitmap := bs\<rparr>\<rparr>)) (\<lambda>s.
            for_loop 0 pages_needed_for_bitmap
              (\<lambda>i. set_page_as_used (me_base bitmap_region + i * REGULAR_PAGE_SIZE)) s))))))"

section \<open>Allocation\<close>

function pmm_alloc_page_loop ::
  "u64 \<Rightarrow> 'a pmm_state_scheme \<Rightarrow> (u64 \<times> 'a pmm_state_scheme) kres" where
  "pmm_alloc_page_loop i s =
     (if i < bit_count (g_bitmap s)
      then kbind (bitmap_get_bit_value (g_bitmap s) i) (\<lambda>b.
           if b \<noteq> 0 then pmm_alloc_page_loop (i + 1) s
           else let page_addr = i * REGULAR_PAGE_SIZE
                in kbind (set_page_as_used page_addr s) (\<lambda>s. Inr (page_addr, s)))
      else Inr (0, s))"
  by pat_completeness auto
termination
  by (relation "measure (\<lambda>(i, s). unat (bit_count (g_bitmap s)) - unat i)")
    (auto simp: unat_Suc_less word_less_nat_alt)

declare pmm_alloc_page_loop.simps [simp del]

definition pmm_alloc_page :: "'a pmm_state_scheme \<Rightarrow> (u64 \<times> 'a pmm_state_scheme) kres" where
  "pmm_alloc_page s = pmm_alloc_page_loop 0 s"

text \<open>
  The inner loop of pmm_alloc_pages: the first j below the bound whose bit reads non-zero (a
  frame in use, or -1 beyond the bitmap).
\<close>

function pmm_scan :: "tz_bitmap \<Rightarrow> u64 \<Rightarrow> u64 \<Rightarrow> u64 option kres" where
  "pmm_scan bm j bound =
     (if j < bound
      then kbind (bitmap_get_bit_value bm j) (\<lambda>b.
           if b \<noteq> 0 then Inr (Some j) else pmm_scan bm (j + 1) bound)
      else Inr None)"
  by pat_completeness auto
termination
  by (relation "measure (\<lambda>(bm, j, bound). unat bound - unat j)")
    (auto simp: unat_Suc_less word_less_nat_alt)

declare pmm_scan.simps [simp del]

lemma pmm_scan_Some: "pmm_scan bm i bound = Inr (Some j) \<Longrightarrow> i \<le> j \<and> j < bound"
proof (induction bm i bound rule: pmm_scan.induct)
  case (1 bm i bound)
  show ?case
  proof (cases "i < bound")
    case True
    then have "i \<le> i + 1" using unat_Suc_less[OF True] by (simp add: word_le_nat_alt)
    then show ?thesis using 1 True
      by (auto simp: pmm_scan.simps[of bm i] split: if_splits intro: order_trans)
  next
    case False
    then show ?thesis using 1 by (simp add: pmm_scan.simps[of bm i])
  qed
qed

function pmm_alloc_pages_loop ::
  "u64 \<Rightarrow> u64 \<Rightarrow> 'a pmm_state_scheme \<Rightarrow> (u64 \<times> 'a pmm_state_scheme) kres" where
  "pmm_alloc_pages_loop count i s =
     (if i \<le> bit_count (g_bitmap s) - count
      then (case pmm_scan (g_bitmap s) i (i + count) of
              Inl e \<Rightarrow> Inl e
            | Inr (Some j) \<Rightarrow> pmm_alloc_pages_loop count (j + 1) s
            | Inr None \<Rightarrow>
                kbind (for_loop i (i + count) (\<lambda>j. set_page_as_used (j * REGULAR_PAGE_SIZE)) s) (\<lambda>s.
                Inr (i * REGULAR_PAGE_SIZE, s)))
      else Inr (0, s))"
  by pat_completeness auto
termination
proof (relation "measure (\<lambda>(count, i, s). 2 ^ 64 - unat i)", goal_cases)
  case (2 count i s r j)
  then have "i \<le> j" "j < i + count" using pmm_scan_Some by blast+
  then show ?case using unat_Suc_less[of j "i + count"] unat_u64_less[of "j + 1"]
    by (simp add: word_le_nat_alt)
qed simp

declare pmm_alloc_pages_loop.simps [simp del]

definition pmm_alloc_pages :: "u64 \<Rightarrow> 'a pmm_state_scheme \<Rightarrow> (u64 \<times> 'a pmm_state_scheme) kres" where
  "pmm_alloc_pages count s =
     kassert (count \<noteq> 0) ''PMM can't allocate 0 pages'' (pmm_alloc_pages_loop count 0 s)"

definition pmm_alloc_page_hhdm :: "'a pmm_state_scheme \<Rightarrow> (u64 \<times> 'a pmm_state_scheme) kres" where
  "pmm_alloc_page_hhdm s =
     kbind (pmm_alloc_page s) (\<lambda>(page, s).
     Inr (if page \<noteq> 0 then page + pmm_hhdm_offset s else page, s))"

definition pmm_alloc_pages_hhdm ::
  "u64 \<Rightarrow> 'a pmm_state_scheme \<Rightarrow> (u64 \<times> 'a pmm_state_scheme) kres" where
  "pmm_alloc_pages_hhdm count s =
     kbind (pmm_alloc_pages count s) (\<lambda>(pages, s).
     Inr (if pages \<noteq> 0 then pages + pmm_hhdm_offset s else pages, s))"

definition pmm_free_page :: "u64 \<Rightarrow> 'a pmm_state_scheme \<Rightarrow> 'a pmm_state_scheme kres" where
  "pmm_free_page physical_addr s = set_page_as_unused physical_addr s"

definition pmm_free_pages :: "u64 \<Rightarrow> u64 \<Rightarrow> 'a pmm_state_scheme \<Rightarrow> 'a pmm_state_scheme kres" where
  "pmm_free_pages physical_addr count s =
     for_loop 0 count (\<lambda>i. set_page_as_unused (physical_addr + i * REGULAR_PAGE_SIZE)) s"

section \<open>Frames\<close>

definition nframes :: "'a pmm_state_scheme \<Rightarrow> nat" where
  "nframes s = unat (bit_count (g_bitmap s))"

definition frame_used :: "'a pmm_state_scheme \<Rightarrow> nat \<Rightarrow> bool" where
  "frame_used s i = bm_bit (g_bitmap s) i"

text \<open>The bitmap is long enough and every frame has a 64-bit address.\<close>

definition pmm_wf :: "'a pmm_state_scheme \<Rightarrow> bool" where
  "pmm_wf s \<longleftrightarrow> bitmap_wf (g_bitmap s) \<and> nframes s \<le> 2 ^ 52"

definition mark_frame :: "nat \<Rightarrow> bool \<Rightarrow> 'a pmm_state_scheme \<Rightarrow> 'a pmm_state_scheme" where
  "mark_frame i v s = s\<lparr>g_bitmap := bm_upd (g_bitmap s) i v\<rparr>"

definition mark_frames :: "nat list \<Rightarrow> bool \<Rightarrow> 'a pmm_state_scheme \<Rightarrow> 'a pmm_state_scheme" where
  "mark_frames is v s = fold (\<lambda>i. mark_frame i v) is s"

definition free_run :: "'a pmm_state_scheme \<Rightarrow> nat \<Rightarrow> nat \<Rightarrow> bool" where
  "free_run s k c \<longleftrightarrow> k + c \<le> nframes s \<and> (\<forall>i \<in> {k..<k + c}. \<not> frame_used s i)"

text \<open>The reference search: the least start of a run of c free frames.\<close>

definition first_fit :: "'a pmm_state_scheme \<Rightarrow> nat \<Rightarrow> nat option" where
  "first_fit s c = find (\<lambda>k. free_run s k c) [0..<Suc (nframes s)]"

lemma mark_frame_simps [simp]:
  "nframes (mark_frame i v s) = nframes s"
  "pmm_wf (mark_frame i v s) = pmm_wf s"
  "pmm_hhdm_offset (mark_frame i v s) = pmm_hhdm_offset s"
  by (simp_all add: mark_frame_def nframes_def pmm_wf_def)

lemma mark_frames_simps [simp]:
  "nframes (mark_frames is v s) = nframes s"
  "pmm_wf (mark_frames is v s) = pmm_wf s"
  "pmm_hhdm_offset (mark_frames is v s) = pmm_hhdm_offset s"
  by (induction "is" arbitrary: s) (simp_all add: mark_frames_def)

lemma mark_frames_Nil [simp]: "mark_frames [] v s = s"
  by (simp add: mark_frames_def)

lemma mark_frames_snoc: "mark_frames (is @ [i]) v s = mark_frame i v (mark_frames is v s)"
  by (simp add: mark_frames_def)

lemma frame_used_mark_frame:
  "pmm_wf s \<Longrightarrow> i < nframes s \<Longrightarrow>
   frame_used (mark_frame i v s) j = (if j = i then v else frame_used s j)"
  by (simp add: frame_used_def mark_frame_def pmm_wf_def nframes_def bm_bit_upd)

lemma frame_used_mark_frames:
  assumes "pmm_wf s" "\<forall>i \<in> set is. i < nframes s"
  shows "frame_used (mark_frames is v s) j = (if j \<in> set is then v else frame_used s j)"
  using assms
proof (induction "is" rule: rev_induct)
  case (snoc i "is")
  then show ?case by (simp add: mark_frames_snoc frame_used_mark_frame)
qed simp

lemma set_page_in:
  assumes "pmm_wf s" "frame_of a < nframes s"
  shows "set_page_as_used a s = Inr (mark_frame (frame_of a) True s)"
    and "set_page_as_unused a s = Inr (mark_frame (frame_of a) False s)"
proof -
  have "unat (a div REGULAR_PAGE_SIZE) = frame_of a" by (simp add: frame_of_def unat_div_distrib)
  moreover from this have "a div REGULAR_PAGE_SIZE < bit_count (g_bitmap s)"
    using assms(2) by (simp add: word_less_nat_alt nframes_def)
  ultimately show "set_page_as_used a s = Inr (mark_frame (frame_of a) True s)"
    and "set_page_as_unused a s = Inr (mark_frame (frame_of a) False s)"
    using assms(1) unfolding set_page_as_used_def set_page_as_unused_def
    by (simp_all add: bitmap_set_in pmm_wf_def mark_frame_def)
qed

lemma set_page_out:
  assumes "\<not> frame_of a < nframes s"
  shows "set_page_as_used a s = Inl (Kernel_panic ''PMM bitmap bit set out of bounds'')"
    and "set_page_as_unused a s = Inl (Kernel_panic ''PMM bitmap bit set out of bounds'')"
proof -
  have "unat (a div REGULAR_PAGE_SIZE) = frame_of a" by (simp add: frame_of_def unat_div_distrib)
  then have "bit_count (g_bitmap s) \<le> a div REGULAR_PAGE_SIZE"
    using assms by (simp add: word_le_nat_alt nframes_def)
  then show "set_page_as_used a s = Inl (Kernel_panic ''PMM bitmap bit set out of bounds'')"
    and "set_page_as_unused a s = Inl (Kernel_panic ''PMM bitmap bit set out of bounds'')"
    unfolding set_page_as_used_def set_page_as_unused_def by (simp_all add: bitmap_set_out)
qed

lemma bitmap_get_frame:
  "pmm_wf s \<Longrightarrow> i < bit_count (g_bitmap s) \<Longrightarrow>
   bitmap_get_bit_value (g_bitmap s) i = Inr (of_bool (frame_used s (unat i)))"
  by (simp add: bitmap_get_in pmm_wf_def frame_used_def)

text \<open>The marking loops of pmm_alloc_pages and pmm_free_pages.\<close>

lemma mark_used_loop:
  assumes "pmm_wf s" "i \<le> e" "unat e \<le> nframes s"
  shows "for_loop i e (\<lambda>j. set_page_as_used (j * REGULAR_PAGE_SIZE)) s =
    Inr (mark_frames [unat i..<unat e] True s)"
proof -
  have "\<exists>t. for_loop i e (\<lambda>j. set_page_as_used (j * REGULAR_PAGE_SIZE)) s = Inr t \<and>
      t = mark_frames [unat i..<unat e] True s"
  proof (rule for_loop_total)
    fix j t assume j: "i \<le> j" "j < e" and t: "t = mark_frames [unat i..<unat j] True s"
    have "unat j < nframes s" "unat j < 2 ^ 52"
      using j assms by (simp_all add: word_less_nat_alt pmm_wf_def)
    then have "set_page_as_used (j * REGULAR_PAGE_SIZE) t = Inr (mark_frame (unat j) True t)"
      using assms(1) t by (simp add: frame_addr_unat set_page_in frame_of_frame_addr)
    then show "\<exists>t'. set_page_as_used (j * REGULAR_PAGE_SIZE) t = Inr t' \<and>
        t' = mark_frames [unat i..<Suc (unat j)] True s"
      using j t by (simp add: mark_frames_snoc word_le_nat_alt)
  qed (use assms in simp_all)
  then show ?thesis by simp
qed

lemma set_page_loop:
  assumes "pmm_wf s" "k + unat n \<le> nframes s"
  shows "for_loop 0 n (\<lambda>i. (if v then set_page_as_used else set_page_as_unused)
      (frame_addr k + i * REGULAR_PAGE_SIZE)) s = Inr (mark_frames [k..<k + unat n] v s)"
    (is "for_loop 0 n ?f s = _")
proof -
  have "\<exists>t. for_loop 0 n ?f s = Inr t \<and> t = mark_frames [k..<k + unat n] v s"
  proof (rule for_loop_total)
    fix j t assume j: "j < n" and t: "t = mark_frames [k..<k + unat j] v s"
    have eq: "frame_addr k + j * REGULAR_PAGE_SIZE = frame_addr (k + unat j)"
      by (simp add: frame_addr_def algebra_simps)
    have "k + unat j < nframes s" "k + unat j < 2 ^ 52"
      using j assms by (simp_all add: word_less_nat_alt pmm_wf_def)
    then have "?f j t = Inr (mark_frame (k + unat j) v t)"
      using assms(1) t unfolding eq by (simp add: set_page_in frame_of_frame_addr)
    then show "\<exists>t'. ?f j t = Inr t' \<and> t' = mark_frames [k..<k + Suc (unat j)] v s"
      using t by (simp add: mark_frames_snoc)
  qed simp_all
  then show ?thesis by simp
qed

lemmas set_used_loop = set_page_loop[where v = True, simplified]
lemmas set_unused_loop = set_page_loop[where v = False, simplified]

lemma pmm_free_pages_marks:
  "pmm_wf s \<Longrightarrow> k + unat count \<le> nframes s \<Longrightarrow>
   pmm_free_pages (frame_addr k) count s = Inr (mark_frames [k..<k + unat count] False s)"
  by (simp add: pmm_free_pages_def set_unused_loop)

section \<open>Allocation is first fit\<close>

lemma pmm_alloc_page_loop_none:
  assumes "pmm_wf s" "\<And>k. unat i \<le> k \<Longrightarrow> k < nframes s \<Longrightarrow> frame_used s k"
  shows "pmm_alloc_page_loop i s = Inr (0, s)"
  using assms
proof (induction i s rule: pmm_alloc_page_loop.induct)
  case (1 i s)
  show ?case
  proof (cases "i < bit_count (g_bitmap s)")
    case True
    have "frame_used s (unat i)" using 1(3) True by (simp add: word_less_nat_alt nframes_def)
    then show ?thesis
      using 1(1)[of 1] 1(2,3) True unat_Suc_less[OF True]
      by (simp add: pmm_alloc_page_loop.simps[of i] bitmap_get_frame)
  qed (simp add: pmm_alloc_page_loop.simps)
qed

lemma pmm_alloc_page_loop_some:
  assumes "pmm_wf s" "unat i \<le> k" "k < nframes s" "\<not> frame_used s k"
    "\<And>j. unat i \<le> j \<Longrightarrow> j < k \<Longrightarrow> frame_used s j"
  shows "pmm_alloc_page_loop i s = Inr (frame_addr k, mark_frame k True s)"
  using assms
proof (induction i s rule: pmm_alloc_page_loop.induct)
  case (1 i s)
  have lt: "i < bit_count (g_bitmap s)" using 1(3,4) by (simp add: word_less_nat_alt nframes_def)
  have "k < 2 ^ 52" using 1(2,4) by (simp add: pmm_wf_def)
  then show ?case
  proof (cases "unat i = k")
    case True
    then show ?thesis using 1(2-5) lt \<open>k < 2 ^ 52\<close>
      by (simp add: pmm_alloc_page_loop.simps[of i] bitmap_get_frame frame_addr_unat set_page_in
          frame_of_frame_addr)
  next
    case False
    then have "frame_used s (unat i)" using 1(3,6) by simp
    then show ?thesis using 1(1)[of 1] 1(2-) False lt unat_Suc_less[OF lt]
      by (simp add: pmm_alloc_page_loop.simps[of i] bitmap_get_frame)
  qed
qed

lemma free_run_1: "free_run s k 1 \<longleftrightarrow> k < nframes s \<and> \<not> frame_used s k"
  by (auto simp: free_run_def)

lemma find_upt_Some:
  "find P [0..<n] = Some k \<longleftrightarrow> k < n \<and> P k \<and> (\<forall>j < k. \<not> P j)"
  by (auto simp: find_Some_iff)

lemma first_fit_Some:
  "first_fit s c = Some k \<longleftrightarrow> free_run s k c \<and> (\<forall>j < k. \<not> free_run s j c)"
  unfolding first_fit_def find_upt_Some by (auto simp: free_run_def)

lemma first_fit_None: "first_fit s c = None \<longleftrightarrow> (\<forall>k. \<not> free_run s k c)"
  unfolding first_fit_def find_None_iff by (auto simp: free_run_def)

lemma pmm_alloc_page_first_fit:
  assumes "pmm_wf s"
  shows "pmm_alloc_page s =
    (case first_fit s 1 of
       None \<Rightarrow> Inr (0, s)
     | Some k \<Rightarrow> Inr (frame_addr k, mark_frame k True s))"
proof (cases "first_fit s 1")
  case None
  then have "\<And>k. k < nframes s \<Longrightarrow> frame_used s k"
    by (auto simp: first_fit_None free_run_1 simp del: One_nat_def)
  then show ?thesis using assms None
    by (simp add: pmm_alloc_page_def pmm_alloc_page_loop_none del: One_nat_def)
next
  case (Some k)
  then have "k < nframes s" "\<not> frame_used s k" "\<And>j. j < k \<Longrightarrow> frame_used s j"
    by (auto simp: first_fit_Some free_run_1 simp del: One_nat_def)
  then show ?thesis using assms Some
    by (simp add: pmm_alloc_page_def pmm_alloc_page_loop_some del: One_nat_def)
qed

lemma pmm_scan_none:
  assumes "pmm_wf s" "unat e \<le> nframes s" "\<And>k. unat i \<le> k \<Longrightarrow> k < unat e \<Longrightarrow> \<not> frame_used s k"
  shows "pmm_scan (g_bitmap s) i e = Inr None"
  using assms
proof (induction "g_bitmap s" i e rule: pmm_scan.induct)
  case (1 i e)
  show ?case
  proof (cases "i < e")
    case True
    then have "i < bit_count (g_bitmap s)" using 1(3) by (simp add: word_less_nat_alt nframes_def)
    moreover have "\<not> frame_used s (unat i)" using 1(4) True by (simp add: word_less_nat_alt)
    ultimately show ?thesis
      using 1 True unat_Suc_less[OF True]
      by (simp add: pmm_scan.simps[of _ i] bitmap_get_frame)
  qed (simp add: pmm_scan.simps)
qed

text \<open>A scan that finds a frame in its way finds the first one, inside or just beyond the bitmap.\<close>

lemma pmm_scan_hit:
  assumes "pmm_wf s" "unat i \<le> k" "k < unat e" "k \<le> nframes s"
    "\<And>j. unat i \<le> j \<Longrightarrow> j < k \<Longrightarrow> \<not> frame_used s j"
    "k < nframes s \<Longrightarrow> frame_used s k"
  shows "pmm_scan (g_bitmap s) i e = Inr (Some (word_of_nat k))"
  using assms
proof (induction "g_bitmap s" i e rule: pmm_scan.induct)
  case (1 i e)
  have lt: "i < e" using 1(3,4) by (simp add: word_less_nat_alt)
  show ?case
  proof (cases "unat i = k")
    case True
    have "bitmap_get_bit_value (g_bitmap s) i \<noteq> Inr 0 \<and>
        (\<exists>b. bitmap_get_bit_value (g_bitmap s) i = Inr b)"
    proof (cases "k < nframes s")
      case True
      then show ?thesis using 1(2,7) \<open>unat i = k\<close>
        by (simp add: bitmap_get_frame word_less_nat_alt nframes_def)
    next
      case False
      then show ?thesis using \<open>unat i = k\<close>
        by (simp add: bitmap_get_out word_le_nat_alt nframes_def)
    qed
    then show ?thesis using lt True by (auto simp: pmm_scan.simps[of _ i])
  next
    case False
    then have "\<not> frame_used s (unat i)" "i < bit_count (g_bitmap s)"
      using 1(3,5,6) by (auto simp: word_less_nat_alt nframes_def)
    then show ?thesis using 1 False lt unat_Suc_less[OF lt]
      by (simp add: pmm_scan.simps[of _ i] bitmap_get_frame)
  qed
qed

lemma no_run_through: "frame_used s j \<Longrightarrow> k \<le> j \<Longrightarrow> j < k + c \<Longrightarrow> \<not> free_run s k c"
  by (auto simp: free_run_def)

lemma first_used:
  assumes "\<not> free_run s i c" "i + c \<le> nframes s"
  obtains j where "i \<le> j" "j < i + c" "frame_used s j" "\<And>l. i \<le> l \<Longrightarrow> l < j \<Longrightarrow> \<not> frame_used s l"
proof -
  obtain j where j: "i \<le> j \<and> j < i + c \<and> frame_used s j"
    using assms by (auto simp: free_run_def)
  define m where "m = (LEAST j. i \<le> j \<and> j < i + c \<and> frame_used s j)"
  have "i \<le> m \<and> m < i + c \<and> frame_used s m" unfolding m_def
    by (rule LeastI[of "\<lambda>j. i \<le> j \<and> j < i + c \<and> frame_used s j", OF j])
  moreover have "\<not> frame_used s l" if "i \<le> l" "l < m" for l
    using not_less_Least[of l "\<lambda>j. i \<le> j \<and> j < i + c \<and> frame_used s j"] that calculation
    by (auto simp: m_def)
  ultimately show thesis using that by blast
qed

text \<open>Jumping past the frame that blocks a run skips no start of a run.\<close>

lemma pmm_alloc_pages_loop_first_fit:
  assumes "pmm_wf s" "0 < count" "unat count \<le> nframes s"
    "\<And>k. k < unat i \<Longrightarrow> \<not> free_run s k (unat count)" "unat i \<le> nframes s"
  shows "pmm_alloc_pages_loop count i s =
    (case first_fit s (unat count) of
       None \<Rightarrow> Inr (0, s)
     | Some k \<Rightarrow> Inr (frame_addr k, mark_frames [k..<k + unat count] True s))"
  using assms
proof (induction count i s rule: pmm_alloc_pages_loop.induct)
  case (1 count i s)
  let ?c = "unat count"
  have lim: "unat (bit_count (g_bitmap s) - count) = nframes s - ?c"
    using 1(4) by (simp add: nframes_def unat_sub word_le_nat_alt)
  show ?case
  proof (cases "unat i + ?c \<le> nframes s")
    case False
    then have "first_fit s ?c = None"
      unfolding first_fit_None using 1(5) by (meson free_run_def not_le order_trans add_le_mono1)
    moreover have "\<not> i \<le> bit_count (g_bitmap s) - count"
      using False lim 1(4) by (simp add: word_le_nat_alt)
    ultimately show ?thesis by (simp add: pmm_alloc_pages_loop.simps[of count])
  next
    case True
    have le: "i \<le> bit_count (g_bitmap s) - count" using True lim by (simp add: word_le_nat_alt)
    have e: "unat (i + count) = unat i + ?c"
      using True 1(2) by (intro unat_add_if_fits) (simp add: pmm_wf_def)
    show ?thesis
    proof (cases "free_run s (unat i) ?c")
      case run: True
      then have "pmm_scan (g_bitmap s) i (i + count) = Inr None"
        using 1(2) True e by (intro pmm_scan_none) (simp_all add: free_run_def)
      moreover have "first_fit s ?c = Some (unat i)" using run 1(5) by (simp add: first_fit_Some)
      moreover have "i \<le> i + count" using e by (simp add: word_le_nat_alt)
      ultimately show ?thesis using le 1(2) True e
        by (simp add: pmm_alloc_pages_loop.simps[of count] mark_used_loop frame_addr_unat[symmetric])
    next
      case False
      then obtain j where j: "unat i \<le> j" "j < unat i + ?c" "frame_used s j"
        "\<And>l. unat i \<le> l \<Longrightarrow> l < j \<Longrightarrow> \<not> frame_used s l"
        using first_used True by blast
      let ?j = "word_of_nat j :: u64"
      have jn: "j < nframes s" "j < 2 ^ 52" using j True 1(2) by (simp_all add: pmm_wf_def)
      then have uj: "unat ?j = j" "unat (?j + 1) = Suc j"
        using unat_Suc_less[of ?j "i + count"] j e by (simp_all add: unat_of_nat word_less_nat_alt)
      have scan: "pmm_scan (g_bitmap s) i (i + count) = Inr (Some ?j)"
        using 1(2) j jn e by (intro pmm_scan_hit) simp_all
      have "\<not> free_run s k ?c" if "k < Suc j" for k
        using that 1(5)[of k] no_run_through[OF j(3), of k ?c] j(1,2) by linarith
      then show ?thesis using 1(1)[OF le scan refl] 1(2-4) uj jn le scan
        by (simp add: pmm_alloc_pages_loop.simps[of count i])
    qed
  qed
qed

lemma pmm_alloc_pages_eq:
  assumes "pmm_wf s" "0 < count" "unat count \<le> nframes s"
  shows "pmm_alloc_pages count s =
    (case first_fit s (unat count) of
       None \<Rightarrow> Inr (0, s)
     | Some k \<Rightarrow> Inr (frame_addr k, mark_frames [k..<k + unat count] True s))"
  using assms pmm_alloc_pages_loop_first_fit[of s count 0]
  by (simp add: pmm_alloc_pages_def word_neq_0_conv)

lemma pmm_scan_beyond:
  assumes "pmm_wf s" "i < e" "nframes s < unat e"
  shows "\<exists>j. pmm_scan (g_bitmap s) i e = Inr (Some j) \<and> (j = i \<or> unat j \<le> nframes s)"
  using assms
proof (induction "g_bitmap s" i e rule: pmm_scan.induct)
  case (1 i e)
  show ?case
  proof (cases "i < bit_count (g_bitmap s) \<and> \<not> frame_used s (unat i)")
    case True
    then have "unat (i + 1) = Suc (unat i)" "Suc (unat i) \<le> nframes s"
      using unat_Suc_less[of i e] 1(3) by (simp_all add: nframes_def word_less_nat_alt)
    then have "\<exists>j. pmm_scan (g_bitmap s) (i + 1) e = Inr (Some j) \<and> unat j \<le> nframes s"
      using 1(1)[of 0] 1(2-4) True by (auto simp: bitmap_get_frame word_less_nat_alt)
    then show ?thesis using 1(2,3) True by (auto simp: pmm_scan.simps[of _ i] bitmap_get_frame)
  next
    case False
    then show ?thesis using 1(2,3)
      by (cases "i < bit_count (g_bitmap s)")
        (auto simp: pmm_scan.simps[of _ i] bitmap_get_frame bitmap_get_out)
  qed
qed

text \<open>A request for more frames than there are.\<close>

lemma pmm_alloc_pages_loop_oversized:
  assumes "pmm_wf s" "nframes s < unat count" "unat count < 2 ^ 52" "unat i \<le> 2 ^ 64 - unat count"
  shows "pmm_alloc_pages_loop count i s = Inr (- count * REGULAR_PAGE_SIZE, s)"
  using assms
proof (induction count i s rule: pmm_alloc_pages_loop.induct)
  case (1 count i s)
  let ?c = "unat count"
  have um: "unat (- count) = 2 ^ 64 - ?c" using 1(3) by (intro unat_uminus_u64) auto
  have "bit_count (g_bitmap s) - count = - count + bit_count (g_bitmap s)" by simp
  then have lim: "unat (bit_count (g_bitmap s) - count) = 2 ^ 64 - ?c + nframes s"
    using unat_add_if_fits[of "- count" "bit_count (g_bitmap s)"] um 1(3,4) by (simp add: nframes_def)
  have le: "i \<le> bit_count (g_bitmap s) - count" using lim 1(5) by (simp add: word_le_nat_alt)
  show ?case
  proof (cases "unat i = 2 ^ 64 - ?c")
    case True
    then have "i = - count" using um by (simp add: word_unat_eq_iff)
    then show ?thesis using le
      by (simp add: pmm_alloc_pages_loop.simps[of count] pmm_scan.simps for_loop_done)
  next
    case False
    then have e: "unat (i + count) = unat i + ?c" using 1(5) by (intro unat_add_if_fits) simp
    have "\<exists>j. pmm_scan (g_bitmap s) i (i + count) = Inr (Some j) \<and> (j = i \<or> unat j \<le> nframes s)"
      using 1(2,3) e by (intro pmm_scan_beyond) (simp_all add: word_less_nat_alt)
    then obtain j where scan: "pmm_scan (g_bitmap s) i (i + count) = Inr (Some j)"
      and j: "j = i \<or> unat j \<le> nframes s" by blast
    have "unat (j + 1) = Suc (unat j)"
      using pmm_scan_Some[OF scan] by (intro unat_Suc_less[of j "i + count"]) blast
    moreover have "unat (j + 1) \<le> 2 ^ 64 - ?c" using calculation j False 1(3-5) by auto
    ultimately show ?thesis using 1(1)[OF le scan refl] 1(2-4) le scan
      by (simp add: pmm_alloc_pages_loop.simps[of count i])
  qed
qed

section \<open>The memory map\<close>

definition me_usable :: "limine_memmap_entry \<Rightarrow> bool" where
  "me_usable e \<longleftrightarrow> me_type e = LIMINE_MEMMAP_USABLE"

definition me_frames :: "limine_memmap_entry \<Rightarrow> nat list" where
  "me_frames e = [frame_of (me_base e)..<frame_of (me_base e) + unat (me_length e) div 4096]"

text \<open>
  What the boot protocol guarantees of the map: no region wraps around the address space, and the
  usable regions start and end on page boundaries.
\<close>

definition memmap_ok :: "limine_memmap_entry list \<Rightarrow> bool" where
  "memmap_ok entries \<longleftrightarrow> (\<forall>e \<in> set entries.
     unat (me_base e) + unat (me_length e) < 2 ^ 64 \<and>
     (me_usable e \<longrightarrow> me_base e mod REGULAR_PAGE_SIZE = 0 \<and> me_length e mod REGULAR_PAGE_SIZE = 0))"

lemma get_ram_max_size_mono: "m \<le> get_ram_max_size es m"
proof (induction es arbitrary: m)
  case (Cons e es)
  show ?case using Cons[of m] Cons[of "me_base e + me_length e"]
    by (auto simp: Let_def intro: order_trans[OF less_imp_le])
qed simp

lemma get_ram_max_size_top:
  assumes "e \<in> set es" "me_usable e" "unat (me_base e) + unat (me_length e) < 2 ^ 64"
  shows "unat (me_base e) + unat (me_length e) \<le> unat (get_ram_max_size es m)"
  using assms
proof (induction es arbitrary: m)
  case (Cons x es)
  show ?case
  proof (cases "e = x")
    case True
    let ?m = "if me_base e + me_length e > m then me_base e + me_length e else m"
    have "get_ram_max_size (x # es) m = get_ram_max_size es ?m"
      using Cons.prems(2) True by (simp add: me_usable_def Let_def)
    moreover have "me_base e + me_length e \<le> get_ram_max_size es ?m"
      using get_ram_max_size_mono[of ?m es] by (auto intro: order_trans split: if_splits)
    ultimately show ?thesis using Cons.prems(3)
      by (simp add: word_le_nat_alt unat_add_if_fits)
  next
    case False
    then show ?thesis using Cons by (simp add: Let_def)
  qed
qed simp

lemma get_bitmap_region_loop_found:
  assumes "\<exists>e \<in> set es. me_usable e \<and> bytes \<le> me_length e"
  shows "\<exists>j < length es. get_bitmap_region_loop i es bytes = i + int j \<and>
    me_usable (es ! j) \<and> bytes \<le> me_length (es ! j)"
  using assms
proof (induction es arbitrary: i)
  case (Cons e es)
  show ?case
  proof (cases "me_usable e \<and> bytes \<le> me_length e")
    case True
    then show ?thesis by (auto simp: me_usable_def intro!: exI[of _ 0])
  next
    case False
    then obtain j where "j < length es" "get_bitmap_region_loop (i + 1) es bytes = i + 1 + int j"
      "me_usable (es ! j)" "bytes \<le> me_length (es ! j)"
      using Cons by force
    then show ?thesis using False by (intro exI[of _ "Suc j"]) (auto simp: me_usable_def)
  qed
qed simp

lemma me_base_frame:
  assumes "base mod REGULAR_PAGE_SIZE = 0"
  shows "base = frame_addr (frame_of base)"
proof -
  have "unat base mod 4096 = 0" using assms unat_mod_distrib[of base REGULAR_PAGE_SIZE] by simp
  then have "unat base = frame_of base * 4096"
    using div_mult_mod_eq[of "unat base" 4096] by (simp add: frame_of_def)
  then have "word_of_nat (unat base) = frame_addr (frame_of base)"
    by (simp only: frame_addr_def of_nat_mult of_nat_numeral)
  then show ?thesis by simp
qed

lemma mark_region_free_eq:
  assumes "pmm_wf s" "me_base e mod REGULAR_PAGE_SIZE = 0"
    "frame_of (me_base e) + unat (me_length e) div 4096 \<le> nframes s"
  shows "mark_region_free e s = Inr (mark_frames (me_frames e) False s)"
proof -
  have n: "unat (me_length e div REGULAR_PAGE_SIZE) = unat (me_length e) div 4096"
    by (simp add: unat_div_distrib)
  have "for_loop 0 (me_length e div REGULAR_PAGE_SIZE)
      (\<lambda>i. set_page_as_unused (frame_addr (frame_of (me_base e)) + i * REGULAR_PAGE_SIZE)) s =
      Inr (mark_frames (me_frames e) False s)"
    using assms n by (simp add: set_unused_loop me_frames_def)
  then show ?thesis unfolding mark_region_free_def by (simp flip: me_base_frame[OF assms(2)])
qed

lemma mark_frames_append: "mark_frames (xs @ ys) v s = mark_frames ys v (mark_frames xs v s)"
  by (simp add: mark_frames_def)

lemma mark_usable_regions_eq:
  assumes "pmm_wf s"
    "\<And>e. e \<in> set es \<Longrightarrow> me_usable e \<Longrightarrow> me_base e mod REGULAR_PAGE_SIZE = 0 \<and>
       frame_of (me_base e) + unat (me_length e) div 4096 \<le> nframes s"
  shows "mark_usable_regions es s =
    Inr (mark_frames (concat (map me_frames (filter me_usable es))) False s)"
  using assms
proof (induction es arbitrary: s)
  case (Cons e es)
  then show ?case
    by (cases "me_usable e") (simp_all add: mark_region_free_eq mark_frames_append me_usable_def)
qed simp

text \<open>The sizes init_pmm computes, on natural numbers.\<close>

definition bitmap_bytes :: "limine_memmap_entry list \<Rightarrow> nat" where
  "bitmap_bytes entries = (unat (get_ram_max_size entries 0) div 4096 + 7) div 8"

definition bitmap_pages :: "limine_memmap_entry list \<Rightarrow> nat" where
  "bitmap_pages entries = (bitmap_bytes entries + 4095) div 4096"

lemma unat_DIV_ROUND_UP:
  assumes "unat x + unat a < 2 ^ 64" "0 < a"
  shows "unat (DIV_ROUND_UP x a) = (unat x + (unat a - 1)) div unat a"
proof -
  have "unat (x + a) = unat x + unat a" using assms(1) by (simp add: unat_add_if_fits)
  moreover have "unat (1 :: u64) \<le> unat (x + a)" using calculation assms(2)
    by (simp add: word_less_nat_alt)
  ultimately have "unat (x + a - 1) = unat x + unat a - 1"
    by (simp add: unat_sub word_le_nat_alt)
  then show ?thesis using assms(2)
    by (simp add: DIV_ROUND_UP_def unat_div_distrib word_less_nat_alt)
qed

lemma bitmap_sizes:
  fixes entries defines "bits \<equiv> get_ram_max_size entries 0 div REGULAR_PAGE_SIZE"
  shows "unat bits = unat (get_ram_max_size entries 0) div 4096"
    "unat bits < 2 ^ 52"
    "unat (DIV_ROUND_UP bits 8) = bitmap_bytes entries"
    "unat (DIV_ROUND_UP (DIV_ROUND_UP bits 8) REGULAR_PAGE_SIZE) = bitmap_pages entries"
proof -
  show b: "unat bits = unat (get_ram_max_size entries 0) div 4096"
    by (simp add: bits_def unat_div_distrib)
  show lt: "unat bits < 2 ^ 52" using unat_u64_less[of "get_ram_max_size entries 0"] b by simp
  then show bb: "unat (DIV_ROUND_UP bits 8) = bitmap_bytes entries"
    using b by (subst unat_DIV_ROUND_UP) (simp_all add: bitmap_bytes_def)
  moreover have "bitmap_bytes entries < 2 ^ 52" using lt b by (simp add: bitmap_bytes_def)
  ultimately show "unat (DIV_ROUND_UP (DIV_ROUND_UP bits 8) REGULAR_PAGE_SIZE) = bitmap_pages entries"
    by (subst unat_DIV_ROUND_UP) (simp_all add: bitmap_pages_def)
qed

lemma bm_bit_all_ones:
  assumes "bitmap bm = replicate b 0xFF @ bs" "k < n" "(n + 7) div 8 \<le> b"
  shows "bm_bit bm k"
proof -
  have "k div 8 < b" using assms(2,3) by (simp add: less_mult_imp_div_less)
  moreover have "bit (255 :: u8) j" if "j < 8" for j
  proof -
    have "(255 :: u8) = -1" by simp
    then show ?thesis using that by (simp only: bit_minus_1_iff) simp
  qed
  ultimately show ?thesis by (simp only: bm_bit_def assms(1) nth_append length_replicate if_True nth_replicate)
qed

lemma usable_frames_fit:
  assumes "memmap_ok entries" "e \<in> set entries" "me_usable e"
  shows "me_base e mod REGULAR_PAGE_SIZE = 0"
    "frame_of (me_base e) + unat (me_length e) div 4096 \<le> unat (get_ram_max_size entries 0) div 4096"
proof -
  have e: "unat (me_base e) + unat (me_length e) < 2 ^ 64" "me_base e mod REGULAR_PAGE_SIZE = 0"
    using assms by (simp_all add: memmap_ok_def)
  then show "me_base e mod REGULAR_PAGE_SIZE = 0" by simp
  have "unat (me_base e) mod 4096 = 0"
    using e(2) unat_mod_distrib[of "me_base e" REGULAR_PAGE_SIZE] by simp
  then have "frame_of (me_base e) + unat (me_length e) div 4096 =
      (unat (me_base e) + unat (me_length e)) div 4096"
    by (simp add: frame_of_def div_add1_eq)
  also have "\<dots> \<le> unat (get_ram_max_size entries 0) div 4096"
    using get_ram_max_size_top[OF assms(2,3) e(1)] by (rule div_le_mono)
  finally show "frame_of (me_base e) + unat (me_length e) div 4096 \<le>
      unat (get_ram_max_size entries 0) div 4096" .
qed

lemma bitmap_pages_fit:
  assumes "memmap_ok entries" "e \<in> set entries" "me_usable e" "bitmap_bytes entries \<le> unat (me_length e)"
  shows "bitmap_pages entries \<le> unat (me_length e) div 4096"
proof -
  have "unat (me_length e) mod 4096 = 0"
    using assms(1-3) unat_mod_distrib[of "me_length e" REGULAR_PAGE_SIZE] by (simp add: memmap_ok_def)
  then obtain q where "unat (me_length e) = 4096 * q" by (auto simp: mod_eq_0_iff_dvd)
  then show ?thesis using assms(4) by (simp add: bitmap_pages_def less_mult_imp_div_less less_Suc_eq_le[symmetric])
qed

lemma init_pmm_marks:
  assumes ok: "memmap_ok entries"
    and room: "\<exists>e \<in> set entries. me_usable e \<and> bitmap_bytes entries \<le> unat (me_length e)"
  defines "ram \<equiv> get_ram_max_size entries 0"
  shows "\<exists>e s0. e \<in> set entries \<and> me_usable e \<and> bitmap_bytes entries \<le> unat (me_length e) \<and>
    nat (get_bitmap_region entries ram) < length entries \<and>
    e = entries ! nat (get_bitmap_region entries ram) \<and>
    pmm_wf s0 \<and> pmm_hhdm_offset s0 = off \<and> nframes s0 = unat ram div 4096 \<and>
    (\<forall>k < nframes s0. frame_used s0 k) \<and>
    init_pmm m (Some entries) (Some off) s =
      Inr (mark_frames [frame_of (me_base e)..<frame_of (me_base e) + bitmap_pages entries] True
            (mark_frames (concat (map me_frames (filter me_usable entries))) False s0))"
proof -
  let ?bits = "ram div REGULAR_PAGE_SIZE"
  let ?bytes = "DIV_ROUND_UP ?bits 8"
  note sz = bitmap_sizes[of entries, folded ram_def]
  obtain j where j: "j < length entries" "get_bitmap_region entries ram = int j"
    "me_usable (entries ! j)" "?bytes \<le> me_length (entries ! j)"
    using get_bitmap_region_loop_found[of entries ?bytes 0] room sz(3)
    by (auto simp: get_bitmap_region_def word_le_nat_alt)
  let ?e = "entries ! j"
  have e: "?e \<in> set entries" "bitmap_bytes entries \<le> unat (me_length ?e)"
    using j sz(3) by (simp_all add: word_le_nat_alt)
  let ?buf = "mem_bytes m (me_base ?e + off) (unat (me_length ?e))"
  obtain bm where bm: "bitmap_create ?buf ?bits = Inr bm" "bit_count bm = ?bits"
    "length (bitmap bm) = unat (me_length ?e)"
    using bitmap_create_ok[of ?bits ?buf] sz(1,2) e(2) by (auto simp: bitmap_bytes_def ram_def)
  let ?bs = "replicate (bitmap_bytes entries) 0xFF @ drop (bitmap_bytes entries) (bitmap bm)"
  define s0 where "s0 = s\<lparr>pmm_hhdm_offset := off, g_bitmap := bm\<lparr>bitmap := ?bs\<rparr>\<rparr>"
  have fill: "for_loop 0 ?bytes (\<lambda>i bs. arr_set bs (unat i) 0xFF) (bitmap bm) = Inr ?bs"
    using e(2) bm(3) sz(3) by (simp add: arr_fill_loop)
  have n: "nframes s0 = unat ram div 4096" using bm(2) sz(1) by (simp add: s0_def nframes_def ram_def)
  have bb: "bitmap_bytes entries = (nframes s0 + 7) div 8" by (simp add: bitmap_bytes_def n ram_def)
  have "unat ?bits \<le> 8 * bitmap_bytes entries" using bb n sz(1) by (simp add: ram_def)
  then have wf: "pmm_wf s0"
    using n sz(1,2) bm e(2) by (simp add: pmm_wf_def bitmap_wf_def s0_def ram_def)
  have bs: "bitmap (g_bitmap s0) = ?bs" by (simp add: s0_def)
  have ones: "\<forall>k < nframes s0. frame_used s0 k"
    unfolding frame_used_def by (intro allI impI, rule bm_bit_all_ones[OF bs]) (assumption, simp add: bb)
  let ?l = "concat (map me_frames (filter me_usable entries))"
  have free: "mark_usable_regions entries s0 = Inr (mark_frames ?l False s0)"
    using wf n usable_frames_fit[OF ok] by (intro mark_usable_regions_eq) (simp_all add: ram_def)
  have "frame_of (me_base ?e) + bitmap_pages entries \<le> nframes s0"
    using usable_frames_fit(2)[OF ok e(1) j(3)] bitmap_pages_fit[OF ok e(1) j(3) e(2)] n
    by (simp add: ram_def)
  then have last: "for_loop 0 (DIV_ROUND_UP ?bytes REGULAR_PAGE_SIZE)
      (\<lambda>i. set_page_as_used (me_base ?e + i * REGULAR_PAGE_SIZE)) (mark_frames ?l False s0) =
      Inr (mark_frames [frame_of (me_base ?e)..<frame_of (me_base ?e) + bitmap_pages entries] True
        (mark_frames ?l False s0))"
    using set_used_loop[of "mark_frames ?l False s0" "frame_of (me_base ?e)"] wf sz(4)
      me_base_frame[OF usable_frames_fit(1)[OF ok e(1) j(3)], symmetric] by simp
  have "init_pmm m (Some entries) (Some off) s =
      Inr (mark_frames [frame_of (me_base ?e)..<frame_of (me_base ?e) + bitmap_pages entries] True
        (mark_frames ?l False s0))"
    using j(2) bm(1) fill free last
    by (simp add: init_pmm_def Let_def ram_def[symmetric] s0_def[symmetric])
  then show ?thesis using j e wf n ones by (intro exI[of _ ?e] exI[of _ s0]) (simp add: s0_def)
qed

section \<open>The bitmap allocator meets the frame allocator contract\<close>

definition frame_taken :: "'a pmm_state_scheme \<Rightarrow> nat \<Rightarrow> bool" where
  "frame_taken s k \<longleftrightarrow> k < nframes s \<and> frame_used s k"

text \<open>Frame 0 is never handed out: its address is NULL, which means failure.\<close>

definition pmm_inv :: "'a pmm_state_scheme \<Rightarrow> bool" where
  "pmm_inv s \<longleftrightarrow> pmm_wf s \<and> frame_taken s 0"

lemma frame_taken_mark_frames:
  assumes "pmm_wf s" "\<forall>i \<in> set is. i < nframes s"
  shows "frame_taken (mark_frames is True s) = (\<lambda>k. frame_taken s k \<or> k \<in> set is)"
    and "frame_taken (mark_frames is False s) = (\<lambda>k. frame_taken s k \<and> k \<notin> set is)"
  using assms by (auto simp: frame_taken_def frame_used_mark_frames fun_eq_iff)

lemma pmm_alloc_pages_law:
  assumes "pmm_inv s" "0 < c" "unat c \<le> nframes s"
  shows "pmm_alloc_pages c s = Inr (0, s) \<or>
    (\<exists>a s'. pmm_alloc_pages c s = Inr (a, s') \<and> a \<noteq> 0 \<and> a = frame_addr (frame_of a) \<and> pmm_inv s' \<and>
      nframes s' = nframes s \<and> (\<forall>k \<in> run_frames (a, c). \<not> frame_taken s k) \<and>
      frame_taken s' = (\<lambda>k. frame_taken s k \<or> k \<in> run_frames (a, c)))"
proof (cases "first_fit s (unat c)")
  case None
  then show ?thesis using assms by (simp add: pmm_alloc_pages_eq pmm_inv_def)
next
  case (Some k)
  have c: "0 < unat c" using assms(2) by (simp add: word_less_nat_alt)
  have run: "k + unat c \<le> nframes s" "\<forall>i \<in> {k..<k + unat c}. \<not> frame_used s i"
    using Some by (simp_all add: first_fit_Some free_run_def)
  have "k \<noteq> 0" using run c assms(1) by (auto simp: pmm_inv_def frame_taken_def intro!: gr0I)
  moreover have k: "k < 2 ^ 52" using run c assms(1) by (simp add: pmm_inv_def pmm_wf_def)
  ultimately have "frame_addr k \<noteq> 0" by (simp add: frame_addr_0)
  moreover have fr: "run_frames (frame_addr k, c) = {k..<k + unat c}"
    using k by (simp add: run_frames_def frame_of_frame_addr)
  have wf: "pmm_wf s" using assms(1) by (simp add: pmm_inv_def)
  have taken: "frame_taken (mark_frames [k..<k + unat c] True s) =
      (\<lambda>i. frame_taken s i \<or> i \<in> {k..<k + unat c})"
    using run by (subst frame_taken_mark_frames[OF wf]) auto
  moreover have "pmm_inv (mark_frames [k..<k + unat c] True s)"
    using assms(1) taken by (simp add: pmm_inv_def)
  ultimately show ?thesis using Some k assms run wf
    by (intro disjI2 exI[of _ "frame_addr k"] exI[of _ "mark_frames [k..<k + unat c] True s"])
      (simp add: pmm_alloc_pages_eq fr frame_of_frame_addr frame_taken_def)
qed

lemma pmm_free_pages_law:
  assumes "pmm_inv s" "a = frame_addr (frame_of a)" "frame_of a \<noteq> 0"
    "\<forall>k \<in> run_frames (a, c). frame_taken s k"
  shows "\<exists>s'. pmm_free_pages a c s = Inr s' \<and> pmm_inv s' \<and> nframes s' = nframes s \<and>
    frame_taken s' = (\<lambda>k. frame_taken s k \<and> k \<notin> run_frames (a, c))"
proof (cases "c = 0")
  case True
  then show ?thesis using assms(1) by (simp add: pmm_free_pages_def run_frames_def)
next
  case False
  let ?k = "frame_of a"
  have wf: "pmm_wf s" using assms(1) by (simp add: pmm_inv_def)
  have c: "0 < unat c" using False by (simp add: unat_gt_0)
  then have "?k + unat c - 1 \<in> run_frames (a, c)" by (auto simp: run_frames_def)
  then have "?k + unat c - 1 < nframes s" using assms(4) by (simp add: frame_taken_def)
  then have fit: "?k + unat c \<le> nframes s" using c by simp
  have free: "pmm_free_pages a c s = Inr (mark_frames [?k..<?k + unat c] False s)"
    using pmm_free_pages_marks[OF wf fit] assms(2) by simp
  have taken: "frame_taken (mark_frames [?k..<?k + unat c] False s) =
      (\<lambda>k. frame_taken s k \<and> k \<notin> run_frames (a, c))"
    using fit by (subst frame_taken_mark_frames[OF wf]) (auto simp: run_frames_def)
  then have "pmm_inv (mark_frames [?k..<?k + unat c] False s)"
    using assms(1,3) by (simp add: pmm_inv_def run_frames_def)
  then show ?thesis using free taken by simp
qed

interpretation pmm_frames: frame_allocator pmm_inv nframes frame_taken pmm_alloc_pages pmm_free_pages
  by unfold_locales (fact pmm_alloc_pages_law, fact pmm_free_pages_law)

lemma pmm_alloc_page_is_pages_1:
  assumes "pmm_wf s" "0 < nframes s"
  shows "pmm_alloc_page s = pmm_alloc_pages 1 s"
  using assms
  by (cases "first_fit s 1")
    (simp_all add: pmm_alloc_page_first_fit pmm_alloc_pages_eq mark_frames_def)

section \<open>Properties\<close>


definition pmm_demo :: pmm_state where
  "pmm_demo = \<lparr>g_bitmap = \<lparr>bit_count = 8, bitmap = [0x15]\<rparr>, pmm_hhdm_offset = 0\<rparr>"

lemma pmm_demo_inv: "pmm_inv pmm_demo" "nframes pmm_demo = 8" "pmm_wf pmm_demo"
  by (simp_all add: pmm_inv_def frame_taken_def frame_used_def bm_bit_def pmm_wf_def bitmap_wf_def
      nframes_def pmm_demo_def)


text \<open>C12: Starting from a state in which frame 0 is reserved, any sequence of requests for at
  least one and at most all frames, mixed with releases of runs still held, runs without panic;
  the runs held at the end are page aligned, not NULL, pairwise disjoint and were free at the
  start, and the frames in use are exactly those in use at the start and those of the runs
  held.\<close>

theorem pmm_requests_safe:
  assumes "pmm_inv s" "\<forall>op \<in> set ops. op_fits (nframes s) op"
  shows "\<exists>held s'. frame_ops pmm_alloc_pages pmm_free_pages ops [] s = Inr (held, s') \<and>
    pmm_inv s' \<and> runs_disjoint held \<and>
    (\<forall>b \<in> set held. fst b \<noteq> 0 \<and> fst b = frame_addr (frame_of (fst b)) \<and>
       (\<forall>k \<in> run_frames b. \<not> frame_taken s k)) \<and>
    frame_taken s' = (\<lambda>k. frame_taken s k \<or> (\<exists>b \<in> set held. k \<in> run_frames b))"
  using pmm_frames.frame_ops_ok[of "frame_taken s" "[]" s ops] assms
  by (simp add: pmm_frames.held_ok_def runs_disjoint_def)

theorem pmm_requests_safe_witness:
  "\<exists>held s'. frame_ops pmm_alloc_pages pmm_free_pages
      [Alloc_frames 1, Alloc_frames 2, Free_frames 1, Alloc_frames 8] [] pmm_demo = Inr (held, s') \<and>
    runs_disjoint held"
  using pmm_requests_safe[of pmm_demo
      "[Alloc_frames 1, Alloc_frames 2, Free_frames 1, Alloc_frames 8]"] pmm_demo_inv
  by (auto simp: op_fits_def)

lemma init_pmm_free_frames:
  assumes "memmap_ok entries"
    and "\<exists>e \<in> set entries. me_usable e \<and> bitmap_bytes entries \<le> unat (me_length e)"
  shows "\<exists>s' e. init_pmm m (Some entries) (Some off) s = Inr s' \<and>
    pmm_wf s' \<and> pmm_hhdm_offset s' = off \<and>
    nframes s' = unat (get_ram_max_size entries 0) div 4096 \<and>
    e \<in> set entries \<and> me_usable e \<and> bitmap_pages entries \<le> unat (me_length e) div 4096 \<and>
    (\<forall>k < nframes s'. \<not> frame_used s' k \<longleftrightarrow>
       (\<exists>e \<in> set entries. me_usable e \<and> k \<in> set (me_frames e)) \<and>
       k \<notin> {frame_of (me_base e)..<frame_of (me_base e) + bitmap_pages entries})"
proof -
  obtain e s0 where e: "e \<in> set entries" "me_usable e" "bitmap_bytes entries \<le> unat (me_length e)"
    and s0: "pmm_wf s0" "pmm_hhdm_offset s0 = off"
      "nframes s0 = unat (get_ram_max_size entries 0) div 4096" "\<forall>k < nframes s0. frame_used s0 k"
    and i: "init_pmm m (Some entries) (Some off) s =
      Inr (mark_frames [frame_of (me_base e)..<frame_of (me_base e) + bitmap_pages entries] True
            (mark_frames (concat (map me_frames (filter me_usable entries))) False s0))"
    using init_pmm_marks[OF assms] by blast
  note fit = bitmap_pages_fit[OF assms(1) e] usable_frames_fit(2)[OF assms(1)]
  have 1: "\<forall>i \<in> set (concat (map me_frames (filter me_usable entries))). i < nframes s0"
    using fit(2) s0(3) by (fastforce simp: me_frames_def)
  have 2: "\<forall>i \<in> set [frame_of (me_base e)..<frame_of (me_base e) + bitmap_pages entries]. i < nframes s0"
    using fit(1) fit(2)[OF e(1,2)] s0(3) by auto
  let ?l = "concat (map me_frames (filter me_usable entries))"
  let ?b = "[frame_of (me_base e)..<frame_of (me_base e) + bitmap_pages entries]"
  let ?s' = "mark_frames ?b True (mark_frames ?l False s0)"
  have "frame_used ?s' k = (k \<in> set ?b \<or> k \<notin> set ?l \<and> frame_used s0 k)" for k
    using 1 2 s0(1) by (simp only: frame_used_mark_frames mark_frames_simps) auto
  then have "\<forall>k < nframes s0. \<not> frame_used ?s' k \<longleftrightarrow> k \<in> set ?l \<and> k \<notin> set ?b"
    using s0(4) by blast
  then show ?thesis using e(1,2) fit(1) s0(1-3) i
    by (intro exI[of _ ?s'] exI[of _ e]) auto
qed



text \<open>C20: A request for more frames than the machine has is not refused. The unsigned bound of the
  search wraps around, and the call ends by returning a non-NULL address at the top of the
  address space without reserving any frame.\<close>

theorem pmm_alloc_pages_oversized:
  assumes "pmm_wf s" "nframes s < unat count" "unat count < 2 ^ 52"
  shows "pmm_alloc_pages count s = Inr (- count * REGULAR_PAGE_SIZE, s) \<and>
    - count * REGULAR_PAGE_SIZE \<noteq> 0"
proof -
  have "count \<noteq> 0" using assms(2) by auto
  moreover have "unat (count * REGULAR_PAGE_SIZE) = unat count * 4096"
    using assms(3) by (subst unat_mult_if_fits) simp_all
  then have "count * REGULAR_PAGE_SIZE \<noteq> 0" using calculation
    by (auto simp: word_unat_eq_iff simp flip: unat_eq_0)
  ultimately show ?thesis using pmm_alloc_pages_loop_oversized[of s count 0] assms
    by (simp add: pmm_alloc_pages_def)
qed

theorem pmm_alloc_pages_oversized_witness:
  "pmm_alloc_pages 9 pmm_demo = Inr (0xFFFFFFFFFFFF7000, pmm_demo)"
  using pmm_alloc_pages_oversized[of pmm_demo 9] pmm_demo_inv by simp

end
