(* ===== verification/Vmm.thy ===== *)
theory Vmm
  imports Pmm
begin

text \<open>
  The virtual memory manager, kernel/mm/vmm/vmm.c, over the page table layout of
  include/paging\_x86\_64.h. Page tables live in the byte memory \<open>kmem\<close> at their addresses in the
  direct map (hhdm). A page table entry is its raw 64-bit word, the bit fields are functions of
  it. Flushing the TLB has no effect on this state.
\<close>

section \<open>Layout of entries and addresses\<close>

abbreviation (input) "HUGE_PAGE_SIZE \<equiv> (0x200000 :: u64)"
abbreviation (input) "SUPER_HUGE_PAGE_SIZE \<equiv> (0x40000000 :: u64)"

definition PAGE_ADDR_TO_PAGE_TABLE_ENTRY_INDEX :: "u64 \<Rightarrow> u64" where
  "PAGE_ADDR_TO_PAGE_TABLE_ENTRY_INDEX x = drop_bit 12 x"

definition PAGE_TABLE_ENTRY_INDEX_TO_PAGE_ADDR :: "u64 \<Rightarrow> u64" where
  "PAGE_TABLE_ENTRY_INDEX_TO_PAGE_ADDR x = push_bit 12 x"

text \<open>union virtual\_addr\<close>

definition va_offset :: "u64 \<Rightarrow> u64" where "va_offset v = v AND mask 12"
definition va_pt_index :: "u64 \<Rightarrow> u64" where "va_pt_index v = drop_bit 12 v AND mask 9"
definition va_pd_index :: "u64 \<Rightarrow> u64" where "va_pd_index v = drop_bit 21 v AND mask 9"
definition va_pdp_index :: "u64 \<Rightarrow> u64" where "va_pdp_index v = drop_bit 30 v AND mask 9"
definition va_plm4_index :: "u64 \<Rightarrow> u64" where "va_plm4_index v = drop_bit 39 v AND mask 9"

text \<open>union page\_table\_entry\<close>

definition pte_present :: "u64 \<Rightarrow> bool" where "pte_present e = bit e 0"
definition pte_writable :: "u64 \<Rightarrow> bool" where "pte_writable e = bit e 1"
definition pte_user_access :: "u64 \<Rightarrow> bool" where "pte_user_access e = bit e 2"
definition pte_huge_page :: "u64 \<Rightarrow> bool" where "pte_huge_page e = bit e 7"
definition pte_index :: "u64 \<Rightarrow> u64" where "pte_index e = drop_bit 12 e AND mask 40"

definition pte_set_user_access :: "u64 \<Rightarrow> u64" where
  "pte_set_user_access e = set_bit 2 e"

definition pte_set_index :: "u64 \<Rightarrow> u64 \<Rightarrow> u64" where
  "pte_set_index e ix =
     (e AND NOT (push_bit 12 (mask 40))) OR push_bit 12 (ix AND mask 40)"

text \<open>An entry with present and write-through set and every other flag clear.\<close>

definition pte_make :: "bool \<Rightarrow> bool \<Rightarrow> u64 \<Rightarrow> u64" where
  "pte_make writable user_access ix =
     1 OR push_bit 1 (of_bool writable) OR push_bit 2 (of_bool user_access) OR push_bit 3 1 OR
     push_bit 12 (ix AND mask 40)"

text \<open>enum vmm\_map\_page\_flags, read through union map\_page\_flags\<close>

abbreviation (input) "MPF_OVERRIDE_CURRENT_PAGING \<equiv> (1 :: u64)"
abbreviation (input) "MPF_WRITABLE_PAGE \<equiv> (2 :: u64)"
abbreviation (input) "MPF_USER_ACCESSIBLE \<equiv> (4 :: u64)"

definition mpf_override_page :: "u64 \<Rightarrow> bool" where "mpf_override_page f = bit f 0"
definition mpf_writable_page :: "u64 \<Rightarrow> bool" where "mpf_writable_page f = bit f 1"
definition mpf_user_accessible :: "u64 \<Rightarrow> bool" where "mpf_user_accessible f = bit f 2"

section \<open>State\<close>

record vmm_state = pmm_state +
  kmem :: mem
  vmm_hhdm_offset :: u64
  cr3 :: u64

text \<open>The address of entry i of the table at t.\<close>

definition pte_addr :: "u64 \<Rightarrow> u64 \<Rightarrow> u64" where
  "pte_addr t i = t + 8 * i"

definition pte_read :: "'a vmm_state_scheme \<Rightarrow> u64 \<Rightarrow> u64 \<Rightarrow> u64" where
  "pte_read s t i = read64 (kmem s) (pte_addr t i)"

definition pte_write :: "u64 \<Rightarrow> u64 \<Rightarrow> u64 \<Rightarrow> 'a vmm_state_scheme \<Rightarrow> 'a vmm_state_scheme" where
  "pte_write t i e s = s\<lparr>kmem := write64 (kmem s) (pte_addr t i) e\<rparr>"

section \<open>Operations\<close>

definition init_vmm :: "u64 option \<Rightarrow> 'a vmm_state_scheme \<Rightarrow> 'a vmm_state_scheme kres" where
  "init_vmm hhdm_response s =
     (case hhdm_response of
        None \<Rightarrow> Inl (Kernel_panic ''There should be hhdm enabled'')
      | Some offset \<Rightarrow> Inr (s\<lparr>vmm_hhdm_offset := offset\<rparr>))"

definition vmm_phys_to_virt_hhdm :: "'a vmm_state_scheme \<Rightarrow> u64 \<Rightarrow> u64" where
  "vmm_phys_to_virt_hhdm s paddr = paddr + vmm_hhdm_offset s"

definition vmm_virt_hhdm_to_phys :: "'a vmm_state_scheme \<Rightarrow> u64 \<Rightarrow> u64" where
  "vmm_virt_hhdm_to_phys s vaddr = vaddr - vmm_hhdm_offset s"

definition vmm_get_curr_pagemap :: "'a vmm_state_scheme \<Rightarrow> u64" where
  "vmm_get_curr_pagemap s = (cr3 s AND NOT 0xFFF) + vmm_hhdm_offset s"

definition vmm_reload_cr3 :: "u64 \<Rightarrow> 'a vmm_state_scheme \<Rightarrow> 'a vmm_state_scheme" where
  "vmm_reload_cr3 new_pagemap_hhdm s = s\<lparr>cr3 := new_pagemap_hhdm - vmm_hhdm_offset s\<rparr>"

definition get_next_page_table :: "'a vmm_state_scheme \<Rightarrow> u64 \<Rightarrow> u64 \<Rightarrow> u64" where
  "get_next_page_table s curr_page_table curr_page_table_index =
     (let page_index = pte_index (pte_read s curr_page_table curr_page_table_index);
          page_paddr = PAGE_TABLE_ENTRY_INDEX_TO_PAGE_ADDR page_index
      in page_paddr + vmm_hhdm_offset s)"

definition allocate_page_table_page ::
  "'a vmm_state_scheme \<Rightarrow> (u64 \<times> 'a vmm_state_scheme) kres" where
  "allocate_page_table_page s =
     kbind (pmm_alloc_page s) (\<lambda>(phys_addr, s).
     kassert (phys_addr \<noteq> 0) ''Kernel ran out of memory''
     (let new_page_table = phys_addr + vmm_hhdm_offset s
      in Inr (pte_make True True (PAGE_ADDR_TO_PAGE_TABLE_ENTRY_INDEX phys_addr),
              s\<lparr>kmem := memset new_page_table 0 4096 (kmem s)\<rparr>)))"

text \<open>One round of the loop of vmm\_map\_page, and the loop over the upper three levels.\<close>

definition vmm_map_level ::
  "u64 \<Rightarrow> u64 \<Rightarrow> u64 \<Rightarrow> 'a vmm_state_scheme \<Rightarrow> (u64 \<times> 'a vmm_state_scheme) kres" where
  "vmm_map_level flags i curr_page_table s =
     kbind (if pte_read s curr_page_table i = 0
            then kbind (allocate_page_table_page s) (\<lambda>(e, s). Inr (pte_write curr_page_table i e s))
            else Inr s) (\<lambda>s.
     let s = (if mpf_user_accessible flags
              then pte_write curr_page_table i (pte_set_user_access (pte_read s curr_page_table i)) s
              else s)
     in Inr (get_next_page_table s curr_page_table i, s))"

fun vmm_map_levels ::
  "u64 \<Rightarrow> u64 list \<Rightarrow> u64 \<Rightarrow> 'a vmm_state_scheme \<Rightarrow> (u64 \<times> 'a vmm_state_scheme) kres" where
  "vmm_map_levels flags [] t s = Inr (t, s)"
| "vmm_map_levels flags (i # is) t s =
     kbind (vmm_map_level flags i t s) (\<lambda>(t, s). vmm_map_levels flags is t s)"

definition va_indexes :: "u64 \<Rightarrow> u64 list" where
  "va_indexes v = [va_plm4_index v, va_pdp_index v, va_pd_index v]"

definition vmm_map_page ::
  "u64 \<Rightarrow> u64 \<Rightarrow> u64 \<Rightarrow> u64 \<Rightarrow> 'a vmm_state_scheme \<Rightarrow> (int \<times> 'a vmm_state_scheme) kres" where
  "vmm_map_page pagemap vaddr paddr flags s =
     kbind (vmm_map_levels flags (va_indexes vaddr) pagemap s) (\<lambda>(t, s).
     if \<not> mpf_override_page flags \<and> pte_read s t (va_pt_index vaddr) \<noteq> 0 then Inr (-1, s)
     else Inr (0, pte_write t (va_pt_index vaddr)
                    (pte_make (mpf_writable_page flags) (mpf_user_accessible flags)
                       (PAGE_ADDR_TO_PAGE_TABLE_ENTRY_INDEX paddr)) s))"

text \<open>The walk of vmm\_unmap\_page stops at an entry that does not exist.\<close>

fun vmm_unmap_levels :: "u64 list \<Rightarrow> u64 \<Rightarrow> 'a vmm_state_scheme \<Rightarrow> u64 option" where
  "vmm_unmap_levels [] t s = Some t"
| "vmm_unmap_levels (i # is) t s =
     (if pte_read s t i = 0 then None else vmm_unmap_levels is (get_next_page_table s t i) s)"

definition vmm_unmap_page ::
  "u64 \<Rightarrow> u64 \<Rightarrow> u64 \<Rightarrow> 'a vmm_state_scheme \<Rightarrow> int \<times> 'a vmm_state_scheme" where
  "vmm_unmap_page pagemap vaddr flags s =
     (case vmm_unmap_levels (va_indexes vaddr) pagemap s of
        None \<Rightarrow> (-1, s)
      | Some t \<Rightarrow>
          if pte_read s t (va_pt_index vaddr) = 0 then (-1, s)
          else (0, pte_write t (va_pt_index vaddr) 0 s))"

definition vmm_create_new_pagemap ::
  "'a vmm_state_scheme \<Rightarrow> (u64 \<times> 'a vmm_state_scheme) kres" where
  "vmm_create_new_pagemap s =
     (let curr_pagemap = vmm_get_curr_pagemap s
      in kbind (pmm_alloc_page_hhdm s) (\<lambda>(new_page_map, s).
         kassert (new_page_map \<noteq> 0) ''Kernel ran out of memory''
         (let s = s\<lparr>kmem := memcpy (new_page_map + REGULAR_PAGE_SIZE div 2)
                             (curr_pagemap + REGULAR_PAGE_SIZE div 2) (REGULAR_PAGE_SIZE div 2)
                             (kmem s)\<rparr>;
              s = s\<lparr>kmem := memset new_page_map 0 (REGULAR_PAGE_SIZE div 2) (kmem s)\<rparr>
          in Inr (new_page_map, s))))"

definition vmm_count_spanned_pages :: "u64 \<Rightarrow> u64 \<Rightarrow> u64" where
  "vmm_count_spanned_pages start_ptr end_ptr =
     (let start_page = start_ptr AND NOT (REGULAR_PAGE_SIZE - 1);
          end_page = end_ptr AND NOT (REGULAR_PAGE_SIZE - 1)
      in (end_page - start_page) div REGULAR_PAGE_SIZE + 1)"

section \<open>Cloning and deleting a pagemap\<close>

definition level_entries :: "nat \<Rightarrow> u64" where
  "level_entries level = (if level = 4 then 512 div 2 else 512)"

text \<open>The recursion is on the level; each level runs over its entries with the calls below it.\<close>

primrec recursive_pagemap_clone ::
  "nat \<Rightarrow> u64 \<Rightarrow> u64 \<Rightarrow> 'a vmm_state_scheme \<Rightarrow> 'a vmm_state_scheme kres" where
  "recursive_pagemap_clone 0 curr_page_table new_page_table s = Inr s"
| "recursive_pagemap_clone (Suc l) curr_page_table new_page_table s =
     for_loop 0 (level_entries (Suc l)) (\<lambda>i s.
       let entry = pte_read s curr_page_table i
       in if entry = 0 then Inr s
          else
            kassert (pte_present entry) ''Page table entry should be present if it is non-zero''
            (kassert (\<not> pte_huge_page entry) ''Huge pages are not supported''
            (kbind (pmm_alloc_page s) (\<lambda>(new_page_phys, s).
             let new_page_hhdm = vmm_phys_to_virt_hhdm s new_page_phys;
                 s = s\<lparr>kmem := memset new_page_hhdm 0 REGULAR_PAGE_SIZE (kmem s)\<rparr>;
                 s = pte_write new_page_table i (pte_read s curr_page_table i) s;
                 s = pte_write new_page_table i
                       (pte_set_index (pte_read s new_page_table i)
                          (PAGE_ADDR_TO_PAGE_TABLE_ENTRY_INDEX new_page_phys)) s
             in if Suc l \<noteq> 1
                then recursive_pagemap_clone l (get_next_page_table s curr_page_table i)
                       (get_next_page_table s new_page_table i) s
                else
                  let original_page_phys = PAGE_TABLE_ENTRY_INDEX_TO_PAGE_ADDR
                        (pte_index (pte_read s curr_page_table i));
                      original_page_hhdm = vmm_phys_to_virt_hhdm s original_page_phys
                  in Inr (s\<lparr>kmem := memcpy new_page_hhdm original_page_hhdm REGULAR_PAGE_SIZE
                                     (kmem s)\<rparr>))))) s"

definition vmm_clone_pagemap ::
  "u64 \<Rightarrow> 'a vmm_state_scheme \<Rightarrow> (u64 \<times> 'a vmm_state_scheme) kres" where
  "vmm_clone_pagemap pagemap_hhdm s =
     kbind (vmm_create_new_pagemap s) (\<lambda>(new_page_map, s).
     kbind (recursive_pagemap_clone 4 pagemap_hhdm new_page_map s) (\<lambda>s.
     Inr (new_page_map, s)))"

primrec recursive_pagemap_delete ::
  "nat \<Rightarrow> u64 \<Rightarrow> 'a vmm_state_scheme \<Rightarrow> 'a vmm_state_scheme kres" where
  "recursive_pagemap_delete 0 curr_page_table s = Inr s"
| "recursive_pagemap_delete (Suc l) curr_page_table s =
     for_loop 0 (level_entries (Suc l)) (\<lambda>i s.
       let entry = pte_read s curr_page_table i
       in if entry = 0 then Inr s
          else if \<not> pte_present entry then Inr (pte_write curr_page_table i 0 s)
          else
            let next_page_table = get_next_page_table s curr_page_table i
            in if \<not> pte_huge_page entry \<or> Suc l = 1
               then kbind (recursive_pagemap_delete l next_page_table s) (\<lambda>s.
                    kbind (pmm_free_page (next_page_table - vmm_hhdm_offset s) s) (\<lambda>s.
                    Inr (pte_write curr_page_table i 0 s)))
               else
                 let page_size = (if Suc l = 3 then SUPER_HUGE_PAGE_SIZE else HUGE_PAGE_SIZE)
                 in kbind (for_loop 0 (page_size div REGULAR_PAGE_SIZE) (\<lambda>j s.
                             let page_addr = next_page_table + j * REGULAR_PAGE_SIZE
                             in pmm_free_page (page_addr - vmm_hhdm_offset s) s) s) (\<lambda>s.
                    Inr (pte_write curr_page_table i 0 s))) s"

definition vmm_delete_pagemap :: "u64 \<Rightarrow> 'a vmm_state_scheme \<Rightarrow> 'a vmm_state_scheme kres" where
  "vmm_delete_pagemap pagemap_hhdm s =
     kbind (recursive_pagemap_delete 4 pagemap_hhdm s) (\<lambda>s.
     pmm_free_page (pagemap_hhdm - vmm_hhdm_offset s) s)"

end
