(* ===== verification/Kernel_Heap.thy ===== *)
theory Kernel_Heap
  imports Vmm
begin

text \<open>
  The kernel heap, kernel/mm/heap/heap.c. Block headers are 32 bytes in the byte memory: the size
  of the buffer behind the header, the links of a doubly linked list and padding. Blocks come
  from whole pages (super blocks) and, after kfree, from the free list; requests that do not fit
  a page are served from the page allocator. Walking a list may not end, so the search is a
  partial function and not ending is the error \<open>Hang\<close>.
\<close>

section \<open>State and header fields\<close>

record heap_state = vmm_state +
  g_super_blocks :: u64
  g_free_blocks :: u64
  g_free_block_tail :: u64

definition mb_block_size :: "'a vmm_state_scheme \<Rightarrow> u64 \<Rightarrow> u64" where
  "mb_block_size s b = read64 (kmem s) b"

definition mb_next :: "'a vmm_state_scheme \<Rightarrow> u64 \<Rightarrow> u64" where
  "mb_next s b = read64 (kmem s) (b + 8)"

definition mb_prev :: "'a vmm_state_scheme \<Rightarrow> u64 \<Rightarrow> u64" where
  "mb_prev s b = read64 (kmem s) (b + 16)"

definition mb_set_block_size :: "u64 \<Rightarrow> u64 \<Rightarrow> 'a vmm_state_scheme \<Rightarrow> 'a vmm_state_scheme" where
  "mb_set_block_size b v s = s\<lparr>kmem := write64 (kmem s) b v\<rparr>"

definition mb_set_next :: "u64 \<Rightarrow> u64 \<Rightarrow> 'a vmm_state_scheme \<Rightarrow> 'a vmm_state_scheme" where
  "mb_set_next b v s = s\<lparr>kmem := write64 (kmem s) (b + 8) v\<rparr>"

definition mb_set_prev :: "u64 \<Rightarrow> u64 \<Rightarrow> 'a vmm_state_scheme \<Rightarrow> 'a vmm_state_scheme" where
  "mb_set_prev b v s = s\<lparr>kmem := write64 (kmem s) (b + 16) v\<rparr>"

definition mb_set_padding :: "u64 \<Rightarrow> u64 \<Rightarrow> 'a vmm_state_scheme \<Rightarrow> 'a vmm_state_scheme" where
  "mb_set_padding b v s = s\<lparr>kmem := write64 (kmem s) (b + 24) v\<rparr>"

abbreviation (input) "MEMORY_BLOCK_SIZE \<equiv> (32 :: u64)"

definition ALIGN_UP :: "u64 \<Rightarrow> u64 \<Rightarrow> u64" where
  "ALIGN_UP x align = (if x mod align = 0 then x else x + align - x mod align)"

definition GET_MEMORY_BLOCK_BUFFER :: "u64 \<Rightarrow> u64" where
  "GET_MEMORY_BLOCK_BUFFER x = x + MEMORY_BLOCK_SIZE"

text \<open>Storing through a NULL pointer is a fault.\<close>

definition nonnull :: "u64 \<Rightarrow> 'b kres \<Rightarrow> 'b kres" where
  "nonnull p k = (if p = 0 then Inl Fault else k)"

section \<open>Lists of blocks\<close>

definition init_kernel_heap :: "'a heap_state_scheme \<Rightarrow> 'a heap_state_scheme kres" where
  "init_kernel_heap s =
     kbind (pmm_alloc_page_hhdm s) (\<lambda>(buffer, s).
     let s = s\<lparr>g_super_blocks := buffer\<rparr>
     in nonnull (g_super_blocks s)
        (let s = mb_set_block_size (g_super_blocks s) (REGULAR_PAGE_SIZE - MEMORY_BLOCK_SIZE) s;
             s = mb_set_next (g_super_blocks s) 0 s;
             s = mb_set_prev (g_super_blocks s) 0 s
         in Inr s))"

partial_function (option) find_big_enough_block ::
  "'a vmm_state_scheme \<Rightarrow> u64 \<Rightarrow> u64 \<Rightarrow> u64 option" where
  "find_big_enough_block s curr_block sz =
     (if curr_block = 0 then Some 0
      else if mb_block_size s curr_block \<ge> sz then Some curr_block
      else find_big_enough_block s (mb_next s curr_block) sz)"

definition remove_memory_block_from_list ::
  "u64 \<Rightarrow> 'a heap_state_scheme \<Rightarrow> 'a heap_state_scheme kres" where
  "remove_memory_block_from_list block s =
     (if mb_prev s block = 0
      then if block = g_free_blocks s
           then let s = s\<lparr>g_free_blocks := mb_next s (g_free_blocks s)\<rparr>
                in Inr (if g_free_blocks s \<noteq> 0 then mb_set_prev (g_free_blocks s) 0 s
                        else s\<lparr>g_free_block_tail := 0\<rparr>)
           else if block = g_super_blocks s
           then let s = s\<lparr>g_super_blocks := mb_next s (g_super_blocks s)\<rparr>
                in Inr (if g_super_blocks s \<noteq> 0 then mb_set_prev (g_super_blocks s) 0 s else s)
           else Inl (Kernel_panic ''Unknown memory block'')
      else
        let s = mb_set_next (mb_prev s block) (mb_next s block) s
        in Inr (if mb_next s block \<noteq> 0 then mb_set_prev (mb_next s block) (mb_prev s block) s
                else if block = g_free_block_tail s then s\<lparr>g_free_block_tail := mb_prev s block\<rparr>
                else s))"

definition replace_memory_block_in_list ::
  "u64 \<Rightarrow> u64 \<Rightarrow> 'a heap_state_scheme \<Rightarrow> 'a heap_state_scheme kres" where
  "replace_memory_block_in_list old_block new_block s =
     (let s = mb_set_next new_block (mb_next s old_block) s;
          s = mb_set_prev new_block (mb_prev s old_block) s
      in kbind
           (if mb_prev s new_block \<noteq> 0 then Inr (mb_set_next (mb_prev s new_block) new_block s)
            else if old_block = g_free_blocks s then Inr (s\<lparr>g_free_blocks := new_block\<rparr>)
            else if old_block = g_super_blocks s then Inr (s\<lparr>g_super_blocks := new_block\<rparr>)
            else Inl (Kernel_panic ''Unknown memory block'')) (\<lambda>s.
         Inr (if mb_next s new_block \<noteq> 0 then mb_set_prev (mb_next s new_block) new_block s
              else if old_block = g_free_block_tail s then s\<lparr>g_free_block_tail := new_block\<rparr>
              else s)))"

section \<open>Allocation\<close>

definition malloc_from_block ::
  "u64 \<Rightarrow> u64 \<Rightarrow> 'a heap_state_scheme \<Rightarrow> (u64 \<times> 'a heap_state_scheme) kres" where
  "malloc_from_block block sz s =
     kassert (mb_block_size s block \<ge> sz)
       ''Trying to allocate from a memory block with not enough size''
     (if mb_block_size s block \<le> sz + 2 * MEMORY_BLOCK_SIZE
      then kbind (remove_memory_block_from_list block s) (\<lambda>s.
           Inr (GET_MEMORY_BLOCK_BUFFER block, s))
      else
        let original_block_replacement = GET_MEMORY_BLOCK_BUFFER block + sz;
            s = mb_set_block_size original_block_replacement
                  (mb_block_size s block - (sz + MEMORY_BLOCK_SIZE)) s
        in kbind (replace_memory_block_in_list block original_block_replacement s) (\<lambda>s.
           Inr (GET_MEMORY_BLOCK_BUFFER block, mb_set_block_size block sz s)))"

definition malloc_largeblock ::
  "u64 \<Rightarrow> 'a heap_state_scheme \<Rightarrow> (u64 \<times> 'a heap_state_scheme) kres" where
  "malloc_largeblock sz s =
     (let sz = ALIGN_UP (sz + MEMORY_BLOCK_SIZE) REGULAR_PAGE_SIZE;
          block_pagecount = sz div REGULAR_PAGE_SIZE
      in kbind (pmm_alloc_pages_hhdm block_pagecount s) (\<lambda>(largeblock, s).
         kassert (largeblock \<noteq> 0) ''Kernel does not have enough memory to allocate that''
         (let s = mb_set_next largeblock 0 s;
              s = mb_set_prev largeblock 0 s;
              s = mb_set_padding largeblock 0 s;
              s = mb_set_block_size largeblock (sz - MEMORY_BLOCK_SIZE) s
          in Inr (GET_MEMORY_BLOCK_BUFFER largeblock, s))))"

text \<open>The search through a list; a search that does not end hangs the kernel.\<close>

definition find_block :: "'a vmm_state_scheme \<Rightarrow> u64 \<Rightarrow> u64 \<Rightarrow> u64 kres" where
  "find_block s blocks sz =
     (case find_big_enough_block s blocks sz of None \<Rightarrow> Inl Hang | Some b \<Rightarrow> Inr b)"

definition kmalloc :: "u64 \<Rightarrow> 'a heap_state_scheme \<Rightarrow> (u64 \<times> 'a heap_state_scheme) kres" where
  "kmalloc sz s =
     kassert (sz \<noteq> 0) ''Trying to allocate size 0''
     (let sz = ALIGN_UP sz MEMORY_BLOCK_SIZE
      in if sz > REGULAR_PAGE_SIZE - MEMORY_BLOCK_SIZE then malloc_largeblock sz s
         else kbind (find_block s (g_free_blocks s) sz) (\<lambda>block.
              if block \<noteq> 0 then malloc_from_block block sz s
              else kbind (find_block s (g_super_blocks s) sz) (\<lambda>block.
                   if block \<noteq> 0 then malloc_from_block block sz s
                   else
                     let buffer_page_count =
                           DIV_ROUND_UP (sz + MEMORY_BLOCK_SIZE) REGULAR_PAGE_SIZE
                     in kbind (pmm_alloc_pages_hhdm buffer_page_count s) (\<lambda>(buffer, s).
                        if buffer = 0
                        then Inl (Kernel_panic ''Kernel does not have enough memory to allocate that'')
                        else
                          let new_super_block = buffer;
                              s = mb_set_block_size new_super_block
                                    (buffer_page_count * REGULAR_PAGE_SIZE - MEMORY_BLOCK_SIZE) s;
                              s = mb_set_next new_super_block (g_super_blocks s) s;
                              s = mb_set_prev new_super_block 0 s;
                              s = (if g_super_blocks s \<noteq> 0
                                   then mb_set_prev (g_super_blocks s) new_super_block s else s);
                              s = s\<lparr>g_super_blocks := new_super_block\<rparr>
                          in malloc_from_block (g_super_blocks s) sz s))))"

section \<open>Release\<close>

definition free_largeblock :: "u64 \<Rightarrow> 'a heap_state_scheme \<Rightarrow> 'a heap_state_scheme kres" where
  "free_largeblock addr s =
     (let addr_header = addr - MEMORY_BLOCK_SIZE;
          block_totalsize = mb_block_size s addr_header + MEMORY_BLOCK_SIZE;
          block_pagecount = block_totalsize div REGULAR_PAGE_SIZE;
          block_phys_addr = vmm_virt_hhdm_to_phys s addr_header
      in pmm_free_pages block_phys_addr block_pagecount s)"

definition kfree :: "u64 \<Rightarrow> 'a heap_state_scheme \<Rightarrow> 'a heap_state_scheme kres" where
  "kfree addr s =
     (let addr_header = addr - MEMORY_BLOCK_SIZE
      in if mb_block_size s addr_header > REGULAR_PAGE_SIZE - MEMORY_BLOCK_SIZE
         then free_largeblock addr s
         else
           let s = mb_set_next addr_header 0 s
           in if g_free_blocks s = 0
              then let s = mb_set_prev addr_header 0 s
                   in Inr (s\<lparr>g_free_blocks := addr_header, g_free_block_tail := addr_header\<rparr>)
              else
                let s = mb_set_prev addr_header (g_free_block_tail s) s
                in nonnull (g_free_block_tail s)
                   (let s = mb_set_next (g_free_block_tail s) addr_header s
                    in Inr (s\<lparr>g_free_block_tail := addr_header\<rparr>)))"

end
