(* ===== verification/Vmm_Walk.thy ===== *)
theory Vmm_Walk
  imports Vmm "HOL-Library.Sublist"
begin

text \<open>
  What mapping and unmapping do to address translation. The page table tree of a pagemap is
  described by the tables reachable along paths of indexes; the invariant says that different
  paths reach different tables, all in frames in use. Translation is the walk of the processor,
  with the access rights collected on the way; a large page above the last level ends it.
\<close>

section \<open>Pages\<close>

definition page_aligned :: "u64 \<Rightarrow> bool" where
  "page_aligned a \<longleftrightarrow> 4096 dvd unat a"

lemma page_aligned_add_unat:
  "page_aligned t \<Longrightarrow> unat x < 4096 \<Longrightarrow> unat (t + x) = unat t + unat x"
proof -
  assume t: "page_aligned t" and x: "unat x < 4096"
  obtain q where q: "unat t = 4096 * q" using t by (auto simp: page_aligned_def)
  then have "q < 2 ^ 52" using unat_u64_less[of t] by simp
  then show ?thesis using q x by (intro unat_add_if_fits) simp
qed

lemma page_aligned_diff: "page_aligned t \<Longrightarrow> page_aligned n \<Longrightarrow> page_aligned (t - n)"
  unfolding page_aligned_def
  by (cases "n \<le> t")
    (auto simp: unat_sub_if_size word_size word_le_nat_alt not_le intro!: dvd_diff_nat dvd_add)

lemma page_aligned_add: "page_aligned t \<Longrightarrow> page_aligned n \<Longrightarrow> page_aligned (t + n)"
  by (simp add: page_aligned_def unat_word_ariths mod_add_eq dvd_mod)

lemma page_aligned_frame_addr [simp]: "page_aligned (frame_addr k)"
  by (simp add: page_aligned_def frame_addr_def unat_word_ariths dvd_mod)

lemma in_page_iff:
  assumes "page_aligned t" "page_aligned n" "unat x < 4096"
  shows "unat (t + x - n) < 4096 \<longleftrightarrow> t = n"
proof -
  have d: "page_aligned (t - n)" using assms by (simp add: page_aligned_diff)
  then have "unat (t + x - n) = unat (t - n) + unat x"
    using page_aligned_add_unat[OF d assms(3)] by (simp add: algebra_simps)
  moreover have "unat (t - n) < 4096 \<longleftrightarrow> unat (t - n) = 0"
    using d by (auto simp: page_aligned_def elim!: dvdE)
  ultimately show ?thesis using assms(3) by (auto simp: unat_eq_0)
qed

lemma pte_addr_inj:
  assumes "page_aligned t" "page_aligned t'" "i < 512" "i' < 512" "pte_addr t i = pte_addr t' i'"
  shows "t = t' \<and> i = i'"
proof -
  have x: "unat (8 * j :: u64) = 8 * unat j" "unat (8 * j) < 4096" if "j < 512" for j :: u64
    using that by (simp_all add: unat_word_ariths word_less_nat_alt)
  have "pte_addr t i - t' = 8 * i'" using assms(5) by (simp add: pte_addr_def)
  then have "unat (t + 8 * i - t') < 4096" using x(2)[OF assms(4)] by (simp add: pte_addr_def)
  then have "t = t'" using in_page_iff[OF assms(1,2) x(2)[OF assms(3)]] by simp
  moreover from this have "8 * i = 8 * i'" using assms(5) by (simp add: pte_addr_def)
  then have "8 * unat i = 8 * unat i'" using x(1) assms(3,4) by metis
  ultimately show ?thesis by (simp add: word_unat_eq_iff)
qed

lemma pte_addr_aligned:
  assumes "page_aligned t" "i < 512"
  shows "8 dvd unat (pte_addr t i)"
proof -
  have x: "unat (8 * i) = 8 * unat i" "unat (8 * i) < 4096"
    using assms(2) by (simp_all add: unat_word_ariths word_less_nat_alt)
  have "8 dvd unat t" using assms(1) unfolding page_aligned_def by (rule dvd_trans[rotated]) simp
  then show ?thesis using page_aligned_add_unat[OF assms(1) x(2)] x(1) by (simp add: pte_addr_def)
qed

section \<open>Reading entries back\<close>

lemma pte_write_simps [simp]:
  "nframes (pte_write t i e s) = nframes s"
  "frame_taken (pte_write t i e s) k = frame_taken s k"
  "pmm_inv (pte_write t i e s) = pmm_inv s"
  "vmm_hhdm_offset (pte_write t i e s) = vmm_hhdm_offset s"
  "pmm_hhdm_offset (pte_write t i e s) = pmm_hhdm_offset s"
  "g_bitmap (pte_write t i e s) = g_bitmap s"
  by (simp_all add: pte_write_def nframes_def frame_taken_def frame_used_def pmm_inv_def pmm_wf_def)

lemma pte_read_write:
  assumes "page_aligned t" "page_aligned t'" "i < 512" "i' < 512"
  shows "pte_read (pte_write t i e s) t' i' = (if t = t' \<and> i = i' then e else pte_read s t' i')"
proof (cases "pte_addr t i = pte_addr t' i'")
  case True
  then show ?thesis using pte_addr_inj[OF assms] by (simp add: pte_read_def pte_write_def)
next
  case False
  then have "\<not> (t = t' \<and> i = i')" by auto
  then show ?thesis using False assms
    by (auto simp: pte_read_def pte_write_def read64_write64_other pte_addr_aligned)
qed

lemma pte_byte_offset:
  assumes "i < 512" "j < 8"
  shows "unat (8 * i + word_of_nat j :: u64) < 4096"
  using assms by (simp add: unat_word_ariths word_less_nat_alt unat_of_nat)

lemma pte_read_cong:
  assumes "\<And>x. unat x < 4096 \<Longrightarrow> kmem s (t + x) = kmem s' (t' + x)" "i < 512"
  shows "pte_read s t i = pte_read s' t' i"
proof -
  have "mem_bytes (kmem s) (pte_addr t i) 8 = mem_bytes (kmem s') (pte_addr t' i) 8"
    using assms(1)[OF pte_byte_offset[OF assms(2)]]
    by (intro mem_bytes_cong) (simp add: pte_addr_def add.assoc)
  then show ?thesis by (simp add: pte_read_def read64_def)
qed

lemma read64_zero: "(\<And>j. j < 8 \<Longrightarrow> m (a + word_of_nat j) = 0) \<Longrightarrow> read64 m a = 0"
proof -
  assume "\<And>j. j < 8 \<Longrightarrow> m (a + word_of_nat j) = 0"
  then have "mem_bytes m a 8 = replicate 8 0" by (intro nth_equalityI) simp_all
  then show ?thesis by (intro bit_word_eqI) (simp add: read64_def bit_le_word)
qed

lemma memset_page:
  assumes "page_aligned n" "page_aligned t" "unat x < 4096"
  shows "memset n 0 4096 m (t + x) = (if t = n then 0 else m (t + x))"
  using in_page_iff[OF assms(2,1,3)] by (simp add: memset_closed)

section \<open>Bit fields\<close>

lemma pte_index_less: "unat (pte_index e) < 2 ^ 40"
proof -
  have "pte_index e = take_bit 40 (drop_bit 12 e)" by (simp add: pte_index_def take_bit_eq_mask)
  then have "unat (pte_index e) = take_bit 40 (unat (drop_bit 12 e))"
    by (simp add: unsigned_take_bit_eq)
  then show ?thesis using take_bit_nat_less_exp[of 40 "unat (drop_bit 12 e)"] by simp
qed

lemma pte_make_fields [simp]:
  "pte_present (pte_make w u x)" "pte_writable (pte_make w u x) = w"
  "pte_user_access (pte_make w u x) = u" "\<not> pte_huge_page (pte_make w u x)"
  "pte_index (pte_make w u x) = x AND mask 40"
  "pte_make w u x \<noteq> 0"
proof -
  show "pte_present (pte_make w u x)" "pte_writable (pte_make w u x) = w"
    "pte_user_access (pte_make w u x) = u" "\<not> pte_huge_page (pte_make w u x)"
    by (simp_all add: pte_present_def pte_writable_def pte_user_access_def pte_huge_page_def
        pte_make_def bit_simps)
  then show "pte_make w u x \<noteq> 0" by (auto simp: pte_present_def)
  show "pte_index (pte_make w u x) = x AND mask 40"
    by (rule bit_word_eqI) (auto simp: pte_index_def pte_make_def bit_simps)
qed

lemma pte_set_user_fields [simp]:
  "pte_present (pte_set_user_access e) = pte_present e"
  "pte_writable (pte_set_user_access e) = pte_writable e"
  "pte_user_access (pte_set_user_access e)"
  "pte_huge_page (pte_set_user_access e) = pte_huge_page e"
  "pte_index (pte_set_user_access e) = pte_index e"
  "pte_set_user_access e \<noteq> 0"
proof -
  show "pte_present (pte_set_user_access e) = pte_present e"
    "pte_writable (pte_set_user_access e) = pte_writable e"
    "pte_user_access (pte_set_user_access e)"
    "pte_huge_page (pte_set_user_access e) = pte_huge_page e"
    by (simp_all add: pte_present_def pte_writable_def pte_user_access_def pte_huge_page_def
        pte_set_user_access_def bit_simps)
  then show "pte_set_user_access e \<noteq> 0" by (auto simp: pte_user_access_def)
  show "pte_index (pte_set_user_access e) = pte_index e"
    by (rule bit_word_eqI) (auto simp: pte_index_def pte_set_user_access_def bit_simps)
qed

lemma frame_index:
  "k < 2 ^ 40 \<Longrightarrow> PAGE_TABLE_ENTRY_INDEX_TO_PAGE_ADDR
     (PAGE_ADDR_TO_PAGE_TABLE_ENTRY_INDEX (frame_addr k) AND mask 40) = frame_addr k"
proof -
  assume k: "k < 2 ^ 40"
  have u: "unat (frame_addr k) = 4096 * k" using k by (intro unat_frame_addr) simp
  have "unat (drop_bit 12 (frame_addr k)) = k"
    by (simp add: drop_bit_eq_div unat_div_distrib u)
  then have "drop_bit 12 (frame_addr k) = word_of_nat k" using k by (simp add: word_unat_eq_iff unat_of_nat)
  moreover have "word_of_nat k AND mask 40 = (word_of_nat k :: u64)"
    using k by (simp add: take_bit_eq_mask[symmetric] take_bit_of_nat take_bit_nat_eq_self)
  ultimately show ?thesis
    by (simp add: PAGE_TABLE_ENTRY_INDEX_TO_PAGE_ADDR_def PAGE_ADDR_TO_PAGE_TABLE_ENTRY_INDEX_def
        push_bit_eq_mult frame_addr_def)
qed

section \<open>The tables of a pagemap\<close>

definition hhdm_page :: "'a vmm_state_scheme \<Rightarrow> nat \<Rightarrow> u64" where
  "hhdm_page s k = frame_addr k + vmm_hhdm_offset s"

definition vmm_wf :: "'a vmm_state_scheme \<Rightarrow> bool" where
  "vmm_wf s \<longleftrightarrow> pmm_inv s \<and> nframes s \<le> 2 ^ 40 \<and> page_aligned (vmm_hhdm_offset s) \<and>
     unat (vmm_hhdm_offset s) + 4096 * nframes s \<le> 2 ^ 64 \<and>
     pmm_hhdm_offset s = vmm_hhdm_offset s"

text \<open>The table below entry i of table t: none if the entry is empty or maps a large page.\<close>

definition table_step :: "'a vmm_state_scheme \<Rightarrow> u64 \<Rightarrow> u64 \<Rightarrow> u64 option" where
  "table_step s t i =
     (let e = pte_read s t i
      in if e = 0 \<or> pte_huge_page e then None else Some (get_next_page_table s t i))"

definition table_at :: "'a vmm_state_scheme \<Rightarrow> u64 \<Rightarrow> u64 list \<Rightarrow> u64 option" where
  "table_at s root p = foldl (\<lambda>t i. Option.bind t (\<lambda>t. table_step s t i)) (Some root) p"

definition pt_path :: "u64 list \<Rightarrow> bool" where
  "pt_path p \<longleftrightarrow> length p \<le> 3 \<and> (\<forall>i \<in> set p. i < 512)"

text \<open>An entry above the last level that leads to a table is present and writable.\<close>

definition pte_mid_ok :: "u64 \<Rightarrow> bool" where
  "pte_mid_ok e \<longleftrightarrow> e = 0 \<or> pte_huge_page e \<or> pte_present e \<and> pte_writable e"

definition pt_inv :: "'a vmm_state_scheme \<Rightarrow> u64 \<Rightarrow> bool" where
  "pt_inv s root \<longleftrightarrow>
     (\<forall>p t. pt_path p \<and> table_at s root p = Some t \<longrightarrow> (\<exists>k. frame_taken s k \<and> t = hhdm_page s k)) \<and>
     (\<forall>p q t. pt_path p \<and> pt_path q \<and> table_at s root p = Some t \<and> table_at s root q = Some t \<longrightarrow> p = q) \<and>
     (\<forall>p i t. pt_path (p @ [i]) \<and> table_at s root p = Some t \<longrightarrow> pte_mid_ok (pte_read s t i))"

lemma table_at_simps [simp]:
  "table_at s root [] = Some root"
  "table_at s root (p @ [i]) = Option.bind (table_at s root p) (\<lambda>t. table_step s t i)"
  by (simp_all add: table_at_def)

lemma table_at_single: "table_at s root [i] = table_step s root i"
  by (simp add: table_at_def)

lemma table_at_Cons_snoc:
  "table_at s root (i # p @ [j]) = Option.bind (table_at s root (i # p)) (\<lambda>t. table_step s t j)"
  by (simp add: table_at_def)

lemma pt_path_append [simp]:
  "pt_path (p @ [i]) \<longleftrightarrow> length p \<le> 2 \<and> i < 512 \<and> pt_path p"
  by (auto simp: pt_path_def)

lemma pt_path_Nil [simp]: "pt_path []"
  by (simp add: pt_path_def)

lemma hhdm_page_aligned: "vmm_wf s \<Longrightarrow> page_aligned (hhdm_page s k)"
  by (simp add: hhdm_page_def page_aligned_add vmm_wf_def)

lemma hhdm_page_inj:
  assumes "vmm_wf s" "k < nframes s" "k' < nframes s" "hhdm_page s k = hhdm_page s k'"
  shows "k = k'"
proof -
  have "frame_addr k = frame_addr k'" using assms(4) by (simp add: hhdm_page_def)
  moreover have "k < 2 ^ 52" "k' < 2 ^ 52" using assms by (simp_all add: vmm_wf_def)
  ultimately show ?thesis using frame_of_frame_addr by metis
qed

lemma pt_inv_table:
  assumes "pt_inv s root" "pt_path p" "table_at s root p = Some t"
  shows "\<exists>k. frame_taken s k \<and> t = hhdm_page s k"
  using assms unfolding pt_inv_def by blast

lemma pt_inv_aligned:
  "vmm_wf s \<Longrightarrow> pt_inv s root \<Longrightarrow> pt_path p \<Longrightarrow> table_at s root p = Some t \<Longrightarrow> page_aligned t"
  using pt_inv_table hhdm_page_aligned by metis

lemma pt_inv_inj:
  "pt_inv s root \<Longrightarrow> pt_path p \<Longrightarrow> pt_path q \<Longrightarrow> table_at s root p = Some t \<Longrightarrow>
   table_at s root q = Some t \<Longrightarrow> p = q"
  unfolding pt_inv_def by blast

text \<open>Entries that the walk cannot tell apart.\<close>

definition same_step :: "u64 \<Rightarrow> u64 \<Rightarrow> bool" where
  "same_step e e' \<longleftrightarrow> (e = 0 \<longleftrightarrow> e' = 0) \<and> pte_huge_page e = pte_huge_page e' \<and> pte_index e = pte_index e'"

lemma same_step_refl [simp]: "same_step e e"
  by (simp add: same_step_def)

lemma table_step_cong:
  "same_step (pte_read s' t i) (pte_read s t i) \<Longrightarrow> vmm_hhdm_offset s' = vmm_hhdm_offset s \<Longrightarrow>
   table_step s' t i = table_step s t i"
  by (simp add: table_step_def get_next_page_table_def same_step_def Let_def)

lemma table_at_unchanged:
  assumes "pt_path p" "vmm_hhdm_offset s' = vmm_hhdm_offset s"
    and "\<And>q t i. pt_path (q @ [i]) \<Longrightarrow> table_at s root q = Some t \<Longrightarrow> prefix (q @ [i]) p \<Longrightarrow>
      same_step (pte_read s' t i) (pte_read s t i)"
  shows "table_at s' root p = table_at s root p"
  using assms(1,3)
proof (induction p rule: rev_induct)
  case (snoc i p)
  have IH: "table_at s' root p = table_at s root p"
  proof (rule snoc.IH)
    fix q t j assume "pt_path (q @ [j])" "table_at s root q = Some t" "prefix (q @ [j]) p"
    then show "same_step (pte_read s' t j) (pte_read s t j)" by (intro snoc.prems(2)) auto
  qed (use snoc.prems in simp)
  show ?case
  proof (cases "table_at s root p")
    case (Some t)
    then show ?thesis using IH snoc.prems(2)[of p i t] snoc.prems(1) assms(2)
      by (simp add: table_step_cong)
  qed (simp add: IH)
qed simp

section \<open>A new table\<close>

lemma pmm_alloc_page_fresh:
  assumes "vmm_wf s" "pmm_alloc_page s = Inr (a, s')" "a \<noteq> 0"
  shows "\<exists>k. k < nframes s \<and> \<not> frame_taken s k \<and> a = frame_addr k \<and> s' = mark_frame k True s"
proof -
  have "pmm_wf s" using assms(1) by (simp add: vmm_wf_def pmm_inv_def)
  then show ?thesis using assms(2,3) pmm_alloc_page_first_fit[of s]
    by (auto simp: first_fit_Some free_run_1 frame_taken_def simp del: One_nat_def split: option.splits)
qed

lemma mark_frame_vmm [simp]:
  "kmem (mark_frame k v s) = kmem s"
  "vmm_hhdm_offset (mark_frame k v s) = vmm_hhdm_offset s"
  "cr3 (mark_frame k v s) = cr3 s"
  by (simp_all add: mark_frame_def)

lemma frame_taken_mark_frame:
  assumes "vmm_wf s" "k < nframes s"
  shows "frame_taken (mark_frame k True s) j = (j = k \<or> frame_taken s j)"
  using assms by (auto simp: frame_taken_def frame_used_mark_frame vmm_wf_def pmm_inv_def)

lemma frame_taken_kmem [simp]: "frame_taken (s\<lparr>kmem := m\<rparr>) k = frame_taken s k"
  "nframes (s\<lparr>kmem := m\<rparr>) = nframes s" "pmm_inv (s\<lparr>kmem := m\<rparr>) = pmm_inv s"
  "pmm_wf (s\<lparr>kmem := m\<rparr>) = pmm_wf s" "hhdm_page (s\<lparr>kmem := m\<rparr>) k = hhdm_page s k"
  by (simp_all add: nframes_def frame_taken_def frame_used_def pmm_inv_def pmm_wf_def hhdm_page_def)

text \<open>What allocate\_page\_table\_page does when it does not run out of memory.\<close>

lemma allocate_page_table_page_spec:
  assumes wf: "vmm_wf s" and a: "allocate_page_table_page s = Inr (e, s')"
  obtains k where "k < nframes s" "\<not> frame_taken s k"
    "e = pte_make True True (PAGE_ADDR_TO_PAGE_TABLE_ENTRY_INDEX (frame_addr k))"
    "vmm_hhdm_offset s' = vmm_hhdm_offset s" "nframes s' = nframes s"
    "frame_taken s' = (\<lambda>j. j = k \<or> frame_taken s j)" "vmm_wf s'"
    "\<And>t i. page_aligned t \<Longrightarrow> i < 512 \<Longrightarrow>
       pte_read s' t i = (if t = hhdm_page s k then 0 else pte_read s t i)"
proof -
  obtain k where k: "k < nframes s" "\<not> frame_taken s k"
    "e = pte_make True True (PAGE_ADDR_TO_PAGE_TABLE_ENTRY_INDEX (frame_addr k))"
    and s': "s' = (mark_frame k True s)\<lparr>kmem := memset (hhdm_page s k) 0 4096 (kmem s)\<rparr>"
    using a pmm_alloc_page_fresh[OF wf]
    by (auto simp: allocate_page_table_page_def Let_def kassert_Inr_iff hhdm_page_def)
  have taken: "frame_taken s' = (\<lambda>j. j = k \<or> frame_taken s j)"
    using frame_taken_mark_frame[OF wf k(1)] by (simp add: s' fun_eq_iff)
  have "vmm_wf s'" using wf taken by (simp add: s' vmm_wf_def pmm_inv_def)
  moreover have "pte_read s' t i = (if t = hhdm_page s k then 0 else pte_read s t i)"
    if t: "page_aligned t" and i: "i < 512" for t i
  proof (cases "t = hhdm_page s k")
    case True
    have "kmem s' (pte_addr t i + word_of_nat j) = 0" if "j < 8" for j
      using memset_page[OF hhdm_page_aligned[OF wf] t pte_byte_offset[OF i that]] True
      by (simp add: s' pte_addr_def add.assoc)
    then show ?thesis using True by (simp add: pte_read_def read64_zero)
  next
    case False
    then show ?thesis using memset_page[OF hhdm_page_aligned[OF wf] t] i
      by (auto simp: s' intro!: pte_read_cong)
  qed
  ultimately show thesis using that k taken by (simp add: s')
qed

section \<open>Changes to one entry\<close>

lemma table_at_prefix:
  assumes "prefix p q" "table_at s root q = Some u"
  shows "\<exists>t. table_at s root p = Some t"
  using assms
proof (induction q arbitrary: u rule: rev_induct)
  case (snoc i q)
  show ?case
  proof (cases "p = q @ [i]")
    case False
    then have "prefix p q" using snoc.prems(1) by auto
    moreover obtain t where "table_at s root q = Some t" using snoc.prems(2) by (auto simp: bind_eq_Some_conv)
    ultimately show ?thesis using snoc.IH by blast
  qed (use snoc.prems in blast)
qed simp

text \<open>Adding a table: the entry of a new table in frame k is written into a free place of the tree.\<close>

definition adds_table ::
  "'a vmm_state_scheme \<Rightarrow> 'a vmm_state_scheme \<Rightarrow> u64 \<Rightarrow> u64 list \<Rightarrow> u64 \<Rightarrow> u64 \<Rightarrow> nat \<Rightarrow> bool" where
  "adds_table s s' root p i t k \<longleftrightarrow>
     vmm_wf s \<and> pt_inv s root \<and> pt_path (p @ [i]) \<and> table_at s root p = Some t \<and>
     pte_read s t i = 0 \<and> k < nframes s \<and> \<not> frame_taken s k \<and>
     vmm_wf s' \<and> vmm_hhdm_offset s' = vmm_hhdm_offset s \<and>
     frame_taken s' = (\<lambda>j. j = k \<or> frame_taken s j) \<and>
     (\<forall>u j. page_aligned u \<longrightarrow> j < 512 \<longrightarrow> pte_read s' u j =
       (if u = t \<and> j = i then pte_make True True (PAGE_ADDR_TO_PAGE_TABLE_ENTRY_INDEX (frame_addr k))
        else if u = hhdm_page s k then 0 else pte_read s u j))"

lemma adds_table_old:
  assumes "adds_table s s' root p i t k" "pt_path q" "table_at s root q = Some u"
  shows "page_aligned u" "u \<noteq> hhdm_page s k"
proof -
  note a = assms(1)[unfolded adds_table_def]
  obtain k' where k': "frame_taken s k'" "u = hhdm_page s k'" using pt_inv_table a assms(2,3) by blast
  then show "page_aligned u" using hhdm_page_aligned a by blast
  show "u \<noteq> hhdm_page s k" using hhdm_page_inj[of s k' k] a k' by (auto simp: frame_taken_def)
qed

lemma adds_table_read:
  assumes "adds_table s s' root p i t k" "pt_path q" "table_at s root q = Some u" "j < 512"
    "\<not> (u = t \<and> j = i)"
  shows "pte_read s' u j = pte_read s u j"
  using adds_table_old[OF assms(1-3)] assms(1,4,5) unfolding adds_table_def by auto

lemma adds_table_keep:
  assumes a: "adds_table s s' root p i t k" and q: "pt_path q" "table_at s root q = Some u"
  shows "table_at s' root q = Some u"
proof -
  have none: "table_at s root (p @ [i]) = None"
    using a by (simp add: adds_table_def table_step_def)
  have "table_at s' root q = table_at s root q"
  proof (rule table_at_unchanged[OF q(1)])
    show "vmm_hhdm_offset s' = vmm_hhdm_offset s" using a by (simp add: adds_table_def)
    fix q' t' j assume b: "pt_path (q' @ [j])" "table_at s root q' = Some t'" "prefix (q' @ [j]) q"
    have "\<not> (t' = t \<and> j = i)"
      using pt_inv_inj[of s root p q' t] a b none table_at_prefix[OF b(3) q(2)]
      by (auto simp: adds_table_def)
    then show "same_step (pte_read s' t' j) (pte_read s t' j)"
      using adds_table_read[OF a _ b(2)] b(1) by simp
  qed
  then show ?thesis using q by simp
qed

lemma adds_table_here:
  assumes "adds_table s s' root p i t k"
  shows "table_step s' t i = Some (hhdm_page s k)" "table_at s' root (p @ [i]) = Some (hhdm_page s k)"
proof -
  note a = assms[unfolded adds_table_def]
  have "pte_read s' t i = pte_make True True (PAGE_ADDR_TO_PAGE_TABLE_ENTRY_INDEX (frame_addr k))"
    using a adds_table_old[OF assms, of p t] by auto
  moreover have "k < 2 ^ 40" using a by (auto simp: vmm_wf_def)
  ultimately show "table_step s' t i = Some (hhdm_page s k)"
    using a frame_index[of k]
    by (simp add: table_step_def get_next_page_table_def Let_def hhdm_page_def)
  then show "table_at s' root (p @ [i]) = Some (hhdm_page s k)"
    using adds_table_keep[OF assms, of p t] a by simp
qed

lemma adds_table_fresh:
  assumes a: "adds_table s s' root p i t k"
    and "pt_path q" "table_at s' root q = Some u" "table_at s root q = None"
  shows "q = p @ [i] \<and> u = hhdm_page s k"
  using assms(2-)
proof (induction q arbitrary: u rule: rev_induct)
  case (snoc j q)
  then obtain u' where u': "table_at s' root q = Some u'" "table_step s' u' j = Some u"
    by (auto simp: bind_eq_Some_conv)
  show ?case
  proof (cases "table_at s root q")
    case None
    then have "u' = hhdm_page s k" using snoc.IH u'(1) snoc.prems(1) by simp
    moreover have "hhdm_page s k \<noteq> t" "page_aligned (hhdm_page s k)"
      using a adds_table_old(2)[OF a, of p t] hhdm_page_aligned by (auto simp: adds_table_def)
    ultimately have "pte_read s' u' j = 0" using a snoc.prems(1) by (simp add: adds_table_def)
    then show ?thesis using u'(2) by (simp add: table_step_def)
  next
    case (Some u'')
    then have u: "u'' = u'" using adds_table_keep[OF a, of q u''] snoc.prems(1) u'(1) by simp
    have off: "vmm_hhdm_offset s' = vmm_hhdm_offset s" using a by (simp add: adds_table_def)
    have "u' = t \<and> j = i"
      using adds_table_read[OF a, of q u' j] table_step_cong[of s' u' j s] off snoc.prems Some u u'(2)
      by fastforce
    moreover from this have "q = p"
      using pt_inv_inj[of s root q p t] a Some u snoc.prems(1) by (auto simp: adds_table_def)
    ultimately show ?thesis using u'(2) adds_table_here(1)[OF a] by simp
  qed
qed simp

lemma adds_table_inv:
  assumes a: "adds_table s s' root p i t k"
  shows "pt_inv s' root"
proof -
  note b = a[unfolded adds_table_def]
  have page: "hhdm_page s' = hhdm_page s" using b by (simp add: hhdm_page_def fun_eq_iff)
  have cases: "table_at s root q = Some u \<or> q = p @ [i] \<and> u = hhdm_page s k"
    if "pt_path q" "table_at s' root q = Some u" for q u
    using adds_table_keep[OF a that(1)] adds_table_fresh[OF a that] that
    by (cases "table_at s root q") auto
  show ?thesis
    unfolding pt_inv_def
  proof (intro conjI allI impI, goal_cases)
    case (1 q u)
    then show ?case using cases[of q u] pt_inv_table[of s root q u] b page by auto
  next
    case (2 q r u)
    then show ?case
      using cases[of q u] cases[of r u] adds_table_old(2)[OF a] pt_inv_inj[of s root q r u] b by auto
  next
    case (3 q j u)
    then have q: "pt_path q" "j < 512" "table_at s' root q = Some u" by simp_all
    consider "u = t" "j = i" | "u \<noteq> t \<or> j \<noteq> i" "table_at s root q = Some u"
      | "u = hhdm_page s k" "u \<noteq> t"
      using cases[OF q(1,3)] adds_table_old(2)[OF a, of p t] b by auto
    then show ?case
    proof cases
      case 1
      then show ?thesis using b adds_table_old(1)[OF a, of p t] by (auto simp: pte_mid_ok_def)
    next
      case 2
      then show ?thesis using \<open>pt_path (q @ [j]) \<and> _\<close> q adds_table_read[OF a q(1)] b unfolding pt_inv_def by auto
    next
      case 3
      then have "pte_read s' u j = 0" using b q(2) hhdm_page_aligned[of s k] by simp
      then show ?thesis by (simp add: pte_mid_ok_def)
    qed
  qed
qed

text \<open>Changes that no walk can see keep the tree and its invariant.\<close>

lemma same_steps_keep:
  assumes wf: "vmm_wf s" and inv: "pt_inv s root"
    and s': "vmm_hhdm_offset s' = vmm_hhdm_offset s" "frame_taken s' = frame_taken s"
    and step: "\<And>q u j. pt_path (q @ [j]) \<Longrightarrow> table_at s root q = Some u \<Longrightarrow>
      same_step (pte_read s' u j) (pte_read s u j) \<and> pte_mid_ok (pte_read s' u j)"
  shows "pt_inv s' root" "\<And>q. pt_path q \<Longrightarrow> table_at s' root q = table_at s root q"
proof -
  show same: "table_at s' root q = table_at s root q" if "pt_path q" for q
    using step by (intro table_at_unchanged[OF that s'(1)]) blast
  have page: "hhdm_page s' = hhdm_page s" using s' by (simp add: hhdm_page_def fun_eq_iff)
  show "pt_inv s' root"
    unfolding pt_inv_def
  proof (intro conjI allI impI, goal_cases)
    case (1 q u)
    then show ?case using pt_inv_table[OF inv, of q u] same s' page by auto
  next
    case (2 q r u)
    then show ?case using pt_inv_inj[OF inv, of q r u] same by auto
  next
    case (3 q j u)
    then show ?case using step[of q j u] same[of q] by auto
  qed
qed

section \<open>Extending the tree\<close>

text \<open>The entry of the last level for a page, zero if the page has no table.\<close>

definition leaf :: "'a vmm_state_scheme \<Rightarrow> u64 \<Rightarrow> u64 list \<Rightarrow> u64 \<Rightarrow> u64" where
  "leaf s root q j = (case table_at s root q of None \<Rightarrow> 0 | Some u \<Rightarrow> pte_read s u j)"

definition extends :: "'a vmm_state_scheme \<Rightarrow> 'a vmm_state_scheme \<Rightarrow> u64 \<Rightarrow> bool" where
  "extends s s' root \<longleftrightarrow>
     vmm_wf s' \<and> pt_inv s' root \<and> vmm_hhdm_offset s' = vmm_hhdm_offset s \<and>
     (\<forall>q u. pt_path q \<and> table_at s root q = Some u \<longrightarrow> table_at s' root q = Some u) \<and>
     (\<forall>q j. pt_path q \<and> length q = 3 \<and> j < 512 \<longrightarrow> leaf s' root q j = leaf s root q j) \<and>
     (\<forall>q u j. pt_path q \<and> j < 512 \<and> table_at s root q = Some u \<and> pte_user_access (pte_read s u j) \<longrightarrow>
        pte_user_access (pte_read s' u j)) \<and>
     (\<forall>q u j. pt_path (q @ [j]) \<and> table_at s' root q = Some u \<and> pte_huge_page (pte_read s' u j) \<longrightarrow>
        table_at s root q = Some u \<and> pte_huge_page (pte_read s u j))"

lemma extendsI:
  assumes "vmm_wf s'" "pt_inv s' root" "vmm_hhdm_offset s' = vmm_hhdm_offset s"
    "\<And>q u. pt_path q \<Longrightarrow> table_at s root q = Some u \<Longrightarrow> table_at s' root q = Some u"
    "\<And>q j. pt_path q \<Longrightarrow> length q = 3 \<Longrightarrow> j < 512 \<Longrightarrow> leaf s' root q j = leaf s root q j"
    "\<And>q u j. pt_path q \<Longrightarrow> j < 512 \<Longrightarrow> table_at s root q = Some u \<Longrightarrow>
       pte_user_access (pte_read s u j) \<Longrightarrow> pte_user_access (pte_read s' u j)"
    "\<And>q u j. pt_path (q @ [j]) \<Longrightarrow> table_at s' root q = Some u \<Longrightarrow>
       pte_huge_page (pte_read s' u j) \<Longrightarrow>
       table_at s root q = Some u \<and> pte_huge_page (pte_read s u j)"
  shows "extends s s' root"
  unfolding extends_def using assms by blast

lemma extendsD:
  assumes "extends s s' root"
  shows "vmm_wf s'" "pt_inv s' root" "vmm_hhdm_offset s' = vmm_hhdm_offset s"
    "\<And>q u. pt_path q \<Longrightarrow> table_at s root q = Some u \<Longrightarrow> table_at s' root q = Some u"
    "\<And>q j. pt_path q \<Longrightarrow> length q = 3 \<Longrightarrow> j < 512 \<Longrightarrow> leaf s' root q j = leaf s root q j"
    "\<And>q u j. pt_path q \<Longrightarrow> j < 512 \<Longrightarrow> table_at s root q = Some u \<Longrightarrow>
       pte_user_access (pte_read s u j) \<Longrightarrow> pte_user_access (pte_read s' u j)"
    "\<And>q u j. pt_path (q @ [j]) \<Longrightarrow> table_at s' root q = Some u \<Longrightarrow>
       pte_huge_page (pte_read s' u j) \<Longrightarrow>
       table_at s root q = Some u \<and> pte_huge_page (pte_read s u j)"
  using assms unfolding extends_def by blast+

lemma extends_refl: "vmm_wf s \<Longrightarrow> pt_inv s root \<Longrightarrow> extends s s root"
  by (rule extendsI) simp_all

lemma extends_trans:
  assumes "extends s s' root" "extends s' s'' root"
  shows "extends s s'' root"
proof (rule extendsI)
  note 1 = extendsD[OF assms(1)] and 2 = extendsD[OF assms(2)]
  show "vmm_wf s''" "pt_inv s'' root" by (rule 2)+
  show "vmm_hhdm_offset s'' = vmm_hhdm_offset s" using 1(3) 2(3) by simp
  show "table_at s'' root q = Some u" if "pt_path q" "table_at s root q = Some u" for q u
    using 1(4) 2(4) that by blast
  show "leaf s'' root q j = leaf s root q j" if "pt_path q" "length q = 3" "j < 512" for q j
    using 1(5)[OF that] 2(5)[OF that] by simp
  show "pte_user_access (pte_read s'' u j)"
    if "pt_path q" "j < 512" "table_at s root q = Some u" "pte_user_access (pte_read s u j)" for q u j
    using 1(4)[OF that(1,3)] 1(6)[OF that] 2(6) that(1,2) by blast
  show "table_at s root q = Some u \<and> pte_huge_page (pte_read s u j)"
    if "pt_path (q @ [j])" "table_at s'' root q = Some u" "pte_huge_page (pte_read s'' u j)" for q u j
    using 2(7)[OF that] 1(7) that(1) by blast
qed

lemma pte_zero_fields [simp]:
  "\<not> pte_huge_page 0" "\<not> pte_user_access 0" "\<not> pte_present 0" "\<not> pte_writable 0"
  by (simp_all add: pte_huge_page_def pte_user_access_def pte_present_def pte_writable_def)

lemma adds_table_new_zero:
  assumes "adds_table s s' root p i t k" "j < 512"
  shows "pte_read s' (hhdm_page s k) j = 0"
  using assms adds_table_old(2)[OF assms(1), of p t] hhdm_page_aligned[of s k]
  by (auto simp: adds_table_def)

lemma adds_table_leaf:
  assumes a: "adds_table s s' root p i t k" and q: "pt_path q" "length q = 3" "j < 512"
  shows "leaf s' root q j = leaf s root q j"
proof (cases "table_at s root q")
  case None
  then show ?thesis
    using adds_table_fresh[OF a q(1)] adds_table_new_zero[OF a q(3)]
    by (auto simp: leaf_def split: option.split)
next
  case (Some u)
  have "u \<noteq> t"
  proof
    assume "u = t"
    then have "q = p" using pt_inv_inj[of s root q p t] a q Some by (simp add: adds_table_def)
    then show False using a q(2) by (simp add: adds_table_def)
  qed
  then show ?thesis
    using Some adds_table_keep[OF a q(1)] adds_table_read[OF a q(1) _ q(3)] by (simp add: leaf_def)
qed

lemma adds_table_extends:
  assumes a: "adds_table s s' root p i t k"
  shows "extends s s' root"
proof -
  have here: "pte_read s t i = 0" "page_aligned t" "i < 512" "table_at s root p = Some t" "pt_path p"
    using a adds_table_old(1)[OF a, of p t] by (simp_all add: adds_table_def)
  have user: "pte_user_access (pte_read s' u j)"
    if "pt_path q" "j < 512" "table_at s root q = Some u" "pte_user_access (pte_read s u j)" for q u j
    using adds_table_read[OF a that(1,3,2)] that(4) here(1) by (cases "u = t \<and> j = i") auto
  have huge: "table_at s root q = Some u \<and> pte_huge_page (pte_read s u j)"
    if "pt_path (q @ [j])" "table_at s' root q = Some u" "pte_huge_page (pte_read s' u j)" for q u j
  proof (cases "table_at s root q")
    case None
    then have "pte_read s' u j = 0"
      using adds_table_fresh[OF a _ that(2)] adds_table_new_zero[OF a] that(1) by simp
    then show ?thesis using that(3) by simp
  next
    case (Some v)
    then have v: "v = u" using adds_table_keep[OF a _ Some] that(1,2) by simp
    have "\<not> (u = t \<and> j = i)" using that(3) a here by (auto simp: adds_table_def)
    then show ?thesis using adds_table_read[OF a, of q u j] that Some v by simp
  qed
  have "vmm_wf s'" "vmm_hhdm_offset s' = vmm_hhdm_offset s" using a by (simp_all add: adds_table_def)
  then show ?thesis
    using adds_table_inv[OF a] adds_table_keep[OF a] adds_table_leaf[OF a] user huge
    by (intro extendsI) blast+
qed

text \<open>Setting the user bit of an existing entry above the last level.\<close>

lemma set_user_extends:
  assumes wf: "vmm_wf s" and inv: "pt_inv s root" and p: "pt_path (p @ [i])" "table_at s root p = Some t"
    and e: "pte_read s t i \<noteq> 0"
  shows "extends s (pte_write t i (pte_set_user_access (pte_read s t i)) s) root"
    (is "extends s ?s' root")
proof -
  have i: "i < 512" "length p \<le> 2" "pt_path p" using p(1) by simp_all
  have rd: "pte_read ?s' u j = (if t = u \<and> i = j then pte_set_user_access (pte_read s t i) else pte_read s u j)"
    if "pt_path q" "table_at s root q = Some u" "j < 512" for q u j
    using that i pt_inv_aligned[OF wf inv] p(2) by (intro pte_read_write) blast+
  have wf': "vmm_wf ?s'" using wf by (simp add: vmm_wf_def)
  have mid: "pte_mid_ok (pte_read s u j)" if "pt_path (q @ [j])" "table_at s root q = Some u" for q u j
    using inv that unfolding pt_inv_def by blast
  have steps: "same_step (pte_read ?s' u j) (pte_read s u j) \<and> pte_mid_ok (pte_read ?s' u j)"
    if "pt_path (q @ [j])" "table_at s root q = Some u" for q u j
    using rd[of q u j] that mid[OF that] e by (auto simp: same_step_def pte_mid_ok_def)
  have off: "vmm_hhdm_offset ?s' = vmm_hhdm_offset s" and taken: "frame_taken ?s' = frame_taken s"
    by (simp_all add: fun_eq_iff)
  have keep1: "pt_inv ?s' root"
    by (rule same_steps_keep(1)[OF wf inv off taken]) (rule steps)
  have keep: "table_at ?s' root q = table_at s root q" if "pt_path q" for q
    by (rule same_steps_keep(2)[OF wf inv off taken]) (rule steps that | assumption)+
  have leafs: "leaf ?s' root q j = leaf s root q j" if "pt_path q" "length q = 3" "j < 512" for q j
  proof (cases "table_at s root q")
    case (Some u)
    have "t \<noteq> u" using pt_inv_inj[OF inv i(3) that(1) p(2)] Some i(2) that(2) by auto
    then show ?thesis using keep[OF that(1)] rd[OF that(1) Some that(3)] Some by (simp add: leaf_def)
  qed (use keep[OF that(1)] in \<open>simp add: leaf_def\<close>)
  have user: "pte_user_access (pte_read ?s' u j)"
    if "pt_path q" "j < 512" "table_at s root q = Some u" "pte_user_access (pte_read s u j)" for q u j
    using rd[OF that(1,3,2)] that(4) by simp
  have huge: "table_at s root q = Some u \<and> pte_huge_page (pte_read s u j)"
    if "pt_path (q @ [j])" "table_at ?s' root q = Some u" "pte_huge_page (pte_read ?s' u j)" for q u j
    using that keep[of q] rd[of q u j] by (auto split: if_splits)
  show ?thesis
  proof (rule extendsI[OF wf' keep1 off])
    show "table_at ?s' root q = Some u" if "pt_path q" "table_at s root q = Some u" for q u
      using keep that by simp
  qed (use leafs user huge in blast)+
qed

section \<open>The levels of vmm\_map\_page\<close>

lemma create_level:
  assumes wf: "vmm_wf s" and inv: "pt_inv s root"
    and p: "pt_path (p @ [i])" "table_at s root p = Some t" "pte_read s t i = 0"
    and alloc: "allocate_page_table_page s = Inr (e, s1)"
  shows "extends s (pte_write t i e s1) root" "pte_read (pte_write t i e s1) t i = e"
    "e \<noteq> 0" "\<not> pte_huge_page e"
proof -
  have t: "page_aligned t" "i < 512" using pt_inv_aligned[OF wf inv _ p(2)] p(1) by simp_all
  obtain k where k: "k < nframes s" "\<not> frame_taken s k"
    "e = pte_make True True (PAGE_ADDR_TO_PAGE_TABLE_ENTRY_INDEX (frame_addr k))"
    "vmm_hhdm_offset s1 = vmm_hhdm_offset s" "nframes s1 = nframes s"
    "frame_taken s1 = (\<lambda>j. j = k \<or> frame_taken s j)" "vmm_wf s1"
    "\<And>t i. page_aligned t \<Longrightarrow> i < 512 \<Longrightarrow>
       pte_read s1 t i = (if t = hhdm_page s k then 0 else pte_read s t i)"
    by (rule allocate_page_table_page_spec[OF wf alloc]) (rule that, assumption+)
  have "vmm_wf (pte_write t i e s1)" using k(7) by (simp add: vmm_wf_def)
  moreover have "frame_taken (pte_write t i e s1) = frame_taken s1" by (simp add: fun_eq_iff)
  ultimately have "adds_table s (pte_write t i e s1) root p i t k"
    using wf inv p k t by (auto simp: adds_table_def pte_read_write)
  then show "extends s (pte_write t i e s1) root" by (rule adds_table_extends)
  show "pte_read (pte_write t i e s1) t i = e" "e \<noteq> 0" "\<not> pte_huge_page e"
    using t k(3) by (simp_all add: pte_read_write)
qed

lemma map_level_spec:
  assumes wf: "vmm_wf s" and inv: "pt_inv s root"
    and p: "pt_path (p @ [i])" "table_at s root p = Some t" "\<not> pte_huge_page (pte_read s t i)"
    and m: "vmm_map_level flags i t s = Inr (t', s')"
  shows "extends s s' root" "table_at s' root (p @ [i]) = Some t'"
    "mpf_user_accessible flags \<Longrightarrow> pte_user_access (pte_read s' t i)"
proof -
  have pp: "pt_path p" "i < 512" using p(1) by simp_all
  obtain s2 where s2: "extends s s2 root" "pte_read s2 t i \<noteq> 0" "\<not> pte_huge_page (pte_read s2 t i)"
    and s': "s' = (if mpf_user_accessible flags
                   then pte_write t i (pte_set_user_access (pte_read s2 t i)) s2 else s2)"
    and t': "t' = get_next_page_table s' t i"
  proof (cases "pte_read s t i = 0")
    case True
    then obtain e s1 where "allocate_page_table_page s = Inr (e, s1)"
      "s' = (if mpf_user_accessible flags then pte_write t i
              (pte_set_user_access (pte_read (pte_write t i e s1) t i)) (pte_write t i e s1)
             else pte_write t i e s1)"
      "t' = get_next_page_table s' t i"
      using m by (auto simp: vmm_map_level_def Let_def)
    then show thesis using that[of "pte_write t i e s1"] create_level[OF wf inv p(1,2) True] by simp
  next
    case False
    then show thesis using that[of s] m p(3) extends_refl[OF wf inv]
      by (auto simp: vmm_map_level_def Let_def)
  qed
  note ext = extendsD[OF s2(1)]
  have t2: "table_at s2 root p = Some t" using ext(4) pp(1) p(2) by blast
  have t: "page_aligned t" using pt_inv_aligned[OF wf inv pp(1) p(2)] .
  show "extends s s' root"
    using set_user_extends[OF ext(1,2) p(1) t2 s2(2)] s2(1) extends_trans s' by auto
  then have "table_at s' root p = Some t" using extendsD(4) pp(1) p(2) by blast
  moreover have "pte_read s' t i \<noteq> 0 \<and> \<not> pte_huge_page (pte_read s' t i)"
    using s' s2(2,3) t pp(2) by (simp add: pte_read_write)
  ultimately show "table_at s' root (p @ [i]) = Some t'"
    by (simp add: t' table_step_def Let_def)
  show "pte_user_access (pte_read s' t i)" if "mpf_user_accessible flags"
    using s' that t pp(2) by (simp add: pte_read_write)
qed

text \<open>No large page lies on the path.\<close>

definition no_huge :: "'a vmm_state_scheme \<Rightarrow> u64 \<Rightarrow> u64 list \<Rightarrow> bool" where
  "no_huge s root p \<longleftrightarrow>
     (\<forall>q j u. prefix (q @ [j]) p \<and> table_at s root q = Some u \<longrightarrow> \<not> pte_huge_page (pte_read s u j))"

definition user_path :: "'a vmm_state_scheme \<Rightarrow> u64 \<Rightarrow> u64 list \<Rightarrow> bool" where
  "user_path s root p \<longleftrightarrow>
     (\<forall>q j u. prefix (q @ [j]) p \<and> table_at s root q = Some u \<longrightarrow> pte_user_access (pte_read s u j))"

lemma pt_path_prefix: "pt_path p \<Longrightarrow> prefix q p \<Longrightarrow> pt_path q"
  by (auto simp: pt_path_def prefix_def)

lemma no_huge_extends:
  "extends s s' root \<Longrightarrow> pt_path p \<Longrightarrow> no_huge s root p \<Longrightarrow> no_huge s' root p"
  unfolding no_huge_def by (meson extendsD(7) pt_path_prefix)

lemma user_path_extends:
  assumes "extends s s' root" "pt_path p" "user_path s root p" "table_at s root p = Some t"
  shows "user_path s' root p"
  unfolding user_path_def
proof (intro allI impI)
  fix q j u assume a: "prefix (q @ [j]) p \<and> table_at s' root q = Some u"
  then have "pt_path (q @ [j])" using pt_path_prefix[OF assms(2)] by blast
  then have q: "pt_path q" "j < 512" "prefix q p" using a by (auto dest: append_prefixD)
  then obtain v where v: "table_at s root q = Some v" using table_at_prefix assms(4) by blast
  then have "v = u" using extendsD(4)[OF assms(1) q(1)] a by simp
  then show "pte_user_access (pte_read s' u j)"
    using extendsD(6)[OF assms(1) q(1,2)] v assms(3) a unfolding user_path_def by blast
qed

lemma map_levels_spec:
  assumes "vmm_wf s" "pt_inv s root" "pt_path (p @ is)" "table_at s root p = Some t"
    "no_huge s root (p @ is)" "mpf_user_accessible flags \<Longrightarrow> user_path s root p"
    "vmm_map_levels flags is t s = Inr (t', s')"
  shows "extends s s' root \<and> table_at s' root (p @ is) = Some t' \<and>
    (mpf_user_accessible flags \<longrightarrow> user_path s' root (p @ is))"
  using assms
proof (induction "is" arbitrary: p t s)
  case Nil
  then show ?case by (simp add: extends_refl)
next
  case (Cons i "is")
  obtain t1 s1 where m: "vmm_map_level flags i t s = Inr (t1, s1)"
    "vmm_map_levels flags is t1 s1 = Inr (t', s')"
    using Cons.prems(7) by auto
  have path: "pt_path (p @ [i])" "pt_path p"
    using pt_path_prefix[OF Cons.prems(3), of "p @ [i]"] by (auto simp: prefix_def)
  have nh: "\<not> pte_huge_page (pte_read s t i)"
    using Cons.prems(4,5) unfolding no_huge_def by (metis Cons_prefix_Cons append_Cons append_Nil append_assoc prefixI)
  note lvl = map_level_spec[OF Cons.prems(1,2) path(1) Cons.prems(4) nh m(1)]
  have up: "user_path s1 root (p @ [i])" if "mpf_user_accessible flags"
    using user_path_extends[OF lvl(1) path(2) Cons.prems(6)[OF that] Cons.prems(4)] lvl(3)[OF that]
      extendsD(4)[OF lvl(1) path(2) Cons.prems(4)] unfolding user_path_def by auto
  have "extends s1 s' root \<and> table_at s' root ((p @ [i]) @ is) = Some t' \<and>
      (mpf_user_accessible flags \<longrightarrow> user_path s' root ((p @ [i]) @ is))"
    using Cons.IH[OF extendsD(1,2)[OF lvl(1)] _ lvl(2) _ up m(2)] Cons.prems(3,5)
      no_huge_extends[OF lvl(1)] by simp
  then show ?case using lvl(1) extends_trans by auto
qed

section \<open>Entries of the last level\<close>

lemma write_leaf:
  fixes e :: u64
  assumes wf: "vmm_wf s" and inv: "pt_inv s root"
    and p: "pt_path p" "length p = 3" "table_at s root p = Some t" "i < 512"
  defines "s' \<equiv> pte_write t i e s"
  shows "vmm_wf s'" "pt_inv s' root" "\<And>q. pt_path q \<Longrightarrow> table_at s' root q = table_at s root q"
    "\<And>q j. pt_path q \<Longrightarrow> j < 512 \<Longrightarrow> leaf s' root q j = (if q = p \<and> j = i then e else leaf s root q j)"
    "\<And>q u j. pt_path (q @ [j]) \<Longrightarrow> table_at s root q = Some u \<Longrightarrow> pte_read s' u j = pte_read s u j"
proof -
  have rd: "pte_read s' u j = (if q = p \<and> j = i then e else pte_read s u j)"
    if "pt_path q" "table_at s root q = Some u" "j < 512" for q u j
  proof -
    have "pte_read s' u j = (if t = u \<and> i = j then e else pte_read s u j)"
      unfolding s'_def using that p pt_inv_aligned[OF wf inv] by (intro pte_read_write) blast+
    moreover have "t = u \<longleftrightarrow> q = p" using pt_inv_inj[OF inv that(1) p(1)] that(2) p(3) by auto
    ultimately show ?thesis by auto
  qed
  show mid: "pte_read s' u j = pte_read s u j" if "pt_path (q @ [j])" "table_at s root q = Some u" for q u j
    using rd[of q u j] that p(2) by auto
  have off: "vmm_hhdm_offset s' = vmm_hhdm_offset s" and taken: "frame_taken s' = frame_taken s"
    by (simp_all add: s'_def fun_eq_iff)
  have steps: "same_step (pte_read s' u j) (pte_read s u j) \<and> pte_mid_ok (pte_read s' u j)"
    if "pt_path (q @ [j])" "table_at s root q = Some u" for q u j
  proof -
    have "pte_mid_ok (pte_read s u j)" using inv that unfolding pt_inv_def by blast
    then show ?thesis using mid[OF that] by simp
  qed
  show "vmm_wf s'" using wf by (simp add: s'_def vmm_wf_def)
  show "pt_inv s' root" by (rule same_steps_keep(1)[OF wf inv off taken]) (rule steps)
  show same: "table_at s' root q = table_at s root q" if "pt_path q" for q
    by (rule same_steps_keep(2)[OF wf inv off taken]) (rule steps that | assumption)+
  show "leaf s' root q j = (if q = p \<and> j = i then e else leaf s root q j)"
    if "pt_path q" "j < 512" for q j
    using same[OF that(1)] rd[OF that(1) _ that(2)] p(3)
    by (auto simp: leaf_def split: option.split)
qed

section \<open>Translation\<close>

text \<open>
  The four-level walk of the processor to a 4 KiB page, with the access rights of all levels
  combined. The processor reads the tables at their physical addresses, the model at the same
  places in the direct map.
\<close>

fun hw_walk :: "'a vmm_state_scheme \<Rightarrow> u64 \<Rightarrow> u64 list \<Rightarrow> bool \<Rightarrow> bool \<Rightarrow> (u64 \<times> bool \<times> bool) option" where
  "hw_walk s t [] w u = None"
| "hw_walk s t [i] w u =
     (let e = pte_read s t i
      in if pte_present e
         then Some (PAGE_TABLE_ENTRY_INDEX_TO_PAGE_ADDR (pte_index e), w \<and> pte_writable e,
                    u \<and> pte_user_access e)
         else None)"
| "hw_walk s t (i # j # is) w u =
     (let e = pte_read s t i
      in if pte_present e \<and> \<not> pte_huge_page e
         then hw_walk s (get_next_page_table s t i) (j # is) (w \<and> pte_writable e)
                (u \<and> pte_user_access e)
         else None)"

definition hw_translate :: "'a vmm_state_scheme \<Rightarrow> u64 \<Rightarrow> u64 \<Rightarrow> (u64 \<times> bool \<times> bool) option" where
  "hw_translate s root v =
     map_option (\<lambda>(a, w, u). (a + va_offset v, w, u))
       (hw_walk s root (va_indexes v @ [va_pt_index v]) True True)"

lemma table_step_Some:
  "table_step s t i = Some t' \<longleftrightarrow>
   pte_read s t i \<noteq> 0 \<and> \<not> pte_huge_page (pte_read s t i) \<and> t' = get_next_page_table s t i"
  by (auto simp: table_step_def Let_def)

lemma hw_walk_path:
  assumes "pt_inv s root" "pt_path (p @ is)" "table_at s root p = Some t"
    "table_at s root (p @ is) = Some t'"
  shows "\<exists>U. (user_path s root (p @ is) \<longrightarrow> U) \<and>
    hw_walk s t (is @ [j]) w u =
      (let e = pte_read s t' j
       in if pte_present e
          then Some (PAGE_TABLE_ENTRY_INDEX_TO_PAGE_ADDR (pte_index e), w \<and> pte_writable e,
                     u \<and> U \<and> pte_user_access e)
          else None)"
  using assms
proof (induction "is" arbitrary: p t w u)
  case Nil
  then show ?case by (intro exI[of _ True]) (simp add: Let_def)
next
  case (Cons i "is")
  have pre: "prefix (p @ [i]) (p @ i # is)" by (simp add: prefix_def)
  obtain t1 where t1: "table_at s root (p @ [i]) = Some t1"
    using table_at_prefix[OF pre] Cons.prems(4) by blast
  have path: "pt_path (p @ [i])" using pt_path_prefix[OF Cons.prems(2) pre] .
  let ?e = "pte_read s t i"
  have e: "?e \<noteq> 0" "\<not> pte_huge_page ?e" "t1 = get_next_page_table s t i"
    using t1 Cons.prems(3) by (simp_all add: table_step_Some)
  have "pte_mid_ok ?e" using Cons.prems(1,3) path unfolding pt_inv_def by blast
  then have rights: "pte_present ?e" "pte_writable ?e" using e by (simp_all add: pte_mid_ok_def)
  have user: "user_path s root (p @ i # is) \<longrightarrow> pte_user_access ?e"
    using pre Cons.prems(3) unfolding user_path_def by blast
  obtain U where U: "user_path s root ((p @ [i]) @ is) \<longrightarrow> U"
    "hw_walk s t1 (is @ [j]) w (u \<and> pte_user_access ?e) =
      (let e = pte_read s t' j
       in if pte_present e
          then Some (PAGE_TABLE_ENTRY_INDEX_TO_PAGE_ADDR (pte_index e), w \<and> pte_writable e,
                     (u \<and> pte_user_access ?e) \<and> U \<and> pte_user_access e)
          else None)"
    using Cons.IH[of "p @ [i]" t1 w "u \<and> pte_user_access ?e"] Cons.prems t1 by auto
  obtain h "is'" where split: "is @ [j] = h # is'" by (cases "is") auto
  have "hw_walk s t (i # is @ [j]) w u = hw_walk s t1 (is @ [j]) w (u \<and> pte_user_access ?e)"
    using rights e by (simp add: split)
  then show ?case using U user
    by (intro exI[of _ "pte_user_access ?e \<and> U"]) (auto simp: Let_def)
qed

section \<open>Enough memory\<close>

definition free_count :: "'a pmm_state_scheme \<Rightarrow> nat" where
  "free_count s = card {k. k < nframes s \<and> \<not> frame_taken s k}"

lemma pmm_alloc_page_total:
  assumes "vmm_wf s" "0 < free_count s"
  shows "\<exists>a s'. pmm_alloc_page s = Inr (a, s') \<and> a \<noteq> 0"
proof -
  have "{k. k < nframes s \<and> \<not> frame_taken s k} \<noteq> {}"
    using assms(2) unfolding free_count_def by (metis card.empty less_irrefl)
  then have "first_fit s 1 \<noteq> None" by (auto simp: first_fit_None free_run_1 frame_taken_def simp del: One_nat_def)
  then obtain k where k: "first_fit s 1 = Some k" by blast
  then have "k < nframes s" "\<not> frame_used s k"
    by (auto simp: first_fit_Some free_run_1 simp del: One_nat_def)
  moreover have "frame_used s 0" "nframes s \<le> 2 ^ 52"
    using assms(1) by (simp_all add: vmm_wf_def pmm_inv_def frame_taken_def)
  ultimately have "frame_addr k \<noteq> 0" by (subst frame_addr_0) (auto intro: gr0I)
  then show ?thesis using k assms(1) by (simp add: pmm_alloc_page_first_fit vmm_wf_def pmm_inv_def)
qed

lemma free_count_kmem [simp]: "free_count (s\<lparr>kmem := m\<rparr>) = free_count s"
  by (simp add: free_count_def)

lemma free_count_pte_write [simp]: "free_count (pte_write t i e s) = free_count s"
  by (simp add: free_count_def)

lemma free_count_mark:
  assumes "vmm_wf s" "k < nframes s" "\<not> frame_taken s k"
  shows "Suc (free_count (mark_frame k True s)) = free_count s"
proof -
  let ?F = "{k. k < nframes s \<and> \<not> frame_taken s k}"
  have "{j. j < nframes s \<and> \<not> frame_taken (mark_frame k True s) j} = ?F - {k}"
    using frame_taken_mark_frame[OF assms(1,2)] by auto
  moreover have "Suc (card (?F - {k})) = card ?F" by (rule card_Suc_Diff1) (use assms in auto)
  ultimately show ?thesis by (simp add: free_count_def)
qed

lemma allocate_page_table_page_total:
  assumes "vmm_wf s" "0 < free_count s"
  shows "\<exists>e s'. allocate_page_table_page s = Inr (e, s') \<and> Suc (free_count s') = free_count s"
proof -
  obtain a s1 where a: "pmm_alloc_page s = Inr (a, s1)" "a \<noteq> 0"
    using pmm_alloc_page_total[OF assms] by blast
  then obtain k where "k < nframes s" "\<not> frame_taken s k" "s1 = mark_frame k True s"
    using pmm_alloc_page_fresh[OF assms(1) a] by blast
  then show ?thesis using a free_count_mark[OF assms(1)]
    by (simp add: allocate_page_table_page_def Let_def)
qed

lemma map_levels_total:
  assumes "vmm_wf s" "pt_inv s root" "pt_path (p @ is)" "table_at s root p = Some t"
    "no_huge s root (p @ is)" "length is \<le> free_count s"
  shows "\<exists>t' s'. vmm_map_levels flags is t s = Inr (t', s')"
  using assms
proof (induction "is" arbitrary: p t s)
  case (Cons i "is")
  have "\<exists>t1 s1. vmm_map_level flags i t s = Inr (t1, s1) \<and> length is \<le> free_count s1"
    using allocate_page_table_page_total[OF Cons.prems(1)] Cons.prems(6)
    by (fastforce simp: vmm_map_level_def Let_def)
  then obtain t1 s1 where m: "vmm_map_level flags i t s = Inr (t1, s1)" "length is \<le> free_count s1"
    by blast
  have path: "pt_path (p @ [i])"
    using pt_path_prefix[OF Cons.prems(3), of "p @ [i]"] by (auto simp: prefix_def)
  have nh: "\<not> pte_huge_page (pte_read s t i)"
    using Cons.prems(4,5) unfolding no_huge_def by (auto simp: prefix_def)
  note lvl = map_level_spec[OF Cons.prems(1,2) path Cons.prems(4) nh m(1)]
  have "\<exists>t' s'. vmm_map_levels flags is t1 s1 = Inr (t', s')"
    using Cons.IH[OF extendsD(1,2)[OF lvl(1)] _ lvl(2) _ m(2)] Cons.prems(3,5)
      no_huge_extends[OF lvl(1)] by simp
  then show ?case using m by simp
qed simp

section \<open>Mapping and unmapping\<close>

lemma va_indexes_path [simp]: "pt_path (va_indexes v)" "length (va_indexes v) = 3"
  "va_pt_index v < 512"
proof -
  have "x AND mask 9 < 512" for x :: u64
    using take_bit_nat_less_exp[of 9 "unat x"]
    by (simp add: take_bit_eq_mask[symmetric] word_less_nat_alt unsigned_take_bit_eq)
  then show "pt_path (va_indexes v)" "length (va_indexes v) = 3" "va_pt_index v < 512"
    by (auto simp: pt_path_def va_indexes_def va_plm4_index_def va_pdp_index_def va_pd_index_def
        va_pt_index_def)
qed

text \<open>The page of an address: the indexes of all four levels.\<close>

definition va_page :: "u64 \<Rightarrow> u64 list \<times> u64" where
  "va_page v = (va_indexes v, va_pt_index v)"

definition va_leaf :: "'a vmm_state_scheme \<Rightarrow> u64 \<Rightarrow> u64 \<Rightarrow> u64" where
  "va_leaf s root v = leaf s root (va_indexes v) (va_pt_index v)"

lemma map_page_outcome:
  assumes wf: "vmm_wf s" and inv: "pt_inv s root" and nh: "no_huge s root (va_indexes v)"
    and mem: "3 \<le> free_count s"
  obtains t s1 where
    "vmm_map_page root v paddr flags s =
       (if \<not> mpf_override_page flags \<and> va_leaf s root v \<noteq> 0 then Inr (-1, s1)
        else Inr (0, pte_write t (va_pt_index v)
                       (pte_make (mpf_writable_page flags) (mpf_user_accessible flags)
                          (PAGE_ADDR_TO_PAGE_TABLE_ENTRY_INDEX paddr)) s1))"
    "extends s s1 root" "table_at s1 root (va_indexes v) = Some t"
    "mpf_user_accessible flags \<Longrightarrow> user_path s1 root (va_indexes v)"
proof -
  obtain t s1 where m: "vmm_map_levels flags (va_indexes v) root s = Inr (t, s1)"
    using map_levels_total[OF wf inv, of "[]" "va_indexes v" root flags] nh mem by auto
  have "user_path s root []" by (simp add: user_path_def)
  then have spec: "extends s s1 root" "table_at s1 root (va_indexes v) = Some t"
    "mpf_user_accessible flags \<Longrightarrow> user_path s1 root (va_indexes v)"
    using map_levels_spec[OF wf inv, of "[]" "va_indexes v" root flags t s1] nh m by auto
  have "pte_read s1 t (va_pt_index v) = va_leaf s root v"
    using extendsD(5)[OF spec(1), of "va_indexes v" "va_pt_index v"] spec(2)
    by (simp add: va_leaf_def leaf_def)
  then show thesis using that[OF _ spec] m by (auto simp: vmm_map_page_def)
qed

lemma hw_translate_leaf:
  assumes "pt_inv s root" "table_at s root (va_indexes v) = Some t"
    "pte_read s t (va_pt_index v) = pte_make w u (PAGE_ADDR_TO_PAGE_TABLE_ENTRY_INDEX (frame_addr k))"
    "k < 2 ^ 40" "u \<Longrightarrow> user_path s root (va_indexes v)"
  shows "hw_translate s root v = Some (frame_addr k + va_offset v, w, u)"
proof -
  obtain U where U: "user_path s root (va_indexes v) \<longrightarrow> U"
    "hw_walk s root (va_indexes v @ [va_pt_index v]) True True =
       Some (frame_addr k, w, U \<and> u)"
    using hw_walk_path[of s root "[]" "va_indexes v" root t "va_pt_index v" True True] assms(1-4)
      frame_index[OF assms(4)] by (auto simp: Let_def)
  then show ?thesis using assms(5) by (auto simp: hw_translate_def)
qed

lemma vmm_map_page_effect:
  assumes wf: "vmm_wf s" and inv: "pt_inv s root" and nh: "no_huge s root (va_indexes v)"
    and mem: "3 \<le> free_count s" and k: "k < 2 ^ 40"
  shows "\<exists>r s'. vmm_map_page root v (frame_addr k) flags s = Inr (r, s') \<and> vmm_wf s' \<and> pt_inv s' root \<and>
    (\<forall>v'. va_page v' \<noteq> va_page v \<longrightarrow> va_leaf s' root v' = va_leaf s root v') \<and>
    (if \<not> mpf_override_page flags \<and> va_leaf s root v \<noteq> 0
     then r = -1 \<and> va_leaf s' root v = va_leaf s root v
     else r = 0 \<and> hw_translate s' root v =
            Some (frame_addr k + va_offset v, mpf_writable_page flags, mpf_user_accessible flags))"
proof -
  obtain t s1 where m: "vmm_map_page root v (frame_addr k) flags s =
       (if \<not> mpf_override_page flags \<and> va_leaf s root v \<noteq> 0 then Inr (-1, s1)
        else Inr (0, pte_write t (va_pt_index v)
                       (pte_make (mpf_writable_page flags) (mpf_user_accessible flags)
                          (PAGE_ADDR_TO_PAGE_TABLE_ENTRY_INDEX (frame_addr k))) s1))"
    and ext: "extends s s1 root" and t: "table_at s1 root (va_indexes v) = Some t"
    and up: "mpf_user_accessible flags \<Longrightarrow> user_path s1 root (va_indexes v)"
    using map_page_outcome[OF wf inv nh mem] by metis
  have leafs: "va_leaf s1 root v' = va_leaf s root v'" for v'
    using extendsD(5)[OF ext] by (simp add: va_leaf_def)
  show ?thesis
  proof (cases "\<not> mpf_override_page flags \<and> va_leaf s root v \<noteq> 0")
    case True
    then show ?thesis using m leafs extendsD(1,2)[OF ext] by simp
  next
    case False
    let ?e = "pte_make (mpf_writable_page flags) (mpf_user_accessible flags)
      (PAGE_ADDR_TO_PAGE_TABLE_ENTRY_INDEX (frame_addr k))"
    let ?s' = "pte_write t (va_pt_index v) ?e s1"
    note w = write_leaf[OF extendsD(1,2)[OF ext] va_indexes_path(1,2) t va_indexes_path(3)[of v], where e = ?e]
    have "va_leaf ?s' root v' = va_leaf s root v'" if "va_page v' \<noteq> va_page v" for v'
      using that w(4)[of "va_indexes v'" "va_pt_index v'"] leafs[of v']
      by (auto simp: va_leaf_def va_page_def)
    moreover have "hw_translate ?s' root v =
        Some (frame_addr k + va_offset v, mpf_writable_page flags, mpf_user_accessible flags)"
    proof (rule hw_translate_leaf[OF w(2) _ _ k])
      show t': "table_at ?s' root (va_indexes v) = Some t" using w(3) t by simp
      show "pte_read ?s' t (va_pt_index v) = ?e"
        using w(4)[of "va_indexes v" "va_pt_index v"] t' by (simp add: leaf_def)
      show "user_path ?s' root (va_indexes v)" if "mpf_user_accessible flags"
        using up[OF that] w(3,5) unfolding user_path_def
        by (metis append_prefixD pt_path_prefix va_indexes_path(1))
    qed
    ultimately show ?thesis using m False w(1,2) by auto
  qed
qed

lemma unmap_levels_table:
  assumes "table_at s root p = Some t" "no_huge s root (p @ is)"
  shows "vmm_unmap_levels is t s = table_at s root (p @ is)"
  using assms
proof (induction "is" arbitrary: p t)
  case (Cons i "is")
  have nh: "\<not> pte_huge_page (pte_read s t i)"
    using Cons.prems unfolding no_huge_def by (auto simp: prefix_def)
  show ?case
  proof (cases "pte_read s t i = 0")
    case True
    then have "table_at s root (p @ [i]) = None" using Cons.prems(1) by (simp add: table_step_def)
    then have "table_at s root ((p @ [i]) @ is) = None"
      using table_at_prefix[of "p @ [i]" "(p @ [i]) @ is" s root]
      by (cases "table_at s root ((p @ [i]) @ is)") auto
    then show ?thesis using True by simp
  next
    case False
    then have "table_at s root (p @ [i]) = Some (get_next_page_table s t i)"
      using Cons.prems(1) nh by (simp add: table_step_Some)
    then show ?thesis using Cons.IH[of "p @ [i]"] Cons.prems(2) False by simp
  qed
qed simp

lemma vmm_unmap_page_effect:
  assumes wf: "vmm_wf s" and inv: "pt_inv s root" and nh: "no_huge s root (va_indexes v)"
  shows "\<exists>r s'. vmm_unmap_page root v flags s = (r, s') \<and> vmm_wf s' \<and> pt_inv s' root \<and>
    r = (if va_leaf s root v = 0 then -1 else 0) \<and> va_leaf s' root v = 0 \<and>
    no_huge s' root (va_indexes v) \<and>
    (\<forall>v'. va_page v' \<noteq> va_page v \<longrightarrow> va_leaf s' root v' = va_leaf s root v')"
proof -
  have lv: "vmm_unmap_levels (va_indexes v) root s = table_at s root (va_indexes v)"
    using unmap_levels_table[of s root "[]" root "va_indexes v"] nh by simp
  show ?thesis
  proof (cases "va_leaf s root v = 0")
    case True
    then have "vmm_unmap_page root v flags s = (-1, s)"
      using lv by (auto simp: vmm_unmap_page_def va_leaf_def leaf_def split: option.splits)
    then show ?thesis using True wf inv nh by simp
  next
    case False
    then obtain t where t: "table_at s root (va_indexes v) = Some t"
      by (auto simp: va_leaf_def leaf_def split: option.splits)
    note w = write_leaf[OF wf inv va_indexes_path(1,2) t va_indexes_path(3)[of v], where e = 0]
    have "vmm_unmap_page root v flags s = (0, pte_write t (va_pt_index v) 0 s)"
      using lv t False by (simp add: vmm_unmap_page_def va_leaf_def leaf_def)
    moreover have "no_huge (pte_write t (va_pt_index v) 0 s) root (va_indexes v)"
      using nh w(3,5) unfolding no_huge_def
      by (metis append_prefixD pt_path_prefix va_indexes_path(1))
    ultimately show ?thesis using w(1,2,4) False by (auto simp: va_leaf_def va_page_def)
  qed
qed

text \<open>A page whose entry is empty does not translate.\<close>

lemma hw_translate_empty:
  assumes inv: "pt_inv s root" and nh: "no_huge s root (va_indexes v)" and l: "va_leaf s root v = 0"
  shows "hw_translate s root v = None"
proof -
  have "hw_walk s t (is @ [j]) w u = None"
    if "table_at s root p = Some t" "no_huge s root (p @ is)" "leaf s root (p @ is) j = 0" for p t "is" j w u
    using that
  proof (induction "is" arbitrary: p t w u)
    case (Cons i "is")
    have nh: "\<not> pte_huge_page (pte_read s t i)"
      using Cons.prems unfolding no_huge_def by (auto simp: prefix_def)
    obtain h "is'" where split: "is @ [j] = h # is'" by (cases "is") auto
    show ?case
    proof (cases "pte_read s t i = 0")
      case False
      then have "table_at s root (p @ [i]) = Some (get_next_page_table s t i)"
        using Cons.prems(1) nh by (simp add: table_step_Some)
      then show ?thesis using Cons.IH[of "p @ [i]"] Cons.prems(2,3) split by (simp add: Let_def)
    qed (simp add: split)
  qed (simp add: leaf_def)
  from this[of "[]" root "va_indexes v" "va_pt_index v" True True] nh l show ?thesis
    by (simp add: hw_translate_def va_leaf_def)
qed

section \<open>A new pagemap\<close>

lemma hhdm_page_nonzero:
  assumes "vmm_wf s" "0 < k" "k < nframes s"
  shows "hhdm_page s k \<noteq> 0"
proof -
  have "unat (frame_addr k) = 4096 * k" using assms by (intro unat_frame_addr) (simp add: vmm_wf_def)
  moreover have "unat (frame_addr k) + unat (vmm_hhdm_offset s) < 2 ^ 64"
    using assms calculation by (simp add: vmm_wf_def)
  ultimately have "unat (hhdm_page s k) = 4096 * k + unat (vmm_hhdm_offset s)"
    unfolding hhdm_page_def by (subst unat_add_if_fits) simp_all
  then show ?thesis using assms(2) by auto
qed

lemma pte_half_offset:
  "i < 512 \<Longrightarrow> j < 8 \<Longrightarrow> unat (8 * i + word_of_nat j :: u64) < 2048 \<longleftrightarrow> i < 256"
  by (auto simp: unat_word_ariths word_less_nat_alt unat_of_nat)

lemma copy_upper_half:
  fixes m :: mem
  assumes "page_aligned n" "page_aligned c" "n \<noteq> c"
  defines "m' \<equiv> memset n 0 2048 (memcpy (n + 2048) (c + 2048) 2048 m)"
  shows "\<And>x. unat x < 4096 \<Longrightarrow> m' (n + x) = (if unat x < 2048 then 0 else m (c + x))"
    "\<And>t x. page_aligned t \<Longrightarrow> t \<noteq> n \<Longrightarrow> unat x < 4096 \<Longrightarrow> m' (t + x) = m (t + x)"
proof -
  have "\<not> unat (n - c) < 4096" using in_page_iff[OF assms(1,2), of 0] assms(3) by simp
  then have cpy: "memcpy (n + 2048) (c + 2048) 2048 m =
      (\<lambda>a. if unat (a - (n + 2048)) < 2048 then m (c + 2048 + (a - (n + 2048))) else m a)"
    by (subst memcpy_closed) simp_all
  have m': "m' a = (if unat (a - n) < 2048 then 0
      else if unat (a - n - 2048) < 2048 then m (c + (a - n)) else m a)" for a
  proof -
    have "unat (2048 :: u64) = 2048" "a - (n + 2048) = a - n - 2048"
      "c + 2048 + (a - (n + 2048)) = c + (a - n)" by simp_all
    then show ?thesis by (simp only: m'_def memset_closed cpy)
  qed
  show "m' (n + x) = (if unat x < 2048 then 0 else m (c + x))" if "unat x < 4096" for x
  proof (cases "unat x < 2048")
    case False
    then have "unat (x - 2048) = unat x - 2048" by (subst unat_sub) (simp_all add: word_le_nat_alt)
    moreover have "unat x - 2048 < 2048" using that by linarith
    ultimately show ?thesis using False m'[of "n + x"] by simp
  qed (simp add: m')
  show "m' (t + x) = m (t + x)" if "page_aligned t" "t \<noteq> n" "unat x < 4096" for t x
  proof -
    have "\<not> unat (t + x - n) < 4096" using in_page_iff[OF that(1) assms(1) that(3)] that(2) by simp
    moreover have "unat (t + x - n - 2048) = unat (t + x - n) - 2048"
      using calculation by (subst unat_sub) (simp_all add: word_le_nat_alt)
    moreover have "\<not> unat (t + x - n) - 2048 < 2048" using calculation(1) by linarith
    ultimately show ?thesis using m'[of "t + x"] by simp
  qed
qed

definition shares_upper_half ::
  "'a vmm_state_scheme \<Rightarrow> 'a vmm_state_scheme \<Rightarrow> u64 \<Rightarrow> nat \<Rightarrow> bool" where
  "shares_upper_half s s' cur k \<longleftrightarrow>
     vmm_wf s' \<and> vmm_hhdm_offset s' = vmm_hhdm_offset s \<and> k < nframes s \<and> \<not> frame_taken s k \<and>
     frame_taken s' = (\<lambda>j. j = k \<or> frame_taken s j) \<and>
     (\<forall>i < 512. pte_read s' (hhdm_page s k) i = (if i < 256 then 0 else pte_read s cur i)) \<and>
     (\<forall>t i. page_aligned t \<longrightarrow> t \<noteq> hhdm_page s k \<longrightarrow> i < 512 \<longrightarrow> pte_read s' t i = pte_read s t i)"

lemma vmm_create_new_pagemap_spec:
  assumes wf: "vmm_wf s" and mem: "0 < free_count s"
    and cur: "frame_taken s c" "vmm_get_curr_pagemap s = hhdm_page s c"
  shows "\<exists>k s'. vmm_create_new_pagemap s = Inr (hhdm_page s k, s') \<and>
    shares_upper_half s s' (hhdm_page s c) k"
proof -
  obtain a s1 where a: "pmm_alloc_page s = Inr (a, s1)" "a \<noteq> 0"
    using pmm_alloc_page_total[OF wf mem] by blast
  then obtain k where k: "k < nframes s" "\<not> frame_taken s k" "a = frame_addr k"
    and s1: "s1 = mark_frame k True s"
    using pmm_alloc_page_fresh[OF wf a] by blast
  let ?n = "hhdm_page s k" and ?c = "hhdm_page s c"
  define s' where "s' = s1\<lparr>kmem := memset ?n 0 2048 (memcpy (?n + 2048) (?c + 2048) 2048 (kmem s))\<rparr>"
  have "k \<noteq> 0" using k(2) wf by (auto simp: vmm_wf_def pmm_inv_def intro!: gr0I)
  then have nz: "?n \<noteq> 0" using hhdm_page_nonzero[OF wf _ k(1)] by simp
  have eq: "vmm_create_new_pagemap s = Inr (?n, s')"
    using a k(3) s1 cur(2) wf nz
    by (simp add: vmm_create_new_pagemap_def pmm_alloc_page_hhdm_def Let_def s'_def hhdm_page_def vmm_wf_def)
  have ne: "?n \<noteq> ?c" using hhdm_page_inj[OF wf k(1)] cur(1) k(2) by (auto simp: frame_taken_def)
  note half = copy_upper_half[OF hhdm_page_aligned[OF wf] hhdm_page_aligned[OF wf] ne, where m = "kmem s"]
  have taken: "frame_taken s' = (\<lambda>j. j = k \<or> frame_taken s j)"
    using frame_taken_mark_frame[OF wf k(1)] by (simp add: s'_def s1 fun_eq_iff)
  have "vmm_wf s'" using wf taken by (simp add: s'_def s1 vmm_wf_def pmm_inv_def)
  moreover have "pte_read s' ?n i = (if i < 256 then 0 else pte_read s ?c i)" if i: "i < 512" for i
  proof (cases "i < 256")
    case True
    have "kmem s' (pte_addr ?n i + word_of_nat j) = 0" if "j < 8" for j
      using half(1)[OF pte_byte_offset[OF i that]] pte_half_offset[OF i that] True
      by (simp add: s'_def pte_addr_def add.assoc)
    then show ?thesis using True by (simp add: pte_read_def read64_zero)
  next
    case False
    have "mem_bytes (kmem s') (pte_addr ?n i) 8 = mem_bytes (kmem s) (pte_addr ?c i) 8"
      using half(1)[OF pte_byte_offset[OF i]] pte_half_offset[OF i] False
      by (intro mem_bytes_cong) (simp add: s'_def pte_addr_def add.assoc)
    then show ?thesis using False by (simp add: pte_read_def read64_def)
  qed
  moreover have "pte_read s' t i = pte_read s t i" if "page_aligned t" "t \<noteq> ?n" "i < 512" for t i
    using half(2)[OF that(1,2)] that(3) by (intro pte_read_cong) (simp_all add: s'_def)
  ultimately show ?thesis using eq taken k by (auto simp: shares_upper_half_def s'_def s1)
qed

lemma shares_upper_half_paths:
  assumes wf: "vmm_wf s" and inv: "pt_inv s cur" and sh: "shares_upper_half s s' cur k"
    and p: "pt_path (i # p)"
  shows "table_at s' (hhdm_page s k) (i # p) = (if i < 256 then None else table_at s cur (i # p))"
  using p
proof (induction p rule: rev_induct)
  case Nil
  then have i: "i < 512" by (simp add: pt_path_def)
  then show ?case using sh
    by (auto simp: table_at_single shares_upper_half_def table_step_def get_next_page_table_def Let_def)
next
  case (snoc j p)
  have path: "pt_path (i # p)" "j < 512" using snoc.prems by (auto simp: pt_path_def)
  have new: "u \<noteq> hhdm_page s k" "page_aligned u" if u: "table_at s cur (i # p) = Some u" for u
  proof -
    obtain k' where "frame_taken s k'" "u = hhdm_page s k'" using pt_inv_table[OF inv path(1) u] by blast
    then show "u \<noteq> hhdm_page s k" "page_aligned u"
      using sh hhdm_page_inj[OF wf, of k' k] hhdm_page_aligned[OF wf, of k']
      by (auto simp: shares_upper_half_def frame_taken_def)
  qed
  have "table_step s' u j = table_step s u j" if "table_at s cur (i # p) = Some u" for u
    using new[OF that] sh path(2)
    by (intro table_step_cong) (simp_all add: shares_upper_half_def)
  then show ?case using snoc.IH[OF path(1)]
    by (cases "table_at s cur (i # p)") (auto simp: table_at_Cons_snoc)
qed

lemma shares_upper_half_inv:
  assumes wf: "vmm_wf s" and inv: "pt_inv s cur" and sh: "shares_upper_half s s' cur k"
  shows "pt_inv s' (hhdm_page s k)"
proof -
  let ?n = "hhdm_page s k"
  note d = sh[unfolded shares_upper_half_def]
  have page: "hhdm_page s' = hhdm_page s" using d by (simp add: hhdm_page_def fun_eq_iff)
  have cases: "q = [] \<and> u = ?n \<or> q \<noteq> [] \<and> table_at s cur q = Some u \<and> u \<noteq> ?n"
    if q: "pt_path q" "table_at s' ?n q = Some u" for q u
  proof (cases q)
    case (Cons i q')
    then have u: "table_at s cur q = Some u"
      using shares_upper_half_paths[OF wf inv sh, of i q'] q by (auto split: if_splits)
    obtain k' where "frame_taken s k'" "u = hhdm_page s k'" using pt_inv_table[OF inv q(1) u] by blast
    then have "u \<noteq> ?n" using d hhdm_page_inj[OF wf, of k' k] by (auto simp: frame_taken_def)
    then show ?thesis using u Cons by simp
  qed (use q in simp)
  show ?thesis
    unfolding pt_inv_def
  proof (intro conjI allI impI, goal_cases)
    case (1 q u)
    then show ?case using cases[of q u] pt_inv_table[OF inv, of q u] d page by auto
  next
    case (2 q r u)
    then show ?case using cases[of q u] cases[of r u] pt_inv_inj[OF inv, of q r u] by auto
  next
    case (3 q j u)
    then have q: "pt_path q" "j < 512" "table_at s' ?n q = Some u" by simp_all
    show ?case
    proof (cases "q = []")
      case True
      have "pte_mid_ok (pte_read s cur j)"
        using inv q(2) unfolding pt_inv_def by (metis append_Nil pt_path_Nil pt_path_append le0 list.size(3) table_at_simps(1))
      then show ?thesis using True q d by (auto simp: pte_mid_ok_def)
    next
      case False
      then have u: "table_at s cur q = Some u" "u \<noteq> ?n" using cases[OF q(1,3)] by auto
      moreover have "pte_mid_ok (pte_read s u j)" using inv u(1) 3 unfolding pt_inv_def by blast
      moreover have "page_aligned u" by (rule pt_inv_aligned[OF wf inv q(1) u(1)])
      ultimately show ?thesis using d q(2) by simp
    qed
  qed
qed

lemma shares_upper_half_leaf:
  assumes wf: "vmm_wf s" and inv: "pt_inv s cur" and sh: "shares_upper_half s s' cur k"
  shows "va_leaf s' (hhdm_page s k) v = (if va_plm4_index v < 256 then 0 else va_leaf s cur v)"
proof -
  have t: "table_at s' (hhdm_page s k) (va_indexes v) =
      (if va_plm4_index v < 256 then None else table_at s cur (va_indexes v))"
    using shares_upper_half_paths[OF wf inv sh, of "va_plm4_index v"] va_indexes_path(1)[of v]
    by (simp add: va_indexes_def)
  have "pte_read s' u (va_pt_index v) = pte_read s u (va_pt_index v)"
    if u: "table_at s cur (va_indexes v) = Some u" for u
  proof -
    obtain k' where "frame_taken s k'" "u = hhdm_page s k'" using pt_inv_table[OF inv _ u] by auto
    then have "u \<noteq> hhdm_page s k" "page_aligned u"
      using sh hhdm_page_inj[OF wf, of k' k] hhdm_page_aligned[OF wf, of k']
      by (auto simp: shares_upper_half_def frame_taken_def)
    then show ?thesis using sh by (simp add: shares_upper_half_def)
  qed
  then show ?thesis using t by (auto simp: va_leaf_def leaf_def split: option.split)
qed

section \<open>Counting pages\<close>

lemma page_mask: "unat (a AND NOT (REGULAR_PAGE_SIZE - 1)) = 4096 * (unat a div 4096)"
proof -
  have "a AND NOT (mask 12) = push_bit 12 (drop_bit 12 a)"
    by (rule bit_word_eqI) (auto simp: bit_simps)
  moreover have "REGULAR_PAGE_SIZE - 1 = mask 12" by (simp add: mask_eq_exp_minus_1)
  ultimately have "a AND NOT (REGULAR_PAGE_SIZE - 1) = push_bit 12 (drop_bit 12 a)" by metis
  moreover have "unat (push_bit 12 (drop_bit 12 a)) = 4096 * (unat a div 4096)"
  proof -
    have "unat (drop_bit 12 a) = unat a div 4096"
      by (simp add: drop_bit_eq_div unat_div_distrib)
    moreover have "unat a div 4096 < 2 ^ 52" using unat_u64_less[of a] by simp
    ultimately show ?thesis by (simp add: push_bit_eq_mult unat_word_ariths)
  qed
  ultimately show ?thesis by simp
qed

lemma vmm_count_spanned_pages_unat:
  assumes "a \<le> b"
  shows "unat (vmm_count_spanned_pages a b) = unat b div 4096 - unat a div 4096 + 1"
proof -
  let ?a = "a AND NOT (REGULAR_PAGE_SIZE - 1)" and ?b = "b AND NOT (REGULAR_PAGE_SIZE - 1)"
  have le: "unat a div 4096 \<le> unat b div 4096"
    using assms by (intro div_le_mono) (simp add: word_le_nat_alt)
  then have "?a \<le> ?b" by (simp only: word_le_nat_alt page_mask mult_le_mono2)
  then have "unat (?b - ?a) = 4096 * (unat b div 4096 - unat a div 4096)"
    by (simp only: unat_sub page_mask diff_mult_distrib2)
  then have d: "unat ((?b - ?a) div REGULAR_PAGE_SIZE) = unat b div 4096 - unat a div 4096"
    by (simp add: unat_div_distrib)
  moreover have "unat b div 4096 < 2 ^ 52" using unat_u64_less[of b] by simp
  ultimately show ?thesis unfolding vmm_count_spanned_pages_def Let_def
    by (subst unat_add_if_fits) simp_all
qed

lemma pages_between:
  assumes "a \<le> (b :: u64)"
  shows "(\<lambda>x. unat x div 4096) ` {x. a \<le> x \<and> x \<le> b} = {unat a div 4096..unat b div 4096}"
proof (intro equalityI subsetI)
  fix p assume p: "p \<in> {unat a div 4096..unat b div 4096}"
  let ?n = "max (unat a) (p * 4096)"
  have n: "unat a \<le> ?n" "?n \<le> unat b" "?n div 4096 = p"
    using p assms by (auto simp: word_le_nat_alt max_def less_eq_div_iff_mult_less_eq div_le_mono le_antisym
        intro: le_antisym)
  then have "unat (word_of_nat ?n :: u64) = ?n" using unat_u64_less[of b] by (simp add: unat_of_nat)
  then show "p \<in> (\<lambda>x. unat x div 4096) ` {x. a \<le> x \<and> x \<le> b}"
    using n by (intro image_eqI[of _ _ "word_of_nat ?n"]) (simp_all add: word_le_nat_alt)
qed (auto simp: word_le_nat_alt div_le_mono)

section \<open>Properties\<close>

text \<open>A small machine with an empty pagemap in frame 1.\<close>

definition vmm_demo :: vmm_state where
  "vmm_demo = \<lparr>g_bitmap = \<lparr>bit_count = 8, bitmap = [3]\<rparr>, pmm_hhdm_offset = 0xFFFF800000000000,
     kmem = (\<lambda>_. 0), vmm_hhdm_offset = 0xFFFF800000000000, cr3 = 0x1000\<rparr>"

abbreviation (input) "demo_root \<equiv> (0xFFFF800000001000 :: u64)"

lemma vmm_demo_frames: "nframes vmm_demo = 8" "frame_taken vmm_demo k \<longleftrightarrow> k = 0 \<or> k = 1"
proof -
  show n: "nframes vmm_demo = 8" by (simp add: nframes_def vmm_demo_def)
  have "bit (mask 2 :: u8) k \<longleftrightarrow> k < 2" for k by (auto simp: bit_mask_iff)
  moreover have "(3 :: u8) = mask 2" by (simp add: mask_eq_exp_minus_1)
  ultimately have "bit (3 :: u8) k \<longleftrightarrow> k < 2" for k by metis
  then have b: "bit (3 :: u8) k \<longleftrightarrow> k < 2" .
  show "frame_taken vmm_demo k \<longleftrightarrow> k = 0 \<or> k = 1"
  proof (cases "k < 8")
    case True
    then have "frame_used vmm_demo k = bit (3 :: u8) k"
      by (simp add: frame_used_def bm_bit_def vmm_demo_def)
    then show ?thesis unfolding frame_taken_def n b using True by linarith
  qed (simp add: frame_taken_def n)
qed

lemma vmm_demo_wf: "vmm_wf vmm_demo"
  using vmm_demo_frames
  by (simp add: vmm_wf_def pmm_inv_def pmm_wf_def bitmap_wf_def page_aligned_def)
    (simp add: vmm_demo_def)

lemma vmm_demo_free: "free_count vmm_demo = 6"
proof -
  have "{k. k < nframes vmm_demo \<and> \<not> frame_taken vmm_demo k} = {2, 3, 4, 5, 6, 7}"
    by (auto simp: vmm_demo_frames)
  then show ?thesis by (simp add: free_count_def)
qed

lemma vmm_demo_read: "pte_read vmm_demo t i = 0"
  by (simp add: pte_read_def read64_zero vmm_demo_def)

lemma vmm_demo_table: "table_at vmm_demo root p = (if p = [] then Some root else None)"
  by (induction p rule: rev_induct) (simp_all add: table_step_def vmm_demo_read)

lemma vmm_demo_inv: "pt_inv vmm_demo demo_root" "no_huge vmm_demo demo_root p"
proof -
  have "demo_root = hhdm_page vmm_demo 1" by (simp add: hhdm_page_def frame_addr_def vmm_demo_def)
  then show "pt_inv vmm_demo demo_root"
    using vmm_demo_frames(2)
    by (auto simp: pt_inv_def vmm_demo_table vmm_demo_read pte_mid_ok_def split: if_splits)
  show "no_huge vmm_demo demo_root p" by (simp add: no_huge_def vmm_demo_read)
qed

text \<open>C21: In a well-formed pagemap without large pages on the way and with three free frames,
  vmm_map_page either refuses with -1, when the page is mapped and overriding was not asked for,
  and then changes no mapping; or returns 0, and the processor then translates every address of
  the page to the given frame, writable and user accessible exactly as the flags say. In both
  cases no other page's entry changes and the pagemap stays well-formed.\<close>

theorem vmm_map_page_translates:
  assumes "vmm_wf s" "pt_inv s root" "no_huge s root (va_indexes v)" "3 \<le> free_count s" "k < 2 ^ 40"
  shows "\<exists>r s'. vmm_map_page root v (frame_addr k) flags s = Inr (r, s') \<and> vmm_wf s' \<and> pt_inv s' root \<and>
    (\<forall>v'. va_page v' \<noteq> va_page v \<longrightarrow> va_leaf s' root v' = va_leaf s root v') \<and>
    (if \<not> mpf_override_page flags \<and> va_leaf s root v \<noteq> 0
     then r = -1 \<and> va_leaf s' root v = va_leaf s root v
     else r = 0 \<and> hw_translate s' root v =
            Some (frame_addr k + va_offset v, mpf_writable_page flags, mpf_user_accessible flags))"
  using assms by (rule vmm_map_page_effect)

theorem vmm_map_page_translates_witness:
  "\<exists>s'. vmm_map_page demo_root 0x400123 0x5000 2 vmm_demo = Inr (0, s') \<and>
     hw_translate s' demo_root 0x400123 = Some (0x5123, True, False)"
proof -
  have "va_leaf vmm_demo demo_root 0x400123 = 0"
    by (simp add: va_leaf_def leaf_def vmm_demo_read split: option.split)
  moreover have "frame_addr 5 = 0x5000" "va_offset 0x400123 = 0x123"
    "mpf_writable_page 2" "\<not> mpf_user_accessible 2"
    by (simp_all add: frame_addr_def va_offset_def mpf_writable_page_def mpf_user_accessible_def
        bit_numeral_rec(2) take_bit_eq_mask[symmetric] take_bit_eq_mod)
  ultimately show ?thesis
    using vmm_map_page_translates[of vmm_demo demo_root "0x400123" 5 2] vmm_demo_wf vmm_demo_inv
      vmm_demo_free by auto
qed



text \<open>C23: vmm_create_new_pagemap returns a pagemap in a frame that was free; the new pagemap is
  well-formed, maps nothing in the lower half of the address space and in the upper half has the
  entries of the current pagemap.\<close>

theorem vmm_create_new_pagemap_shares_kernel:
  assumes "vmm_wf s" "0 < free_count s" "pt_inv s (hhdm_page s c)" "frame_taken s c"
    "vmm_get_curr_pagemap s = hhdm_page s c"
  shows "\<exists>k s'. vmm_create_new_pagemap s = Inr (hhdm_page s k, s') \<and> \<not> frame_taken s k \<and>
    frame_taken s' = (\<lambda>j. j = k \<or> frame_taken s j) \<and> vmm_wf s' \<and> pt_inv s' (hhdm_page s k) \<and>
    (\<forall>v. va_leaf s' (hhdm_page s k) v =
       (if va_plm4_index v < 256 then 0 else va_leaf s (hhdm_page s c) v))"
proof -
  obtain k s' where new: "vmm_create_new_pagemap s = Inr (hhdm_page s k, s')"
    "shares_upper_half s s' (hhdm_page s c) k"
    using vmm_create_new_pagemap_spec[OF assms(1,2,4,5)] by blast
  then show ?thesis
    using shares_upper_half_inv[OF assms(1,3) new(2)] shares_upper_half_leaf[OF assms(1,3) new(2)]
    by (intro exI[of _ k] exI[of _ s']) (simp add: shares_upper_half_def)
qed

theorem vmm_create_new_pagemap_shares_kernel_witness:
  "\<exists>k s'. vmm_create_new_pagemap vmm_demo = Inr (hhdm_page vmm_demo k, s') \<and>
     pt_inv s' (hhdm_page vmm_demo k)"
proof -
  have r: "hhdm_page vmm_demo 1 = demo_root" by (simp add: hhdm_page_def frame_addr_def vmm_demo_def)
  moreover have "vmm_get_curr_pagemap vmm_demo = demo_root"
    by (simp add: vmm_get_curr_pagemap_def vmm_demo_def)
  ultimately show ?thesis
    using vmm_create_new_pagemap_shares_kernel[OF vmm_demo_wf, of 1] vmm_demo_free vmm_demo_inv(1)
      vmm_demo_frames(2) by auto
qed

text \<open>C24: vmm_count_spanned_pages returns the number of pages that an address between the two
  ends lies in.\<close>

theorem vmm_count_spanned_pages_counts:
  assumes "start_ptr \<le> end_ptr"
  shows "unat (vmm_count_spanned_pages start_ptr end_ptr) =
    card ((\<lambda>a. unat a div 4096) ` {a. start_ptr \<le> a \<and> a \<le> end_ptr})"
proof -
  have "unat start_ptr div 4096 \<le> unat end_ptr div 4096"
    using assms by (intro div_le_mono) (simp add: word_le_nat_alt)
  then show ?thesis
    using assms by (simp add: pages_between vmm_count_spanned_pages_unat)
qed

theorem vmm_count_spanned_pages_counts_witness:
  "unat (vmm_count_spanned_pages 0xFFF 0x1000) =
    card ((\<lambda>a. unat a div 4096) ` {a. (0xFFF :: u64) \<le> a \<and> a \<le> 0x1000})"
  by (rule vmm_count_spanned_pages_counts) simp

end
