(* ===== verification/Block_List.thy ===== *)
theory Block_List
  imports Kernel_Heap Vmm_Walk
begin

text \<open>
  Doubly linked lists of heap blocks. The list structure is stated over the link fields as
  functions; the lemmas say what the pointer updates of heap.c do to the list of nodes. Header
  fields of different 32-byte aligned blocks do not overlap.
\<close>

section \<open>Linked segments\<close>

definition hd0 :: "u64 list \<Rightarrow> u64 \<Rightarrow> u64" where
  "hd0 xs n = (if xs = [] then n else hd xs)"

definition last0 :: "u64 \<Rightarrow> u64 list \<Rightarrow> u64" where
  "last0 p xs = (if xs = [] then p else last xs)"

fun dlseg :: "(u64 \<Rightarrow> u64) \<Rightarrow> (u64 \<Rightarrow> u64) \<Rightarrow> u64 \<Rightarrow> u64 list \<Rightarrow> u64 \<Rightarrow> bool" where
  "dlseg nx pv p [] n \<longleftrightarrow> True"
| "dlseg nx pv p (x # xs) n \<longleftrightarrow> pv x = p \<and> nx x = hd0 xs n \<and> dlseg nx pv x xs n"

lemma hd0_simps [simp]: "hd0 [] n = n" "hd0 (x # xs) n = x"
  "hd0 (xs @ ys) n = hd0 xs (hd0 ys n)"
  by (simp_all add: hd0_def)

lemma last0_simps [simp]: "last0 p [] = p" "last0 p (xs @ [x]) = x"
  "last0 p (x # xs) = last0 x xs" "last0 p (xs @ ys) = last0 (last0 p xs) ys"
  by (simp_all add: last0_def)

lemma dlseg_append:
  "dlseg nx pv p (xs @ ys) n \<longleftrightarrow> dlseg nx pv p xs (hd0 ys n) \<and> dlseg nx pv (last0 p xs) ys n"
  by (induction xs arbitrary: p) auto

lemma dlseg_cong:
  "(\<And>x. x \<in> set xs \<Longrightarrow> nx x = nx' x \<and> pv x = pv' x) \<Longrightarrow> dlseg nx pv p xs n = dlseg nx' pv' p xs n"
  by (induction xs arbitrary: p) auto

lemma dlseg_upd_other [simp]:
  "a \<notin> set xs \<Longrightarrow> dlseg (nx(a := v)) pv p xs n = dlseg nx pv p xs n"
  "a \<notin> set xs \<Longrightarrow> dlseg nx (pv(a := v)) p xs n = dlseg nx pv p xs n"
  by (rule dlseg_cong; auto)+

lemma dlseg_set_last:
  "dlseg nx pv p (xs @ [x]) n \<Longrightarrow> x \<notin> set xs \<Longrightarrow> dlseg (nx(x := v)) pv p (xs @ [x]) v"
  by (simp add: dlseg_append)

lemma dlseg_set_first:
  "dlseg nx pv p (x # xs) n \<Longrightarrow> x \<notin> set xs \<Longrightarrow> dlseg nx (pv(x := v)) v (x # xs) n"
  by simp

text \<open>Linking two segments around whatever was between them.\<close>

lemma dlseg_link:
  assumes "dlseg nx pv p ys n'" "dlseg nx pv p' zs n" "distinct (ys @ zs)"
  shows "dlseg (if ys = [] then nx else nx(last ys := hd0 zs n))
           (if zs = [] then pv else pv(hd zs := last0 p ys)) p (ys @ zs) n"
proof -
  have y: "dlseg (if ys = [] then nx else nx(last ys := hd0 zs n)) pv p ys (hd0 zs n)"
  proof (cases ys rule: rev_cases)
    case (snoc ys' y)
    then show ?thesis using assms dlseg_set_last[of nx pv p ys' y n' "hd0 zs n"] by simp
  qed simp
  have z: "dlseg nx (if zs = [] then pv else pv(hd zs := last0 p ys)) (last0 p ys) zs n"
    using assms by (cases zs) auto
  have "last ys \<notin> set zs" if "ys \<noteq> []" using that assms(3) by (cases ys rule: rev_cases) auto
  moreover have "hd zs \<notin> set ys" if "zs \<noteq> []" using that assms(3) by (cases zs) auto
  ultimately show ?thesis using y z by (auto simp: dlseg_append)
qed

lemma dlseg_remove:
  assumes "dlseg nx pv p (ys @ b # zs) n" "distinct (ys @ b # zs)"
  shows "dlseg (if ys = [] then nx else nx(last ys := nx b))
           (if zs = [] then pv else pv(hd zs := pv b)) p (ys @ zs) n"
    "nx b = hd0 zs n" "pv b = last0 p ys"
  using assms dlseg_link[of nx pv p ys b b zs n] by (auto simp: dlseg_append)

lemma dlseg_replace:
  assumes "dlseg nx pv p (ys @ b # zs) n" "distinct (ys @ b # zs)" "c \<notin> set (ys @ zs)"
  shows "dlseg (if ys = [] then nx(c := nx b) else nx(c := nx b, last ys := c))
           (if zs = [] then pv(c := pv b) else pv(c := pv b, hd zs := c)) p (ys @ c # zs) n"
proof -
  let ?nx = "nx(c := nx b)" and ?pv = "pv(c := pv b)"
  have d: "dlseg nx pv p ys b" "dlseg nx pv b zs n" "nx b = hd0 zs n" "pv b = last0 p ys"
    using assms(1) by (simp_all add: dlseg_append)
  have y: "dlseg (if ys = [] then ?nx else ?nx(last ys := c)) ?pv p ys c"
  proof (cases ys rule: rev_cases)
    case (snoc ys' y)
    have "dlseg ?nx ?pv p (ys' @ [y]) b" using d(1) assms(3) snoc by simp
    then show ?thesis using assms(2) snoc dlseg_set_last[of ?nx ?pv p ys' y b c] by simp
  qed simp
  have z: "dlseg ?nx (if zs = [] then ?pv else ?pv(hd zs := c)) c zs n"
    using d(2) assms(2,3) by (cases zs) auto
  have l: "last ys \<noteq> c \<and> last ys \<notin> set zs" if "ys \<noteq> []"
    using that assms(2,3) by (cases ys rule: rev_cases) auto
  have h: "hd zs \<noteq> c \<and> hd zs \<notin> set ys" if "zs \<noteq> []"
    using that assms(2,3) by (cases zs) auto
  show ?thesis using y z l h d(3,4)
    by (cases "ys = []"; cases "zs = []") (simp_all add: dlseg_append, blast)
qed

lemma dlseg_snoc:
  assumes "dlseg nx pv p xs n" "distinct xs" "c \<notin> set xs"
  shows "dlseg (if xs = [] then nx(c := n) else nx(c := n, last xs := c)) (pv(c := last0 p xs)) p (xs @ [c]) n"
proof (cases xs rule: rev_cases)
  case (snoc ys y)
  have "dlseg (nx(c := n)) (pv(c := last0 p xs)) p (ys @ [y]) n" using assms snoc by simp
  then show ?thesis using assms snoc dlseg_set_last[of "nx(c := n)" "pv(c := last0 p xs)" p ys y n c]
    by (simp add: dlseg_append)
qed simp

lemma dlseg_cons:
  assumes "dlseg nx pv q xs n" "distinct xs" "c \<notin> set xs"
  shows "dlseg (nx(c := hd0 xs n)) (if xs = [] then pv(c := p) else pv(c := p, hd xs := c)) p (c # xs) n"
  using assms by (cases xs) auto

section \<open>Header fields\<close>

definition hdr_aligned :: "u64 \<Rightarrow> bool" where
  "hdr_aligned b \<longleftrightarrow> 32 dvd unat b"

lemma hdr_field_unat:
  assumes "hdr_aligned b" "unat f < 32"
  shows "unat (b + f) = unat b + unat f"
proof -
  obtain q where q: "unat b = 32 * q" using assms(1) by (auto simp: hdr_aligned_def)
  then have "q < 2 ^ 59" using unat_u64_less[of b] by simp
  then show ?thesis using q assms(2) by (intro unat_add_if_fits) simp
qed

lemma hdr_field_inj:
  assumes "hdr_aligned b" "hdr_aligned c" "unat f < 32" "unat g < 32" "b + f = c + g"
  shows "b = c \<and> f = g"
proof -
  have "unat b + unat f = unat c + unat g"
    using assms hdr_field_unat by metis
  moreover obtain q r where "unat b = 32 * q" "unat c = 32 * r"
    using assms(1,2) unfolding hdr_aligned_def by (elim dvdE)
  ultimately have "q = r" "unat f = unat g" using assms(3,4) by presburger+
  then show ?thesis using \<open>unat b = 32 * q\<close> \<open>unat c = 32 * r\<close> by (simp add: word_unat_eq_iff)
qed

lemma field_read_write:
  assumes "hdr_aligned b" "hdr_aligned c" "f \<in> {0, 8, 16, 24}" "g \<in> {0, 8, 16, 24}"
  shows "read64 (write64 m (b + f) v) (c + g) = (if b = c \<and> f = g then v else read64 m (c + g))"
proof -
  have u: "unat f < 32" "unat g < 32" "8 dvd unat f" "8 dvd unat g" using assms(3,4) by auto
  have "8 dvd unat b" "8 dvd unat c"
    using assms(1,2) dvd_trans[of 8 32] by (auto simp: hdr_aligned_def)
  then have al: "8 dvd unat (b + f)" "8 dvd unat (c + g)"
    using u hdr_field_unat[OF assms(1) u(1)] hdr_field_unat[OF assms(2) u(2)] by simp_all
  show ?thesis
  proof (cases "b + f = c + g")
    case True
    then show ?thesis using hdr_field_inj[OF assms(1,2) u(1,2)] by simp
  next
    case False
    then have "\<not> (b = c \<and> f = g)" by auto
    then show ?thesis using False al by (auto simp: read64_write64_other)
  qed
qed

lemmas field_rw = field_read_write[where f = 0, simplified] field_read_write[where f = 8, simplified]
  field_read_write[where f = 16, simplified] field_read_write[where f = 24, simplified]

lemma mb_read_write [simp]:
  assumes "hdr_aligned b" "hdr_aligned c"
  shows "mb_next (mb_set_next b v s) c = ((mb_next s)(b := v)) c"
    "mb_prev (mb_set_next b v s) c = mb_prev s c"
    "mb_block_size (mb_set_next b v s) c = mb_block_size s c"
    "mb_next (mb_set_prev b v s) c = mb_next s c"
    "mb_prev (mb_set_prev b v s) c = ((mb_prev s)(b := v)) c"
    "mb_block_size (mb_set_prev b v s) c = mb_block_size s c"
    "mb_next (mb_set_padding b v s) c = mb_next s c"
    "mb_prev (mb_set_padding b v s) c = mb_prev s c"
    "mb_block_size (mb_set_padding b v s) c = mb_block_size s c"
    "mb_next (mb_set_block_size b v s) c = mb_next s c"
    "mb_prev (mb_set_block_size b v s) c = mb_prev s c"
    "mb_block_size (mb_set_block_size b v s) c = ((mb_block_size s)(b := v)) c"
  using assms field_rw(1)[of b c 8 "kmem s" v] field_rw(1)[of b c 16 "kmem s" v]
    field_rw(1)[of b c 0 "kmem s" v] field_rw(2)[of b c 0 "kmem s" v] field_rw(2)[of b c 8 "kmem s" v]
    field_rw(2)[of b c 16 "kmem s" v] field_rw(3)[of b c 0 "kmem s" v] field_rw(3)[of b c 8 "kmem s" v]
    field_rw(3)[of b c 16 "kmem s" v] field_rw(4)[of b c 0 "kmem s" v] field_rw(4)[of b c 8 "kmem s" v]
    field_rw(4)[of b c 16 "kmem s" v]
  by (simp_all add: mb_next_def mb_prev_def mb_block_size_def mb_set_next_def mb_set_prev_def
      mb_set_padding_def mb_set_block_size_def)

text \<open>The other parts of the state.\<close>

lemma mb_set_state [simp]:
  "g_super_blocks (mb_set_next b v s) = g_super_blocks s"
  "g_free_blocks (mb_set_next b v s) = g_free_blocks s"
  "g_free_block_tail (mb_set_next b v s) = g_free_block_tail s"
  "g_super_blocks (mb_set_prev b v s) = g_super_blocks s"
  "g_free_blocks (mb_set_prev b v s) = g_free_blocks s"
  "g_free_block_tail (mb_set_prev b v s) = g_free_block_tail s"
  "g_super_blocks (mb_set_padding b v s) = g_super_blocks s"
  "g_free_blocks (mb_set_padding b v s) = g_free_blocks s"
  "g_free_block_tail (mb_set_padding b v s) = g_free_block_tail s"
  "g_super_blocks (mb_set_block_size b v s) = g_super_blocks s"
  "g_free_blocks (mb_set_block_size b v s) = g_free_blocks s"
  "g_free_block_tail (mb_set_block_size b v s) = g_free_block_tail s"
  by (simp_all add: mb_set_next_def mb_set_prev_def mb_set_padding_def mb_set_block_size_def)

lemma mb_set_pmm [simp]:
  "g_bitmap (mb_set_next b v s) = g_bitmap s" "g_bitmap (mb_set_prev b v s) = g_bitmap s"
  "g_bitmap (mb_set_padding b v s) = g_bitmap s" "g_bitmap (mb_set_block_size b v s) = g_bitmap s"
  "pmm_hhdm_offset (mb_set_next b v s) = pmm_hhdm_offset s"
  "pmm_hhdm_offset (mb_set_prev b v s) = pmm_hhdm_offset s"
  "pmm_hhdm_offset (mb_set_padding b v s) = pmm_hhdm_offset s"
  "pmm_hhdm_offset (mb_set_block_size b v s) = pmm_hhdm_offset s"
  "vmm_hhdm_offset (mb_set_next b v s) = vmm_hhdm_offset s"
  "vmm_hhdm_offset (mb_set_prev b v s) = vmm_hhdm_offset s"
  "vmm_hhdm_offset (mb_set_padding b v s) = vmm_hhdm_offset s"
  "vmm_hhdm_offset (mb_set_block_size b v s) = vmm_hhdm_offset s"
  by (simp_all add: mb_set_next_def mb_set_prev_def mb_set_padding_def mb_set_block_size_def)

lemma mb_globals [simp]:
  "mb_next (s\<lparr>g_free_blocks := v\<rparr>) = mb_next s" "mb_prev (s\<lparr>g_free_blocks := v\<rparr>) = mb_prev s"
  "mb_block_size (s\<lparr>g_free_blocks := v\<rparr>) = mb_block_size s"
  "mb_next (s\<lparr>g_super_blocks := v\<rparr>) = mb_next s" "mb_prev (s\<lparr>g_super_blocks := v\<rparr>) = mb_prev s"
  "mb_block_size (s\<lparr>g_super_blocks := v\<rparr>) = mb_block_size s"
  "mb_next (s\<lparr>g_free_block_tail := v\<rparr>) = mb_next s" "mb_prev (s\<lparr>g_free_block_tail := v\<rparr>) = mb_prev s"
  "mb_block_size (s\<lparr>g_free_block_tail := v\<rparr>) = mb_block_size s"
  by (simp_all add: mb_next_def mb_prev_def mb_block_size_def fun_eq_iff)

section \<open>The two lists of the heap\<close>

definition list_inv :: "'a heap_state_scheme \<Rightarrow> u64 list \<Rightarrow> u64 list \<Rightarrow> bool" where
  "list_inv s fs ss \<longleftrightarrow>
     g_free_blocks s = hd0 fs 0 \<and> g_free_block_tail s = last0 0 fs \<and> g_super_blocks s = hd0 ss 0 \<and>
     dlseg (mb_next s) (mb_prev s) 0 fs 0 \<and> dlseg (mb_next s) (mb_prev s) 0 ss 0 \<and>
     distinct (fs @ ss) \<and> (\<forall>b \<in> set (fs @ ss). hdr_aligned b \<and> b \<noteq> 0)"

text \<open>Nothing but list heads and links of the blocks in B changes.\<close>

definition links_only :: "'a heap_state_scheme \<Rightarrow> 'a heap_state_scheme \<Rightarrow> u64 set \<Rightarrow> bool" where
  "links_only s s' B \<longleftrightarrow>
     (\<forall>x. (\<forall>b \<in> B. \<not> unat (x - b) < 32) \<longrightarrow> kmem s' x = kmem s x) \<and>
     (\<forall>b. hdr_aligned b \<longrightarrow> mb_block_size s' b = mb_block_size s b) \<and>
     g_bitmap s' = g_bitmap s \<and> pmm_hhdm_offset s' = pmm_hhdm_offset s \<and>
     vmm_hhdm_offset s' = vmm_hhdm_offset s"

lemma write64_outside:
  assumes "\<not> unat (x - b) < 32" "unat f \<le> 24"
  shows "write64 m (b + f) v x = m x"
proof -
  have "\<not> unat (x - (b + f)) < 8"
  proof
    assume a: "unat (x - (b + f)) < 8"
    have "x - b = (x - (b + f)) + f" by simp
    then have "unat (x - b) = unat (x - (b + f)) + unat f"
      using a assms(2) unat_add_if_fits[of "x - (b + f)" f] by simp
    then show False using a assms by simp
  qed
  then show ?thesis by (simp add: write64_def mem_store_def)
qed

lemma kmem_mb_set:
  assumes "\<not> unat (x - b) < 32"
  shows "kmem (mb_set_next b v s) x = kmem s x" "kmem (mb_set_prev b v s) x = kmem s x"
    "kmem (mb_set_block_size b v s) x = kmem s x" "kmem (mb_set_padding b v s) x = kmem s x"
  using assms write64_outside[of x b 0 "kmem s" v]
  by (simp_all add: mb_set_next_def mb_set_prev_def mb_set_block_size_def mb_set_padding_def
      write64_outside)

lemma links_only_refl [simp]: "links_only s s B"
  by (simp add: links_only_def)

lemma links_only_trans:
  "links_only s s' B \<Longrightarrow> links_only s' s'' B \<Longrightarrow> links_only s s'' B"
  by (simp add: links_only_def)

lemma links_only_mono: "links_only s s' B \<Longrightarrow> B \<subseteq> C \<Longrightarrow> links_only s s' C"
  unfolding links_only_def by blast

lemma links_only_set:
  assumes "hdr_aligned b" "b \<in> B"
  shows "links_only s (mb_set_next b v s) B" "links_only s (mb_set_prev b v s) B"
  using assms by (auto simp: links_only_def kmem_mb_set)

lemma links_only_globals:
  "links_only s (s\<lparr>g_free_blocks := v\<rparr>) B" "links_only s (s\<lparr>g_super_blocks := v\<rparr>) B"
  "links_only s (s\<lparr>g_free_block_tail := v\<rparr>) B"
  by (simp_all add: links_only_def)

lemma links_steps:
  "links_only s s' B \<Longrightarrow> hdr_aligned b \<Longrightarrow> b \<in> B \<Longrightarrow> links_only s (mb_set_next b v s') B"
  "links_only s s' B \<Longrightarrow> hdr_aligned b \<Longrightarrow> b \<in> B \<Longrightarrow> links_only s (mb_set_prev b v s') B"
  "links_only s s' B \<Longrightarrow> links_only s (s'\<lparr>g_free_blocks := v\<rparr>) B"
  "links_only s s' B \<Longrightarrow> links_only s (s'\<lparr>g_super_blocks := v\<rparr>) B"
  "links_only s s' B \<Longrightarrow> links_only s (s'\<lparr>g_free_block_tail := v\<rparr>) B"
  by (erule links_only_trans, rule links_only_set links_only_globals; assumption)+

text \<open>Replacing the links by functions that agree with them on the blocks of the lists.\<close>

lemma list_invI:
  assumes "dlseg nx pv 0 fs 0" "dlseg nx pv 0 ss 0" "distinct (fs @ ss)"
    "\<And>b. b \<in> set (fs @ ss) \<Longrightarrow> hdr_aligned b \<and> b \<noteq> 0"
    "\<And>b. hdr_aligned b \<Longrightarrow> mb_next s b = nx b \<and> mb_prev s b = pv b"
    "g_free_blocks s = hd0 fs 0" "g_free_block_tail s = last0 0 fs" "g_super_blocks s = hd0 ss 0"
  shows "list_inv s fs ss"
  using assms dlseg_cong[of fs "mb_next s" nx "mb_prev s" pv 0 0]
    dlseg_cong[of ss "mb_next s" nx "mb_prev s" pv 0 0]
  by (auto simp: list_inv_def)

lemma hd0_in: "hd0 xs 0 \<noteq> 0 \<Longrightarrow> hd0 xs 0 \<in> set xs"
  by (cases xs) auto

lemma split_at:
  assumes "b \<in> set xs" "distinct xs"
  obtains ys zs where "xs = ys @ b # zs" "remove1 b xs = ys @ zs"
    "map (\<lambda>x. if x = b then c else x) xs = ys @ c # zs"
proof -
  obtain ys zs where xs: "xs = ys @ b # zs" using split_list[OF assms(1)] by blast
  moreover have "remove1 b xs = ys @ zs" using xs assms(2) by (simp add: remove1_append)
  moreover have "map (\<lambda>x. if x = b then c else x) us = us" if "b \<notin> set us" for us
    using that by (induction us) auto
  ultimately show thesis using that assms(2) by auto
qed

text \<open>Removing a block from the list it is in.\<close>

lemma remove_effect:
  assumes seg: "dlseg (mb_next s) (mb_prev s) 0 (ys @ b # zs) 0" and dist: "distinct (ys @ b # zs)"
    and al: "\<And>c. c \<in> set (ys @ b # zs) \<Longrightarrow> hdr_aligned c \<and> c \<noteq> 0"
    and hd: "ys = [] \<Longrightarrow> b = g_free_blocks s \<or> b = g_super_blocks s"
    and B: "set (ys @ b # zs) \<subseteq> B"
  shows "\<exists>s'. remove_memory_block_from_list b s = Inr s' \<and>
    (\<forall>c. hdr_aligned c \<longrightarrow>
       mb_next s' c = (if ys = [] then mb_next s else (mb_next s)(last ys := mb_next s b)) c \<and>
       mb_prev s' c = (if zs = [] then mb_prev s else (mb_prev s)(hd zs := mb_prev s b)) c) \<and>
    g_free_blocks s' = (if ys = [] \<and> b = g_free_blocks s then hd0 zs 0 else g_free_blocks s) \<and>
    g_super_blocks s' =
      (if ys = [] \<and> b \<noteq> g_free_blocks s then hd0 zs 0 else g_super_blocks s) \<and>
    g_free_block_tail s' =
      (if zs = [] \<and> (if ys = [] then b = g_free_blocks s else b = g_free_block_tail s)
       then last0 0 ys else g_free_block_tail s) \<and>
    links_only s s' B"
proof -
  note rm = dlseg_remove(2,3)[OF seg dist]
  have b: "hdr_aligned b" "b \<noteq> 0" using al by auto
  have z: "hdr_aligned (hd zs) \<and> hd zs \<noteq> 0 \<and> hd zs \<in> B" if "zs \<noteq> []"
    using al B that by (cases zs) auto
  have y: "hdr_aligned (last ys) \<and> last ys \<noteq> 0 \<and> last ys \<in> B \<and> last ys \<noteq> b" if "ys \<noteq> []"
    using al dist B that by (cases ys rule: rev_cases) auto
  let ?s0 = "s\<lparr>g_free_blocks := hd0 zs 0\<rparr>" and ?s1 = "s\<lparr>g_super_blocks := hd0 zs 0\<rparr>"
  have nz: "hd0 zs 0 = hd zs" if "zs \<noteq> []" using that by (simp add: hd0_def)
  consider "ys = []" "zs = []" "b = g_free_blocks s" | "ys = []" "zs \<noteq> []" "b = g_free_blocks s"
    | "ys = []" "zs = []" "b \<noteq> g_free_blocks s" | "ys = []" "zs \<noteq> []" "b \<noteq> g_free_blocks s"
    | "ys \<noteq> []" "zs = []" | "ys \<noteq> []" "zs \<noteq> []"
    by blast
  then show ?thesis
  proof cases
    case 1
    let ?s' = "?s0\<lparr>g_free_block_tail := 0\<rparr>"
    have "remove_memory_block_from_list b s = Inr ?s'"
      using 1 rm by (simp add: remove_memory_block_from_list_def)
    moreover have "links_only s ?s' B" by (intro links_steps) simp
    ultimately show ?thesis using 1 by simp
  next
    case 2
    let ?s' = "mb_set_prev (hd zs) 0 ?s0"
    have "remove_memory_block_from_list b s = Inr ?s'"
      using 2 rm z nz by (simp add: remove_memory_block_from_list_def)
    moreover have "links_only s ?s' B" using z[OF 2(2)] by (intro links_steps) simp_all
    ultimately show ?thesis using 2 z[OF 2(2)] rm by simp
  next
    case 3
    have "remove_memory_block_from_list b s = Inr ?s1"
      using 3 hd rm by (simp add: remove_memory_block_from_list_def)
    moreover have "links_only s ?s1 B" by (intro links_steps) simp
    ultimately show ?thesis using 3 by simp
  next
    case 4
    let ?s' = "mb_set_prev (hd zs) 0 ?s1"
    have "remove_memory_block_from_list b s = Inr ?s'"
      using 4 hd rm z nz by (simp add: remove_memory_block_from_list_def)
    moreover have "links_only s ?s' B" using z[OF 4(2)] by (intro links_steps) simp_all
    ultimately show ?thesis using 4 z[OF 4(2)] rm by simp
  next
    case 5
    let ?s2 = "mb_set_next (last ys) (mb_next s b) s"
    let ?s' = "if b = g_free_block_tail s then ?s2\<lparr>g_free_block_tail := last ys\<rparr> else ?s2"
    have pv: "mb_prev s b = last ys" using rm(2) 5 by (simp add: last0_def)
    have "remove_memory_block_from_list b s = Inr ?s'"
      using 5 rm(1) pv y[OF 5(1)] b
      by (cases "b = g_free_block_tail s") (simp_all add: remove_memory_block_from_list_def Let_def)
    moreover have "links_only s ?s' B"
    proof -
      have l2: "links_only s ?s2 B" using y[OF 5(1)] by (intro links_steps) simp_all
      then show ?thesis using links_steps(5)[OF l2] by (cases "b = g_free_block_tail s") simp_all
    qed
    ultimately show ?thesis using 5 y[OF 5(1)] rm(1)
      by (cases "b = g_free_block_tail s") (simp_all add: last0_def)
  next
    case 6
    let ?s2 = "mb_set_next (last ys) (mb_next s b) s"
    let ?s' = "mb_set_prev (hd zs) (last ys) ?s2"
    have pv: "mb_prev s b = last ys" using rm(2) 6 by (simp add: last0_def)
    have "remove_memory_block_from_list b s = Inr ?s'"
      using 6 rm(1) pv y[OF 6(1)] z[OF 6(2)] nz[OF 6(2)] b
      by (simp add: remove_memory_block_from_list_def Let_def)
    moreover have "links_only s ?s' B" using y[OF 6(1)] z[OF 6(2)] by (intro links_steps) simp_all
    ultimately show ?thesis using 6 y[OF 6(1)] z[OF 6(2)] rm(1) pv by simp
  qed
qed

lemma hd0_append_mem: "ys \<noteq> [] \<Longrightarrow> hd0 ys n \<in> set ys"
  by (simp add: hd0_def)

lemma last0_append_mem: "zs \<noteq> [] \<Longrightarrow> last0 p zs \<in> set zs"
  by (simp add: last0_def)

lemma list_inv_basics:
  assumes "list_inv s fs ss"
  shows "dlseg (mb_next s) (mb_prev s) 0 fs 0" "dlseg (mb_next s) (mb_prev s) 0 ss 0"
    "distinct fs" "distinct ss" "set fs \<inter> set ss = {}"
    "\<And>b. b \<in> set fs \<Longrightarrow> hdr_aligned b \<and> b \<noteq> 0" "\<And>b. b \<in> set ss \<Longrightarrow> hdr_aligned b \<and> b \<noteq> 0"
    "g_free_blocks s = hd0 fs 0" "g_free_block_tail s = last0 0 fs" "g_super_blocks s = hd0 ss 0"
  using assms by (auto simp: list_inv_def)

lemma remove_free:
  assumes inv: "list_inv s (ys @ b # zs) ss"
  shows "\<exists>s'. remove_memory_block_from_list b s = Inr s' \<and> list_inv s' (ys @ zs) ss \<and>
    links_only s s' (set (ys @ b # zs @ ss))"
proof -
  let ?nx = "if ys = [] then mb_next s else (mb_next s)(last ys := mb_next s b)"
  let ?pv = "if zs = [] then mb_prev s else (mb_prev s)(hd zs := mb_prev s b)"
  note d = list_inv_basics[OF inv]
  have hd: "b = g_free_blocks s \<longleftrightarrow> ys = []"
    using d(3,8) hd0_append_mem[of ys b] by (cases "ys = []") auto
  have tl: "b = g_free_block_tail s \<longleftrightarrow> zs = []"
    using d(3,9) last0_append_mem[of zs b] by (cases "zs = []") auto
  have sub: "set (ys @ b # zs) \<subseteq> set (ys @ b # zs @ ss)" by auto
  obtain s' where s0: "remove_memory_block_from_list b s = Inr s'"
    "\<forall>c. hdr_aligned c \<longrightarrow> mb_next s' c = ?nx c \<and> mb_prev s' c = ?pv c"
    "g_free_blocks s' = (if ys = [] \<and> b = g_free_blocks s then hd0 zs 0 else g_free_blocks s)"
    "g_super_blocks s' = (if ys = [] \<and> b \<noteq> g_free_blocks s then hd0 zs 0 else g_super_blocks s)"
    "g_free_block_tail s' =
      (if zs = [] \<and> (if ys = [] then b = g_free_blocks s else b = g_free_block_tail s)
       then last0 0 ys else g_free_block_tail s)"
    "links_only s s' (set (ys @ b # zs @ ss))"
    using remove_effect[OF d(1,3) d(6) _ sub] hd by blast
  have s': "g_free_blocks s' = (if ys = [] then hd0 zs 0 else g_free_blocks s)"
    "g_super_blocks s' = g_super_blocks s"
    "g_free_block_tail s' = (if zs = [] then last0 0 ys else g_free_block_tail s)"
    using s0(3-5) hd tl by metis+
  have "list_inv s' (ys @ zs) ss"
  proof (rule list_invI[where nx = ?nx and pv = ?pv])
    show "dlseg ?nx ?pv 0 (ys @ zs) 0" by (rule dlseg_remove(1)[OF d(1,3)])
    have "last ys \<notin> set ss" if "ys \<noteq> []" using d(5) last_in_set[OF that] by auto
    moreover have "hd zs \<notin> set ss" if "zs \<noteq> []" using d(5) hd_in_set[OF that] by auto
    ultimately show "dlseg ?nx ?pv 0 ss 0" using d(2) by auto
    show "g_free_blocks s' = hd0 (ys @ zs) 0" using s'(1) d(8) by (simp add: hd0_def)
    show "g_free_block_tail s' = last0 0 (ys @ zs)" using s'(3) d(9) by (simp add: last0_def)
    show "g_super_blocks s' = hd0 ss 0" using s'(2) d(10) by simp
  qed (use d s0(2) in auto)
  then show ?thesis using s0 by blast
qed

lemma remove_super:
  assumes inv: "list_inv s fs (ys @ b # zs)"
  shows "\<exists>s'. remove_memory_block_from_list b s = Inr s' \<and> list_inv s' fs (ys @ zs) \<and>
    links_only s s' (set (fs @ ys @ b # zs))"
proof -
  let ?nx = "if ys = [] then mb_next s else (mb_next s)(last ys := mb_next s b)"
  let ?pv = "if zs = [] then mb_prev s else (mb_prev s)(hd zs := mb_prev s b)"
  note d = list_inv_basics[OF inv]
  have b: "b \<noteq> 0" "b \<notin> set fs" using d(5,7) by auto
  have hd: "b \<noteq> g_free_blocks s" using d(8) b hd0_append_mem[of fs 0] by (cases "fs = []") auto
  have tl: "b \<noteq> g_free_block_tail s" using d(9) b last0_append_mem[of fs 0] by (cases "fs = []") auto
  have sub: "set (ys @ b # zs) \<subseteq> set (fs @ ys @ b # zs)" by auto
  have sb: "b = g_super_blocks s" if "ys = []" using that d(10) by simp
  obtain s' where s0: "remove_memory_block_from_list b s = Inr s'"
    "\<forall>c. hdr_aligned c \<longrightarrow> mb_next s' c = ?nx c \<and> mb_prev s' c = ?pv c"
    "g_free_blocks s' = (if ys = [] \<and> b = g_free_blocks s then hd0 zs 0 else g_free_blocks s)"
    "g_super_blocks s' = (if ys = [] \<and> b \<noteq> g_free_blocks s then hd0 zs 0 else g_super_blocks s)"
    "g_free_block_tail s' =
      (if zs = [] \<and> (if ys = [] then b = g_free_blocks s else b = g_free_block_tail s)
       then last0 0 ys else g_free_block_tail s)"
    "links_only s s' (set (fs @ ys @ b # zs))"
    using remove_effect[OF d(2,4) d(7) _ sub] sb by blast
  have s': "g_free_blocks s' = g_free_blocks s"
    "g_super_blocks s' = (if ys = [] then hd0 zs 0 else g_super_blocks s)"
    "g_free_block_tail s' = g_free_block_tail s"
    using s0(3-5) hd tl by metis+
  have "list_inv s' fs (ys @ zs)"
  proof (rule list_invI[where nx = ?nx and pv = ?pv])
    show "dlseg ?nx ?pv 0 (ys @ zs) 0" by (rule dlseg_remove(1)[OF d(2,4)])
    have "last ys \<notin> set fs" if "ys \<noteq> []" using d(5) last_in_set[OF that] by auto
    moreover have "hd zs \<notin> set fs" if "zs \<noteq> []" using d(5) hd_in_set[OF that] by auto
    ultimately show "dlseg ?nx ?pv 0 fs 0" using d(1) by auto
    show "g_super_blocks s' = hd0 (ys @ zs) 0" using s'(2) d(10) by (simp add: hd0_def)
    show "g_free_blocks s' = hd0 fs 0" "g_free_block_tail s' = last0 0 fs" using s'(1,3) d(8,9) by simp_all
  qed (use d s0(2) in auto)
  then show ?thesis using s0 by blast
qed

lemma remove_spec:
  assumes inv: "list_inv s fs ss" and b: "b \<in> set (fs @ ss)"
  shows "\<exists>s'. remove_memory_block_from_list b s = Inr s' \<and>
    list_inv s' (remove1 b fs) (remove1 b ss) \<and> links_only s s' (set (fs @ ss))"
proof (cases "b \<in> set fs")
  case True
  then obtain ys zs where "fs = ys @ b # zs" "remove1 b fs = ys @ zs"
    using split_at list_inv_basics(3)[OF inv] by metis
  moreover have "b \<notin> set ss" using True list_inv_basics(5)[OF inv] by auto
  ultimately show ?thesis using remove_free[of s ys b zs ss] inv by (auto simp: remove1_idem)
next
  case False
  then obtain ys zs where "ss = ys @ b # zs" "remove1 b ss = ys @ zs"
    using split_at list_inv_basics(4)[OF inv] b by (metis Un_iff set_append)
  then show ?thesis using remove_super[of s fs ys b zs] inv False by (auto simp: remove1_idem)
qed

text \<open>Replacing a block by another one in the list it is in.\<close>

lemma replace_effect:
  assumes seg: "dlseg (mb_next s) (mb_prev s) 0 (ys @ b # zs) 0" and dist: "distinct (ys @ b # zs)"
    and al: "\<And>c. c \<in> set (ys @ b # zs) \<Longrightarrow> hdr_aligned c \<and> c \<noteq> 0"
    and n: "hdr_aligned n" "n \<noteq> 0" "n \<notin> set (ys @ b # zs)"
    and hd: "ys = [] \<Longrightarrow> b = g_free_blocks s \<or> b = g_super_blocks s"
    and B: "insert n (set (ys @ b # zs)) \<subseteq> B"
  shows "\<exists>s'. replace_memory_block_in_list b n s = Inr s' \<and>
    (\<forall>c. hdr_aligned c \<longrightarrow>
       mb_next s' c = (if ys = [] then (mb_next s)(n := mb_next s b)
                       else (mb_next s)(n := mb_next s b, last ys := n)) c \<and>
       mb_prev s' c = (if zs = [] then (mb_prev s)(n := mb_prev s b)
                       else (mb_prev s)(n := mb_prev s b, hd zs := n)) c) \<and>
    g_free_blocks s' = (if ys = [] \<and> b = g_free_blocks s then n else g_free_blocks s) \<and>
    g_super_blocks s' = (if ys = [] \<and> b \<noteq> g_free_blocks s then n else g_super_blocks s) \<and>
    g_free_block_tail s' = (if zs = [] \<and> b = g_free_block_tail s then n else g_free_block_tail s) \<and>
    links_only s s' B"
proof -
  note rm = dlseg_remove(2,3)[OF seg dist]
  have b: "hdr_aligned b" "n \<noteq> b" using al n by auto
  have z: "hdr_aligned (hd zs) \<and> hd zs \<noteq> 0 \<and> hd zs \<in> B \<and> hd zs \<noteq> n" if "zs \<noteq> []"
    using al B n(3) that by (cases zs) auto
  have y: "hdr_aligned (last ys) \<and> last ys \<noteq> 0 \<and> last ys \<in> B \<and> last ys \<noteq> n" if "ys \<noteq> []"
    using al n(3) B that by (cases ys rule: rev_cases) auto
  have nB: "n \<in> B" using B by simp
  have nx0: "mb_next s b = 0 \<longleftrightarrow> zs = []" and nxz: "zs \<noteq> [] \<Longrightarrow> mb_next s b = hd zs"
    using rm(1) z by (auto simp: hd0_def)
  have pv0: "mb_prev s b = 0 \<longleftrightarrow> ys = []" and pvy: "ys \<noteq> [] \<Longrightarrow> mb_prev s b = last ys"
    using rm(2) y by (auto simp: last0_def)
  define s1 where "s1 = mb_set_prev n (mb_prev s b) (mb_set_next n (mb_next s b) s)"
  have s1: "mb_next s1 c = ((mb_next s)(n := mb_next s b)) c"
    "mb_prev s1 c = ((mb_prev s)(n := mb_prev s b)) c" if "hdr_aligned c" for c
    using that n by (simp_all add: s1_def)
  have g1: "g_free_blocks s1 = g_free_blocks s" "g_super_blocks s1 = g_super_blocks s"
    "g_free_block_tail s1 = g_free_block_tail s" by (simp_all add: s1_def)
  have l1: "links_only s s1 B" using n nB unfolding s1_def by (intro links_steps) simp_all
  define s2 where "s2 = (if ys \<noteq> [] then mb_set_next (last ys) n s1
    else if b = g_free_blocks s then s1\<lparr>g_free_blocks := n\<rparr> else s1\<lparr>g_super_blocks := n\<rparr>)"
  have s2: "mb_next s2 c = (if ys = [] then (mb_next s)(n := mb_next s b)
      else (mb_next s)(n := mb_next s b, last ys := n)) c"
    "mb_prev s2 c = ((mb_prev s)(n := mb_prev s b)) c" if "hdr_aligned c" for c
    using that y by (cases "ys = []"; cases "b = g_free_blocks s"; simp add: s2_def s1)+
  have g2: "g_free_blocks s2 = (if ys = [] \<and> b = g_free_blocks s then n else g_free_blocks s)"
    "g_super_blocks s2 = (if ys = [] \<and> b \<noteq> g_free_blocks s then n else g_super_blocks s)"
    "g_free_block_tail s2 = g_free_block_tail s" by (simp_all add: s2_def g1)
  have l2: "links_only s s2 B"
    using l1 y by (cases "ys = []"; cases "b = g_free_blocks s"; simp add: s2_def links_steps)
  define s' where "s' = (if zs \<noteq> [] then mb_set_prev (hd zs) n s2
    else if b = g_free_block_tail s then s2\<lparr>g_free_block_tail := n\<rparr> else s2)"
  have "links_only s s' B"
    using l2 z by (cases "zs = []"; cases "b = g_free_block_tail s"; simp add: s'_def links_steps)
  moreover have "replace_memory_block_in_list b n s = Inr s'"
  proof -
    have e: "mb_prev (mb_set_next n (mb_next s b) s) b = mb_prev s b" using n b by simp
    have step1: "replace_memory_block_in_list b n s = kbind
        (if mb_prev s1 n \<noteq> 0 then Inr (mb_set_next (mb_prev s1 n) n s1)
         else if b = g_free_blocks s1 then Inr (s1\<lparr>g_free_blocks := n\<rparr>)
         else if b = g_super_blocks s1 then Inr (s1\<lparr>g_super_blocks := n\<rparr>)
         else Inl (Kernel_panic ''Unknown memory block'')) (\<lambda>s.
      Inr (if mb_next s n \<noteq> 0 then mb_set_prev (mb_next s n) n s
           else if b = g_free_block_tail s then s\<lparr>g_free_block_tail := n\<rparr> else s))"
      unfolding replace_memory_block_in_list_def Let_def e s1_def[symmetric] ..
    have "(if mb_prev s1 n \<noteq> 0 then Inr (mb_set_next (mb_prev s1 n) n s1)
         else if b = g_free_blocks s1 then Inr (s1\<lparr>g_free_blocks := n\<rparr>)
         else if b = g_super_blocks s1 then Inr (s1\<lparr>g_super_blocks := n\<rparr>)
         else Inl (Kernel_panic ''Unknown memory block'')) = Inr s2"
      using s1(2)[OF n(1)] pv0 pvy hd
      by (cases "ys = []"; cases "b = g_free_blocks s"; simp add: s2_def g1)
    moreover have "mb_next s2 n = mb_next s b" using s2(1)[OF n(1)] y by auto
    ultimately show ?thesis using step1 nx0 nxz
      by (cases "zs = []"; cases "b = g_free_block_tail s"; simp add: s'_def g2)
  qed
  moreover have "mb_next s' c = mb_next s2 c"
    "mb_prev s' c = (if zs = [] then mb_prev s2 else (mb_prev s2)(hd zs := n)) c" if "hdr_aligned c" for c
    using that z by (cases "zs = []"; cases "b = g_free_block_tail s"; simp add: s'_def)+
  moreover have "g_free_blocks s' = g_free_blocks s2" "g_super_blocks s' = g_super_blocks s2"
    "g_free_block_tail s' = (if zs = [] \<and> b = g_free_block_tail s then n else g_free_block_tail s)"
    using g2(3) by (simp_all add: s'_def)
  ultimately show ?thesis using s2 g2
    by (intro exI[of _ s'] conjI allI impI) simp_all
qed

lemma replace_free:
  assumes inv: "list_inv s (ys @ b # zs) ss" and n: "hdr_aligned n" "n \<noteq> 0" "n \<notin> set (ys @ b # zs @ ss)"
  shows "\<exists>s'. replace_memory_block_in_list b n s = Inr s' \<and> list_inv s' (ys @ n # zs) ss \<and>
    links_only s s' (insert n (set (ys @ b # zs @ ss)))"
proof -
  let ?nx = "if ys = [] then (mb_next s)(n := mb_next s b) else (mb_next s)(n := mb_next s b, last ys := n)"
  let ?pv = "if zs = [] then (mb_prev s)(n := mb_prev s b) else (mb_prev s)(n := mb_prev s b, hd zs := n)"
  note d = list_inv_basics[OF inv]
  have hd: "b = g_free_blocks s \<longleftrightarrow> ys = []"
    using d(3,8) hd0_append_mem[of ys b] by (cases "ys = []") auto
  have tl: "b = g_free_block_tail s \<longleftrightarrow> zs = []"
    using d(3,9) last0_append_mem[of zs b] by (cases "zs = []") auto
  have sub: "insert n (set (ys @ b # zs)) \<subseteq> insert n (set (ys @ b # zs @ ss))" by auto
  have n3: "n \<notin> set (ys @ b # zs)" using n(3) by auto
  obtain s' where s0: "replace_memory_block_in_list b n s = Inr s'"
    "\<forall>c. hdr_aligned c \<longrightarrow> mb_next s' c = ?nx c \<and> mb_prev s' c = ?pv c"
    "g_free_blocks s' = (if ys = [] \<and> b = g_free_blocks s then n else g_free_blocks s)"
    "g_super_blocks s' = (if ys = [] \<and> b \<noteq> g_free_blocks s then n else g_super_blocks s)"
    "g_free_block_tail s' = (if zs = [] \<and> b = g_free_block_tail s then n else g_free_block_tail s)"
    "links_only s s' (insert n (set (ys @ b # zs @ ss)))"
    using replace_effect[OF d(1,3) d(6) n(1,2) n3 _ sub] hd by blast
  have s': "g_free_blocks s' = (if ys = [] then n else g_free_blocks s)"
    "g_super_blocks s' = g_super_blocks s"
    "g_free_block_tail s' = (if zs = [] then n else g_free_block_tail s)"
    using s0(3-5) hd tl by metis+
  have "list_inv s' (ys @ n # zs) ss"
  proof (rule list_invI[where nx = ?nx and pv = ?pv])
    show "dlseg ?nx ?pv 0 (ys @ n # zs) 0" using n3 by (intro dlseg_replace[OF d(1,3)]) simp
    have "last ys \<notin> set ss" if "ys \<noteq> []" using d(5) last_in_set[OF that] by auto
    moreover have "hd zs \<notin> set ss" if "zs \<noteq> []" using d(5) hd_in_set[OF that] by auto
    ultimately show "dlseg ?nx ?pv 0 ss 0" using d(2) n(3) by auto
    show "g_free_blocks s' = hd0 (ys @ n # zs) 0" using s'(1) d(8) by (simp add: hd0_def)
    show "g_free_block_tail s' = last0 0 (ys @ n # zs)" using s'(3) d(9) by (simp add: last0_def)
    show "g_super_blocks s' = hd0 ss 0" using s'(2) d(10) by simp
  qed (use d n s0(2) in auto)
  then show ?thesis using s0 by blast
qed

lemma replace_super:
  assumes inv: "list_inv s fs (ys @ b # zs)" and n: "hdr_aligned n" "n \<noteq> 0" "n \<notin> set (fs @ ys @ b # zs)"
  shows "\<exists>s'. replace_memory_block_in_list b n s = Inr s' \<and> list_inv s' fs (ys @ n # zs) \<and>
    links_only s s' (insert n (set (fs @ ys @ b # zs)))"
proof -
  let ?nx = "if ys = [] then (mb_next s)(n := mb_next s b) else (mb_next s)(n := mb_next s b, last ys := n)"
  let ?pv = "if zs = [] then (mb_prev s)(n := mb_prev s b) else (mb_prev s)(n := mb_prev s b, hd zs := n)"
  note d = list_inv_basics[OF inv]
  have b: "b \<noteq> 0" "b \<notin> set fs" using d(5,7) by auto
  have hd: "b \<noteq> g_free_blocks s" using d(8) b hd0_append_mem[of fs 0] by (cases "fs = []") auto
  have tl: "b \<noteq> g_free_block_tail s" using d(9) b last0_append_mem[of fs 0] by (cases "fs = []") auto
  have sub: "insert n (set (ys @ b # zs)) \<subseteq> insert n (set (fs @ ys @ b # zs))" by auto
  have sb: "b = g_super_blocks s" if "ys = []" using that d(10) by simp
  have n3: "n \<notin> set (ys @ b # zs)" using n(3) by auto
  obtain s' where s0: "replace_memory_block_in_list b n s = Inr s'"
    "\<forall>c. hdr_aligned c \<longrightarrow> mb_next s' c = ?nx c \<and> mb_prev s' c = ?pv c"
    "g_free_blocks s' = (if ys = [] \<and> b = g_free_blocks s then n else g_free_blocks s)"
    "g_super_blocks s' = (if ys = [] \<and> b \<noteq> g_free_blocks s then n else g_super_blocks s)"
    "g_free_block_tail s' = (if zs = [] \<and> b = g_free_block_tail s then n else g_free_block_tail s)"
    "links_only s s' (insert n (set (fs @ ys @ b # zs)))"
    using replace_effect[OF d(2,4) d(7) n(1,2) n3 _ sub] sb by blast
  have s': "g_free_blocks s' = g_free_blocks s"
    "g_super_blocks s' = (if ys = [] then n else g_super_blocks s)"
    "g_free_block_tail s' = g_free_block_tail s"
    using s0(3-5) hd tl by metis+
  have "list_inv s' fs (ys @ n # zs)"
  proof (rule list_invI[where nx = ?nx and pv = ?pv])
    show "dlseg ?nx ?pv 0 (ys @ n # zs) 0" using n3 by (intro dlseg_replace[OF d(2,4)]) simp
    have "last ys \<notin> set fs" if "ys \<noteq> []" using d(5) last_in_set[OF that] by auto
    moreover have "hd zs \<notin> set fs" if "zs \<noteq> []" using d(5) hd_in_set[OF that] by auto
    ultimately show "dlseg ?nx ?pv 0 fs 0" using d(1) n(3) by auto
    show "g_super_blocks s' = hd0 (ys @ n # zs) 0" using s'(2) d(10) by (simp add: hd0_def)
    show "g_free_blocks s' = hd0 fs 0" "g_free_block_tail s' = last0 0 fs" using s'(1,3) d(8,9) by simp_all
  qed (use d n s0(2) in auto)
  then show ?thesis using s0 by blast
qed

definition subst_block :: "u64 \<Rightarrow> u64 \<Rightarrow> u64 list \<Rightarrow> u64 list" where
  "subst_block b n = map (\<lambda>x. if x = b then n else x)"

lemma subst_block_other: "b \<notin> set xs \<Longrightarrow> subst_block b n xs = xs"
  unfolding subst_block_def by (induction xs) auto

lemma set_subst_block: "b \<in> set xs \<Longrightarrow> set (subst_block b n xs) = insert n (set xs - {b})"
  by (auto simp: subst_block_def)

lemma replace_spec:
  assumes inv: "list_inv s fs ss" and b: "b \<in> set (fs @ ss)"
    and n: "hdr_aligned n" "n \<noteq> 0" "n \<notin> set (fs @ ss)"
  shows "\<exists>s'. replace_memory_block_in_list b n s = Inr s' \<and>
    list_inv s' (subst_block b n fs) (subst_block b n ss) \<and> links_only s s' (insert n (set (fs @ ss)))"
proof (cases "b \<in> set fs")
  case True
  obtain ys zs where "fs = ys @ b # zs" "subst_block b n fs = ys @ n # zs"
    by (rule split_at[OF True list_inv_basics(3)[OF inv], of n], rule that) (simp_all add: subst_block_def)
  moreover have "b \<notin> set ss" using True list_inv_basics(5)[OF inv] by auto
  ultimately show ?thesis using replace_free[of s ys b zs ss n] inv n by (auto simp: subst_block_other)
next
  case False
  then have b': "b \<in> set ss" using b by simp
  obtain ys zs where "ss = ys @ b # zs" "subst_block b n ss = ys @ n # zs"
    by (rule split_at[OF b' list_inv_basics(4)[OF inv], of n], rule that) (simp_all add: subst_block_def)
  then show ?thesis using replace_super[of s fs ys b zs n] inv n False by (auto simp: subst_block_other)
qed

text \<open>Adding a block at the end of the free list, and at the front of the super blocks.\<close>

lemma append_free:
  assumes inv: "list_inv s fs ss" and b: "hdr_aligned b" "b \<noteq> 0" "b \<notin> set (fs @ ss)"
    and s1: "s1 = mb_set_prev b (g_free_block_tail s) (mb_set_next b 0 s)"
    and s': "s' = (if fs = [] then s1\<lparr>g_free_blocks := b, g_free_block_tail := b\<rparr>
      else (mb_set_next (g_free_block_tail s) b s1)\<lparr>g_free_block_tail := b\<rparr>)"
  shows "list_inv s' (fs @ [b]) ss" "links_only s s' (insert b (set (fs @ ss)))"
proof -
  note d = list_inv_basics[OF inv]
  let ?nx = "if fs = [] then (mb_next s)(b := 0) else (mb_next s)(b := 0, last fs := b)"
  let ?pv = "(mb_prev s)(b := last0 0 fs)"
  have l: "hdr_aligned (last fs) \<and> last fs \<in> set fs \<and> g_free_block_tail s = last fs" if "fs \<noteq> []"
    using that d(6)[of "last fs"] d(9) by (simp add: last0_def)
  have bs: "b \<notin> set fs" "b \<notin> set ss" using b(3) by auto
  show "list_inv s' (fs @ [b]) ss"
  proof (rule list_invI[where nx = ?nx and pv = ?pv])
    show "dlseg ?nx ?pv 0 (fs @ [b]) 0" by (rule dlseg_snoc[OF d(1,3) bs(1)])
    have "last fs \<notin> set ss" if "fs \<noteq> []" using d(5) l[OF that] by auto
    then show "dlseg ?nx ?pv 0 ss 0" using d(2) bs by auto
    show "mb_next s' c = ?nx c \<and> mb_prev s' c = ?pv c" if "hdr_aligned c" for c
      using that b(1) l d(9) by (cases "fs = []") (simp_all add: s' s1)
    show "g_free_blocks s' = hd0 (fs @ [b]) 0" using d(8) by (cases fs) (simp_all add: s' s1)
    show "g_free_block_tail s' = last0 0 (fs @ [b])" by (cases fs) (simp_all add: s')
    show "g_super_blocks s' = hd0 ss 0" using d(10) by (cases fs) (simp_all add: s' s1)
  qed (use d b in auto)
  have "links_only s s1 (insert b (set (fs @ ss)))" using b unfolding s1 by (intro links_steps) simp_all
  then show "links_only s s' (insert b (set (fs @ ss)))"
    using l by (cases "fs = []") (simp_all add: s' links_steps)
qed

lemma push_super:
  assumes inv: "list_inv s fs ss" and b: "hdr_aligned b" "b \<noteq> 0" "b \<notin> set (fs @ ss)"
    and s1: "s1 = mb_set_prev b 0 (mb_set_next b (g_super_blocks s) s)"
    and s': "s' = (if g_super_blocks s \<noteq> 0 then mb_set_prev (g_super_blocks s) b s1 else s1)\<lparr>g_super_blocks := b\<rparr>"
  shows "list_inv s' fs (b # ss)" "links_only s s' (insert b (set (fs @ ss)))"
proof -
  note d = list_inv_basics[OF inv]
  let ?nx = "(mb_next s)(b := hd0 ss 0)"
  let ?pv = "if ss = [] then (mb_prev s)(b := 0) else (mb_prev s)(b := 0, hd ss := b)"
  have h: "hdr_aligned (hd ss) \<and> hd ss \<in> set ss \<and> hd ss \<noteq> 0 \<and> g_super_blocks s = hd ss" if "ss \<noteq> []"
    using that d(7)[of "hd ss"] d(10) by (simp add: hd0_def)
  have e: "g_super_blocks s = 0 \<longleftrightarrow> ss = []" using h d(10) by (cases "ss = []") auto
  have bs: "b \<notin> set fs" "b \<notin> set ss" using b(3) by auto
  show "list_inv s' fs (b # ss)"
  proof (rule list_invI[where nx = ?nx and pv = ?pv])
    show "dlseg ?nx ?pv 0 (b # ss) 0" by (rule dlseg_cons[OF d(2,4) bs(2)])
    have "hd ss \<notin> set fs" if "ss \<noteq> []" using d(5) h[OF that] by auto
    then show "dlseg ?nx ?pv 0 fs 0" using d(1) bs by auto
    show "mb_next s' c = ?nx c \<and> mb_prev s' c = ?pv c" if "hdr_aligned c" for c
      using that b(1) h d(10) e by (cases "ss = []") (simp_all add: s' s1)
    show "g_free_blocks s' = hd0 fs 0" using d(8) by (cases "g_super_blocks s = 0") (simp_all add: s' s1)
    show "g_free_block_tail s' = last0 0 fs" using d(9) by (cases "g_super_blocks s = 0") (simp_all add: s' s1)
    show "g_super_blocks s' = hd0 (b # ss) 0" by (cases "g_super_blocks s = 0") (simp_all add: s')
  qed (use d b in auto)
  have "links_only s s1 (insert b (set (fs @ ss)))" using b unfolding s1 by (intro links_steps) simp_all
  then show "links_only s s' (insert b (set (fs @ ss)))"
    using h e by (cases "ss = []") (simp_all add: s' links_steps)
qed

text \<open>Searching a list ends, with a block that is large enough or with NULL when there is none.\<close>

lemma find_big_enough_block_list:
  assumes "dlseg (mb_next s) (mb_prev s) p xs 0" "\<forall>b \<in> set xs. b \<noteq> 0"
  shows "find_big_enough_block s (hd0 xs 0) sz =
    Some (case find (\<lambda>b. sz \<le> mb_block_size s b) xs of None \<Rightarrow> 0 | Some b \<Rightarrow> b)"
  using assms
proof (induction xs arbitrary: p)
  case Nil
  then show ?case by (simp add: find_big_enough_block.simps)
next
  case (Cons b xs)
  then show ?case by (subst find_big_enough_block.simps) auto
qed

lemma find_block_list:
  assumes "dlseg (mb_next s) (mb_prev s) 0 xs 0" "\<And>b. b \<in> set xs \<Longrightarrow> hdr_aligned b \<and> b \<noteq> 0"
  obtains b where "find_block s (hd0 xs 0) sz = Inr b"
    "b = 0 \<and> (\<forall>c \<in> set xs. mb_block_size s c < sz) \<or> b \<in> set xs \<and> sz \<le> mb_block_size s b"
proof (cases "find (\<lambda>b. sz \<le> mb_block_size s b) xs")
  case None
  then have "\<forall>c \<in> set xs. mb_block_size s c < sz" by (auto simp: find_None_iff not_le)
  then show thesis using None that[of 0] find_big_enough_block_list[OF assms(1)] assms(2)
    by (simp add: find_block_def)
next
  case (Some b)
  then have "b \<in> set xs" "sz \<le> mb_block_size s b" by (auto simp: find_Some_iff)
  then show thesis using Some that[of b] find_big_enough_block_list[OF assms(1)] assms(2)
    by (simp add: find_block_def)
qed

end
