(* ===== verification/Heap_Blocks.thy ===== *)
theory Heap_Blocks
  imports Block_List
begin

text \<open>
  Regions of memory and sets of heap blocks. A block is a 32-byte header followed by its buffer;
  a well-formed set of blocks has pairwise disjoint blocks, each aligned, each inside frames that
  are in use and none containing the NULL address. The lemmas say how splitting a block, adding
  the pages of a fresh run and giving a run back change such a set.
\<close>

section \<open>Regions\<close>

definition region :: "u64 \<Rightarrow> nat \<Rightarrow> u64 set" where
  "region b n = {x. unat (x - b) < n}"

lemma region_base [simp]: "b \<in> region b n \<longleftrightarrow> 0 < n"
  by (simp add: region_def)

lemma region_offset_subset: "unat o1 + k \<le> N \<Longrightarrow> N \<le> 2 ^ 64 \<Longrightarrow> region (b + o1) k \<subseteq> region b N"
  unfolding region_def by (auto intro: region_sub)

lemma region_mono: "k \<le> n \<Longrightarrow> region b k \<subseteq> region b n"
  by (auto simp: region_def)

lemma regions_apart:
  assumes "k \<le> unat o1" "unat o1 + n \<le> 2 ^ 64"
  shows "region b k \<inter> region (b + o1) n = {}"
proof -
  have False if "unat (x - b) < k" "unat (x - (b + o1)) < n" for x
  proof -
    have "x - b = (x - (b + o1)) + o1" by simp
    moreover have "unat (x - (b + o1)) + unat o1 < 2 ^ LENGTH(64)" using that(2) assms(2) by simp
    ultimately have "unat (x - b) = unat (x - (b + o1)) + unat o1" using unat_add_if_fits by metis
    then show False using that assms(1) by simp
  qed
  then show ?thesis by (auto simp: region_def)
qed

lemma region_no_null: "0 \<notin> region b n \<longleftrightarrow> b \<noteq> 0 \<and> unat b + n \<le> 2 ^ 64 \<or> n = 0"
proof (cases "b = 0")
  case False
  then show ?thesis using unat_uminus_u64[OF False] unat_u64_less[of b] by (auto simp: region_def)
qed (simp add: region_def)

section \<open>Aligned headers\<close>

lemma hdr_aligned_add: "hdr_aligned a \<Longrightarrow> 32 dvd unat k \<Longrightarrow> hdr_aligned (a + k)"
  by (simp add: hdr_aligned_def unat_word_ariths mod_add_eq dvd_mod)

lemma page_hdr_aligned: "page_aligned a \<Longrightarrow> hdr_aligned a"
  using dvd_trans[of 32 4096 "unat a"] by (simp add: hdr_aligned_def page_aligned_def)

section \<open>Sets of blocks\<close>

definition blk :: "(u64 \<Rightarrow> u64) \<Rightarrow> u64 \<Rightarrow> u64 set" where
  "blk sizes b = region b (32 + unat (sizes b))"

definition byte_frame :: "u64 \<Rightarrow> u64 \<Rightarrow> nat" where
  "byte_frame off x = unat (x - off) div 4096"

definition blocks_ok :: "(nat \<Rightarrow> bool) \<Rightarrow> u64 \<Rightarrow> (u64 \<Rightarrow> u64) \<Rightarrow> u64 set \<Rightarrow> bool" where
  "blocks_ok taken off sizes H \<longleftrightarrow>
     (\<forall>b \<in> H. hdr_aligned b \<and> 32 dvd unat (sizes b) \<and> 0 \<notin> blk sizes b \<and>
        (\<forall>x \<in> blk sizes b. taken (byte_frame off x))) \<and>
     (\<forall>b \<in> H. \<forall>c \<in> H. b \<noteq> c \<longrightarrow> blk sizes b \<inter> blk sizes c = {})"

lemma blk_base [simp]: "b \<in> blk sizes b"
  by (simp add: blk_def)

lemma blk_cong: "sizes b = sizes' b \<Longrightarrow> blk sizes b = blk sizes' b"
  by (simp add: blk_def)

lemma blocks_okD:
  assumes "blocks_ok taken off sizes H" "b \<in> H"
  shows "hdr_aligned b" "32 dvd unat (sizes b)" "0 \<notin> blk sizes b" "b \<noteq> 0"
    "unat b + 32 + unat (sizes b) \<le> 2 ^ 64" "\<And>x. x \<in> blk sizes b \<Longrightarrow> taken (byte_frame off x)"
    "\<And>c. c \<in> H \<Longrightarrow> b \<noteq> c \<Longrightarrow> blk sizes b \<inter> blk sizes c = {}"
  using assms region_no_null[of b "32 + unat (sizes b)"] by (auto simp: blocks_ok_def blk_def)

lemma blocks_ok_cong:
  "(\<And>b. b \<in> H \<Longrightarrow> sizes b = sizes' b) \<Longrightarrow> blocks_ok taken off sizes H = blocks_ok taken off sizes' H"
  by (simp add: blocks_ok_def blk_def)

lemma blocks_ok_subset: "blocks_ok taken off sizes H \<Longrightarrow> H' \<subseteq> H \<Longrightarrow> blocks_ok taken off sizes H'"
  unfolding blocks_ok_def by blast

lemma blocks_apart:
  "blocks_ok taken off sizes H \<Longrightarrow> b \<in> H \<Longrightarrow> c \<in> H \<Longrightarrow> x \<in> blk sizes b \<Longrightarrow> x \<in> blk sizes c \<Longrightarrow> b = c"
  unfolding blocks_ok_def by blast

text \<open>Splitting a block in two.\<close>

lemma blocks_ok_split:
  assumes ok: "blocks_ok taken off sizes H" and b: "b \<in> H"
    and k: "32 dvd unat k" "unat k + 32 \<le> unat (sizes b)"
    and n: "n = b + 32 + k"
  shows "hdr_aligned n" "n \<in> blk sizes b" "n \<noteq> b" "n \<notin> H"
    "blocks_ok taken off (sizes(n := sizes b - (k + 32), b := k)) (insert n H)"
    "blk (sizes(n := sizes b - (k + 32), b := k)) n \<subseteq> blk sizes b"
    "blk (sizes(n := sizes b - (k + 32), b := k)) b \<subseteq> blk sizes b"
proof -
  note d = blocks_okD[OF ok b]
  have k32: "unat (k + 32) = unat k + 32"
    using k(2) unat_u64_less[of "sizes b"] unat_add_if_fits[of k 32] by simp
  have o1: "unat (32 + k) = 32 + unat k" using k32 by (simp add: add.commute)
  have rest: "unat (sizes b - (k + 32)) = unat (sizes b) - (unat k + 32)"
    using k(2) k32 by (simp add: unat_sub word_le_nat_alt)
  have nb: "n = b + (32 + k)" using n by simp
  let ?sz = "sizes(n := sizes b - (k + 32), b := k)"
  show al: "hdr_aligned n" unfolding nb using d(1) k(1) o1 by (intro hdr_aligned_add) simp_all
  have "region n (unat (sizes b) - unat k) \<subseteq> blk sizes b"
    unfolding nb blk_def using d(5) o1 k(2) by (intro region_offset_subset) simp_all
  moreover have nsz: "?sz n = sizes b - (k + 32)" if "n \<noteq> b" using that by simp
  have "32 + k \<noteq> 0" using o1 by (metis add_is_0 unat_0 zero_neq_numeral)
  then show nb': "n \<noteq> b" using nb by simp
  have bn: "blk ?sz n = region n (unat (sizes b) - unat k)"
    using nb' rest k(2) by (simp add: blk_def)
  ultimately show sub_n: "blk ?sz n \<subseteq> blk sizes b" by simp
  show sub_b: "blk ?sz b \<subseteq> blk sizes b" using k(2) by (auto simp: blk_def region_def)
  show nin: "n \<in> blk sizes b" using sub_n blk_base[of n ?sz] by blast
  show nH: "n \<notin> H" using blocks_apart[OF ok _ b blk_base nin] nb' by blast
  have apart: "blk ?sz b \<inter> blk ?sz n = {}"
    unfolding bn using regions_apart[of "32 + unat k" "32 + k" "unat (sizes b) - unat k" b] o1 d(5) k(2)
    by (simp add: blk_def nb)
  have sz_n: "32 dvd unat (?sz n)" using nb' rest k(1) d(2) by (simp add: dvd_diff_nat)
  have other: "blk ?sz c = blk sizes c" if "c \<in> H" "c \<noteq> b" for c
    using that nH by (intro blk_cong) auto
  show "blocks_ok taken off ?sz (insert n H)"
    unfolding blocks_ok_def
  proof (intro conjI ballI impI)
    fix c assume c: "c \<in> insert n H"
    then consider "c = n" | "c = b" | "c \<in> H" "c \<noteq> b" by blast
    then show "hdr_aligned c" "32 dvd unat (?sz c)" "0 \<notin> blk ?sz c"
      by (cases; use al sz_n d k(1) sub_n sub_b other ok in \<open>auto simp: blocks_ok_def\<close>)+
    fix x assume x: "x \<in> blk ?sz c"
    consider "c = n" | "c = b" | "c \<in> H" "c \<noteq> b" using c by blast
    then show "taken (byte_frame off x)"
      by cases (use x d(6) sub_n sub_b other blocks_okD(6)[OF ok] in blast)+
  next
    fix c e assume c: "c \<in> insert n H" and e: "e \<in> insert n H" and ne: "c \<noteq> e"
    have dis: "blk ?sz c \<inter> blk sizes e' = {}" if "c = n \<or> c = b" "e' \<in> H" "e' \<noteq> b" for c e'
      using that sub_n sub_b d(7)[of e'] by blast
    show "blk ?sz c \<inter> blk ?sz e = {}"
    proof (cases "(c = n \<or> c = b) \<and> (e = n \<or> e = b)")
      case True
      then show ?thesis using apart ne by blast
    next
      case False
      then show ?thesis
        using c e ne dis[of c e] dis[of e c] other[of c] other[of e] blocks_okD(7)[OF ok, of c e] by blast
    qed
  qed
qed

text \<open>A block that fills a fresh run of frames.\<close>

lemma run_bytes:
  assumes "k + c \<le> 2 ^ 52"
  shows "x \<in> region (frame_addr k + off) (4096 * c) \<longleftrightarrow> byte_frame off x \<in> {k..<k + c}"
proof (cases "c = 0")
  case True
  then show ?thesis by (simp add: region_def)
next
  case False
  have a: "unat (frame_addr k) = 4096 * k" using assms False by (intro unat_frame_addr) simp
  have "x - (frame_addr k + off) = (x - off) - frame_addr k" by simp
  then have e: "x \<in> region (frame_addr k + off) (4096 * c) \<longleftrightarrow> unat (x - off - frame_addr k) < 4096 * c"
    by (simp only: region_def mem_Collect_eq)
  show ?thesis
  proof (cases "4096 * k \<le> unat (x - off)")
    case True
    then have "unat (x - off - frame_addr k) = unat (x - off) - 4096 * k"
      using a by (simp add: unat_sub word_le_nat_alt)
    then have "x \<in> region (frame_addr k + off) (4096 * c) \<longleftrightarrow> unat (x - off) < 4096 * (k + c)"
      using True unfolding e by auto
    also have "\<dots> \<longleftrightarrow> byte_frame off x < k + c"
      unfolding byte_frame_def by (simp add: div_less_iff_less_mult mult.commute)
    moreover have "k \<le> byte_frame off x"
      unfolding byte_frame_def using True by (simp add: less_eq_div_iff_mult_less_eq mult.commute)
    ultimately show ?thesis by simp
  next
    case False
    then have lt: "x - off < frame_addr k" using a by (simp add: word_less_nat_alt)
    then have "unat (x - off - frame_addr k) = unat (x - off) + 2 ^ 64 - 4096 * k"
      using a by (simp add: unat_sub_if_size word_size word_le_nat_alt word_less_nat_alt)
    then have "\<not> x \<in> region (frame_addr k + off) (4096 * c)"
      using assms False unfolding e by simp
    moreover have "byte_frame off x < k"
      unfolding byte_frame_def using False by (simp add: div_less_iff_less_mult mult.commute)
    ultimately show ?thesis by simp
  qed
qed

lemma blocks_ok_fresh:
  assumes ok: "blocks_ok taken off sizes H" and off: "page_aligned off" "unat off + 4096 * N \<le> 2 ^ 64"
    and N: "N \<le> 2 ^ 52" and k: "0 < k" "k + c \<le> N" "0 < c"
    and fresh: "\<forall>i \<in> {k..<k + c}. \<not> taken i"
    and taken': "taken' = (\<lambda>i. taken i \<or> i \<in> {k..<k + c})"
    and b: "b = frame_addr k + off" and sz: "unat sz = 4096 * c - 32"
  shows "b \<notin> H" "hdr_aligned b" "b \<noteq> 0" "blk (sizes(b := sz)) b = region b (4096 * c)"
    "blocks_ok taken' off (sizes(b := sz)) (insert b H)"
    "\<And>c' x. c' \<in> H \<Longrightarrow> x \<in> blk sizes c' \<Longrightarrow> x \<notin> region b (4096 * c)"
proof -
  have kc: "k + c \<le> 2 ^ 52" using k N by simp
  note rb = run_bytes[OF kc, of _ off, folded b]
  show blk_b: "blk (sizes(b := sz)) b = region b (4096 * c)" using sz k(3) by (simp add: blk_def)
  show old: "\<And>c' x. c' \<in> H \<Longrightarrow> x \<in> blk sizes c' \<Longrightarrow> x \<notin> region b (4096 * c)"
    using blocks_okD(6)[OF ok] fresh rb by blast
  show bH: "b \<notin> H" using old[of b b] k(3) by auto
  show al: "hdr_aligned b" unfolding b using off(1) by (intro page_hdr_aligned page_aligned_add) simp_all
  have a: "unat (frame_addr k) = 4096 * k" using kc k by (intro unat_frame_addr) simp
  have ub: "unat b = 4096 * k + unat off"
    unfolding b using a off(2) k unat_add_if_fits[of "frame_addr k" off] by simp
  show nz: "b \<noteq> 0" using ub k(1) by auto
  have null: "0 \<notin> region b (4096 * c)" using ub nz off(2) k by (simp add: region_no_null)
  have dv: "32 dvd unat sz"
    unfolding sz using dvd_diff_nat[of 32 "4096 * c" 32] by (simp add: dvd_mult2)
  have other: "blk (sizes(b := sz)) c' = blk sizes c'" if "c' \<in> H" for c'
    using that bH by (intro blk_cong) auto
  show "blocks_ok taken' off (sizes(b := sz)) (insert b H)"
    unfolding blocks_ok_def
  proof (intro conjI ballI impI)
    fix c' assume c': "c' \<in> insert b H"
    show "hdr_aligned c'" "32 dvd unat ((sizes(b := sz)) c')" "0 \<notin> blk (sizes(b := sz)) c'"
      using c' al dv null blk_b other blocks_okD(1-3)[OF ok, of c'] by auto
    fix x assume "x \<in> blk (sizes(b := sz)) c'"
    then show "taken' (byte_frame off x)"
      using c' rb blk_b other[of c'] blocks_okD(6)[OF ok, of c' x] unfolding taken' by blast
  next
    fix c' e assume c': "c' \<in> insert b H" and e: "e \<in> insert b H" and ne: "c' \<noteq> e"
    show "blk (sizes(b := sz)) c' \<inter> blk (sizes(b := sz)) e = {}"
      using c' e ne old blk_b other[of c'] other[of e] blocks_okD(7)[OF ok, of c' e] by blast
  qed
qed

text \<open>Giving back the run that a block fills.\<close>

lemma blocks_ok_release:
  assumes ok: "blocks_ok taken off sizes H" and b: "b \<in> H"
    and run: "blk sizes b = region (frame_addr k + off) (4096 * c)" "k + c \<le> 2 ^ 52"
    and taken': "taken' = (\<lambda>i. taken i \<and> i \<notin> {k..<k + c})"
  shows "blocks_ok taken' off sizes (H - {b})"
proof -
  have "taken' (byte_frame off x)" if "e \<in> H - {b}" "x \<in> blk sizes e" for e x
    using that blocks_okD(6)[OF ok, of e x] blocks_okD(7)[OF ok, of e b] b run_bytes[OF run(2), of x off] run(1)
    unfolding taken' by blast
  then show ?thesis using ok unfolding blocks_ok_def by blast
qed

end
