(* ===== verification/Heap_Spec.thy ===== *)
theory Heap_Spec
  imports Heap_Blocks
begin

text \<open>
  The interface of the kernel heap as its clients rely on it. Clients allocate, release and store
  into the buffers they hold; the locale derives from the laws of a heap that in every sequence of
  such operations the buffers held are disjoint and hold what was stored in them last.
  Heap\_Laws.thy interprets it on kmalloc and kfree.
\<close>

section \<open>Client programs\<close>

text \<open>A buffer held: its address, the size asked for, and what its owner stored, by offset.\<close>

type_synonym buffer = "u64 \<times> u64 \<times> (u64 \<rightharpoonup> u8)"

datatype heap_op = Malloc u64 | Free nat | Store nat u64 u8

fun heap_ops ::
  "(u64 \<Rightarrow> 's \<Rightarrow> (u64 \<times> 's) kres) \<Rightarrow> (u64 \<Rightarrow> 's \<Rightarrow> 's kres) \<Rightarrow> (u64 \<Rightarrow> u8 \<Rightarrow> 's \<Rightarrow> 's) \<Rightarrow> heap_op list \<Rightarrow>
   buffer list \<Rightarrow> 's \<Rightarrow> (buffer list \<times> 's) kres" where
  "heap_ops malloc free put [] held s = Inr (held, s)"
| "heap_ops malloc free put (Malloc n # ops) held s =
     kbind (malloc n s) (\<lambda>(p, s). heap_ops malloc free put ops ((p, n, Map.empty) # held) s)"
| "heap_ops malloc free put (Free i # ops) held s =
     (if i < length held
      then kbind (free (fst (held ! i)) s) (\<lambda>s.
           heap_ops malloc free put ops (take i held @ drop (Suc i) held) s)
      else heap_ops malloc free put ops held s)"
| "heap_ops malloc free put (Store i off v # ops) held s =
     (if i < length held \<and> off < fst (snd (held ! i))
      then let (p, n, c) = held ! i
           in heap_ops malloc free put ops (held[i := (p, n, c(off \<mapsto> v))]) (put (p + off) v s)
      else heap_ops malloc free put ops held s)"

definition buf_key :: "buffer \<Rightarrow> u64 \<times> u64" where
  "buf_key b = (fst b, fst (snd b))"

definition buf_region :: "buffer \<Rightarrow> u64 set" where
  "buf_region b = region (fst b) (unat (fst (snd b)))"

text \<open>The memory shows what the owner of the buffer stored.\<close>

definition buf_holds :: "mem \<Rightarrow> buffer \<Rightarrow> bool" where
  "buf_holds m b \<longleftrightarrow> (\<forall>off v. snd (snd b) off = Some v \<longrightarrow> off < fst (snd b) \<and> m (fst b + off) = v)"

definition buffers_apart :: "buffer list \<Rightarrow> bool" where
  "buffers_apart = sorted_wrt (\<lambda>b b'. buf_region b \<inter> buf_region b' = {})"

lemma buf_holds_same:
  "buf_holds m b \<Longrightarrow> (\<And>x. x \<in> buf_region b \<Longrightarrow> m' x = m x) \<Longrightarrow> buf_holds m' b"
  by (auto simp: buf_holds_def buf_region_def region_def word_less_nat_alt)

section \<open>The contract\<close>

locale heap_allocator =
  fixes inv :: "'s \<Rightarrow> (u64 \<times> u64) set \<Rightarrow> bool"
    and fits :: "'s \<Rightarrow> u64 \<Rightarrow> bool"
    and get :: "'s \<Rightarrow> mem"
    and put :: "u64 \<Rightarrow> u8 \<Rightarrow> 's \<Rightarrow> 's"
    and malloc :: "u64 \<Rightarrow> 's \<Rightarrow> (u64 \<times> 's) kres"
    and free :: "u64 \<Rightarrow> 's \<Rightarrow> 's kres"
    and oom :: kerror
  assumes live_apart: "inv s L \<Longrightarrow> (p, n) \<in> L \<Longrightarrow> (q, k) \<in> L \<Longrightarrow> (p, n) \<noteq> (q, k) \<Longrightarrow>
      p \<noteq> q \<and> region p (unat n) \<inter> region q (unat k) = {}"
    and malloc_law: "inv s L \<Longrightarrow> n \<noteq> 0 \<Longrightarrow> fits s n \<Longrightarrow>
      malloc n s = Inl oom \<or>
      (\<exists>p s'. malloc n s = Inr (p, s') \<and> p \<notin> fst ` L \<and> inv s' (insert (p, n) L) \<and> fits s' = fits s \<and>
        (\<forall>q k x. (q, k) \<in> L \<longrightarrow> x \<in> region q (unat k) \<longrightarrow> get s' x = get s x))"
    and free_law: "inv s L \<Longrightarrow> (p, n) \<in> L \<Longrightarrow>
      \<exists>s'. free p s = Inr s' \<and> inv s' (L - {(p, n)}) \<and> fits s' = fits s \<and>
        (\<forall>q k x. (q, k) \<in> L - {(p, n)} \<longrightarrow> x \<in> region q (unat k) \<longrightarrow> get s' x = get s x)"
    and put_law: "inv s L \<Longrightarrow> (p, n) \<in> L \<Longrightarrow> x \<in> region p (unat n) \<Longrightarrow>
      inv (put x v s) L \<and> fits (put x v s) = fits s \<and> get (put x v s) = (get s)(x := v)"
begin

definition held_ok :: "buffer list \<Rightarrow> 's \<Rightarrow> bool" where
  "held_ok held s \<longleftrightarrow> inv s (set (map buf_key held)) \<and> distinct (map buf_key held) \<and>
     (\<forall>b \<in> set held. buf_holds (get s) b)"

lemma held_disjoint:
  assumes "held_ok held s" "i < length held" "j < length held" "i \<noteq> j"
  shows "buf_region (held ! i) \<inter> buf_region (held ! j) = {}"
proof -
  have ne: "buf_key (held ! i) \<noteq> buf_key (held ! j)"
    using assms nth_eq_iff_index_eq[of "map buf_key held" i j] by (simp add: held_ok_def)
  have inv: "inv s (set (map buf_key held))" using assms(1) by (simp add: held_ok_def)
  have "buf_key (held ! i) \<in> set (map buf_key held)" "buf_key (held ! j) \<in> set (map buf_key held)"
    using assms(2,3) by simp_all
  then show ?thesis using live_apart[OF inv] ne unfolding buf_key_def buf_region_def by blast
qed

lemma held_apart: "held_ok held s \<Longrightarrow> buffers_apart held"
  unfolding buffers_apart_def sorted_wrt_iff_nth_less using held_disjoint by simp

lemma held_ok_malloc:
  assumes "held_ok held s" "n \<noteq> 0" "fits s n"
  shows "malloc n s = Inl oom \<or>
    (\<exists>p s'. malloc n s = Inr (p, s') \<and> fits s' = fits s \<and> held_ok ((p, n, Map.empty) # held) s')"
proof -
  consider "malloc n s = Inl oom" | p s' where "malloc n s = Inr (p, s')"
    "p \<notin> fst ` set (map buf_key held)" "inv s' (insert (p, n) (set (map buf_key held)))" "fits s' = fits s"
    "\<forall>q k x. (q, k) \<in> set (map buf_key held) \<longrightarrow> x \<in> region q (unat k) \<longrightarrow> get s' x = get s x"
    using malloc_law[of s "set (map buf_key held)" n] assms unfolding held_ok_def by blast
  then show ?thesis
  proof cases
    case 2
    have "buf_holds (get s') b" if b: "b \<in> set held" for b
    proof (rule buf_holds_same)
      show "buf_holds (get s) b" using assms(1) b by (simp add: held_ok_def)
      have "buf_key b \<in> set (map buf_key held)" using b by simp
      then show "get s' x = get s x" if "x \<in> buf_region b" for x
        using 2(5) that unfolding buf_key_def buf_region_def by blast
    qed
    moreover have "buf_key (p, n, Map.empty) \<notin> set (map buf_key held)"
      using 2(2) unfolding buf_key_def by force
    ultimately have "held_ok ((p, n, Map.empty) # held) s'"
      using assms(1) 2(3) by (simp add: held_ok_def buf_key_def buf_holds_def)
    then show ?thesis using 2(1,4) by blast
  qed blast
qed

lemma held_ok_free:
  assumes "held_ok held s" "i < length held"
  shows "\<exists>s'. free (fst (held ! i)) s = Inr s' \<and> fits s' = fits s \<and> held_ok (take i held @ drop (Suc i) held) s'"
proof -
  let ?held = "take i held @ drop (Suc i) held" and ?k = "buf_key (held ! i)"
  have split: "held = take i held @ held ! i # drop (Suc i) held" using assms(2) by (simp add: id_take_nth_drop)
  have dist: "distinct (map buf_key (take i held @ held ! i # drop (Suc i) held))"
    using assms(1) split by (simp add: held_ok_def)
  have "set (map buf_key held) = set (map buf_key (take i held @ held ! i # drop (Suc i) held))"
    using split by simp
  then have keys: "set (map buf_key ?held) = set (map buf_key held) - {?k}" using dist by auto
  have "?k \<in> set (map buf_key held)" using assms(2) by simp
  then obtain s' where s': "free (fst (held ! i)) s = Inr s'" "inv s' (set (map buf_key held) - {?k})"
    "fits s' = fits s"
    "\<forall>q k x. (q, k) \<in> set (map buf_key held) - {?k} \<longrightarrow> x \<in> region q (unat k) \<longrightarrow> get s' x = get s x"
    using free_law[of s "set (map buf_key held)" "fst (held ! i)" "fst (snd (held ! i))"] assms(1)
    unfolding held_ok_def buf_key_def by blast
  have "buf_holds (get s') b" if b: "b \<in> set ?held" for b
  proof (rule buf_holds_same)
    have "b \<in> set held" using b by (auto dest: in_set_takeD in_set_dropD)
    then show "buf_holds (get s) b" using assms(1) by (simp add: held_ok_def)
    have "buf_key b \<in> set (map buf_key held) - {?k}" using b unfolding keys[symmetric] by auto
    then show "get s' x = get s x" if "x \<in> buf_region b" for x
      using s'(4) that unfolding buf_key_def buf_region_def by blast
  qed
  then have "held_ok ?held s'" using s'(2) dist unfolding held_ok_def keys by simp
  then show ?thesis using s'(1,3) by blast
qed

lemma held_ok_store:
  assumes "held_ok held s" "i < length held" "held ! i = (p, n, c)" "off < n"
  shows "held_ok (held[i := (p, n, c(off \<mapsto> v))]) (put (p + off) v s) \<and> fits (put (p + off) v s) = fits s"
proof -
  let ?held = "held[i := (p, n, c(off \<mapsto> v))]" and ?s = "put (p + off) v s"
  have key: "(p, n) \<in> set (map buf_key held)" using assms(2,3) nth_mem[of i held] by (force simp: buf_key_def)
  have x: "p + off \<in> region p (unat n)" using assms(4) by (simp add: region_def word_less_nat_alt)
  then have p: "inv ?s (set (map buf_key held))" "fits ?s = fits s" "get ?s = (get s)(p + off := v)"
    using put_law[OF _ key x] assms(1) by (auto simp: held_ok_def)
  have keys: "map buf_key ?held = map buf_key held"
    using assms(2,3) by (intro nth_equalityI) (auto simp: nth_list_update buf_key_def)
  have "buf_holds (get ?s) (?held ! j)" if j: "j < length held" for j
  proof (cases "j = i")
    case True
    have "buf_holds (get s) (p, n, c)"
      using assms nth_mem[OF assms(2)] by (simp add: held_ok_def)
    then show ?thesis using True assms(2,4) p(3) by (auto simp: buf_holds_def)
  next
    case False
    have "p + off \<notin> buf_region (held ! j)"
      using held_disjoint[OF assms(1) j assms(2) False] x assms(3) by (auto simp: buf_region_def)
    moreover have "buf_holds (get s) (held ! j)" using assms(1) j by (simp add: held_ok_def)
    moreover have "get ?s y = get s y" if "y \<noteq> p + off" for y using that p(3) by simp
    ultimately have "buf_holds (get ?s) (held ! j)" by (metis buf_holds_same)
    then show ?thesis using False by simp
  qed
  then have "\<forall>b \<in> set ?held. buf_holds (get ?s) b" unfolding all_set_conv_all_nth by simp
  then have "held_ok ?held ?s" using assms(1) p(1) unfolding held_ok_def keys by blast
  then show ?thesis using p(2) by (rule conjI)
qed

lemma heap_ops_ok:
  assumes "held_ok held s" "\<forall>n. Malloc n \<in> set ops \<longrightarrow> n \<noteq> 0 \<and> fits s n"
  shows "heap_ops malloc free put ops held s = Inl oom \<or>
    (\<exists>held' s'. heap_ops malloc free put ops held s = Inr (held', s') \<and> held_ok held' s')"
  using assms
proof (induction ops arbitrary: held s)
  case (Cons op ops)
  show ?case
  proof (cases op)
    case (Malloc n)
    then have n: "n \<noteq> 0" "fits s n" using Cons.prems(2) by auto
    show ?thesis
    proof (cases "malloc n s = Inl oom")
      case False
      then obtain p s' where s': "malloc n s = Inr (p, s')" "fits s' = fits s" "held_ok ((p, n, Map.empty) # held) s'"
        using held_ok_malloc[OF Cons.prems(1) n] by blast
      then show ?thesis using Cons.IH[OF s'(3)] Cons.prems(2) Malloc by simp
    qed (simp add: Malloc)
  next
    case (Free i)
    show ?thesis
    proof (cases "i < length held")
      case True
      then obtain s' where s': "free (fst (held ! i)) s = Inr s'" "fits s' = fits s"
        "held_ok (take i held @ drop (Suc i) held) s'" using held_ok_free[OF Cons.prems(1)] by blast
      then show ?thesis using Cons.IH[OF s'(3)] Cons.prems(2) Free True by simp
    qed (use Cons Free in simp)
  next
    case (Store i off v)
    obtain p n c where h: "held ! i = (p, n, c)" by (cases "held ! i")
    show ?thesis
    proof (cases "i < length held \<and> off < n")
      case True
      then have "held_ok (held[i := (p, n, c(off \<mapsto> v))]) (put (p + off) v s)"
        "fits (put (p + off) v s) = fits s" using held_ok_store[OF Cons.prems(1) _ h] by simp_all
      then show ?thesis using Cons.IH[of "held[i := (p, n, c(off \<mapsto> v))]" "put (p + off) v s"]
          Cons.prems(2) Store True h by simp
    qed (use Cons Store h in auto)
  qed
qed simp

end

end
