(* ===== verification/Heap_Safety.thy ===== *)
theory Heap_Safety
  imports Heap_Spec
begin

text \<open>
  kmalloc and kfree keep the heap well formed and meet the contract of Heap\_Spec: the blocks of
  the two lists and the buffers handed out are disjoint and lie in frames the page allocator has
  given to the heap, and no operation touches a byte of a buffer somebody else holds.
\<close>

section \<open>What operations keep\<close>

definition same_pmm :: "'a vmm_state_scheme \<Rightarrow> 'a vmm_state_scheme \<Rightarrow> bool" where
  "same_pmm s s' \<longleftrightarrow> g_bitmap s' = g_bitmap s \<and> pmm_hhdm_offset s' = pmm_hhdm_offset s \<and>
     vmm_hhdm_offset s' = vmm_hhdm_offset s"

definition same_blocks :: "'a vmm_state_scheme \<Rightarrow> 'a vmm_state_scheme \<Rightarrow> u64 set \<Rightarrow> bool" where
  "same_blocks s s' G \<longleftrightarrow> (\<forall>c \<in> G. \<forall>x \<in> blk (mb_block_size s) c. kmem s' x = kmem s x)"

text \<open>Frame 0 belongs to nobody: its address stands for failure.\<close>

definition heap_frame :: "'a pmm_state_scheme \<Rightarrow> nat \<Rightarrow> bool" where
  "heap_frame s i \<longleftrightarrow> frame_taken s i \<and> i \<noteq> 0"

lemma same_pmm_facts:
  assumes "same_pmm s s'"
  shows "frame_taken s' = frame_taken s" "nframes s' = nframes s" "vmm_wf s' = vmm_wf s"
    "pmm_hhdm_offset s' = pmm_hhdm_offset s" "vmm_hhdm_offset s' = vmm_hhdm_offset s"
    "heap_frame s' = heap_frame s"
  using assms
  by (auto simp: same_pmm_def frame_taken_def frame_used_def nframes_def vmm_wf_def pmm_inv_def pmm_wf_def
      heap_frame_def fun_eq_iff)

lemma same_pmm_refl [simp]: "same_pmm s s"
  by (simp add: same_pmm_def)

lemma same_pmm_trans: "same_pmm s s' \<Longrightarrow> same_pmm s' s'' \<Longrightarrow> same_pmm s s''"
  by (simp add: same_pmm_def)

lemma same_pmm_set [simp]:
  "same_pmm s (mb_set_next b v s)" "same_pmm s (mb_set_prev b v s)"
  "same_pmm s (mb_set_block_size b v s)" "same_pmm s (mb_set_padding b v s)"
  by (simp_all add: same_pmm_def)

lemma same_pmm_links: "links_only s s' B \<Longrightarrow> same_pmm s s'"
  by (simp add: links_only_def same_pmm_def)

lemma header_in_blk: "unat (x - b) < 32 \<Longrightarrow> x \<in> blk sizes b"
  by (simp add: blk_def region_def)

lemma header_same:
  assumes "\<And>x. unat (x - b) < 32 \<Longrightarrow> kmem s' x = kmem s x"
  shows "mb_block_size s' b = mb_block_size s b" "mb_next s' b = mb_next s b" "mb_prev s' b = mb_prev s b"
proof -
  have "mem_bytes (kmem s') (b + o1) 8 = mem_bytes (kmem s) (b + o1) 8" if "unat o1 \<le> 24" for o1
  proof (rule mem_bytes_cong)
    fix i :: nat assume i: "i < 8"
    then have i': "unat (word_of_nat i :: u64) = i" by (simp add: unat_of_nat)
    then have "unat (o1 + word_of_nat i) = unat o1 + i"
      using that i unat_add_if_fits[of o1 "word_of_nat i"] by simp
    moreover have "b + o1 + word_of_nat i - b = o1 + word_of_nat i" by simp
    ultimately show "kmem s' (b + o1 + word_of_nat i) = kmem s (b + o1 + word_of_nat i)"
      using assms[of "b + o1 + word_of_nat i"] that i by simp
  qed
  from this[of 0] this[of 8] this[of 16]
  show "mb_block_size s' b = mb_block_size s b" "mb_next s' b = mb_next s b" "mb_prev s' b = mb_prev s b"
    by (simp_all add: mb_block_size_def mb_next_def mb_prev_def read64_def)
qed

lemma same_blocks_header:
  assumes "same_blocks s s' G" "b \<in> G"
  shows "mb_block_size s' b = mb_block_size s b" "mb_next s' b = mb_next s b" "mb_prev s' b = mb_prev s b"
  by (rule header_same; use assms header_in_blk[of _ b "mb_block_size s"] in \<open>auto simp: same_blocks_def\<close>)+

lemma same_blocks_trans:
  assumes "same_blocks s s' G" "same_blocks s' s'' G"
  shows "same_blocks s s'' G"
  using assms same_blocks_header(1)[OF assms(1)] unfolding same_blocks_def blk_def by fastforce

lemma same_blocks_subset: "same_blocks s s' G \<Longrightarrow> G' \<subseteq> G \<Longrightarrow> same_blocks s s' G'"
  by (auto simp: same_blocks_def)

lemma same_blocks_outside:
  assumes "blocks_ok taken off (mb_block_size s) H" "G \<subseteq> H" "B \<subseteq> H" "B \<inter> G = {}"
    and "\<And>x. (\<forall>b \<in> B. x \<notin> blk (mb_block_size s) b) \<Longrightarrow> kmem s' x = kmem s x"
  shows "same_blocks s s' G"
  using assms(5) blocks_apart[OF assms(1)] assms(2-4) unfolding same_blocks_def by blast

section \<open>Well-formed heaps\<close>

definition heap_rep :: "'a heap_state_scheme \<Rightarrow> u64 list \<Rightarrow> u64 list \<Rightarrow> u64 set \<Rightarrow> bool" where
  "heap_rep s fs ss G \<longleftrightarrow> list_inv s fs ss \<and>
     blocks_ok (heap_frame s) (pmm_hhdm_offset s) (mb_block_size s) (set fs \<union> set ss \<union> G) \<and>
     (set fs \<union> set ss) \<inter> G = {} \<and> (\<forall>b \<in> set fs \<union> set ss. unat (mb_block_size s b) \<le> 4064)"

lemma heap_repD:
  assumes "heap_rep s fs ss G"
  shows "list_inv s fs ss"
    "blocks_ok (heap_frame s) (pmm_hhdm_offset s) (mb_block_size s) (set fs \<union> set ss \<union> G)"
    "(set fs \<union> set ss) \<inter> G = {}" "\<And>b. b \<in> set fs \<union> set ss \<Longrightarrow> unat (mb_block_size s b) \<le> 4064"
  using assms by (auto simp: heap_rep_def)

lemma list_inv_links:
  assumes "list_inv s fs ss"
    and "\<And>c. c \<in> set fs \<union> set ss \<Longrightarrow> mb_next s' c = mb_next s c \<and> mb_prev s' c = mb_prev s c"
    and "g_free_blocks s' = g_free_blocks s" "g_free_block_tail s' = g_free_block_tail s"
      "g_super_blocks s' = g_super_blocks s"
  shows "list_inv s' fs ss"
  using assms dlseg_cong[of fs "mb_next s'" "mb_next s" "mb_prev s'" "mb_prev s" 0 0]
    dlseg_cong[of ss "mb_next s'" "mb_next s" "mb_prev s'" "mb_prev s" 0 0]
  by (auto simp: list_inv_def)

lemma list_inv_set_size:
  assumes "list_inv s fs ss" "hdr_aligned b"
  shows "list_inv (mb_set_block_size b v s) fs ss"
proof (rule list_inv_links[OF assms(1)])
  fix c assume "c \<in> set fs \<union> set ss"
  then have "hdr_aligned c" using assms(1) by (auto simp: list_inv_def)
  then show "mb_next (mb_set_block_size b v s) c = mb_next s c \<and>
      mb_prev (mb_set_block_size b v s) c = mb_prev s c" using assms(2) by simp
qed simp_all

lemma links_outside:
  assumes "links_only s s' B" "\<forall>b \<in> B. x \<notin> blk sizes b"
  shows "kmem s' x = kmem s x"
  using assms header_in_blk unfolding links_only_def by blast

section \<open>Allocating from a block\<close>

lemma set_remove1_union:
  "distinct (fs @ ss) \<Longrightarrow> set (remove1 b fs) \<union> set (remove1 b ss) = (set fs \<union> set ss) - {b}"
  by auto

lemma malloc_take_whole:
  assumes rep: "heap_rep s fs ss G" and b: "b \<in> set fs \<union> set ss"
    and sz: "sz \<le> mb_block_size s b" "mb_block_size s b \<le> sz + 2 * 32"
  shows "\<exists>s'. malloc_from_block b sz s = Inr (b + 32, s') \<and>
    heap_rep s' (remove1 b fs) (remove1 b ss) (insert b G) \<and> mb_block_size s' b = mb_block_size s b \<and>
    same_blocks s s' G \<and> same_pmm s s'"
proof -
  note d = heap_repD[OF rep]
  have bb: "b \<in> set (fs @ ss)" using b by simp
  obtain s' where s': "remove_memory_block_from_list b s = Inr s'"
    "list_inv s' (remove1 b fs) (remove1 b ss)" "links_only s s' (set (fs @ ss))"
    using remove_spec[OF d(1) bb] by blast
  have dist: "distinct (fs @ ss)" using d(1) by (simp add: list_inv_def)
  have sizes: "mb_block_size s' c = mb_block_size s c" if "c \<in> set fs \<union> set ss \<union> G" for c
    using that s'(3) blocks_okD(1)[OF d(2)] by (simp add: links_only_def)
  have pmm: "same_pmm s s'" by (rule same_pmm_links[OF s'(3)])
  have sub: "set (remove1 b fs) \<union> set (remove1 b ss) \<union> insert b G = set fs \<union> set ss \<union> G"
    using set_remove1_union[OF dist] b by auto
  have "blocks_ok (heap_frame s) (pmm_hhdm_offset s) (mb_block_size s') (set fs \<union> set ss \<union> G)"
    using d(2) sizes by (subst blocks_ok_cong[of _ _ "mb_block_size s"]) auto
  then have "heap_rep s' (remove1 b fs) (remove1 b ss) (insert b G)"
    unfolding heap_rep_def sub using s'(2) d(3,4) sizes set_remove1_union[OF dist] same_pmm_facts[OF pmm]
    by auto
  moreover have "same_blocks s s' G"
    using d(2,3) links_outside[OF s'(3)] by (intro same_blocks_outside[OF d(2), of G "set fs \<union> set ss"]) auto
  moreover have "mb_block_size s' b = mb_block_size s b" using sizes[of b] b by blast
  ultimately show ?thesis using s'(1) sz pmm by (simp add: malloc_from_block_def GET_MEMORY_BLOCK_BUFFER_def)
qed

lemma set_subst_union:
  assumes "b \<in> set fs \<union> set ss"
  shows "set (subst_block b n fs) \<union> set (subst_block b n ss) = insert n ((set fs \<union> set ss) - {b})"
  using assms by (auto simp: subst_block_def)

lemma malloc_split_block:
  assumes rep: "heap_rep s fs ss G" and b: "b \<in> set fs \<union> set ss"
    and sz: "32 dvd unat sz" "unat sz + 64 < unat (mb_block_size s b)"
  shows "\<exists>s' fs' ss'. malloc_from_block b sz s = Inr (b + 32, s') \<and> heap_rep s' fs' ss' (insert b G) \<and>
    mb_block_size s' b = sz \<and> same_blocks s s' G \<and> same_pmm s s'"
proof -
  note d = heap_repD[OF rep]
  let ?H = "set fs \<union> set ss \<union> G"
  define n where "n = b + 32 + sz"
  have bH: "b \<in> ?H" using b by blast
  have sz32: "unat sz + 32 \<le> unat (mb_block_size s b)" using sz(2) by simp
  note sp = blocks_ok_split[OF d(2) bH sz(1) sz32 n_def]
  let ?rest = "mb_block_size s b - (sz + 32)"
  let ?sz = "(mb_block_size s)(n := ?rest, b := sz)"
  have al: "hdr_aligned c" if "c \<in> insert n ?H" for c using that sp(1) blocks_okD(1)[OF d(2)] by blast
  have nz: "n \<noteq> 0" using sp(2) blocks_okD(3)[OF d(2) bH] by auto
  have nn: "n \<notin> set (fs @ ss)" using sp(4) by auto
  define s1 where "s1 = mb_set_block_size n ?rest s"
  have li1: "list_inv s1 fs ss"
    unfolding s1_def by (rule list_inv_set_size[OF d(1) sp(1)])
  have "b \<in> set (fs @ ss)" using b by simp
  then obtain s2 where s2: "replace_memory_block_in_list b n s1 = Inr s2"
    "list_inv s2 (subst_block b n fs) (subst_block b n ss)" "links_only s1 s2 (insert n (set (fs @ ss)))"
    using replace_spec[OF li1 _ sp(1) nz nn] by blast
  define s3 where "s3 = mb_set_block_size b sz s2"
  let ?fs = "subst_block b n fs" and ?ss = "subst_block b n ss"
  note un = set_subst_union[OF b, of n]
  have li3: "list_inv s3 ?fs ?ss"
    unfolding s3_def by (rule list_inv_set_size[OF s2(2) al[OF insertI2[OF bH]]])
  have sizes: "mb_block_size s3 c = ?sz c" if c: "c \<in> insert n ?H" for c
  proof -
    have "mb_block_size s2 c = mb_block_size s1 c" using s2(3) al[OF c] by (simp add: links_only_def)
    then show ?thesis using al[OF c] al[OF insertI2[OF bH]] sp(1) by (simp add: s3_def s1_def)
  qed
  have pmm: "same_pmm s s3"
    unfolding s3_def using same_pmm_links[OF s2(3)] same_pmm_trans same_pmm_set(3) unfolding s1_def by metis
  have sub: "set ?fs \<union> set ?ss \<union> insert b G = insert n ?H" unfolding un using b by auto
  have "blocks_ok (heap_frame s) (pmm_hhdm_offset s) (mb_block_size s3) (insert n ?H)"
    using sp(5) sizes by (subst blocks_ok_cong[of _ _ ?sz]) auto
  moreover have "(set ?fs \<union> set ?ss) \<inter> insert b G = {}" unfolding un using d(3) sp(3,4) by auto
  moreover have "unat (mb_block_size s3 c) \<le> 4064" if "c \<in> set ?fs \<union> set ?ss" for c
  proof -
    have c: "c = n \<or> c \<in> set fs \<union> set ss \<and> c \<noteq> b" "c \<in> insert n ?H" using that un by auto
    have "unat ?rest \<le> unat (mb_block_size s b)"
      using sz32 unat_add_if_fits[of sz 32] unat_u64_less[of "mb_block_size s b"]
      by (simp add: unat_sub word_le_nat_alt)
    then show ?thesis using sizes[OF c(2)] c(1) d(4)[of c] d(4)[OF b] sp(3) by auto
  qed
  ultimately have rep3: "heap_rep s3 ?fs ?ss (insert b G)"
    unfolding heap_rep_def sub using li3 same_pmm_facts[OF pmm] by auto
  have "same_blocks s s3 G"
  proof (rule same_blocks_outside[OF d(2), of G "set fs \<union> set ss"])
    fix x assume x: "\<forall>c \<in> set fs \<union> set ss. x \<notin> blk (mb_block_size s) c"
    have xn: "\<not> unat (x - n) < 32" using x b sp(6) header_in_blk[of x n ?sz] by blast
    have xb: "\<not> unat (x - b) < 32" using x b header_in_blk[of x b "mb_block_size s"] by blast
    have "\<not> unat (x - c) < 32" if "c \<in> insert n (set (fs @ ss))" for c
      using that xn x header_in_blk[of x c "mb_block_size s"] by auto
    then have "kmem s2 x = kmem s1 x" using s2(3) unfolding links_only_def by blast
    then show "kmem s3 x = kmem s x" using xn xb by (simp add: s3_def s1_def kmem_mb_set)
  qed (use d(3) in auto)
  moreover have "malloc_from_block b sz s = Inr (b + 32, s3)"
  proof -
    have u: "unat (sz + 64) = unat sz + 64"
      using sz(2) unat_u64_less[of "mb_block_size s b"] unat_add_if_fits[of sz 64] by simp
    then have "\<not> mb_block_size s b \<le> sz + 2 * 32" "sz \<le> mb_block_size s b"
      using sz(2) by (simp_all add: word_le_nat_alt)
    then show ?thesis using s2(1)
      by (simp add: malloc_from_block_def GET_MEMORY_BLOCK_BUFFER_def Let_def s3_def s1_def n_def)
  qed
  moreover have "mb_block_size s3 b = sz" using sizes[OF insertI2[OF bH]] by simp
  ultimately show ?thesis using rep3 pmm by blast
qed

lemma malloc_from_block_spec:
  assumes rep: "heap_rep s fs ss G" and b: "b \<in> set fs \<union> set ss"
    and sz: "32 dvd unat sz" "sz \<le> mb_block_size s b"
  shows "\<exists>s' fs' ss'. malloc_from_block b sz s = Inr (b + 32, s') \<and> heap_rep s' fs' ss' (insert b G) \<and>
    unat sz \<le> unat (mb_block_size s' b) \<and> unat (mb_block_size s' b) \<le> 4064 \<and>
    same_blocks s s' G \<and> same_pmm s s'"
proof (cases "mb_block_size s b \<le> sz + 2 * 32")
  case True
  then obtain s' where "malloc_from_block b sz s = Inr (b + 32, s')"
    "heap_rep s' (remove1 b fs) (remove1 b ss) (insert b G)" "mb_block_size s' b = mb_block_size s b"
    "same_blocks s s' G" "same_pmm s s'"
    using malloc_take_whole[OF rep b sz(2)] by blast
  then show ?thesis using sz(2) heap_repD(4)[OF rep b] by (auto simp: word_le_nat_alt)
next
  case False
  have le: "unat (mb_block_size s b) \<le> 4064" by (rule heap_repD(4)[OF rep b])
  then have "unat sz \<le> 4064" using sz(2) by (simp add: word_le_nat_alt)
  then have "unat (sz + 64) = unat sz + 64" using unat_add_if_fits[of sz 64] by simp
  then have lt: "unat sz + 64 < unat (mb_block_size s b)" using False by (simp add: word_le_nat_alt)
  then obtain s' fs' ss' where "malloc_from_block b sz s = Inr (b + 32, s')"
    "heap_rep s' fs' ss' (insert b G)" "mb_block_size s' b = sz" "same_blocks s s' G" "same_pmm s s'"
    using malloc_split_block[OF rep b sz(1)] by blast
  then show ?thesis using \<open>unat sz \<le> 4064\<close> by auto
qed

section \<open>Pages from the page allocator\<close>

lemma mark_frames_heap [simp]:
  "kmem (mark_frames is v s) = kmem s" "vmm_hhdm_offset (mark_frames is v s) = vmm_hhdm_offset s"
  "g_super_blocks (mark_frames is v s') = g_super_blocks s'" "g_free_blocks (mark_frames is v s') = g_free_blocks s'"
  "g_free_block_tail (mark_frames is v s') = g_free_block_tail s'"
  by (induction "is" rule: rev_induct; simp add: mark_frames_snoc mark_frame_def)+

lemma mark_frames_links [simp]:
  "mb_next (mark_frames is v s) = mb_next s" "mb_prev (mark_frames is v s) = mb_prev s"
  "mb_block_size (mark_frames is v s) = mb_block_size s"
  by (simp_all add: fun_eq_iff mb_next_def mb_prev_def mb_block_size_def)

lemma alloc_run:
  assumes wf: "vmm_wf s" and c: "0 < c" "unat c \<le> nframes s"
  obtains (none) "pmm_alloc_pages_hhdm c s = Inr (0, s)" "first_fit s (unat c) = None"
  | (run) k s1 where "0 < k" "k + unat c \<le> nframes s" "\<forall>i \<in> {k..<k + unat c}. \<not> frame_taken s i"
    "s1 = mark_frames [k..<k + unat c] True s"
    "pmm_alloc_pages_hhdm c s = Inr (frame_addr k + pmm_hhdm_offset s, s1)"
    "frame_taken s1 = (\<lambda>i. frame_taken s i \<or> i \<in> {k..<k + unat c})" "vmm_wf s1"
proof -
  have pw: "pmm_wf s" "pmm_inv s" using wf by (simp_all add: vmm_wf_def pmm_inv_def)
  have c0: "0 < unat c" using c(1) by (simp add: word_less_nat_alt)
  show thesis
  proof (cases "first_fit s (unat c)")
    case None
    then show thesis using c pw none by (simp add: pmm_alloc_pages_hhdm_def pmm_alloc_pages_eq)
  next
    case (Some k)
    have r: "k + unat c \<le> nframes s" "\<forall>i \<in> {k..<k + unat c}. \<not> frame_used s i"
      using Some by (simp_all add: first_fit_Some free_run_def)
    have "k \<noteq> 0" using r c0 pw(2) by (auto simp: pmm_inv_def frame_taken_def intro!: gr0I)
    then have k: "0 < k" "k < 2 ^ 52" "frame_addr k \<noteq> 0"
      using r c0 pw(1) by (simp_all add: pmm_wf_def frame_addr_0)
    have tk: "frame_taken (mark_frames [k..<k + unat c] True s) = (\<lambda>i. frame_taken s i \<or> i \<in> {k..<k + unat c})"
      using r by (subst frame_taken_mark_frames[OF pw(1)]) auto
    have "vmm_wf (mark_frames [k..<k + unat c] True s)"
      using wf tk by (simp add: vmm_wf_def pmm_inv_def)
    then show thesis using k r tk c pw Some
      by (intro run[of k]) (simp_all add: frame_taken_def pmm_alloc_pages_hhdm_def pmm_alloc_pages_eq)
  qed
qed

text \<open>A block over fresh frames, as an addition to the blocks handed out.\<close>

lemma fresh_block:
  assumes wf: "vmm_wf s" and rep: "heap_rep s fs ss G"
    and k: "0 < k" "k + c \<le> nframes s" "0 < c" "\<forall>i \<in> {k..<k + c}. \<not> frame_taken s i"
    and s1: "frame_taken s1 = (\<lambda>i. frame_taken s i \<or> i \<in> {k..<k + c})" "pmm_hhdm_offset s1 = pmm_hhdm_offset s"
    and b: "b = frame_addr k + pmm_hhdm_offset s"
    and size1: "\<And>e. hdr_aligned e \<Longrightarrow> mb_block_size s1 e = ((mb_block_size s)(b := sz)) e"
      "unat sz = 4096 * c - 32"
  shows "b \<notin> set fs \<union> set ss \<union> G" "hdr_aligned b" "b \<noteq> 0"
    "blk (mb_block_size s1) b = region b (4096 * c)"
    "blocks_ok (heap_frame s1) (pmm_hhdm_offset s1) (mb_block_size s1) (insert b (set fs \<union> set ss \<union> G))"
    "\<And>e x. e \<in> set fs \<union> set ss \<union> G \<Longrightarrow> x \<in> blk (mb_block_size s) e \<Longrightarrow> x \<notin> region b (4096 * c)"
proof -
  have w: "page_aligned (pmm_hhdm_offset s)" "unat (pmm_hhdm_offset s) + 4096 * nframes s \<le> 2 ^ 64"
    "nframes s \<le> 2 ^ 52" using wf by (simp_all add: vmm_wf_def pmm_inv_def pmm_wf_def)
  have hf: "\<forall>i \<in> {k..<k + c}. \<not> heap_frame s i" "heap_frame s1 = (\<lambda>i. heap_frame s i \<or> i \<in> {k..<k + c})"
    using k(1,4) s1(1) by (auto simp: heap_frame_def fun_eq_iff)
  note f = blocks_ok_fresh[OF heap_repD(2)[OF rep] w k(1-3) hf b size1(2)]
  have al: "hdr_aligned e" if "e \<in> insert b (set fs \<union> set ss \<union> G)" for e
    using that f(2) blocks_okD(1)[OF heap_repD(2)[OF rep]] by blast
  show "b \<notin> set fs \<union> set ss \<union> G" by (rule f(1))
  show "hdr_aligned b" by (rule f(2))
  show "b \<noteq> 0" by (rule f(3))
  show "blk (mb_block_size s1) b = region b (4096 * c)"
    using f(4) size1(1)[OF f(2)] blk_cong[of "mb_block_size s1" b] by metis
  show "blocks_ok (heap_frame s1) (pmm_hhdm_offset s1) (mb_block_size s1) (insert b (set fs \<union> set ss \<union> G))"
    unfolding s1(2) using f(5) size1(1)[OF al] by (subst blocks_ok_cong[of _ _ "(mb_block_size s)(b := sz)"]) auto
  show "\<And>e x. e \<in> set fs \<union> set ss \<union> G \<Longrightarrow> x \<in> blk (mb_block_size s) e \<Longrightarrow> x \<notin> region b (4096 * c)"
    by (rule f(6))
qed

lemma list_inv_mark_frames [simp]: "list_inv (mark_frames is v s) fs ss = list_inv s fs ss"
  by (simp add: list_inv_def)

lemma new_super_block:
  assumes wf: "vmm_wf s" and rep: "heap_rep s fs ss G"
    and k: "0 < k" "k + 1 \<le> nframes s" "\<forall>i \<in> {k..<k + 1}. \<not> frame_taken s i"
    and s1: "s1 = mark_frames [k..<k + 1] True s" "vmm_wf s1"
      "frame_taken s1 = (\<lambda>i. frame_taken s i \<or> i \<in> {k..<k + 1})"
    and b: "b = frame_addr k + pmm_hhdm_offset s"
    and s2: "s2 = mb_set_block_size b 4064 s1"
    and s3: "s3 = mb_set_prev b 0 (mb_set_next b (g_super_blocks s2) s2)"
    and s': "s' = (if g_super_blocks s2 \<noteq> 0 then mb_set_prev (g_super_blocks s2) b s3 else s3)\<lparr>g_super_blocks := b\<rparr>"
  shows "b \<noteq> 0" "heap_rep s' fs (b # ss) G" "mb_block_size s' b = 4064" "same_blocks s s' G" "vmm_wf s'"
    "nframes s' = nframes s"
proof -
  note d = heap_repD[OF rep]
  have off: "pmm_hhdm_offset s2 = pmm_hhdm_offset s" by (simp add: s2 s1(1))
  have alb: "hdr_aligned b"
    unfolding b using wf by (intro page_hdr_aligned page_aligned_add) (simp_all add: vmm_wf_def)
  have tk2: "frame_taken s2 = (\<lambda>i. frame_taken s i \<or> i \<in> {k..<k + 1})"
    using same_pmm_facts(1)[of s1 s2] s1(3) by (simp add: s2)
  have sz2: "mb_block_size s2 e = ((mb_block_size s)(b := 4064)) e" if "hdr_aligned e" for e
    using that alb by (simp add: s2 s1(1))
  note f = fresh_block[OF wf rep k(1,2) _ k(3) tk2 off b sz2, simplified]
  show "b \<noteq> 0" by (rule f(3))
  have li2: "list_inv s2 fs ss" unfolding s2 using d(1) alb by (intro list_inv_set_size) (simp_all add: s1(1))
  have bn: "b \<notin> set (fs @ ss)" using f(1) by auto
  note ps = push_super[OF li2 alb f(3) bn s3 s']
  have sizes: "mb_block_size s' e = mb_block_size s2 e" if "e \<in> insert b (set fs \<union> set ss \<union> G)" for e
    using that alb ps(2) blocks_okD(1)[OF f(5)] by (auto simp: links_only_def)
  have pmm: "same_pmm s1 s'" using same_pmm_trans[OF _ same_pmm_links[OF ps(2)]] by (simp add: s2)
  show "vmm_wf s'" using same_pmm_facts(3)[OF pmm] s1(2) by simp
  show "nframes s' = nframes s" using same_pmm_facts(2)[OF pmm] s1(1) by simp
  show szb: "mb_block_size s' b = 4064" using sizes[of b] sz2[OF alb] by simp
  have eq: "set fs \<union> set (b # ss) \<union> G = insert b (set fs \<union> set ss \<union> G)" by auto
  have "blocks_ok (heap_frame s') (pmm_hhdm_offset s') (mb_block_size s') (insert b (set fs \<union> set ss \<union> G))"
    using f(5) sizes same_pmm_facts[OF pmm] s1(1) same_pmm_facts(6)[of s1 s2] off s2
    by (subst blocks_ok_cong[of _ _ "mb_block_size s2"]) auto
  moreover have "unat (mb_block_size s' e) \<le> 4064" if "e \<in> set fs \<union> set (b # ss)" for e
  proof (cases "e = b")
    case False
    then have e: "e \<in> set fs \<union> set ss" using that by auto
    then have "hdr_aligned e" using blocks_okD(1)[OF d(2)] by blast
    then show ?thesis using sizes[of e] sz2[of e] d(4)[OF e] False e by auto
  qed (use szb in simp)
  ultimately show "heap_rep s' fs (b # ss) G"
    unfolding heap_rep_def eq using ps(1) d(3) f(1) by auto
  show "same_blocks s s' G"
    unfolding same_blocks_def
  proof (intro ballI)
    fix e x assume e: "e \<in> G" and x: "x \<in> blk (mb_block_size s) e"
    have xb: "\<not> unat (x - b) < 32" using f(6)[of e x] e x by (auto simp: region_def)
    have "\<not> unat (x - y) < 32" if "y \<in> set fs \<union> set ss" for y
      using that e x d(3) blocks_apart[OF d(2), of y e x] header_in_blk[of x y "mb_block_size s"] by blast
    then have "kmem s' x = kmem s2 x" using ps(2) xb unfolding links_only_def by auto
    then show "kmem s' x = kmem s x" using xb by (simp add: s2 s1(1) kmem_mb_set)
  qed
qed

lemma large_block:
  assumes wf: "vmm_wf s" and rep: "heap_rep s fs ss G"
    and k: "0 < k" "k + c \<le> nframes s" "0 < c" "\<forall>i \<in> {k..<k + c}. \<not> frame_taken s i"
    and s1: "s1 = mark_frames [k..<k + c] True s" "vmm_wf s1"
      "frame_taken s1 = (\<lambda>i. frame_taken s i \<or> i \<in> {k..<k + c})"
    and b: "b = frame_addr k + pmm_hhdm_offset s" and sz: "unat sz = 4096 * c - 32"
    and s': "s' = mb_set_block_size b sz (mb_set_padding b 0 (mb_set_prev b 0 (mb_set_next b 0 s1)))"
  shows "b \<noteq> 0" "b \<notin> set fs \<union> set ss \<union> G" "heap_rep s' fs ss (insert b G)" "mb_block_size s' b = sz" "page_aligned b"
    "same_blocks s s' G" "vmm_wf s'" "nframes s' = nframes s"
proof -
  note d = heap_repD[OF rep]
  show pa: "page_aligned b" unfolding b using wf by (intro page_aligned_add) (simp_all add: vmm_wf_def)
  then have alb: "hdr_aligned b" by (rule page_hdr_aligned)
  have pmm: "same_pmm s1 s'" by (simp add: s' same_pmm_def)
  have off: "pmm_hhdm_offset s' = pmm_hhdm_offset s" by (simp add: s' s1(1))
  have tk: "frame_taken s' = (\<lambda>i. frame_taken s i \<or> i \<in> {k..<k + c})"
    using same_pmm_facts(1)[OF pmm] s1(3) by simp
  have sizes: "mb_block_size s' e = ((mb_block_size s)(b := sz)) e" if "hdr_aligned e" for e
    using that alb by (simp add: s' s1(1))
  note f = fresh_block[OF wf rep k tk off b sizes sz]
  show "b \<noteq> 0" by (rule f(3))
  show bn: "b \<notin> set fs \<union> set ss \<union> G" by (rule f(1))
  show "mb_block_size s' b = sz" using sizes[OF alb] by simp
  show "vmm_wf s'" using same_pmm_facts(3)[OF pmm] s1(2) by simp
  show "nframes s' = nframes s" using same_pmm_facts(2)[OF pmm] s1(1) by simp
  have other: "mb_next s' e = mb_next s e \<and> mb_prev s' e = mb_prev s e" if "e \<in> set fs \<union> set ss" for e
    using that bn alb blocks_okD(1)[OF d(2), of e] by (auto simp: s' s1(1))
  have "list_inv s' fs ss"
    using list_inv_links[OF d(1) other] by (simp add: s' s1(1))
  moreover have "unat (mb_block_size s' e) \<le> 4064" if "e \<in> set fs \<union> set ss" for e
    using sizes[of e] blocks_okD(1)[OF d(2), of e] d(4)[OF that] bn that by auto
  ultimately show "heap_rep s' fs ss (insert b G)"
    unfolding heap_rep_def using f(5) bn d(3) by simp
  show "same_blocks s s' G"
    unfolding same_blocks_def
  proof (intro ballI)
    fix e x assume e: "e \<in> G" and x: "x \<in> blk (mb_block_size s) e"
    have "\<not> unat (x - b) < 32" using f(6)[of e x] e x k(3) by (auto simp: region_def)
    then show "kmem s' x = kmem s x" by (simp add: s' s1(1) kmem_mb_set)
  qed
qed

end
