(* ===== verification/Heap_Laws.thy ===== *)
theory Heap_Laws
  imports Heap_Safety
begin

text \<open>
  The heap invariant over the buffers handed out, the laws of kmalloc, kfree and of stores by the
  owners of buffers, the interpretation of the heap contract, and the properties of the heap.
\<close>

section \<open>The invariant\<close>

text \<open>A live buffer is its address and the size asked for; its block starts 32 bytes earlier.\<close>

definition live :: "(u64 \<times> u64) set \<Rightarrow> u64 set" where
  "live L = (\<lambda>(p, n). p - 32) ` L"

definition live_ok :: "'a vmm_state_scheme \<Rightarrow> u64 \<Rightarrow> u64 \<Rightarrow> bool" where
  "live_ok s p n \<longleftrightarrow> unat n \<le> unat (mb_block_size s (p - 32)) \<and>
     (4064 < unat (mb_block_size s (p - 32)) \<longrightarrow>
        page_aligned (p - 32) \<and> 4096 dvd unat (mb_block_size s (p - 32)) + 32)"

definition heap_inv :: "'a heap_state_scheme \<Rightarrow> (u64 \<times> u64) set \<Rightarrow> bool" where
  "heap_inv s L \<longleftrightarrow> vmm_wf s \<and> inj_on fst L \<and> (\<forall>(p, n) \<in> L. live_ok s p n) \<and>
     (\<exists>fs ss. heap_rep s fs ss (live L))"

definition heap_fits :: "'a heap_state_scheme \<Rightarrow> u64 \<Rightarrow> bool" where
  "heap_fits s n \<longleftrightarrow> unat n + 64 \<le> 4096 * nframes s"

lemma buffer_in_block:
  assumes "unat n \<le> unat (sizes (p - 32))" "unat (sizes (p - 32)) + 32 \<le> 2 ^ 64" "x \<in> region p (unat n)"
  shows "x \<in> blk sizes (p - 32)" "\<not> unat (x - (p - 32)) < 32"
proof -
  have e: "x - (p - 32) = (x - p) + 32" by simp
  have "unat (x - p) < unat n" using assms(3) by (simp add: region_def)
  moreover from this have "unat (x - p) + unat (32 :: u64) < 2 ^ LENGTH(64)" using assms(1,2) by simp
  ultimately have "unat (x - (p - 32)) = unat (x - p) + 32"
    unfolding e using unat_add_if_fits[of "x - p" 32] by simp
  then show "x \<in> blk sizes (p - 32)" "\<not> unat (x - (p - 32)) < 32"
    using \<open>unat (x - p) < unat n\<close> assms(1) by (simp_all add: blk_def region_def)
qed

lemma heap_invD:
  assumes "heap_inv s L"
  obtains fs ss where "vmm_wf s" "inj_on fst L" "heap_rep s fs ss (live L)"
    "\<And>p n. (p, n) \<in> L \<Longrightarrow> live_ok s p n \<and> p - 32 \<in> live L"
  using assms by (force simp: heap_inv_def live_def)

lemma live_buffer_in_block:
  assumes "heap_inv s L" "(p, n) \<in> L" "x \<in> region p (unat n)"
  shows "x \<in> blk (mb_block_size s) (p - 32)" "\<not> unat (x - (p - 32)) < 32"
proof -
  obtain fs ss where h: "heap_rep s fs ss (live L)" "live_ok s p n \<and> p - 32 \<in> live L"
    using heap_invD[OF assms(1)] assms(2) by metis
  have "unat (p - 32) + 32 + unat (mb_block_size s (p - 32)) \<le> 2 ^ 64"
    using blocks_okD(5)[OF heap_repD(2)[OF h(1)]] h(2) by blast
  then show "x \<in> blk (mb_block_size s) (p - 32)" "\<not> unat (x - (p - 32)) < 32"
    using buffer_in_block[of n "mb_block_size s" p x] h(2) assms(3) by (simp_all add: live_ok_def)
qed

lemma heap_inv_disjoint:
  assumes inv: "heap_inv s L" and pq: "(p, n) \<in> L" "(q, k) \<in> L" "(p, n) \<noteq> (q, k)"
  shows "p \<noteq> q \<and> region p (unat n) \<inter> region q (unat k) = {}"
proof -
  obtain fs ss where h: "inj_on fst L" "heap_rep s fs ss (live L)" "p - 32 \<in> live L" "q - 32 \<in> live L"
    using heap_invD[OF inv] pq by metis
  have ne: "p \<noteq> q" using inj_onD[OF h(1), of "(p, n)" "(q, k)"] pq by auto
  have "p - 32 = q - 32" if "x \<in> region p (unat n)" "x \<in> region q (unat k)" for x
    using blocks_apart[OF heap_repD(2)[OF h(2)]] h(3,4) live_buffer_in_block(1)[OF inv] that pq by blast
  then show ?thesis using ne by auto
qed

lemma same_blocks_live:
  assumes "heap_inv s L" "same_blocks s s' (live L')" "L' \<subseteq> L" "(q, k) \<in> L'" "x \<in> region q (unat k)"
  shows "kmem s' x = kmem s x"
proof -
  have "q - 32 \<in> live L'" using assms(4) by (force simp: live_def)
  then show ?thesis
    using assms live_buffer_in_block(1)[OF assms(1), of q k x] by (auto simp: same_blocks_def)
qed

lemma live_ok_same:
  assumes "heap_inv s L" "same_blocks s s' (live L')" "L' \<subseteq> L" "(q, k) \<in> L'"
  shows "live_ok s' q k"
proof -
  have "q - 32 \<in> live L'" using assms(4) by (force simp: live_def)
  then have "mb_block_size s' (q - 32) = mb_block_size s (q - 32)" by (rule same_blocks_header(1)[OF assms(2)])
  moreover have "live_ok s q k" using assms(1,3,4) by (auto simp: heap_inv_def)
  ultimately show ?thesis by (simp add: live_ok_def)
qed

lemma heap_inv_add:
  assumes inv: "heap_inv s L" and same: "same_blocks s s' (live L)" and wf: "vmm_wf s'"
    and rep: "heap_rep s' fs ss (insert b (live L))" and b: "b \<notin> live L" and ok: "live_ok s' (b + 32) n"
  shows "b + 32 \<notin> fst ` L" "heap_inv s' (insert (b + 32, n) L)"
proof -
  show new: "b + 32 \<notin> fst ` L" using b unfolding live_def by force
  have "live (insert (b + 32, n) L) = insert b (live L)" by (simp add: live_def)
  then show "heap_inv s' (insert (b + 32, n) L)"
    using rep wf ok new inv live_ok_same[OF inv same] unfolding heap_inv_def by auto
qed

section \<open>Rounding\<close>

lemma unat_ALIGN_UP:
  assumes "unat x + unat a < 2 ^ 64" "a \<noteq> 0"
  shows "unat a dvd unat (ALIGN_UP x a)" "unat x \<le> unat (ALIGN_UP x a)" "unat (ALIGN_UP x a) < unat x + unat a"
    "\<And>m. unat a dvd m \<Longrightarrow> unat x \<le> m \<Longrightarrow> unat (ALIGN_UP x a) \<le> m"
proof -
  let ?r = "unat x mod unat a" and ?q = "unat x div unat a"
  have a: "0 < unat a" using assms(2) by (simp add: unat_gt_0)
  have z: "x mod a = 0 \<longleftrightarrow> ?r = 0" by (simp add: word_unat_eq_iff unat_mod_distrib)
  have r: "?r < unat a" using a by simp
  have qr: "unat x = unat a * ?q + ?r" by simp
  have u: "unat (x + a - x mod a) = unat x + unat a - ?r"
    using assms(1) r unat_add_if_fits[of x a] by (simp add: unat_sub word_le_nat_alt unat_mod_distrib)
  have e: "unat (ALIGN_UP x a) = (if ?r = 0 then unat x else unat a * Suc ?q)"
  proof (cases "?r = 0")
    case False
    have "unat x + unat a - ?r = unat a + (unat x - ?r)" using mod_less_eq_dividend[of "unat x" "unat a"] by simp
    also have "\<dots> = unat a * Suc ?q" by (simp add: minus_mod_eq_mult_div)
    finally have "unat x + unat a - ?r = unat a * Suc ?q" .
    then show ?thesis using u z False by (simp add: ALIGN_UP_def)
  qed (simp add: ALIGN_UP_def z)
  show "unat a dvd unat (ALIGN_UP x a)" using e by (auto simp: mod_eq_0_iff_dvd)
  show "unat x \<le> unat (ALIGN_UP x a)" "unat (ALIGN_UP x a) < unat x + unat a"
  proof -
    define Q where "Q = unat a * ?q"
    have Q: "unat a * Suc ?q = unat a + Q" "unat x = Q + ?r" by (simp_all add: Q_def)
    have "unat x \<le> unat (ALIGN_UP x a) \<and> unat (ALIGN_UP x a) < unat x + unat a"
    proof (cases "?r = 0")
      case False
      then have "unat (ALIGN_UP x a) = unat a + Q" using e Q(1) by simp
      then show ?thesis using Q(2) r False by linarith
    qed (use e a in simp)
    then show "unat x \<le> unat (ALIGN_UP x a)" "unat (ALIGN_UP x a) < unat x + unat a" by simp_all
  qed
  show "unat (ALIGN_UP x a) \<le> m" if m: "unat a dvd m" "unat x \<le> m" for m
  proof (cases "?r = 0")
    case False
    obtain j where j: "m = unat a * j" using m(1) by (elim dvdE)
    have "unat a * ?q < unat a * j" using m(2) j qr False by linarith
    then have "Suc ?q \<le> j" by simp
    then have "unat a * Suc ?q \<le> unat a * j" by (rule mult_le_mono2)
    then show ?thesis using e False j by (simp only: if_False)
  qed (use e m in simp)
qed

section \<open>kmalloc\<close>

abbreviation (input) "heap_oom \<equiv> Kernel_panic ''Kernel does not have enough memory to allocate that''"

text \<open>The number of pages a request takes when no block of the lists is large enough.\<close>

definition heap_pages :: "u64 \<Rightarrow> nat" where
  "heap_pages n = unat (ALIGN_UP (ALIGN_UP n 32 + 32) 0x1000 div 0x1000)"

definition alloc_ok ::
  "'a heap_state_scheme \<Rightarrow> (u64 \<times> u64) set \<Rightarrow> u64 \<Rightarrow> (u64 \<times> 'a heap_state_scheme) kres \<Rightarrow> bool" where
  "alloc_ok s L n r \<longleftrightarrow> r = Inl heap_oom \<and> first_fit s (heap_pages n) = None \<or>
     (\<exists>p s'. r = Inr (p, s') \<and> p \<notin> fst ` L \<and> heap_inv s' (insert (p, n) L) \<and> nframes s' = nframes s \<and>
        same_blocks s s' (live L))"

lemma alloc_okI:
  assumes "heap_inv s L" "same_blocks s s' (live L)" "vmm_wf s'" "nframes s' = nframes s"
    "heap_rep s' fs ss (insert b (live L))" "b \<notin> live L" "live_ok s' (b + 32) n"
  shows "alloc_ok s L n (Inr (b + 32, s'))"
  using heap_inv_add[OF assms(1,2,3,5,6,7)] assms(2,4) by (auto simp: alloc_ok_def)

lemma malloc_from_block_ok:
  assumes inv: "heap_inv s L"
    and t: "heap_rep t fs ss (live L)" "same_blocks s t (live L)" "vmm_wf t" "nframes t = nframes s"
    and b: "b \<in> set fs \<union> set ss" and sz: "32 dvd unat sz" "sz \<le> mb_block_size t b" "unat n \<le> unat sz"
  shows "alloc_ok s L n (malloc_from_block b sz t)"
proof -
  obtain s' fs' ss' where s': "malloc_from_block b sz t = Inr (b + 32, s')" "heap_rep s' fs' ss' (insert b (live L))"
    "unat sz \<le> unat (mb_block_size s' b)" "unat (mb_block_size s' b) \<le> 4064"
    "same_blocks t s' (live L)" "same_pmm t s'"
    using malloc_from_block_spec[OF t(1) b sz(1,2)] by blast
  have "b \<notin> live L" using heap_repD(3)[OF t(1)] b by blast
  moreover have "live_ok s' (b + 32) n" using s'(3,4) sz(3) by (simp add: live_ok_def)
  ultimately show ?thesis
    unfolding s'(1) using alloc_okI[OF inv same_blocks_trans[OF t(2) s'(5)] _ _ s'(2)] same_pmm_facts[OF s'(6)] t(3,4)
    by simp
qed

lemma malloc_largeblock_ok:
  assumes inv: "heap_inv s L" and n: "heap_fits s n" and sz: "unat n \<le> unat sz" "unat sz < unat n + 32"
    and large: "4064 < unat sz" and szn: "sz = ALIGN_UP n 32"
  shows "alloc_ok s L n (malloc_largeblock sz s)"
proof -
  obtain fs ss where h: "vmm_wf s" "heap_rep s fs ss (live L)" using heap_invD[OF inv] by metis
  have N: "nframes s \<le> 2 ^ 40" using h(1) by (simp add: vmm_wf_def)
  have n': "unat n + 64 \<le> 4096 * nframes s" using n by (simp add: heap_fits_def)
  have u: "unat (sz + 32) = unat sz + 32" using sz(2) n' N unat_add_if_fits[of sz 32] by simp
  define sz2 where "sz2 = ALIGN_UP (sz + 32) 0x1000"
  have "unat (sz + 32) + unat (0x1000 :: u64) < 2 ^ 64" using u sz(2) n' N by simp
  note au = unat_ALIGN_UP[OF this, folded sz2_def, simplified]
  have r: "4096 dvd unat sz2" "unat sz + 32 \<le> unat sz2" "unat sz2 \<le> 4096 * nframes s"
    using au(1,2) au(4)[of "4096 * nframes s"] u sz(2) n' by simp_all
  define c where "c = unat sz2 div 4096"
  have c: "unat sz2 = 4096 * c" "0 < c" "c \<le> nframes s" using r large by (auto simp: c_def)
  have uc: "unat (sz2 div 0x1000) = c" by (simp add: unat_div_distrib c_def)
  then have c0: "0 < sz2 div 0x1000" using c(2) by (simp add: word_less_nat_alt)
  have us: "unat (sz2 - 32) = 4096 * c - 32" using c by (simp add: unat_sub word_le_nat_alt)
  have cN: "unat (sz2 div 0x1000) \<le> nframes s" using uc c(3) by simp
  show ?thesis
  proof (rule alloc_run[OF h(1) c0 cN])
    assume a: "pmm_alloc_pages_hhdm (sz2 div 0x1000) s = Inr (0, s)" "first_fit s (unat (sz2 div 0x1000)) = None"
    have "heap_pages n = unat (sz2 div 0x1000)" by (simp add: heap_pages_def sz2_def szn)
    then show ?thesis using a by (simp add: malloc_largeblock_def sz2_def[symmetric] Let_def alloc_ok_def)
  next
    fix k s1
    assume k: "0 < k" "k + unat (sz2 div 0x1000) \<le> nframes s"
      "\<forall>i \<in> {k..<k + unat (sz2 div 0x1000)}. \<not> frame_taken s i"
      and s1: "s1 = mark_frames [k..<k + unat (sz2 div 0x1000)] True s"
      "pmm_alloc_pages_hhdm (sz2 div 0x1000) s = Inr (frame_addr k + pmm_hhdm_offset s, s1)"
      "frame_taken s1 = (\<lambda>i. frame_taken s i \<or> i \<in> {k..<k + unat (sz2 div 0x1000)})" "vmm_wf s1"
    let ?b = "frame_addr k + pmm_hhdm_offset s"
    define s' where "s' = mb_set_block_size ?b (sz2 - 32) (mb_set_padding ?b 0 (mb_set_prev ?b 0 (mb_set_next ?b 0 s1)))"
    note lb = large_block[OF h k(1) k(2)[unfolded uc] c(2) k(3)[unfolded uc] s1(1)[unfolded uc] s1(4)
        s1(3)[unfolded uc] refl us s'_def]
    have "malloc_largeblock sz s = Inr (?b + 32, s')"
      using s1(2) lb(1) by (simp add: malloc_largeblock_def sz2_def[symmetric] Let_def s'_def GET_MEMORY_BLOCK_BUFFER_def)
    moreover have "live_ok s' (?b + 32) n"
      using lb(4,5) us c r sz by (simp add: live_ok_def)
    ultimately show ?thesis using alloc_okI[OF inv lb(6,7,8,3)] lb(2) by simp
  qed
qed

lemma one_page_aligned:
  assumes "0 < unat sz" "unat sz \<le> 4064"
  shows "ALIGN_UP (sz + 32) 0x1000 = 0x1000"
proof -
  have u: "unat (sz + 32) = unat sz + 32" using assms(2) unat_add_if_fits[of sz 32] by simp
  then have "unat (sz + 32) + unat (0x1000 :: u64) < 2 ^ 64" using assms(2) by simp
  note au = unat_ALIGN_UP[OF this, simplified]
  have "unat (ALIGN_UP (sz + 32) 0x1000) \<le> 4096" using au(4)[of 4096] u assms(2) by simp
  moreover have "0 < unat (ALIGN_UP (sz + 32) 0x1000)" using au(2) u by linarith
  ultimately have "unat (ALIGN_UP (sz + 32) 0x1000) = 4096" using au(1) by (metis dvd_imp_le le_antisym)
  then show ?thesis by (simp add: word_unat_eq_iff)
qed

lemma one_page: "0 < unat sz \<Longrightarrow> unat sz \<le> 4064 \<Longrightarrow> DIV_ROUND_UP (sz + 32) 0x1000 = 1"
proof -
  assume sz: "0 < unat sz" "unat sz \<le> 4064"
  have "unat (sz + 32) = unat sz + 32" using sz(2) unat_add_if_fits[of sz 32] by simp
  then have "unat (sz + 32 + 0x1000) = unat sz + 32 + 4096" using sz(2) unat_add_if_fits[of "sz + 32" "0x1000"] by simp
  then have u: "unat (sz + 32 + 0x1000 - 1) = unat sz + 4127"
    by (subst unat_sub) (simp_all add: word_le_nat_alt)
  have "unat ((sz + 32 + 0x1000 - 1) div 0x1000) = (unat sz + 4127) div 4096"
    unfolding unat_div_distrib u by simp
  also have "\<dots> = 1" using sz by simp
  finally show ?thesis unfolding DIV_ROUND_UP_def by (simp add: word_unat_eq_iff)
qed

lemma kmalloc_fresh_ok:
  assumes inv: "heap_inv s L" and n: "heap_fits s n" and sz: "32 dvd unat sz" "unat n \<le> unat sz" "unat sz \<le> 4064"
    and pages: "heap_pages n = 1"
    and h: "vmm_wf s" "heap_rep s fs ss (live L)"
  shows "alloc_ok s L n (kbind (pmm_alloc_pages_hhdm 1 s) (\<lambda>(buffer, s).
      if buffer = 0 then Inl heap_oom
      else let s = mb_set_block_size buffer (1 * 0x1000 - 32) s;
               s = mb_set_next buffer (g_super_blocks s) s;
               s = mb_set_prev buffer 0 s;
               s = (if g_super_blocks s \<noteq> 0 then mb_set_prev (g_super_blocks s) buffer s else s);
               s = s\<lparr>g_super_blocks := buffer\<rparr>
           in malloc_from_block (g_super_blocks s) sz s))"
proof -
  have page: "1 * 0x1000 - 32 = (4064 :: u64)" by simp
  have c: "0 < (1 :: u64)" "unat (1 :: u64) \<le> nframes s" using n by (auto simp: heap_fits_def)
  show ?thesis
  proof (rule alloc_run[OF h(1) c])
    assume "pmm_alloc_pages_hhdm 1 s = Inr (0, s)" "first_fit s (unat (1 :: u64)) = None"
    then show ?thesis using pages by (simp add: alloc_ok_def)
  next
    fix k s1
    assume k: "0 < k" "k + unat (1 :: u64) \<le> nframes s" "\<forall>i \<in> {k..<k + unat (1 :: u64)}. \<not> frame_taken s i"
      and s1: "s1 = mark_frames [k..<k + unat (1 :: u64)] True s"
      "pmm_alloc_pages_hhdm 1 s = Inr (frame_addr k + pmm_hhdm_offset s, s1)"
      "frame_taken s1 = (\<lambda>i. frame_taken s i \<or> i \<in> {k..<k + unat (1 :: u64)})" "vmm_wf s1"
    let ?b = "frame_addr k + pmm_hhdm_offset s"
    define s2 where "s2 = mb_set_block_size ?b 4064 s1"
    define s3 where "s3 = mb_set_prev ?b 0 (mb_set_next ?b (g_super_blocks s2) s2)"
    define s' where "s' = (if g_super_blocks s2 \<noteq> 0 then mb_set_prev (g_super_blocks s2) ?b s3 else s3)\<lparr>g_super_blocks := ?b\<rparr>"
    have one: "unat (1 :: u64) = 1" by simp
    note nb = new_super_block[OF h k[unfolded one] s1(1)[unfolded one] s1(4) s1(3)[unfolded one] refl s2_def s3_def s'_def]
    have g: "g_super_blocks s1 = g_super_blocks s2" "g_super_blocks s3 = g_super_blocks s2"
      by (simp_all add: s2_def s3_def)
    have "?b \<in> set fs \<union> set (?b # ss)" by simp
    moreover have "sz \<le> mb_block_size s' ?b" using nb(3) sz(3) by (simp add: word_le_nat_alt)
    ultimately have "alloc_ok s L n (malloc_from_block ?b sz s')"
      using malloc_from_block_ok[OF inv nb(2,4,5,6) _ sz(1) _ sz(2)] by blast
    then show ?thesis using s1(2) nb(1) g
      unfolding page by (cases "g_super_blocks s2 = 0") (simp_all add: Let_def s2_def[symmetric] s3_def s'_def)
  qed
qed

lemma kmalloc_ok:
  assumes inv: "heap_inv s L" and n: "n \<noteq> 0" "heap_fits s n"
  shows "alloc_ok s L n (kmalloc n s)"
proof -
  obtain fs ss where h: "vmm_wf s" "heap_rep s fs ss (live L)" using heap_invD[OF inv] by metis
  define sz where "sz = ALIGN_UP n 32"
  have "unat n + unat (32 :: u64) < 2 ^ 64" using n(2) h(1) by (simp add: heap_fits_def vmm_wf_def)
  note au = unat_ALIGN_UP[OF this, folded sz_def, simplified]
  have n0: "0 < unat n" using n(1) by (simp add: unat_gt_0)
  have eq: "kmalloc n s = (if sz > 4064 then malloc_largeblock sz s
      else kbind (find_block s (g_free_blocks s) sz) (\<lambda>block.
           if block \<noteq> 0 then malloc_from_block block sz s
           else kbind (find_block s (g_super_blocks s) sz) (\<lambda>block.
                if block \<noteq> 0 then malloc_from_block block sz s
                else let buffer_page_count = DIV_ROUND_UP (sz + 32) 0x1000
                     in kbind (pmm_alloc_pages_hhdm buffer_page_count s) (\<lambda>(buffer, s).
      if buffer = 0 then Inl heap_oom
      else let s = mb_set_block_size buffer (buffer_page_count * 0x1000 - 32) s;
               s = mb_set_next buffer (g_super_blocks s) s;
               s = mb_set_prev buffer 0 s;
               s = (if g_super_blocks s \<noteq> 0 then mb_set_prev (g_super_blocks s) buffer s else s);
               s = s\<lparr>g_super_blocks := buffer\<rparr>
           in malloc_from_block (g_super_blocks s) sz s))))"
    unfolding kmalloc_def Let_def sz_def[symmetric] using n(1) by simp
  show ?thesis
  proof (cases "sz > 4064")
    case True
    then show ?thesis using malloc_largeblock_ok[OF inv n(2) au(2,3) _ sz_def] eq by (simp add: word_less_nat_alt)
  next
    case False
    then have small: "unat sz \<le> 4064" by (simp add: word_less_nat_alt)
    note li = list_inv_basics[OF heap_repD(1)[OF h(2)]]
    have sb: "same_blocks s s (live L)" by (simp add: same_blocks_def)
    obtain b where b: "find_block s (g_free_blocks s) sz = Inr b"
      "b = 0 \<and> (\<forall>c \<in> set fs. mb_block_size s c < sz) \<or> b \<in> set fs \<and> sz \<le> mb_block_size s b"
      using find_block_list[OF li(1) li(6)] unfolding li(8) by metis
    obtain c where c: "find_block s (g_super_blocks s) sz = Inr c"
      "c = 0 \<and> (\<forall>e \<in> set ss. mb_block_size s e < sz) \<or> c \<in> set ss \<and> sz \<le> mb_block_size s c"
      using find_block_list[OF li(2) li(7)] unfolding li(10) by metis
    consider "b \<noteq> 0" | "b = 0" "c \<noteq> 0" | "b = 0" "c = 0" by blast
    then show ?thesis
    proof cases
      case 1
      then have "b \<in> set fs \<union> set ss" "sz \<le> mb_block_size s b" using b(2) by auto
      then have "alloc_ok s L n (malloc_from_block b sz s)"
        using malloc_from_block_ok[OF inv h(2) sb h(1) refl _ au(1) _ au(2)] by blast
      then show ?thesis using eq False b(1) 1 by simp
    next
      case 2
      then have "c \<in> set fs \<union> set ss" "sz \<le> mb_block_size s c" using c(2) by auto
      then have "alloc_ok s L n (malloc_from_block c sz s)"
        using malloc_from_block_ok[OF inv h(2) sb h(1) refl _ au(1) _ au(2)] by blast
      then show ?thesis using eq False b(1) c(1) 2 by simp
    next
      case 3
      have sz0: "0 < unat sz" using au(2) n0 by linarith
      have "heap_pages n = 1" unfolding heap_pages_def sz_def[symmetric] one_page_aligned[OF sz0 small] by simp
      then show ?thesis
        using kmalloc_fresh_ok[OF inv n(2) au(1,2) small _ h] one_page[OF sz0 small] eq False b(1) c(1) 3 by simp
    qed
  qed
qed

section \<open>kfree\<close>

lemma live_remove:
  assumes "inj_on fst L" "(p, n) \<in> L"
  shows "live (L - {(p, n)}) = live L - {p - 32}"
proof -
  have "(q, k) = (p, n)" if "(q, k) \<in> L" "q = p" for q k
    using inj_onD[OF assms(1), of "(q, k)" "(p, n)"] that assms(2) by simp
  then show ?thesis unfolding live_def by auto
qed

lemma small_free:
  assumes inv: "heap_inv s L" and p: "(p, n) \<in> L" and small: "unat (mb_block_size s (p - 32)) \<le> 4064"
  shows "\<exists>s'. kfree p s = Inr s' \<and> heap_inv s' (L - {(p, n)}) \<and> nframes s' = nframes s \<and>
    same_blocks s s' (live (L - {(p, n)}))"
proof -
  obtain fs ss where h: "vmm_wf s" "inj_on fst L" "heap_rep s fs ss (live L)" "p - 32 \<in> live L"
    using heap_invD[OF inv] p by metis
  note d = heap_repD[OF h(3)]
  note li = list_inv_basics[OF d(1)]
  let ?b = "p - 32" and ?L = "L - {(p, n)}"
  note lv = live_remove[OF h(2) p]
  have bH: "?b \<in> set fs \<union> set ss \<union> live L" using h(4) by blast
  have b: "hdr_aligned ?b" "?b \<noteq> 0" using blocks_okD(1,4)[OF d(2) bH] by blast+
  have b3: "?b \<notin> set (fs @ ss)" using h(4) d(3) by auto
  define s1 where "s1 = mb_set_prev ?b (g_free_block_tail s) (mb_set_next ?b 0 s)"
  define s' where "s' = (if fs = [] then s1\<lparr>g_free_blocks := ?b, g_free_block_tail := ?b\<rparr>
      else (mb_set_next (g_free_block_tail s) ?b s1)\<lparr>g_free_block_tail := ?b\<rparr>)"
  note ap = append_free[OF d(1) b b3 s1_def s'_def]
  have sizes: "mb_block_size s' c = mb_block_size s c" if "c \<in> set fs \<union> set ss \<union> live L" for c
    using that ap(2) blocks_okD(1)[OF d(2)] by (simp add: links_only_def)
  have pmm: "same_pmm s s'" by (rule same_pmm_links[OF ap(2)])
  have eq: "set (fs @ [?b]) \<union> set ss \<union> live ?L = set fs \<union> set ss \<union> live L" unfolding lv using h(4) by auto
  have "blocks_ok (heap_frame s') (pmm_hhdm_offset s') (mb_block_size s') (set fs \<union> set ss \<union> live L)"
    using d(2) sizes same_pmm_facts[OF pmm] by (subst blocks_ok_cong[of _ _ "mb_block_size s"]) auto
  moreover have "(set (fs @ [?b]) \<union> set ss) \<inter> live ?L = {}" unfolding lv using d(3) by auto
  moreover have "unat (mb_block_size s' c) \<le> 4064" if "c \<in> set (fs @ [?b]) \<union> set ss" for c
    using that sizes[of c] d(4)[of c] small h(4) by auto
  ultimately have rep: "heap_rep s' (fs @ [?b]) ss (live ?L)" unfolding heap_rep_def eq using ap(1) by blast
  have same: "same_blocks s s' (live ?L)"
  proof (rule same_blocks_outside[OF d(2), of _ "insert ?b (set fs \<union> set ss)"])
    fix x assume "\<forall>c \<in> insert ?b (set fs \<union> set ss). x \<notin> blk (mb_block_size s) c"
    then show "kmem s' x = kmem s x" by (intro links_outside[OF ap(2), of x "mb_block_size s"]) simp
  qed (use lv d(3) h(4) in auto)
  have "kfree p s = Inr s'"
  proof -
    have "\<not> mb_block_size s ?b > 0x1000 - 32" using small by (simp add: word_less_nat_alt)
    moreover have "g_free_blocks s = 0 \<longleftrightarrow> fs = []" using li(6,8) by (cases fs) auto
    moreover have "g_free_block_tail s = 0 \<longleftrightarrow> fs = []" using li(6)[of "last fs"] li(9) by (cases "fs = []") (simp_all add: last0_def)
    ultimately show ?thesis
      unfolding kfree_def Let_def by (cases "fs = []") (simp_all add: nonnull_def s'_def s1_def)
  qed
  moreover have "heap_inv s' ?L"
    unfolding heap_inv_def using rep h(1,2) same_pmm_facts(3)[OF pmm] live_ok_same[OF inv same]
    by (auto intro: inj_on_subset)
  ultimately show ?thesis using same same_pmm_facts(2)[OF pmm] by blast
qed

lemma block_run:
  assumes off: "page_aligned off" and b: "page_aligned b" and c: "4096 * c = 32 + unat (sizes b)"
    and taken: "\<And>x. x \<in> blk sizes b \<Longrightarrow> taken (byte_frame off x) \<and> byte_frame off x < N" and N: "N \<le> 2 ^ 40"
  obtains k where "b = frame_addr k + off" "k + c \<le> N" "blk sizes b = region (frame_addr k + off) (4096 * c)"
    "\<forall>i \<in> {k..<k + c}. taken i"
proof -
  define k where "k = byte_frame off b"
  have kN: "k < N" using taken[of b] by (simp add: k_def)
  have "page_aligned (b - off)" using off b by (rule page_aligned_diff[rotated])
  then have "unat (b - off) = 4096 * k" unfolding k_def byte_frame_def page_aligned_def by simp
  moreover have "unat (frame_addr k) = 4096 * k" using kN N by (intro unat_frame_addr) simp
  ultimately have "b - off = frame_addr k" by (simp add: word_unat_eq_iff)
  then have bk: "b = frame_addr k + off" by (simp add: algebra_simps)
  have blk_b: "blk sizes b = region (frame_addr k + off) (4096 * c)" using c bk by (simp add: blk_def)
  have at: "byte_frame off (frame_addr i + off) = i" if "i \<le> N" for i
    using that N unat_frame_addr[of i] by (simp add: byte_frame_def)
  have "k + c \<le> N"
  proof (rule ccontr)
    assume "\<not> k + c \<le> N"
    then have big: "N < k + c" by simp
    define c' where "c' = N - k + 1"
    have c': "c' \<le> c" "k + c' \<le> 2 ^ 52" using big kN N by (simp_all add: c'_def)
    have "frame_addr N + off \<in> region (frame_addr k + off) (4096 * c')"
      using run_bytes[OF c'(2), of "frame_addr N + off" off] at[of N] kN by (simp add: c'_def)
    then have "frame_addr N + off \<in> blk sizes b"
      unfolding blk_b using region_mono[of "4096 * c'" "4096 * c"] c'(1) by auto
    then show False using taken[of "frame_addr N + off"] at[of N] by simp
  qed
  moreover have "taken i" if "i \<in> {k..<k + c}" for i
  proof -
    have "frame_addr i + off \<in> blk sizes b"
      unfolding blk_b using run_bytes[of k c "frame_addr i + off" off] at[of i] that \<open>k + c \<le> N\<close> N by simp
    then show ?thesis using taken at[of i] that \<open>k + c \<le> N\<close> by fastforce
  qed
  ultimately show thesis using that bk blk_b by blast
qed

lemma large_free:
  assumes inv: "heap_inv s L" and p: "(p, n) \<in> L" and large: "4064 < unat (mb_block_size s (p - 32))"
  shows "\<exists>s'. kfree p s = Inr s' \<and> heap_inv s' (L - {(p, n)}) \<and> nframes s' = nframes s \<and>
    same_blocks s s' (live (L - {(p, n)}))"
proof -
  obtain fs ss where h: "vmm_wf s" "inj_on fst L" "heap_rep s fs ss (live L)" "live_ok s p n" "p - 32 \<in> live L"
    using heap_invD[OF inv] p by metis
  note d = heap_repD[OF h(3)]
  let ?b = "p - 32" and ?L = "L - {(p, n)}" and ?sz = "mb_block_size s (p - 32)"
  note lv = live_remove[OF h(2) p]
  have bH: "?b \<in> set fs \<union> set ss \<union> live L" using h(5) by blast
  have w: "page_aligned (pmm_hhdm_offset s)" "nframes s \<le> 2 ^ 40" "pmm_inv s" "vmm_hhdm_offset s = pmm_hhdm_offset s"
    "pmm_wf s" using h(1) by (simp_all add: vmm_wf_def pmm_inv_def)
  have pa: "page_aligned ?b" "4096 dvd 32 + unat ?sz" using h(4) large by (simp_all add: live_ok_def add.commute)
  define c where "c = (32 + unat ?sz) div 4096"
  have c: "4096 * c = 32 + unat ?sz" using pa(2) by (simp add: c_def)
  have tk: "heap_frame s (byte_frame (pmm_hhdm_offset s) x) \<and> byte_frame (pmm_hhdm_offset s) x < nframes s"
    if "x \<in> blk (mb_block_size s) ?b" for x
    using blocks_okD(6)[OF d(2) bH that] by (simp add: heap_frame_def frame_taken_def)
  obtain k where k: "?b = frame_addr k + pmm_hhdm_offset s" "k + c \<le> nframes s"
    "blk (mb_block_size s) ?b = region (frame_addr k + pmm_hhdm_offset s) (4096 * c)"
    "\<forall>i \<in> {k..<k + c}. heap_frame s i"
    by (rule block_run[where sizes = "mb_block_size s" and taken = "heap_frame s", OF w(1) pa(1) c tk w(2)])
  have k52: "k < 2 ^ 52" "k + c \<le> 2 ^ 52" using k(2) w(2) c by simp_all
  have "unat ?b + 32 + unat ?sz \<le> 2 ^ 64" "?b \<noteq> 0" using blocks_okD(4,5)[OF d(2) bH] by blast+
  then have "unat ?sz + 32 < 2 ^ 64" using unat_gt_0[of ?b] by linarith
  then have u: "unat (?sz + 32) = 4096 * c" using c unat_add_if_fits[of ?sz 32] by simp
  have uc: "unat ((?sz + 32) div 0x1000) = c" by (simp add: unat_div_distrib u)
  have run: "run_frames (frame_addr k, (?sz + 32) div 0x1000) = {k..<k + c}"
    using k52(1) uc by (simp add: run_frames_def frame_of_frame_addr)
  define s' where "s' = mark_frames [k..<k + c] False s"
  have free: "pmm_free_pages (frame_addr k) ((?sz + 32) div 0x1000) s = Inr s'"
    using pmm_free_pages_marks[OF w(5), of k "(?sz + 32) div 0x1000"] k(2) uc by (simp add: s'_def)
  have "\<not> ?sz \<le> 0x1000 - 32" using large by (simp add: word_le_nat_alt)
  then have kf: "kfree p s = Inr s'"
    using free k(1) w(4) by (simp add: kfree_def free_largeblock_def vmm_virt_hhdm_to_phys_def Let_def not_le)
  have taken': "frame_taken s' = (\<lambda>i. frame_taken s i \<and> i \<notin> {k..<k + c})"
    unfolding s'_def using k(2) by (subst frame_taken_mark_frames[OF w(5)]) auto
  have c0: "0 < c" using c by linarith
  then have k0: "k \<noteq> 0" using k(4) by (auto simp: heap_frame_def)
  have wf': "vmm_wf s'" using h(1) taken' k0 by (simp add: vmm_wf_def pmm_inv_def s'_def)
  have hf: "heap_frame s' = (\<lambda>i. heap_frame s i \<and> i \<notin> {k..<k + c})"
    using taken' by (auto simp: heap_frame_def fun_eq_iff)
  have eq: "set fs \<union> set ss \<union> live ?L = (set fs \<union> set ss \<union> live L) - {?b}"
    unfolding lv using h(5) d(3) by auto
  have "blocks_ok (heap_frame s') (pmm_hhdm_offset s') (mb_block_size s') (set fs \<union> set ss \<union> live ?L)"
    unfolding eq using blocks_ok_release[OF d(2) bH k(3) k52(2) hf] by (simp add: s'_def)
  then have "heap_rep s' fs ss (live ?L)"
    using d unfolding heap_rep_def lv by (auto simp: s'_def)
  moreover have same: "same_blocks s s' (live ?L)" by (simp add: same_blocks_def s'_def)
  ultimately have "heap_inv s' ?L"
    unfolding heap_inv_def using wf' h(2) live_ok_same[OF inv same] by (auto intro: inj_on_subset)
  then show ?thesis using kf same by (simp add: s'_def)
qed

lemma kfree_ok:
  assumes "heap_inv s L" "(p, n) \<in> L"
  shows "\<exists>s'. kfree p s = Inr s' \<and> heap_inv s' (L - {(p, n)}) \<and> nframes s' = nframes s \<and>
    same_blocks s s' (live (L - {(p, n)}))"
proof (cases "unat (mb_block_size s (p - 32)) \<le> 4064")
  case True
  then show ?thesis by (rule small_free[OF assms])
next
  case False
  then show ?thesis by (intro large_free[OF assms]) simp
qed

section \<open>Stores into a buffer by its owner\<close>

definition heap_put :: "u64 \<Rightarrow> u8 \<Rightarrow> 'a heap_state_scheme \<Rightarrow> 'a heap_state_scheme" where
  "heap_put x v s = s\<lparr>kmem := (kmem s)(x := v)\<rparr>"

text \<open>
  A change of memory keeps the heap when every byte it changes belongs to a buffer handed out or to
  no frame in use: user memory, a stack, device memory.
\<close>

definition heap_may_write :: "'a heap_state_scheme \<Rightarrow> (u64 \<times> u64) set \<Rightarrow> u64 \<Rightarrow> bool" where
  "heap_may_write s L x \<longleftrightarrow> (\<exists>p n. (p, n) \<in> L \<and> x \<in> region p (unat n)) \<or>
     \<not> heap_frame s (byte_frame (pmm_hhdm_offset s) x)"

lemma may_write_no_header:
  assumes inv: "heap_inv s L" and rep: "heap_rep s fs ss (live L)" and x: "heap_may_write s L x"
    and c: "c \<in> set fs \<union> set ss \<union> live L"
  shows "\<not> unat (x - c) < 32"
proof
  assume a: "unat (x - c) < 32"
  note d = heap_repD[OF rep]
  have "x \<in> blk (mb_block_size s) c" by (rule header_in_blk[OF a])
  then have "heap_frame s (byte_frame (pmm_hhdm_offset s) x)" by (rule blocks_okD(6)[OF d(2) c])
  then obtain p n where p: "(p, n) \<in> L" "x \<in> region p (unat n)"
    using x by (auto simp: heap_may_write_def)
  note xb = live_buffer_in_block[OF inv p]
  have "p - 32 \<in> set fs \<union> set ss \<union> live L" using p(1) unfolding live_def by force
  then have "c = p - 32" using blocks_apart[OF d(2) c _ header_in_blk[OF a] xb(1)] by blast
  then show False using a xb(2) by simp
qed

lemma heap_write_ok:
  assumes inv: "heap_inv s L" and w: "\<And>x. m x \<noteq> kmem s x \<Longrightarrow> heap_may_write s L x"
  shows "heap_inv (s\<lparr>kmem := m\<rparr>) L"
proof -
  obtain fs ss where h: "vmm_wf s" "inj_on fst L" "heap_rep s fs ss (live L)"
    using heap_invD[OF inv] by metis
  note d = heap_repD[OF h(3)]
  let ?s = "s\<lparr>kmem := m\<rparr>" and ?H = "set fs \<union> set ss \<union> live L"
  have hdr: "mb_block_size ?s c = mb_block_size s c" "mb_next ?s c = mb_next s c" "mb_prev ?s c = mb_prev s c"
    if c: "c \<in> ?H" for c
    by (rule header_same; use may_write_no_header[OF inv h(3) w c] in force)+
  have pmm: "same_pmm s ?s" by (simp add: same_pmm_def)
  have "blocks_ok (heap_frame ?s) (pmm_hhdm_offset ?s) (mb_block_size ?s) ?H"
    using d(2) hdr same_pmm_facts[OF pmm] by (subst blocks_ok_cong[of _ _ "mb_block_size s"]) auto
  moreover have "list_inv ?s fs ss"
    by (rule list_inv_links[OF d(1)]) (use hdr in auto)
  ultimately have "heap_rep ?s fs ss (live L)"
    unfolding heap_rep_def using d(3,4) hdr by auto
  moreover have "live_ok ?s q k" if q: "(q, k) \<in> L" for q k
  proof -
    have "q - 32 \<in> ?H" using q unfolding live_def by force
    then have "mb_block_size ?s (q - 32) = mb_block_size s (q - 32)" by (rule hdr(1))
    then show ?thesis using inv q unfolding heap_inv_def live_ok_def by auto
  qed
  ultimately show ?thesis unfolding heap_inv_def using h(1,2) same_pmm_facts(3)[OF pmm] by auto
qed

lemma heap_put_ok:
  assumes "heap_inv s L" "(p, n) \<in> L" "x \<in> region p (unat n)"
  shows "heap_inv (heap_put x v s) L"
  unfolding heap_put_def
  by (rule heap_write_ok[OF assms(1)]) (use assms(2,3) in \<open>auto simp: heap_may_write_def split: if_splits\<close>)

section \<open>Boot\<close>

lemma init_kernel_heap_ok:
  assumes wf: "vmm_wf s" and boot: "g_free_blocks s = 0" "g_free_block_tail s = 0"
    and free: "k < nframes s" "\<not> frame_taken s k"
  shows "\<exists>s' j. init_kernel_heap s = Inr s' \<and> heap_inv s' {} \<and> nframes s' = nframes s \<and>
    frame_taken s' = (\<lambda>i. frame_taken s i \<or> i = j)"
proof -
  define t where "t = s\<lparr>g_super_blocks := 0\<rparr>"
  have bt: "g_bitmap t = g_bitmap s" by (simp add: t_def)
  have same: "same_pmm s t" by (simp add: same_pmm_def t_def)
  have rep0: "heap_rep t [] [] {}"
    using boot by (simp add: heap_rep_def list_inv_def t_def blocks_ok_def)
  have pw: "pmm_wf s" "0 < nframes s" "pmm_inv s" using wf by (auto simp: vmm_wf_def pmm_inv_def frame_taken_def)
  obtain j where j: "first_fit s 1 = Some j"
  proof (cases "first_fit s 1")
    case None
    then have False using free unfolding first_fit_None free_run_1 frame_taken_def by blast
    then show ?thesis ..
  qed
  then have r: "j < nframes s" "\<not> frame_taken s j" unfolding first_fit_Some free_run_1 frame_taken_def by blast+
  have j0: "0 < j" using r(2) pw(3) by (cases j) (auto simp: pmm_inv_def)
  have tt: "vmm_wf t" "nframes t = nframes s" "frame_taken t = frame_taken s" "pmm_hhdm_offset t = pmm_hhdm_offset s"
    using same_pmm_facts[OF same] wf by simp_all
  have "j < 2 ^ 52" using r(1) pw(1) by (simp add: pmm_wf_def)
  then have fa: "frame_addr j \<noteq> 0" using j0 by (simp add: frame_addr_0)
  let ?b = "frame_addr j + pmm_hhdm_offset s"
  define s1 where "s1 = mark_frames [j..<j + 1] True t"
  define s2 where "s2 = mb_set_block_size ?b 4064 s1"
  define s3 where "s3 = mb_set_prev ?b 0 (mb_set_next ?b (g_super_blocks s2) s2)"
  define s' where "s' = (if g_super_blocks s2 \<noteq> 0 then mb_set_prev (g_super_blocks s2) ?b s3 else s3)\<lparr>g_super_blocks := ?b\<rparr>"
  have tk1: "frame_taken s1 = (\<lambda>i. frame_taken t i \<or> i \<in> {j..<j + 1})"
    unfolding s1_def using r(1) tt by (subst frame_taken_mark_frames) (auto simp: vmm_wf_def pmm_inv_def)
  have wf1: "vmm_wf s1" using tt(1) tk1 unfolding s1_def by (simp add: vmm_wf_def pmm_inv_def)
  have jt: "j + 1 \<le> nframes t" "\<forall>i \<in> {j..<j + 1}. \<not> frame_taken t i" using r tt by auto
  have bb: "?b = frame_addr j + pmm_hhdm_offset t" using tt(4) by simp
  note nb = new_super_block[OF tt(1) rep0 j0 jt s1_def wf1 tk1 bb s2_def s3_def s'_def]
  have "heap_inv s' {}" unfolding heap_inv_def live_def using nb(2,5) by auto
  moreover have "init_kernel_heap s = Inr s'"
  proof -
    have m: "mark_frame j True s = (mark_frames [j..<j + 1] True t)\<lparr>g_super_blocks := g_super_blocks s\<rparr>"
      by (simp add: mark_frames_def mark_frame_def t_def)
    have "pmm_alloc_page_hhdm s = Inr (?b, mark_frame j True s)"
      using j fa by (simp add: pmm_alloc_page_hhdm_def pmm_alloc_page_first_fit[OF pw(1)] del: One_nat_def)
    moreover have "g_super_blocks s2 = 0" by (simp add: s2_def s1_def t_def)
    ultimately show ?thesis using nb(1)
      by (simp add: init_kernel_heap_def nonnull_def Let_def s'_def s3_def s2_def s1_def m
          mb_set_next_def mb_set_prev_def mb_set_block_size_def)
  qed
  moreover have "frame_taken s' = (\<lambda>i. frame_taken s i \<or> i = j)"
  proof -
    have "same_pmm s1 s'" by (simp add: same_pmm_def s'_def s3_def s2_def)
    then show ?thesis using same_pmm_facts(1)[of s1 s'] tk1 tt(3) by (auto simp: fun_eq_iff)
  qed
  ultimately show ?thesis using nb(6) tt(2) by (intro exI[of _ s'] exI[of _ j]) simp
qed

section \<open>The contract\<close>

interpretation kernel_heap: heap_allocator heap_inv heap_fits kmem heap_put kmalloc kfree heap_oom
proof unfold_locales
  fix s :: "'a heap_state_scheme" and L p n q k
  assume "heap_inv s L" "(p, n) \<in> L" "(q, k) \<in> L" "(p, n) \<noteq> (q, k)"
  then show "p \<noteq> q \<and> region p (unat n) \<inter> region q (unat k) = {}" by (rule heap_inv_disjoint)
next
  fix s :: "'a heap_state_scheme" and L n
  assume a: "heap_inv s L" "n \<noteq> 0" "heap_fits s n"
  then show "kmalloc n s = Inl heap_oom \<or>
      (\<exists>p s'. kmalloc n s = Inr (p, s') \<and> p \<notin> fst ` L \<and> heap_inv s' (insert (p, n) L) \<and>
        heap_fits s' = heap_fits s \<and> (\<forall>q k x. (q, k) \<in> L \<longrightarrow> x \<in> region q (unat k) \<longrightarrow> kmem s' x = kmem s x))"
    using kmalloc_ok[OF a] same_blocks_live[OF a(1) _ subset_refl]
    by (auto simp: alloc_ok_def heap_fits_def fun_eq_iff)
next
  fix s :: "'a heap_state_scheme" and L p n
  assume a: "heap_inv s L" "(p, n) \<in> L"
  then obtain s' where "kfree p s = Inr s'" "heap_inv s' (L - {(p, n)})" "nframes s' = nframes s"
    "same_blocks s s' (live (L - {(p, n)}))" using kfree_ok by blast
  then show "\<exists>s'. kfree p s = Inr s' \<and> heap_inv s' (L - {(p, n)}) \<and> heap_fits s' = heap_fits s \<and>
      (\<forall>q k x. (q, k) \<in> L - {(p, n)} \<longrightarrow> x \<in> region q (unat k) \<longrightarrow> kmem s' x = kmem s x)"
    using same_blocks_live[OF a(1), of s' "L - {(p, n)}"] by (auto simp: heap_fits_def fun_eq_iff)
next
  fix s :: "'a heap_state_scheme" and L p n x v
  assume "heap_inv s L" "(p, n) \<in> L" "x \<in> region p (unat n)"
  then show "heap_inv (heap_put x v s) L \<and> heap_fits (heap_put x v s) = heap_fits s \<and>
      kmem (heap_put x v s) = (kmem s)(x := v)"
    using heap_put_ok by (auto simp: heap_fits_def heap_put_def fun_eq_iff nframes_def)
qed

section \<open>Properties\<close>


definition heap_boot :: "heap_state" where
  "heap_boot = \<lparr>g_bitmap = \<lparr>bit_count = 8, bitmap = [1]\<rparr>, pmm_hhdm_offset = 0xFFFF800000000000,
     kmem = (\<lambda>_. 0), vmm_hhdm_offset = 0xFFFF800000000000, cr3 = 0, g_super_blocks = 0, g_free_blocks = 0,
     g_free_block_tail = 0\<rparr>"

lemma heap_boot_wf:
  "vmm_wf heap_boot" "g_free_blocks heap_boot = 0" "g_free_block_tail heap_boot = 0" "1 < nframes heap_boot"
  "\<not> frame_taken heap_boot 1" "nframes heap_boot = 8" "0 < nframes heap_boot"
  by (simp_all add: heap_boot_def vmm_wf_def pmm_inv_def pmm_wf_def nframes_def frame_taken_def frame_used_def
      bitmap_wf_def bm_bit_def page_aligned_def)

lemma heap_demo_run:
  obtains s0 k where "init_kernel_heap heap_boot = Inr s0" "heap_inv s0 {}" "nframes s0 = 8" "free_run s0 k (heap_pages 100)"
proof -
  obtain s0 j where s0: "init_kernel_heap heap_boot = Inr s0" "heap_inv s0 {}" "nframes s0 = nframes heap_boot"
    "frame_taken s0 = (\<lambda>i. frame_taken heap_boot i \<or> i = j)"
    using init_kernel_heap_ok[OF heap_boot_wf(1-5)] by blast
  define k where "k = (if j = 1 then 2 else 1 :: nat)"
  have "\<not> frame_taken heap_boot 2" by (simp add: heap_boot_def frame_taken_def frame_used_def bm_bit_def)
  then have "\<not> frame_taken s0 k" using heap_boot_wf(5) unfolding s0(4) by (auto simp: k_def)
  moreover have "k < nframes s0" unfolding s0(3) heap_boot_wf(6) by (simp add: k_def)
  moreover have "heap_pages 100 = 1" by (simp add: heap_pages_def ALIGN_UP_def)
  ultimately have "free_run s0 k (heap_pages 100)" by (simp add: free_run_def frame_taken_def)
  then show thesis using that s0(1-3) heap_boot_wf(6) by simp
qed

lemma heap_demo:
  "\<exists>s0 p s1. init_kernel_heap heap_boot = Inr s0 \<and> kmalloc 100 s0 = Inr (p, s1) \<and> heap_inv s1 {(p, 100)} \<and>
    nframes s1 = 8"
proof -
  obtain s0 k where s0: "init_kernel_heap heap_boot = Inr s0" "heap_inv s0 {}" "nframes s0 = 8"
    "free_run s0 k (heap_pages 100)" by (rule heap_demo_run)
  have "first_fit s0 (heap_pages 100) \<noteq> None" using s0(4) by (auto simp: first_fit_None)
  then show ?thesis using kmalloc_ok[OF s0(2), of 100] s0 by (auto simp: alloc_ok_def heap_fits_def)
qed




text \<open>
  C15: kmalloc returns a buffer whenever the page allocator still has a run of free frames long
  enough for the request: it ends, and it gives up only when memory is exhausted.
\<close>

theorem kmalloc_succeeds:
  assumes "heap_inv s L" "n \<noteq> 0" "heap_fits s n" "free_run s k (heap_pages n)"
  shows "\<exists>p s'. kmalloc n s = Inr (p, s')"
proof -
  have "first_fit s (heap_pages n) \<noteq> None" using assms(4) by (auto simp: first_fit_None)
  then show ?thesis using kmalloc_ok[OF assms(1-3)] by (auto simp: alloc_ok_def)
qed

theorem kmalloc_succeeds_witness:
  "\<exists>s0 p s'. init_kernel_heap heap_boot = Inr s0 \<and> kmalloc 100 s0 = Inr (p, s')"
proof -
  obtain s0 k where s0: "init_kernel_heap heap_boot = Inr s0" "heap_inv s0 {}" "nframes s0 = 8"
    "free_run s0 k (heap_pages 100)" by (rule heap_demo_run)
  then show ?thesis using kmalloc_succeeds[OF s0(2) _ _ s0(4)] by (simp add: heap_fits_def)
qed

end
