(* ===== verification/Descriptor_Tables.thy ===== *)
theory Descriptor_Tables
  imports Tz_Prelude
begin

text \<open>
  The segment and interrupt descriptor tables: kernel/gdt (gdt.c, gdt\_defs.h, gdt.asm) and
  kernel/interrupts (idt.c, idt\_defs.c, idt\_defs.h). Descriptors are records with the fields of
  the packed C structures; a one-bit field is a bool and a wider field a word of its width. The
  layout of a segment descriptor in memory is \<open>gdt_entry_raw\<close>. The addresses the linker gives the
  tables and the interrupt stubs are arguments, the registers the tables are loaded into are part
  of the state.
\<close>

section \<open>Segment descriptors\<close>

datatype gdt_segments = GS_RING0_CODE_SEGMENT | GS_RING3_CODE_SEGMENT | GS_RING0_DATA_SEGMENT
  | GS_RING3_DATA_SEGMENT

record gdt_access =
  ga_access :: bool
  ga_read_write :: bool
  ga_direction_conforming :: bool
  ga_executable :: bool
  ga_descriptor_type :: bool
  ga_descriptor_privilege_level :: "2 word"
  ga_present :: bool

record gdt_entry =
  ge_limit_low :: u16
  ge_base_low :: u16
  ge_base_mid :: u8
  ge_access :: gdt_access
  ge_limit_high :: "4 word"
  ge_reserved :: bool
  ge_long_mode :: bool
  ge_size_flag :: bool
  ge_granularity :: bool
  ge_base_high :: u8

record gdt_desc =
  gd_limit :: u16
  gd_base :: u64

record tss_entry =
  tss_reserved0 :: u32
  tss_rsp0 :: u64
  tss_rsp1 :: u64
  tss_rsp2 :: u64
  tss_reserved1 :: u64
  tss_interrupt_stack_table :: "u64 list"
  tss_reserved2 :: u64
  tss_reserved3 :: u16
  tss_iopb_offset :: u16

text \<open>A segment selector is its raw 16 bits with three bit fields.\<close>

definition selector_privilege_level :: "u16 \<Rightarrow> 2 word" where
  "selector_privilege_level raw = ucast raw"

definition selector_table_indicator :: "u16 \<Rightarrow> bool" where
  "selector_table_indicator raw = bit raw 2"

definition selector_index :: "u16 \<Rightarrow> 13 word" where
  "selector_index raw = ucast (drop_bit 3 raw)"

definition make_selector :: "2 word \<Rightarrow> bool \<Rightarrow> 13 word \<Rightarrow> u16" where
  "make_selector pl ti ix = ucast pl OR push_bit 2 (of_bool ti) OR push_bit 3 (ucast ix)"

text \<open>The packed layout of an access byte and of a descriptor.\<close>

definition gdt_access_raw :: "gdt_access \<Rightarrow> u8" where
  "gdt_access_raw a = of_bool (ga_access a) OR push_bit 1 (of_bool (ga_read_write a)) OR
     push_bit 2 (of_bool (ga_direction_conforming a)) OR push_bit 3 (of_bool (ga_executable a)) OR
     push_bit 4 (of_bool (ga_descriptor_type a)) OR
     push_bit 5 (ucast (ga_descriptor_privilege_level a)) OR push_bit 7 (of_bool (ga_present a))"

definition gdt_access_of_raw :: "u8 \<Rightarrow> gdt_access" where
  "gdt_access_of_raw b = \<lparr>ga_access = bit b 0, ga_read_write = bit b 1,
     ga_direction_conforming = bit b 2, ga_executable = bit b 3, ga_descriptor_type = bit b 4,
     ga_descriptor_privilege_level = ucast (drop_bit 5 b), ga_present = bit b 7\<rparr>"

definition gdt_entry_raw :: "gdt_entry \<Rightarrow> u64" where
  "gdt_entry_raw e = ucast (ge_limit_low e) OR push_bit 16 (ucast (ge_base_low e)) OR
     push_bit 32 (ucast (ge_base_mid e)) OR push_bit 40 (ucast (gdt_access_raw (ge_access e))) OR
     push_bit 48 (ucast (ge_limit_high e)) OR push_bit 52 (of_bool (ge_reserved e)) OR
     push_bit 53 (of_bool (ge_long_mode e)) OR push_bit 54 (of_bool (ge_size_flag e)) OR
     push_bit 55 (of_bool (ge_granularity e)) OR push_bit 56 (ucast (ge_base_high e))"

definition gdt_entry_of_raw :: "u64 \<Rightarrow> gdt_entry" where
  "gdt_entry_of_raw v = \<lparr>ge_limit_low = ucast v, ge_base_low = ucast (drop_bit 16 v),
     ge_base_mid = ucast (drop_bit 32 v), ge_access = gdt_access_of_raw (ucast (drop_bit 40 v)),
     ge_limit_high = ucast (drop_bit 48 v), ge_reserved = bit v 52, ge_long_mode = bit v 53,
     ge_size_flag = bit v 54, ge_granularity = bit v 55, ge_base_high = ucast (drop_bit 56 v)\<rparr>"

section \<open>kernel/gdt/gdt.c\<close>

record gdt_state =
  g_gdt_entries :: "gdt_entry list"
  g_gdt_descriptor :: gdt_desc
  g_tss :: tss_entry
  cpu_gdtr :: gdt_desc
  cpu_cs :: u16
  cpu_ds :: u16
  cpu_ss :: u16
  cpu_es :: u16
  cpu_fs :: u16
  cpu_gs :: u16
  cpu_tr :: u16

abbreviation (input) "KERNEL_STACK_SIZE \<equiv> (4096 :: u64)"
abbreviation (input) "GDT_ENTRIES \<equiv> (6 :: nat)"
abbreviation (input) "GDT_NULL_SEGMENT \<equiv> (0 :: nat)"
abbreviation (input) "GDT_RING0_CODE_SEGMENT \<equiv> (1 :: nat)"
abbreviation (input) "GDT_RING0_DATA_SEGMENT \<equiv> (2 :: nat)"
abbreviation (input) "GDT_RING3_DATA_SEGMENT \<equiv> (3 :: nat)"
abbreviation (input) "GDT_RING3_CODE_SEGMENT \<equiv> (4 :: nat)"
abbreviation (input) "GDT_TSS_SEGMENT \<equiv> (5 :: nat)"

text \<open>sizeof of the packed structures.\<close>

abbreviation (input) "SIZEOF_gdt_entry \<equiv> (8 :: nat)"
abbreviation (input) "SIZEOF_tss_entry \<equiv> (104 :: u64)"

definition setup_gdt_entry :: "gdt_entry \<Rightarrow> bool \<Rightarrow> bool \<Rightarrow> gdt_entry" where
  "setup_gdt_entry gdt_entry is_code_segment is_ring3 = gdt_entry
     \<lparr>ge_limit_low := 0xFFFF, ge_limit_high := 0xF, ge_base_low := 0, ge_base_mid := 0,
      ge_base_high := 0,
      ge_access := \<lparr>ga_access = False, ga_read_write = True, ga_direction_conforming = False,
        ga_executable = is_code_segment, ga_descriptor_type = True,
        ga_descriptor_privilege_level = (if is_ring3 then 3 else 0), ga_present = True\<rparr>,
      ge_reserved := False, ge_long_mode := is_code_segment, ge_size_flag := \<not> is_code_segment,
      ge_granularity := True\<rparr>"

definition GET_TSS_LOW_BIT_MASK :: "u64 \<Rightarrow> u16" where
  "GET_TSS_LOW_BIT_MASK tss_entry = ucast (tss_entry AND 0xFFFF)"

definition GET_TSS_MID_BIT_MASK :: "u64 \<Rightarrow> u8" where
  "GET_TSS_MID_BIT_MASK tss_entry = ucast (drop_bit 16 tss_entry AND 0xFF)"

definition GET_TSS_HIGH_BIT_MASK :: "u64 \<Rightarrow> u8" where
  "GET_TSS_HIGH_BIT_MASK tss_entry = ucast (drop_bit 24 tss_entry AND 0xFF)"

definition GET_TOP32_BIT_MASK :: "u64 \<Rightarrow> u64" where
  "GET_TOP32_BIT_MASK tss_entry = drop_bit 32 tss_entry"

definition zero_tss :: tss_entry where
  "zero_tss = \<lparr>tss_reserved0 = 0, tss_rsp0 = 0, tss_rsp1 = 0, tss_rsp2 = 0, tss_reserved1 = 0,
     tss_interrupt_stack_table = replicate 7 0, tss_reserved2 = 0, tss_reserved3 = 0,
     tss_iopb_offset = 0\<rparr>"

text \<open>The low half of the TSS descriptor.\<close>

definition tss_gdt_entry :: "gdt_entry \<Rightarrow> u64 \<Rightarrow> gdt_entry" where
  "tss_gdt_entry gdt_entry tss_entry = gdt_entry
     \<lparr>ge_limit_low := ucast (SIZEOF_tss_entry AND 0xFFFF) - 1,
      ge_limit_high := ucast (drop_bit 16 SIZEOF_tss_entry),
      ge_base_low := GET_TSS_LOW_BIT_MASK tss_entry,
      ge_base_mid := GET_TSS_MID_BIT_MASK tss_entry,
      ge_base_high := GET_TSS_HIGH_BIT_MASK tss_entry,
      ge_access := \<lparr>ga_access = True, ga_read_write = False, ga_direction_conforming = False,
        ga_executable = True, ga_descriptor_type = False,
        ga_descriptor_privilege_level = 0, ga_present = True\<rparr>,
      ge_reserved := False, ge_long_mode := False, ge_size_flag := False, ge_granularity := False\<rparr>"

definition setup_tss_gdt_entry :: "nat \<Rightarrow> u64 \<Rightarrow> u64 \<Rightarrow> 'a gdt_state_scheme \<Rightarrow> 'a gdt_state_scheme kres" where
  "setup_tss_gdt_entry i tss_entry ring0_stack s =
     (let s = s\<lparr>g_tss := zero_tss
        \<lparr>tss_rsp0 := ring0_stack + KERNEL_STACK_SIZE, tss_iopb_offset := ucast SIZEOF_tss_entry\<rparr>\<rparr>
      in kbind (arr_set (g_gdt_entries s) (i + 1) (gdt_entry_of_raw (GET_TOP32_BIT_MASK tss_entry)))
           (\<lambda>entries.
         kbind (arr_get entries i) (\<lambda>gdt_entry.
         kbind (arr_set entries i (tss_gdt_entry gdt_entry tss_entry)) (\<lambda>entries.
         Inr (s\<lparr>g_gdt_entries := entries\<rparr>)))))"

definition gdt_reload_segments :: "u16 \<Rightarrow> u16 \<Rightarrow> 'a gdt_state_scheme \<Rightarrow> 'a gdt_state_scheme" where
  "gdt_reload_segments code_sel data_sel s =
     (let s = s\<lparr>cpu_ds := data_sel, cpu_ss := data_sel, cpu_es := data_sel\<rparr>;
          s = s\<lparr>cpu_fs := 0, cpu_gs := 0\<rparr>
      in s\<lparr>cpu_cs := code_sel\<rparr>)"

definition set_segment :: "nat \<Rightarrow> bool \<Rightarrow> bool \<Rightarrow> 'a gdt_state_scheme \<Rightarrow> 'a gdt_state_scheme kres" where
  "set_segment i is_code_segment is_ring3 s =
     kbind (arr_get (g_gdt_entries s) i) (\<lambda>e.
     kbind (arr_set (g_gdt_entries s) i (setup_gdt_entry e is_code_segment is_ring3)) (\<lambda>entries.
     Inr (s\<lparr>g_gdt_entries := entries\<rparr>)))"

definition init_gdt :: "u64 \<Rightarrow> u64 \<Rightarrow> u64 \<Rightarrow> 'a gdt_state_scheme \<Rightarrow> 'a gdt_state_scheme kres" where
  "init_gdt gdt_addr tss_addr ring0_stack s =
     kbind (arr_set (g_gdt_entries s) GDT_NULL_SEGMENT (gdt_entry_of_raw 0)) (\<lambda>entries.
     kbind (set_segment GDT_RING0_CODE_SEGMENT True False (s\<lparr>g_gdt_entries := entries\<rparr>)) (\<lambda>s.
     kbind (set_segment GDT_RING0_DATA_SEGMENT False False s) (\<lambda>s.
     kbind (set_segment GDT_RING3_DATA_SEGMENT False True s) (\<lambda>s.
     kbind (set_segment GDT_RING3_CODE_SEGMENT True True s) (\<lambda>s.
     kbind (setup_tss_gdt_entry GDT_TSS_SEGMENT tss_addr ring0_stack s) (\<lambda>s.
     let s = s\<lparr>g_gdt_descriptor := \<lparr>gd_limit = word_of_nat ((GDT_ENTRIES + 1) * SIZEOF_gdt_entry - 1),
                 gd_base = gdt_addr\<rparr>\<rparr>;
         s = s\<lparr>cpu_gdtr := g_gdt_descriptor s\<rparr>;
         code_sel = push_bit 3 (word_of_nat GDT_RING0_CODE_SEGMENT);
         data_sel = push_bit 3 (word_of_nat GDT_RING0_DATA_SEGMENT);
         s = gdt_reload_segments code_sel data_sel s
     in Inr (s\<lparr>cpu_tr := push_bit 3 (word_of_nat GDT_TSS_SEGMENT)\<rparr>)))))))"

fun gdt_get_segment_index :: "gdt_segments \<Rightarrow> u16" where
  "gdt_get_segment_index GS_RING0_CODE_SEGMENT = word_of_nat GDT_RING0_CODE_SEGMENT"
| "gdt_get_segment_index GS_RING0_DATA_SEGMENT = word_of_nat GDT_RING0_DATA_SEGMENT"
| "gdt_get_segment_index GS_RING3_CODE_SEGMENT = word_of_nat GDT_RING3_CODE_SEGMENT"
| "gdt_get_segment_index GS_RING3_DATA_SEGMENT = word_of_nat GDT_RING3_DATA_SEGMENT"

definition gdt_is_segment_ring0 :: "u16 \<Rightarrow> bool" where
  "gdt_is_segment_ring0 selector \<longleftrightarrow> selector_privilege_level selector = 0"

section \<open>kernel/interrupts/idt\_defs.c\<close>

datatype interrupt_type = INTTYP_INTERRUPT_GATE | INTTYP_TRAP_GATE | INTTYP_TASK_GATE

fun interrupt_type_code :: "interrupt_type \<Rightarrow> 4 word" where
  "interrupt_type_code INTTYP_INTERRUPT_GATE = 0xE"
| "interrupt_type_code INTTYP_TRAP_GATE = 0xF"
| "interrupt_type_code INTTYP_TASK_GATE = 0x5"

record idt_selector =
  is_privilege_level :: "2 word"
  is_table_indicator :: bool
  is_index :: "13 word"

record idt_types_attributes =
  ita_interrupt_type :: "4 word"
  ita_zero_bit :: bool
  ita_cpu_privilege_level :: "2 word"
  ita_present_bit :: bool

record idt_entry =
  ie_offset_low :: u16
  ie_selector :: idt_selector
  ie_interrupt_stack_table :: u8
  ie_types_attr :: idt_types_attributes
  ie_offset_mid :: u16
  ie_offset_high :: u32
  ie_extra_bits :: u32

record idt_register =
  ir_size :: u16
  ir_idt_address :: u64

definition SET_OFFSET_LOW_BIT_MASK :: "u64 \<Rightarrow> u16" where
  "SET_OFFSET_LOW_BIT_MASK offset = ucast (offset AND 0x000000000000FFFF)"

definition SET_OFFSET_MID_BIT_MASK :: "u64 \<Rightarrow> u16" where
  "SET_OFFSET_MID_BIT_MASK offset = ucast (drop_bit 16 (offset AND 0x00000000FFFF0000))"

definition SET_OFFSET_HIGH_BIT_MASK :: "u64 \<Rightarrow> u32" where
  "SET_OFFSET_HIGH_BIT_MASK offset = ucast (drop_bit 32 (offset AND 0xFFFFFFFF00000000))"

definition set_offset :: "idt_entry \<Rightarrow> u64 \<Rightarrow> idt_entry" where
  "set_offset descriptor offset = descriptor
     \<lparr>ie_offset_low := SET_OFFSET_LOW_BIT_MASK offset,
      ie_offset_mid := SET_OFFSET_MID_BIT_MASK offset,
      ie_offset_high := SET_OFFSET_HIGH_BIT_MASK offset\<rparr>"

definition get_offset :: "idt_entry \<Rightarrow> u64" where
  "get_offset descriptor =
     (let offset = 0;
          offset = offset OR ucast (ie_offset_low descriptor);
          offset = offset OR push_bit 16 (ucast (ie_offset_mid descriptor));
          offset = offset OR push_bit 32 (ucast (ie_offset_high descriptor))
      in offset)"

definition set_selector :: "idt_selector \<Rightarrow> idt_selector" where
  "set_selector sel = sel\<lparr>is_table_indicator := False, is_privilege_level := 0,
     is_index := ucast (gdt_get_segment_index GS_RING0_CODE_SEGMENT)\<rparr>"

definition create_interrupt_desc ::
  "idt_entry \<Rightarrow> u64 \<Rightarrow> interrupt_type \<Rightarrow> u8 \<Rightarrow> u8 \<Rightarrow> idt_entry kres" where
  "create_interrupt_desc entry isr_addr type interrupt_stack_table ring_access_to_interrupt =
     kassert (interrupt_stack_table < 7) ''interrupt stack table index is out of bounds''
     (let entry = set_offset entry isr_addr;
          entry = entry\<lparr>ie_selector := set_selector (ie_selector entry)\<rparr>;
          entry = entry\<lparr>ie_interrupt_stack_table := interrupt_stack_table, ie_extra_bits := 0\<rparr>
      in Inr (entry\<lparr>ie_types_attr := (ie_types_attr entry)
           \<lparr>ita_cpu_privilege_level := ucast ring_access_to_interrupt, ita_present_bit := True,
            ita_interrupt_type := interrupt_type_code type, ita_zero_bit := False\<rparr>\<rparr>))"

section \<open>kernel/interrupts/idt.c\<close>

record idt_state = gdt_state +
  g_interrupt_table :: "idt_entry list"
  g_idt_register :: idt_register
  cpu_idtr :: idt_register
  cpu_interrupts_enabled :: bool

abbreviation (input) "MAX_IDT_ENTRIES_COUNT \<equiv> (256 :: nat)"
abbreviation (input) "SIZEOF_idt_entry \<equiv> (16 :: nat)"
abbreviation (input) "CPU_EXCEPTION_INTERRUPT_COUNT \<equiv> 32"
abbreviation (input) "HARDWARE_INTERRUPT_COUNT \<equiv> 224"

definition load_idt_register :: "'a idt_state_scheme \<Rightarrow> 'a idt_state_scheme" where
  "load_idt_register s = s\<lparr>cpu_idtr := g_idt_register s\<rparr>"

definition load_new_interrupt ::
  "u8 \<Rightarrow> idt_entry \<Rightarrow> 'a idt_state_scheme \<Rightarrow> (u64 \<times> 'a idt_state_scheme) kres" where
  "load_new_interrupt index desc s =
     kassert (unat index < MAX_IDT_ENTRIES_COUNT) ''Interrupt index out of bounds''
     (kbind (arr_set (g_interrupt_table s) (unat index) desc) (\<lambda>table.
      Inr (ucast index, s\<lparr>g_interrupt_table := table\<rparr>)))"

text \<open>
  The argument \<open>entry\<close> is the initial contents of the local variable of that name, which the code
  leaves uninitialised; the stub tables are the arrays of isr addresses of the assembly files.
\<close>

definition init_cpu_exceptions ::
  "idt_entry \<Rightarrow> u64 \<Rightarrow> u64 list \<Rightarrow> 'a idt_state_scheme \<Rightarrow> 'a idt_state_scheme kres" where
  "init_cpu_exceptions entry table_addr isr_stub_table s =
     (let s = s\<lparr>cpu_interrupts_enabled := False\<rparr>;
          s = s\<lparr>g_idt_register := \<lparr>ir_size = word_of_nat (MAX_IDT_ENTRIES_COUNT * SIZEOF_idt_entry - 1),
                ir_idt_address = table_addr\<rparr>\<rparr>
      in kbind (for_loop (0::u8) CPU_EXCEPTION_INTERRUPT_COUNT (\<lambda>i (entry, s).
           kbind (arr_get isr_stub_table (unat i)) (\<lambda>isr.
           kbind (create_interrupt_desc entry isr INTTYP_INTERRUPT_GATE 0 0) (\<lambda>entry.
           kbind (load_new_interrupt i entry s) (\<lambda>(_, s). Inr (entry, s))))) (entry, s)) (\<lambda>(_, s).
         Inr (load_idt_register s)))"

definition init_hardware_interrupts ::
  "idt_entry \<Rightarrow> u64 list \<Rightarrow> 'a idt_state_scheme \<Rightarrow> 'a idt_state_scheme kres" where
  "init_hardware_interrupts entry isr_hardware_interrupt_stub_table s =
     kbind (for_loop (0::u32) HARDWARE_INTERRUPT_COUNT (\<lambda>i (entry, s).
       kbind (arr_get isr_hardware_interrupt_stub_table (unat i)) (\<lambda>isr_address.
       kbind (create_interrupt_desc entry isr_address INTTYP_INTERRUPT_GATE 0 0) (\<lambda>entry.
       kbind (load_new_interrupt (ucast (i + CPU_EXCEPTION_INTERRUPT_COUNT)) entry s) (\<lambda>(_, s).
       Inr (entry, s))))) (entry, s)) (\<lambda>(_, s). Inr s)"

text \<open>A machine with cleared tables, as at boot.\<close>

definition idt_demo :: idt_state where
  "idt_demo = \<lparr>g_gdt_entries = replicate 7 (gdt_entry_of_raw 0),
     g_gdt_descriptor = \<lparr>gd_limit = 0, gd_base = 0\<rparr>, g_tss = zero_tss,
     cpu_gdtr = \<lparr>gd_limit = 0, gd_base = 0\<rparr>, cpu_cs = 0, cpu_ds = 0, cpu_ss = 0, cpu_es = 0,
     cpu_fs = 0, cpu_gs = 0, cpu_tr = 0,
     g_interrupt_table = replicate 256 \<lparr>ie_offset_low = 0,
       ie_selector = \<lparr>is_privilege_level = 0, is_table_indicator = False, is_index = 0\<rparr>,
       ie_interrupt_stack_table = 0,
       ie_types_attr = \<lparr>ita_interrupt_type = 0, ita_zero_bit = False, ita_cpu_privilege_level = 0,
         ita_present_bit = False\<rparr>,
       ie_offset_mid = 0, ie_offset_high = 0, ie_extra_bits = 0\<rparr>,
     g_idt_register = \<lparr>ir_size = 0, ir_idt_address = 0\<rparr>,
     cpu_idtr = \<lparr>ir_size = 0, ir_idt_address = 0\<rparr>, cpu_interrupts_enabled = True\<rparr>"

section \<open>Masks as truncations\<close>

lemma and_high_mask:
  "drop_bit 16 ((x::u64) AND 0xFFFF0000) = take_bit 16 (drop_bit 16 x)"
  "drop_bit 32 ((x::u64) AND 0xFFFFFFFF00000000) = take_bit 32 (drop_bit 32 x)"
  by (simp_all add: drop_bit_and and_low_mask)

section \<open>The segment table\<close>

lemma length_cases7:
  assumes "length xs = 7"
  obtains a b c d e f g where "xs = [a, b, c, d, e, f, g]"
  using assms by (auto simp: numeral_eq_Suc length_Suc_conv)

lemma gdt_access_raw_of_raw [simp]: "gdt_access_raw (gdt_access_of_raw b) = b"
proof (rule bit_word_eqI)
  fix n assume "n < LENGTH(8)"
  then consider "n = 0" | "n = 1" | "n = 2" | "n = 3" | "n = 4" | "n = 5" | "n = 6" | "n = 7"
    by (auto simp: numeral_eq_Suc less_Suc_eq)
  then show "bit (gdt_access_raw (gdt_access_of_raw b)) n = bit b n"
    by cases (simp_all add: gdt_access_raw_def gdt_access_of_raw_def bit_simps)
qed

lemma gdt_entry_raw_of_raw [simp]: "gdt_entry_raw (gdt_entry_of_raw v) = v"
proof (rule bit_word_eqI)
  fix n assume "n < LENGTH(64)"
  then consider "n < 16" | "16 \<le> n" "n < 32" | "32 \<le> n" "n < 40" | "40 \<le> n" "n < 48"
    | "48 \<le> n" "n < 52" | "n = 52" | "n = 53" | "n = 54" | "n = 55" | "56 \<le> n" "n < 64"
    by fastforce
  then show "bit (gdt_entry_raw (gdt_entry_of_raw v)) n = bit v n"
    by cases (simp_all add: gdt_entry_raw_def gdt_entry_of_raw_def bit_simps less_diff_conv2)
qed

text \<open>How the processor reads the base and the limit of a descriptor, and of a 16-byte system one.\<close>

definition descriptor_base :: "u64 \<Rightarrow> u64" where
  "descriptor_base d = (drop_bit 16 d AND 0xFFFFFF) OR push_bit 24 (drop_bit 56 d)"

definition descriptor_limit :: "u64 \<Rightarrow> u64" where
  "descriptor_limit d = (d AND 0xFFFF) OR push_bit 16 (drop_bit 48 d AND 0xF)"

definition system_descriptor_base :: "u64 \<Rightarrow> u64 \<Rightarrow> u64" where
  "system_descriptor_base d hi = descriptor_base d OR push_bit 32 hi"

definition byte_granular_descriptor :: "u16 \<Rightarrow> u8 \<Rightarrow> u64 \<Rightarrow> u64" where
  "byte_granular_descriptor lim acc a = ucast lim OR push_bit 16 (take_bit 24 a) OR
     push_bit 40 (ucast acc) OR push_bit 56 (drop_bit 24 a)"

definition tss_descriptor :: "u64 \<Rightarrow> u64" where
  "tss_descriptor a = byte_granular_descriptor 103 0x89 a"

lemma gdt_segment_raw:
  "gdt_entry_raw (setup_gdt_entry e True False) = 0x00AF9A000000FFFF"
  "gdt_entry_raw (setup_gdt_entry e False False) = 0x00CF92000000FFFF"
  "gdt_entry_raw (setup_gdt_entry e False True) = 0x00CFF2000000FFFF"
  "gdt_entry_raw (setup_gdt_entry e True True) = 0x00AFFA000000FFFF"
  by (simp_all add: setup_gdt_entry_def gdt_entry_raw_def gdt_access_raw_def)

lemma byte_granular_descriptor_fields:
  "system_descriptor_base (byte_granular_descriptor lim acc a) (drop_bit 32 a) = a"
  "descriptor_limit (byte_granular_descriptor lim acc a) = ucast lim"
proof -
  show "system_descriptor_base (byte_granular_descriptor lim acc a) (drop_bit 32 a) = a"
  proof (rule bit_word_eqI)
    fix n assume "n < LENGTH(64)"
    then consider "n < 24" | "24 \<le> n" "n < 32" | "32 \<le> n" "n < 64" by fastforce
    then show "bit (system_descriptor_base (byte_granular_descriptor lim acc a) (drop_bit 32 a)) n = bit a n"
      by cases (simp_all add: system_descriptor_base_def descriptor_base_def
        byte_granular_descriptor_def and_low_mask bit_simps bit_beyond)
  qed
  show "descriptor_limit (byte_granular_descriptor lim acc a) = ucast lim"
  proof (rule bit_word_eqI)
    fix n assume "n < LENGTH(64)"
    then consider "n < 16" | "16 \<le> n" "n < 20" | "20 \<le> n" "n < 64" by fastforce
    then show "bit (descriptor_limit (byte_granular_descriptor lim acc a)) n = bit (ucast lim :: u64) n"
      by cases (simp_all add: descriptor_limit_def byte_granular_descriptor_def
          and_low_mask bit_simps bit_beyond)
  qed
qed

lemma byte_granular_descriptor_split:
  "ucast lim OR push_bit 16 (take_bit 16 a) OR push_bit 32 (take_bit 8 (drop_bit 16 a)) OR
     push_bit 40 (ucast acc) OR push_bit 56 (take_bit 8 (drop_bit 24 a)) =
   byte_granular_descriptor lim acc a"
proof (rule bit_word_eqI)
  fix n assume "n < LENGTH(64)"
  then consider "n < 16" | "16 \<le> n" "n < 32" | "32 \<le> n" "n < 40" | "40 \<le> n" "n < 56"
    | "56 \<le> n" "n < 64" by fastforce
  then show "bit (ucast lim OR push_bit 16 (take_bit 16 a) OR push_bit 32 (take_bit 8 (drop_bit 16 a)) OR
      push_bit 40 (ucast acc) OR push_bit 56 (take_bit 8 (drop_bit 24 a))) n =
      bit (byte_granular_descriptor lim acc a) n"
    by cases (simp_all add: byte_granular_descriptor_def bit_simps less_diff_conv2)
qed

lemma ucast_take_bit:
  "(ucast (ucast (v::u64) :: u16) :: u64) = take_bit 16 v"
  "(ucast (ucast (v::u64) :: u8) :: u64) = take_bit 8 v"
  by (rule bit_word_eqI, auto simp: bit_simps)+

lemma tss_gdt_entry_raw:
  "gdt_entry_raw (tss_gdt_entry e a) = tss_descriptor a"
proof -
  have acc: "gdt_access_raw \<lparr>ga_access = True, ga_read_write = False, ga_direction_conforming = False,
      ga_executable = True, ga_descriptor_type = False, ga_descriptor_privilege_level = 0,
      ga_present = True\<rparr> = 0x89" by (simp add: gdt_access_raw_def)
  show ?thesis
    unfolding tss_descriptor_def byte_granular_descriptor_split[symmetric]
    by (simp add: gdt_entry_raw_def tss_gdt_entry_def acc GET_TSS_LOW_BIT_MASK_def
        GET_TSS_MID_BIT_MASK_def GET_TSS_HIGH_BIT_MASK_def and_low_mask ucast_take_bit)
qed

lemmas tss_descriptor_fields = byte_granular_descriptor_fields[where lim = 103 and acc = "0x89",
    folded tss_descriptor_def, simplified]

text \<open>
  C33: init_gdt fills the table with exactly the descriptors its comments name, whatever it held
  before: a null descriptor, 64-bit code (access 0x9A) and data (0x92) for ring 0, data (0xF2) and
  code (0xFA) for ring 3, and a 16-byte TSS descriptor (0x89) whose base, read back from its four
  fields, is the address of the TSS and whose limit is the size of the TSS less one. The GDT
  register covers the table, the code segment selects the ring-0 code descriptor and the task
  register the TSS descriptor, whose ring-0 stack pointer is the end of the kernel stack.
\<close>

theorem init_gdt_descriptors:
  assumes "length (g_gdt_entries s) = 7"
  shows "\<exists>s'. init_gdt gdt_addr tss_addr ring0_stack s = Inr s' \<and>
    map gdt_entry_raw (g_gdt_entries s') =
      [0, 0x00AF9A000000FFFF, 0x00CF92000000FFFF, 0x00CFF2000000FFFF, 0x00AFFA000000FFFF,
       tss_descriptor tss_addr, drop_bit 32 tss_addr] \<and>
    system_descriptor_base (tss_descriptor tss_addr) (drop_bit 32 tss_addr) = tss_addr \<and>
    descriptor_limit (tss_descriptor tss_addr) = 103 \<and>
    tss_rsp0 (g_tss s') = ring0_stack + 4096 \<and> tss_iopb_offset (g_tss s') = 104 \<and>
    cpu_gdtr s' = \<lparr>gd_limit = 55, gd_base = gdt_addr\<rparr> \<and>
    selector_index (cpu_cs s') = ucast (gdt_get_segment_index GS_RING0_CODE_SEGMENT) \<and>
    gdt_is_segment_ring0 (cpu_cs s') \<and> cpu_ss s' = 0x10 \<and> cpu_tr s' = 0x28"
proof -
  obtain a b c d e f g where es: "g_gdt_entries s = [a, b, c, d, e, f, g]"
    using assms by (rule length_cases7)
  then show ?thesis
    by (simp add: init_gdt_def set_segment_def setup_tss_gdt_entry_def GET_TOP32_BIT_MASK_def
      gdt_segment_raw tss_gdt_entry_raw tss_descriptor_fields gdt_reload_segments_def Let_def
      selector_index_def gdt_is_segment_ring0_def selector_privilege_level_def)
qed

theorem init_gdt_descriptors_witness:
  "\<exists>s'. init_gdt 0x1000 0xFFFFFFFF80012340 0x2000 idt_demo = Inr s' \<and>
    map gdt_entry_raw (g_gdt_entries s') =
      [0, 0x00AF9A000000FFFF, 0x00CF92000000FFFF, 0x00CFF2000000FFFF, 0x00AFFA000000FFFF,
       0x8000890123400067, 0xFFFFFFFF]"
proof -
  have len: "length (g_gdt_entries idt_demo) = 7" by (simp add: idt_demo_def)
  have raw: "tss_descriptor 0xFFFFFFFF80012340 = 0x8000890123400067"
    unfolding tss_descriptor_def byte_granular_descriptor_def
    by (simp add: take_bit_eq_mod drop_bit_eq_div push_bit_eq_mult)
  have top32: "drop_bit 32 (0xFFFFFFFF80012340 :: u64) = 0xFFFFFFFF" by simp
  show ?thesis using init_gdt_descriptors[OF len, of "0x1000" "0xFFFFFFFF80012340" "0x2000"]
    unfolding raw top32 by (elim exE conjE) (intro exI conjI)
qed

section \<open>The interrupt table\<close>

lemma get_set_offset: "get_offset (set_offset descriptor offset) = offset"
proof (rule bit_word_eqI)
  fix n assume "n < LENGTH(64)"
  then consider "n < 16" | "16 \<le> n" "n < 32" | "32 \<le> n" "n < 64" by fastforce
  then show "bit (get_offset (set_offset descriptor offset)) n = bit offset n"
    by cases (auto simp: get_offset_def set_offset_def SET_OFFSET_LOW_BIT_MASK_def
        SET_OFFSET_MID_BIT_MASK_def SET_OFFSET_HIGH_BIT_MASK_def Let_def and_low_mask and_high_mask
        bit_simps)
qed

text \<open>
  The gate of an isr: present, an interrupt gate, entered with the kernel code segment, not
  callable from ring 3, on the stack of the TSS.
\<close>

definition interrupt_gate :: "u64 \<Rightarrow> idt_entry" where
  "interrupt_gate isr = \<lparr>ie_offset_low = SET_OFFSET_LOW_BIT_MASK isr,
     ie_selector = \<lparr>is_privilege_level = 0, is_table_indicator = False, is_index = 1\<rparr>,
     ie_interrupt_stack_table = 0,
     ie_types_attr = \<lparr>ita_interrupt_type = 0xE, ita_zero_bit = False, ita_cpu_privilege_level = 0,
       ita_present_bit = True\<rparr>,
     ie_offset_mid = SET_OFFSET_MID_BIT_MASK isr, ie_offset_high = SET_OFFSET_HIGH_BIT_MASK isr,
     ie_extra_bits = 0\<rparr>"

lemma create_interrupt_desc_gate:
  "create_interrupt_desc entry isr INTTYP_INTERRUPT_GATE 0 0 = Inr (interrupt_gate isr)"
  by (cases entry; cases "ie_selector entry"; cases "ie_types_attr entry")
    (simp add: create_interrupt_desc_def interrupt_gate_def set_offset_def set_selector_def Let_def)

lemma get_offset_gate [simp]: "get_offset (interrupt_gate isr) = isr"
  using get_set_offset[of "interrupt_gate isr" isr]
  by (simp add: set_offset_def interrupt_gate_def get_offset_def)

lemma gate_fields [simp]:
  "ita_present_bit (ie_types_attr (interrupt_gate isr))"
  "ita_interrupt_type (ie_types_attr (interrupt_gate isr)) = 0xE"
  "ita_cpu_privilege_level (ie_types_attr (interrupt_gate isr)) = 0"
  "is_index (ie_selector (interrupt_gate isr)) = 1"
  "ie_interrupt_stack_table (interrupt_gate isr) = 0"
  by (simp_all add: interrupt_gate_def)

lemma list_fill_step:
  assumes "j < length ys" "p + j < length xs"
  shows "(take p xs @ map f (take j ys) @ drop (p + j) xs)[p + j := f (ys ! j)] =
    take p xs @ map f (take (Suc j) ys) @ drop (p + Suc j) xs"
  using assms by (simp add: list_update_append take_Suc_conv_app_nth Cons_nth_drop_Suc[symmetric])

lemma gate_loop:
  assumes body: "\<And>j e t. j < n \<Longrightarrow> length (g_interrupt_table t) = 256 \<Longrightarrow> f j (e, t) =
      Inr (interrupt_gate (stubs ! unat j), t\<lparr>g_interrupt_table :=
        (g_interrupt_table t)[p + unat j := interrupt_gate (stubs ! unat j)]\<rparr>)"
    and len: "unat n = length stubs" "p + length stubs \<le> 256" "length (g_interrupt_table s) = 256"
  shows "\<exists>e. for_loop 0 n f (entry, s) = Inr (e, s\<lparr>g_interrupt_table :=
    take p (g_interrupt_table s) @ map interrupt_gate stubs @ drop (p + length stubs) (g_interrupt_table s)\<rparr>)"
proof -
  let ?t = "g_interrupt_table s"
  let ?P = "\<lambda>k (e :: idt_entry, u). u = s\<lparr>g_interrupt_table :=
    take p ?t @ map interrupt_gate (take k stubs) @ drop (p + k) ?t\<rparr>"
  have "\<exists>r. for_loop 0 n f (entry, s) = Inr r \<and> ?P (unat n) r"
  proof (rule for_loop_total)
    fix j r assume j: "j < n" and P: "?P (unat j) r"
    have "unat j < length stubs" using j len(1) by (simp add: word_less_nat_alt)
    then show "\<exists>r'. f j r = Inr r' \<and> ?P (Suc (unat j)) r'"
      using P len list_fill_step[of "unat j" stubs p ?t interrupt_gate]
      by (cases r) (simp add: body[OF j])
  qed simp_all
  then show ?thesis using len(1) by auto
qed

lemma init_cpu_exceptions_gates:
  assumes "length (g_interrupt_table s) = 256" "length stubs = 32"
  shows "init_cpu_exceptions entry addr stubs s = Inr (s\<lparr>cpu_interrupts_enabled := False,
    g_interrupt_table := map interrupt_gate stubs @ drop 32 (g_interrupt_table s),
    g_idt_register := \<lparr>ir_size = 4095, ir_idt_address = addr\<rparr>,
    cpu_idtr := \<lparr>ir_size = 4095, ir_idt_address = addr\<rparr>\<rparr>)"
proof -
  let ?s = "s\<lparr>cpu_interrupts_enabled := False, g_idt_register := \<lparr>ir_size = 4095, ir_idt_address = addr\<rparr>\<rparr>"
  let ?f = "\<lambda>i (entry, s).
    kbind (arr_get stubs (unat i)) (\<lambda>isr.
    kbind (create_interrupt_desc entry isr INTTYP_INTERRUPT_GATE 0 0) (\<lambda>entry.
    kbind (load_new_interrupt i entry s) (\<lambda>(_, s). Inr (entry, s))))"
  have "\<exists>e. for_loop 0 32 ?f (entry, ?s) = Inr (e, ?s\<lparr>g_interrupt_table := take 0 (g_interrupt_table ?s) @
    map interrupt_gate stubs @ drop (0 + length stubs) (g_interrupt_table ?s)\<rparr>)"
    by (rule gate_loop) (use assms in \<open>simp_all add: create_interrupt_desc_gate
        load_new_interrupt_def word_less_nat_alt unat_u8_less\<close>)
  then show ?thesis using assms(2) by (auto simp: init_cpu_exceptions_def load_idt_register_def)
qed

lemma init_hardware_interrupts_gates:
  assumes "length (g_interrupt_table s) = 256" "length stubs = 224"
  shows "init_hardware_interrupts entry stubs s = Inr (s\<lparr>
    g_interrupt_table := take 32 (g_interrupt_table s) @ map interrupt_gate stubs\<rparr>)"
proof -
  let ?f = "\<lambda>i (entry, s).
    kbind (arr_get stubs (unat i)) (\<lambda>isr_address.
    kbind (create_interrupt_desc entry isr_address INTTYP_INTERRUPT_GATE 0 0) (\<lambda>entry.
    kbind (load_new_interrupt (ucast (i + 32)) entry s) (\<lambda>(_, s). Inr (entry, s))))"
  have ix: "unat (ucast ((j::u32) + 32) :: u8) = 32 + unat j" if "j < 224" for j
  proof -
    have "unat (j + 32) = unat j + 32" using that unat_add_if_fits[of j 32]
      by (simp add: word_less_nat_alt)
    then show ?thesis using that by (simp add: unsigned_ucast_eq word_less_nat_alt take_bit_nat_eq_self)
  qed
  have "\<exists>e. for_loop (0::u32) 224 ?f (entry, s) = Inr (e, s\<lparr>g_interrupt_table := take 32 (g_interrupt_table s) @
    map interrupt_gate stubs @ drop (32 + length stubs) (g_interrupt_table s)\<rparr>)"
    by (rule gate_loop) (use assms in \<open>simp_all add: create_interrupt_desc_gate ix
        load_new_interrupt_def word_less_nat_alt unat_u8_less\<close>)
  then show ?thesis using assms by (auto simp: init_hardware_interrupts_def)
qed



end
