(* ===== verification/Acpi.thy ===== *)
theory Acpi
  imports Vmm C_Strings
begin

text \<open>
  The ACPI tables: kernel/acpi/acpi.c (the root table and the search for a table by signature) and
  kernel/interrupts/hardware\_intrrupts/madt.c (the interrupt controller addresses and the legacy
  interrupt overrides of the MADT). The tables are read from the byte memory at the offsets of the
  packed C structures. The walk over the MADT records does not end when a record has length 0, so
  it is a partial function.
\<close>

section \<open>kernel/acpi/acpi.c\<close>

record acpi_state = vmm_state +
  g_acpi_init :: bool
  g_rsdt :: u64
  g_is_xsdt :: bool

datatype acpi_table_type = ATT_ACPI_TABLE_MADT

text \<open>Offsets and sizes of struct rsdp, struct xsdp and struct acpi\_std\_header.\<close>

abbreviation (input) "SIZEOF_rsdp \<equiv> (20 :: u64)"
abbreviation (input) "SIZEOF_xsdp \<equiv> (36 :: u64)"
abbreviation (input) "SIZEOF_acpi_std_header \<equiv> (36 :: u64)"

definition rsdp_revision :: "mem \<Rightarrow> u64 \<Rightarrow> u8" where "rsdp_revision m p = m (p + 15)"
definition rsdp_rsdt_address :: "mem \<Rightarrow> u64 \<Rightarrow> u32" where "rsdp_rsdt_address m p = read32 m (p + 16)"
definition xsdp_xsdt_address :: "mem \<Rightarrow> u64 \<Rightarrow> u64" where "xsdp_xsdt_address m p = read64 m (p + 24)"
definition ash_signature :: "mem \<Rightarrow> u64 \<Rightarrow> u8 list" where "ash_signature m p = mem_bytes m p 4"
definition ash_length :: "mem \<Rightarrow> u64 \<Rightarrow> u32" where "ash_length m p = read32 m (p + 4)"

text \<open>The loop of the three checksum routines.\<close>

definition checksum_loop :: "mem \<Rightarrow> u64 \<Rightarrow> u64 \<Rightarrow> u32 kres" where
  "checksum_loop m ptr n = for_loop 0 n (\<lambda>i count. Inr (count + ucast (m (ptr + i)))) 0"

definition verify_rsdp_checksum :: "mem \<Rightarrow> u64 \<Rightarrow> unit kres" where
  "verify_rsdp_checksum m rsdp = kbind (checksum_loop m rsdp SIZEOF_rsdp) (\<lambda>count.
     kassert (count AND 0xFF = 0) ''RSDP checksum is invalid'' (Inr ()))"

definition verify_xsdp_checksum :: "mem \<Rightarrow> u64 \<Rightarrow> unit kres" where
  "verify_xsdp_checksum m xsdp = kbind (checksum_loop m xsdp SIZEOF_xsdp) (\<lambda>count.
     kassert (count AND 0xFF = 0) ''XSDP checksum is invalid'' (Inr ()))"

definition verify_acpi_std_header_checksum :: "mem \<Rightarrow> u64 \<Rightarrow> unit kres" where
  "verify_acpi_std_header_checksum m std_header =
     kbind (checksum_loop m std_header (ucast (ash_length m std_header))) (\<lambda>count.
     kassert (count AND 0xFF = 0) ''ACPI SDT header checksum is invalid'' (Inr ()))"

text \<open>The response of the boot loader is None for a NULL pointer, else the address it holds.\<close>

definition init_acpi :: "u64 option \<Rightarrow> 'a acpi_state_scheme \<Rightarrow> 'a acpi_state_scheme kres" where
  "init_acpi rsdp_response s =
     (if g_acpi_init s then Inr s
      else
        let s = s\<lparr>g_acpi_init := True\<rparr>
        in case rsdp_response of
             None \<Rightarrow> Inl (Kernel_panic ''RSDP response is NULL bootloader did not provide it'')
           | Some address \<Rightarrow>
               kassert (address \<noteq> 0) ''RSDP address is 0 bootloader did not provide it''
               (let rsdp = address
                in kbind (verify_rsdp_checksum (kmem s) rsdp) (\<lambda>_.
                   if rsdp_revision (kmem s) rsdp \<ge> 2
                   then kbind (verify_xsdp_checksum (kmem s) rsdp) (\<lambda>_.
                        Inr (s\<lparr>g_rsdt := vmm_phys_to_virt_hhdm s (xsdp_xsdt_address (kmem s) rsdp),
                               g_is_xsdt := True\<rparr>))
                   else Inr (s\<lparr>g_rsdt := vmm_phys_to_virt_hhdm s
                               (ucast (rsdp_rsdt_address (kmem s) rsdp))\<rparr>))))"

fun att_signature :: "acpi_table_type \<Rightarrow> u8 list" where
  "att_signature ATT_ACPI_TABLE_MADT = [0x41, 0x50, 0x49, 0x43]"

text \<open>The i-th table the root table points to.\<close>

definition acpi_table_at :: "'a acpi_state_scheme \<Rightarrow> u64 \<Rightarrow> u64" where
  "acpi_table_at s i =
     (if g_is_xsdt s
      then vmm_phys_to_virt_hhdm s (read64 (kmem s) (g_rsdt s + SIZEOF_acpi_std_header + 8 * i))
      else vmm_phys_to_virt_hhdm s
             (ucast (read32 (kmem s) (g_rsdt s + SIZEOF_acpi_std_header + 4 * i))))"

definition acpi_entry_count :: "'a acpi_state_scheme \<Rightarrow> u64" where
  "acpi_entry_count s =
     (let rsdt_entries_count = (ucast (ash_length (kmem s) (g_rsdt s)) - SIZEOF_acpi_std_header) div 4;
          xsdt_entries_count = (ucast (ash_length (kmem s) (g_rsdt s)) - SIZEOF_acpi_std_header) div 8
      in if g_is_xsdt s then xsdt_entries_count else rsdt_entries_count)"

function acpi_find :: "u8 list \<Rightarrow> u64 \<Rightarrow> 'a acpi_state_scheme \<Rightarrow> u64 kres" where
  "acpi_find signature i s =
     (if i < acpi_entry_count s
      then let acpi_header = acpi_table_at s i
           in kbind (strncmp signature (ash_signature (kmem s) acpi_header) 4) (\<lambda>c.
              if c \<noteq> 0 then acpi_find signature (i + 1) s
              else kbind (verify_acpi_std_header_checksum (kmem s) acpi_header) (\<lambda>_.
                   Inr acpi_header))
      else Inr 0)"
  by pat_completeness auto
termination
  by (relation "measure (\<lambda>(sig, i, s). unat (acpi_entry_count s) - unat i)")
    (auto simp: unat_Suc_less word_less_nat_alt)

declare acpi_find.simps [simp del]

definition acpi_get_std_header :: "acpi_table_type \<Rightarrow> 'a acpi_state_scheme \<Rightarrow> u64 kres" where
  "acpi_get_std_header type s = acpi_find (att_signature type) 0 s"

section \<open>kernel/interrupts/hardware\_intrrupts/madt.c\<close>

record madt_state = acpi_state +
  g_is_initialized :: bool
  g_madt_header :: u64
  g_io_apic_addr :: u64
  g_lapic_addr :: u64
  g_legacy_interrupt_source_override :: "u64 list"

abbreviation (input) "LIRQ_COUNT \<equiv> 16"

text \<open>Offsets in struct madt\_table and in its records.\<close>

definition madt_lapic_addr :: "mem \<Rightarrow> u64 \<Rightarrow> u32" where "madt_lapic_addr m p = read32 m (p + 36)"
definition madt_entries :: "u64 \<Rightarrow> u64" where "madt_entries p = p + 44"
definition meh_entry_type :: "mem \<Rightarrow> u64 \<Rightarrow> u8" where "meh_entry_type m p = m p"
definition meh_record_len :: "mem \<Rightarrow> u64 \<Rightarrow> u8" where "meh_record_len m p = m (p + 1)"
definition ae1_io_apic_addr :: "mem \<Rightarrow> u64 \<Rightarrow> u32" where "ae1_io_apic_addr m p = read32 m (p + 4)"
definition ae2_bus_source :: "mem \<Rightarrow> u64 \<Rightarrow> u8" where "ae2_bus_source m p = m (p + 2)"
definition ae2_irq_source :: "mem \<Rightarrow> u64 \<Rightarrow> u8" where "ae2_irq_source m p = m (p + 3)"
definition ae2_gsi :: "mem \<Rightarrow> u64 \<Rightarrow> u32" where "ae2_gsi m p = read32 m (p + 4)"

abbreviation (input) "APIC_ENTRY_TYPE_IO_APIC \<equiv> (1 :: u8)"
abbreviation (input) "APIC_ENTRY_TYPE_INTERRUPT_SOURCE_OVERRIDE \<equiv> (2 :: u8)"

text \<open>The switch in the loop of init\_madt.\<close>

definition madt_record :: "u64 \<Rightarrow> 'a madt_state_scheme \<Rightarrow> 'a madt_state_scheme kres" where
  "madt_record current s =
     (if meh_entry_type (kmem s) current = APIC_ENTRY_TYPE_IO_APIC
      then Inr (s\<lparr>g_io_apic_addr := ucast (ae1_io_apic_addr (kmem s) current)\<rparr>)
      else if meh_entry_type (kmem s) current = APIC_ENTRY_TYPE_INTERRUPT_SOURCE_OVERRIDE
      then if ae2_bus_source (kmem s) current = 0 \<and> ae2_irq_source (kmem s) current < LIRQ_COUNT
           then kbind (arr_set (g_legacy_interrupt_source_override s)
                  (unat (ae2_irq_source (kmem s) current)) (ucast (ae2_gsi (kmem s) current))) (\<lambda>ovr.
                Inr (s\<lparr>g_legacy_interrupt_source_override := ovr\<rparr>))
           else Inr s
      else Inr s)"

partial_function (option) madt_walk ::
  "u64 \<Rightarrow> u64 \<Rightarrow> 'a madt_state_scheme \<Rightarrow> 'a madt_state_scheme kres option" where
  "madt_walk table_end current s =
     (if current < table_end
      then case madt_record current s of
             Inl e \<Rightarrow> Some (Inl e)
           | Inr s \<Rightarrow> madt_walk table_end (current + ucast (meh_record_len (kmem s) current)) s
      else Some (Inr s))"

definition init_madt :: "'a madt_state_scheme \<Rightarrow> 'a madt_state_scheme kres" where
  "init_madt s =
     (if g_is_initialized s then Inr s
      else
        let s = s\<lparr>g_is_initialized := True\<rparr>
        in kbind (acpi_get_std_header ATT_ACPI_TABLE_MADT s) (\<lambda>header.
           let s = s\<lparr>g_madt_header := header\<rparr>
           in kassert (g_madt_header s \<noteq> 0) ''There is no madt provided by the firmware.''
              (let s = s\<lparr>g_lapic_addr := ucast (madt_lapic_addr (kmem s) (g_madt_header s))\<rparr>
               in kbind (for_loop (0 :: u32) LIRQ_COUNT (\<lambda>i ovr. arr_set ovr (unat i) (-1))
                       (g_legacy_interrupt_source_override s)) (\<lambda>ovr.
                  let s = s\<lparr>g_legacy_interrupt_source_override := ovr\<rparr>;
                      table_end = g_madt_header s + ucast (ash_length (kmem s) (g_madt_header s))
                  in case madt_walk table_end (madt_entries (g_madt_header s)) s of
                       None \<Rightarrow> Inl Hang
                     | Some r \<Rightarrow> r))))"

definition madt_get_io_apic_base_addr :: "'a madt_state_scheme \<Rightarrow> u64 kres" where
  "madt_get_io_apic_base_addr s =
     kassert (g_is_initialized s) ''madt must be initialized before getting ioapic base addr''
     (Inr (g_io_apic_addr s))"

definition madt_get_lapic_base_addr :: "'a madt_state_scheme \<Rightarrow> u64 kres" where
  "madt_get_lapic_base_addr s =
     kassert (g_is_initialized s) ''madt must be initialized before getting lapic base addr''
     (Inr (g_lapic_addr s))"

definition madt_get_gsi_for_irq :: "u64 \<Rightarrow> 'a madt_state_scheme \<Rightarrow> u64 kres" where
  "madt_get_gsi_for_irq irq s =
     kassert (irq < LIRQ_COUNT) ''Invalid source for interrupt source override lookup''
     (kassert (g_is_initialized s) ''madt must be initialized before accessing source overrides''
     (kbind (arr_get (g_legacy_interrupt_source_override s) (unat irq)) (\<lambda>v.
      if v = -1 then Inr irq else Inr v)))"

section \<open>Checksums and the search for a table\<close>

definition byte_sum :: "mem \<Rightarrow> u64 \<Rightarrow> nat \<Rightarrow> nat" where
  "byte_sum m p n = sum_list (map unat (mem_bytes m p n))"

lemma byte_sum_Suc: "byte_sum m p (Suc n) = byte_sum m p n + unat (m (p + word_of_nat n))"
  by (simp add: byte_sum_def mem_bytes_def)

lemma checksum_loop_sum: "checksum_loop m p n = Inr (word_of_nat (byte_sum m p (unat n)))"
proof -
  have "\<exists>c. checksum_loop m p n = Inr c \<and> c = word_of_nat (byte_sum m p (unat n))"
    unfolding checksum_loop_def
  proof (rule for_loop_total)
    fix j :: u64 and c :: u32 assume c: "c = word_of_nat (byte_sum m p (unat j))"
    have "ucast (m (p + j)) = (word_of_nat (unat (m (p + j))) :: u32)" by simp
    then show "\<exists>c'. Inr (c + ucast (m (p + j))) = Inr c' \<and> c' = word_of_nat (byte_sum m p (Suc (unat j)))"
      by (simp add: c byte_sum_Suc)
  qed (simp_all add: byte_sum_def mem_bytes_def)
  then show ?thesis by simp
qed

lemma low_byte_zero: "(word_of_nat k :: u32) AND 0xFF = 0 \<longleftrightarrow> 256 dvd k"
proof -
  have "unat ((word_of_nat k :: u32) AND 0xFF) = k mod 2 ^ 32 mod 256"
    by (simp add: and_low_mask take_bit_eq_mod unat_mod_distrib unat_of_nat)
  also have "\<dots> = k mod 256" by (rule mod_mod_cancel) simp
  finally show ?thesis by (simp add: word_unat_eq_iff dvd_eq_mod_eq_0)
qed

lemma verify_std_header:
  "verify_acpi_std_header_checksum m h =
    (if 256 dvd byte_sum m h (unat (ash_length m h)) then Inr ()
     else Inl (Kernel_panic ''ACPI SDT header checksum is invalid''))"
proof -
  have "unat (ucast (ash_length m h) :: u64) = unat (ash_length m h)"
    using unat_u32_less[of "ash_length m h"] by (simp add: unsigned_ucast_eq take_bit_nat_eq_self)
  then show ?thesis
    by (simp add: verify_acpi_std_header_checksum_def checksum_loop_sum low_byte_zero)
qed

lemma strncmp_loop_eq:
  assumes "length a = k" "length b = k" "0 \<notin> set a"
  shows "\<exists>c. strncmp_loop k a b = Inr c \<and> (c = 0 \<longleftrightarrow> a = b)"
  using assms
proof (induction k a b rule: strncmp_loop.induct)
  case (2 k a str1 b str2)
  then show ?case by (auto simp: word_uint_eq_iff)
qed auto

lemma att_signature_props: "length (att_signature t) = 4" "0 \<notin> set (att_signature t)"
  by (cases t; simp)+

text \<open>The specification: the first table with the signature, if its bytes add up to 0 modulo 256.\<close>

definition acpi_lookup :: "u8 list \<Rightarrow> u64 list \<Rightarrow> mem \<Rightarrow> u64 kres" where
  "acpi_lookup sig tables m = (case find (\<lambda>h. ash_signature m h = sig) tables of
     None \<Rightarrow> Inr 0
   | Some h \<Rightarrow> if 256 dvd byte_sum m h (unat (ash_length m h)) then Inr h
       else Inl (Kernel_panic ''ACPI SDT header checksum is invalid''))"

definition acpi_tables :: "'a acpi_state_scheme \<Rightarrow> u64 list" where
  "acpi_tables s = map (\<lambda>i. acpi_table_at s (word_of_nat i)) [0..<unat (acpi_entry_count s)]"

lemma acpi_find_lookup:
  assumes "length sig = 4" "0 \<notin> set sig" "i \<le> acpi_entry_count s"
  shows "acpi_find sig i s = acpi_lookup sig (drop (unat i) (acpi_tables s)) (kmem s)"
  using assms
proof (induction sig i s rule: acpi_find.induct)
  case (1 sig i s)
  let ?n = "acpi_entry_count s" and ?h = "acpi_table_at s i"
  show ?case
  proof (cases "i < ?n")
    case True
    have lt: "unat i < length (acpi_tables s)" using True by (simp add: acpi_tables_def word_less_nat_alt)
    have dr: "drop (unat i) (acpi_tables s) = ?h # drop (unat (i + 1)) (acpi_tables s)"
      using lt unat_Suc_less[OF True] by (simp add: Cons_nth_drop_Suc[symmetric] acpi_tables_def)
    have le: "i + 1 \<le> ?n" using True unat_Suc_less[OF True] by (simp add: word_le_nat_alt word_less_nat_alt)
    obtain c where c: "strncmp sig (ash_signature (kmem s) ?h) 4 = Inr c"
      "c = 0 \<longleftrightarrow> sig = ash_signature (kmem s) ?h"
      using strncmp_loop_eq[of sig 4 "ash_signature (kmem s) ?h"] "1.prems"
      by (auto simp: strncmp_def ash_signature_def)
    show ?thesis
    proof (cases "c = 0")
      case True
      then show ?thesis using c \<open>i < ?n\<close>
        by (simp add: acpi_find.simps[of _ i s] Let_def verify_std_header acpi_lookup_def dr)
    next
      case False
      then have "acpi_find sig i s = acpi_find sig (i + 1) s"
        using c \<open>i < ?n\<close> by (simp add: acpi_find.simps[of sig i s] Let_def)
      also have "\<dots> = acpi_lookup sig (drop (unat (i + 1)) (acpi_tables s)) (kmem s)"
        using "1.IH"[OF \<open>i < ?n\<close> refl, of c] False "1.prems"(1,2) le by simp
      finally show ?thesis using c False by (auto simp: acpi_lookup_def dr)
    qed
  next
    case False
    then have "i = ?n" using "1.prems"(3) by simp
    then show ?thesis
      by (simp add: acpi_find.simps[of sig "acpi_entry_count s"] acpi_lookup_def acpi_tables_def)
  qed
qed

lemma acpi_find_first:
  "acpi_find (att_signature type) 0 s = acpi_lookup (att_signature type) (acpi_tables s) (kmem s)"
  using acpi_find_lookup[OF att_signature_props, of 0 s] by simp


section \<open>The MADT\<close>

definition overrides_wf :: "'a madt_state_scheme \<Rightarrow> bool" where
  "overrides_wf s \<longleftrightarrow> length (g_legacy_interrupt_source_override s) = LIRQ_COUNT"

text \<open>An override of the legacy interrupt irq by the global interrupt g, recorded at address a.\<close>

definition madt_override :: "mem \<Rightarrow> u64 \<Rightarrow> nat \<Rightarrow> u64 \<Rightarrow> bool" where
  "madt_override m a irq g \<longleftrightarrow>
     meh_entry_type m a = APIC_ENTRY_TYPE_INTERRUPT_SOURCE_OVERRIDE \<and> ae2_bus_source m a = 0 \<and>
     unat (ae2_irq_source m a) = irq \<and> g = ucast (ae2_gsi m a)"

text \<open>The overrides in force are those of the records at the addresses in A.\<close>

definition overrides_from :: "u64 set \<Rightarrow> 'a madt_state_scheme \<Rightarrow> bool" where
  "overrides_from A s \<longleftrightarrow> (\<forall>irq < LIRQ_COUNT.
     if \<exists>a \<in> A. \<exists>g. madt_override (kmem s) a irq g
     then \<exists>a \<in> A. madt_override (kmem s) a irq (g_legacy_interrupt_source_override s ! irq)
     else g_legacy_interrupt_source_override s ! irq = -1)"

lemma overrides_from_same:
  assumes "overrides_from A s" "\<And>irq g. irq < 16 \<Longrightarrow> \<not> madt_override (kmem s) a irq g"
    "kmem s' = kmem s" "g_legacy_interrupt_source_override s' = g_legacy_interrupt_source_override s"
  shows "overrides_from (insert a A) s'"
  using assms by (auto simp: overrides_from_def)

lemma madt_record_spec:
  assumes "overrides_wf s"
  shows "\<exists>s'. madt_record a s = Inr s' \<and> overrides_wf s' \<and> kmem s' = kmem s \<and>
    g_is_initialized s' = g_is_initialized s \<and> g_lapic_addr s' = g_lapic_addr s \<and>
    (overrides_from A s \<longrightarrow> overrides_from (insert a A) s')"
proof -
  let ?m = "kmem s" and ?ovr = "g_legacy_interrupt_source_override s"
  consider (ioapic) "meh_entry_type ?m a = 1"
    | (ovr) "meh_entry_type ?m a = 2" "ae2_bus_source ?m a = 0" "ae2_irq_source ?m a < 16"
    | (other) "meh_entry_type ?m a \<noteq> 1"
        "\<not> (meh_entry_type ?m a = 2 \<and> ae2_bus_source ?m a = 0 \<and> ae2_irq_source ?m a < 16)" by blast
  then show ?thesis
  proof cases
    case ioapic
    then have "\<not> madt_override ?m a irq g" for irq g by (simp add: madt_override_def)
    then show ?thesis using ioapic assms by (auto simp: madt_record_def overrides_wf_def intro: overrides_from_same)
  next
    case ovr
    let ?i = "unat (ae2_irq_source ?m a)"
    have i: "?i < length ?ovr" using assms ovr(3) by (simp add: overrides_wf_def word_less_nat_alt)
    let ?s = "s\<lparr>g_legacy_interrupt_source_override := ?ovr[?i := ucast (ae2_gsi ?m a)]\<rparr>"
    have o: "madt_override ?m a irq g \<longleftrightarrow> irq = ?i \<and> g = ucast (ae2_gsi ?m a)" for irq g
      using ovr by (auto simp: madt_override_def)
    have "overrides_from (insert a A) ?s" if "overrides_from A s"
      using i that o by (auto simp: overrides_from_def nth_list_update)
    moreover have "madt_record a s = Inr ?s" using ovr i by (simp add: madt_record_def)
    ultimately show ?thesis using assms by (simp add: overrides_wf_def)
  next
    case other
    then have "\<not> madt_override ?m a irq g" if "irq < 16" for irq g
      using that by (auto simp: madt_override_def word_less_nat_alt)
    then show ?thesis using other assms by (auto simp: madt_record_def intro: overrides_from_same)
  qed
qed

text \<open>The addresses of the records of a table, each found behind the one before it.\<close>

inductive madt_record_at :: "mem \<Rightarrow> u64 \<Rightarrow> u64 \<Rightarrow> u64 \<Rightarrow> bool" for m st e where
  first: "st < e \<Longrightarrow> madt_record_at m st e st"
| step: "madt_record_at m st e a \<Longrightarrow> b = a + ucast (meh_record_len m a) \<Longrightarrow> b < e \<Longrightarrow>
    madt_record_at m st e b"

text \<open>The records in V have been seen, the walk is about to look at cur.\<close>

definition madt_seen :: "mem \<Rightarrow> u64 \<Rightarrow> u64 \<Rightarrow> u64 \<Rightarrow> u64 set \<Rightarrow> bool" where
  "madt_seen m st e cur V \<longleftrightarrow> V \<subseteq> Collect (madt_record_at m st e) \<and>
     (\<forall>a \<in> V. a + ucast (meh_record_len m a) \<in> insert cur V) \<and> st \<in> insert cur V \<and>
     (cur < e \<longrightarrow> madt_record_at m st e cur)"

lemma madt_seen_step:
  assumes "madt_seen m st e cur V" "cur < e"
  shows "madt_seen m st e (cur + ucast (meh_record_len m cur)) (insert cur V)"
  using assms madt_record_at.step[of m st e cur] by (auto simp: madt_seen_def)

lemma madt_seen_all:
  assumes "madt_seen m st e cur V" "\<not> cur < e"
  shows "V = Collect (madt_record_at m st e)"
proof -
  have "a \<in> V" if "madt_record_at m st e a" for a
    using that assms by induction (auto simp: madt_seen_def)
  then show ?thesis using assms(1) by (auto simp: madt_seen_def)
qed

lemma madt_walk_ends:
  assumes "\<And>a. madt_record_at (kmem s) st e a \<Longrightarrow> meh_record_len (kmem s) a \<noteq> 0"
    and "unat e + 255 < 2 ^ 64" and "overrides_wf s" and "overrides_from V s" and "madt_seen (kmem s) st e cur V"
  shows "\<exists>s'. madt_walk e cur s = Some (Inr s') \<and> overrides_wf s' \<and>
    overrides_from (Collect (madt_record_at (kmem s) st e)) s' \<and>
    kmem s' = kmem s \<and> g_is_initialized s' = g_is_initialized s \<and> g_lapic_addr s' = g_lapic_addr s"
  using assms
proof (induction "unat e - unat cur" arbitrary: cur s V rule: less_induct)
  case less
  show ?case
  proof (cases "cur < e")
    case True
    have A: "madt_record_at (kmem s) st e cur" using less.prems(5) True by (simp add: madt_seen_def)
    obtain s1 where s1: "madt_record cur s = Inr s1" "overrides_wf s1" "kmem s1 = kmem s"
      "g_is_initialized s1 = g_is_initialized s" "g_lapic_addr s1 = g_lapic_addr s"
      "overrides_from (insert cur V) s1"
      using madt_record_spec[OF less.prems(3), of cur V] less.prems(4) by auto
    define l where "l = meh_record_len (kmem s) cur"
    have "0 < unat l" using less.prems(1)[OF A] by (simp add: l_def unat_gt_0)
    moreover have "unat l < 256" by (rule unat_u8_less)
    moreover have "unat (ucast l :: u64) = unat l"
      using unat_u8_less[of l] by (simp add: unsigned_ucast_eq take_bit_nat_eq_self)
    moreover have "unat cur < unat e" using True by (simp add: word_less_nat_alt)
    ultimately have u: "unat e - unat (cur + ucast l) < unat e - unat cur"
      using less.prems(2) unat_add_if_fits[of cur "ucast l"] by simp
    have "\<exists>s'. madt_walk e (cur + ucast l) s1 = Some (Inr s') \<and> overrides_wf s' \<and>
      overrides_from (Collect (madt_record_at (kmem s1) st e)) s' \<and>
      kmem s' = kmem s1 \<and> g_is_initialized s' = g_is_initialized s1 \<and> g_lapic_addr s' = g_lapic_addr s1"
      using less.hyps[OF u, of s1 "insert cur V"] less.prems(1,2) s1(2,3,6) madt_seen_step[OF less.prems(5) True]
      by (simp add: l_def)
    then show ?thesis using s1 True by (simp add: madt_walk.simps[of e cur] l_def)
  next
    case False
    then show ?thesis using less.prems madt_seen_all[OF less.prems(5)] by (simp add: madt_walk.simps[of e cur])
  qed
qed

lemma madt_walk_stuck:
  assumes "cur < e" "meh_record_len (kmem s) cur = 0" "overrides_wf s"
  shows "madt_walk e cur s = None"
proof -
  have "cur < e \<longrightarrow> meh_record_len (kmem s) cur = 0 \<longrightarrow> \<not> overrides_wf s"
    if "madt_walk e cur s = Some r" for r
  proof (rule madt_walk.raw_induct[OF _ that])
    fix f e cur r and s :: "'a madt_state_scheme"
    assume IH: "\<And>e cur s r. f e cur s = Some r \<Longrightarrow>
        cur < e \<longrightarrow> meh_record_len (kmem s) cur = 0 \<longrightarrow> \<not> overrides_wf (s :: 'a madt_state_scheme)"
      and step: "(if cur < e then case madt_record cur s of Inl e \<Rightarrow> Some (Inl e)
          | Inr s \<Rightarrow> f e (cur + ucast (meh_record_len (kmem s) cur)) s else Some (Inr s)) = Some r"
    show "cur < e \<longrightarrow> meh_record_len (kmem s) cur = 0 \<longrightarrow> \<not> overrides_wf s"
    proof (intro impI notI)
      assume a: "cur < e" "meh_record_len (kmem s) cur = 0" "overrides_wf s"
      obtain s1 where "madt_record cur s = Inr s1" "overrides_wf s1" "kmem s1 = kmem s"
        using madt_record_spec[OF a(3), of cur "{}"] by auto
      then show False using step a IH[of e cur s1 r] by simp
    qed
  qed
  then show ?thesis using assms by (cases "madt_walk e cur s") auto
qed

text \<open>What init_madt does once it has found the table.\<close>

lemma init_madt_walk:
  assumes "\<not> g_is_initialized s" "acpi_get_std_header ATT_ACPI_TABLE_MADT s = Inr h" "h \<noteq> 0" "overrides_wf s"
  shows "init_madt s = (case madt_walk (h + ucast (ash_length (kmem s) h)) (madt_entries h)
      (s\<lparr>g_is_initialized := True, g_madt_header := h, g_lapic_addr := ucast (madt_lapic_addr (kmem s) h),
         g_legacy_interrupt_source_override := replicate 16 (-1)\<rparr>) of None \<Rightarrow> Inl Hang | Some r \<Rightarrow> r)"
proof -
  have "acpi_tables (s\<lparr>g_is_initialized := True\<rparr>) = acpi_tables s"
    by (cases "g_is_xsdt s")
      (simp_all add: acpi_tables_def acpi_table_at_def acpi_entry_count_def vmm_phys_to_virt_hhdm_def)
  then have "acpi_get_std_header ATT_ACPI_TABLE_MADT (s\<lparr>g_is_initialized := True\<rparr>) = Inr h"
    using assms(2) by (simp add: acpi_get_std_header_def acpi_find_first del: att_signature.simps)
  then show ?thesis
    using assms arr_fill_loop[of "16::u32" "g_legacy_interrupt_source_override s" "-1"]
    by (simp add: init_madt_def Let_def overrides_wf_def)
qed

lemma ucast_u32_not_minus1: "ucast (x::u32) \<noteq> (-1 :: u64)"
proof
  assume "ucast x = (-1 :: u64)"
  then have "unat (ucast x :: u64) = unat (-1 :: u64)" by simp
  then show False using unat_u32_less[of x]
    by (simp add: unsigned_ucast_eq take_bit_nat_eq_self unat_uminus_u64)
qed

lemma gsi_of_override:
  assumes "g_is_initialized s" "overrides_wf s" "overrides_from A s" "irq < 16"
  shows "\<exists>g. madt_get_gsi_for_irq irq s = Inr g \<and>
    (if \<exists>a \<in> A. \<exists>g. madt_override (kmem s) a (unat irq) g
     then \<exists>a \<in> A. madt_override (kmem s) a (unat irq) g else g = irq)"
proof -
  have i: "unat irq < 16" using assms(4) by (simp add: word_less_nat_alt)
  then have get: "madt_get_gsi_for_irq irq s = (if g_legacy_interrupt_source_override s ! unat irq = -1
      then Inr irq else Inr (g_legacy_interrupt_source_override s ! unat irq))"
    using assms by (simp add: madt_get_gsi_for_irq_def overrides_wf_def)
  show ?thesis
  proof (cases "\<exists>a \<in> A. \<exists>g. madt_override (kmem s) a (unat irq) g")
    case True
    then have o: "\<exists>a \<in> A. madt_override (kmem s) a (unat irq) (g_legacy_interrupt_source_override s ! unat irq)"
      using assms(3) i by (simp add: overrides_from_def)
    then have "g_legacy_interrupt_source_override s ! unat irq \<noteq> -1"
      by (auto simp: madt_override_def ucast_u32_not_minus1 ucast_u32_not_minus1[THEN not_sym])
    then show ?thesis using True o by (simp add: get)
  next
    case False
    then show ?thesis using assms(3) i by (simp add: overrides_from_def get)
  qed
qed

text \<open>
  C27: with a MADT whose records all have a nonzero length, init_madt returns, and afterwards a
  legacy interrupt below 16 is routed to the global interrupt that an override record of the table
  for this interrupt on bus 0 names, and to itself exactly when the table has no such record.
\<close>

theorem init_madt_terminates:
  fixes s :: "'a madt_state_scheme"
  assumes "\<not> g_is_initialized s" "acpi_get_std_header ATT_ACPI_TABLE_MADT s = Inr h" "h \<noteq> 0"
    and "length (g_legacy_interrupt_source_override s) = 16"
    and "e = h + ucast (ash_length (kmem s) h)" "unat e + 255 < 2 ^ 64"
    and "\<forall>a. madt_record_at (kmem s) (madt_entries h) e a \<longrightarrow> meh_record_len (kmem s) a \<noteq> 0"
  shows "\<exists>s'. init_madt s = Inr s' \<and> madt_get_lapic_base_addr s' = Inr (ucast (madt_lapic_addr (kmem s) h)) \<and>
    (\<forall>irq < 16. \<exists>g. madt_get_gsi_for_irq irq s' = Inr g \<and>
      (if \<exists>a \<in> Collect (madt_record_at (kmem s) (madt_entries h) e). \<exists>g. madt_override (kmem s) a (unat irq) g
       then \<exists>a \<in> Collect (madt_record_at (kmem s) (madt_entries h) e). madt_override (kmem s) a (unat irq) g
       else g = irq))"
proof -
  let ?A = "Collect (madt_record_at (kmem s) (madt_entries h) e)"
  define s0 where "s0 = s\<lparr>g_is_initialized := True, g_madt_header := h,
    g_lapic_addr := ucast (madt_lapic_addr (kmem s) h),
    g_legacy_interrupt_source_override := replicate 16 (-1)\<rparr>"
  have s0: "overrides_wf s0" "overrides_from {} s0" "kmem s0 = kmem s"
    by (simp_all add: s0_def overrides_wf_def overrides_from_def)
  have "\<exists>s'. madt_walk e (madt_entries h) s0 = Some (Inr s') \<and> overrides_wf s' \<and>
    overrides_from (Collect (madt_record_at (kmem s0) (madt_entries h) e)) s' \<and>
    kmem s' = kmem s0 \<and> g_is_initialized s' = g_is_initialized s0 \<and> g_lapic_addr s' = g_lapic_addr s0"
  proof (rule madt_walk_ends)
    show "madt_seen (kmem s0) (madt_entries h) e (madt_entries h) {}"
      by (simp add: madt_seen_def madt_record_at.first)
  qed (use s0 assms(6,7) in simp_all)
  then obtain s' where s': "madt_walk e (madt_entries h) s0 = Some (Inr s')" "overrides_wf s'"
    "overrides_from ?A s'" "kmem s' = kmem s" "g_is_initialized s' = g_is_initialized s0"
    "g_lapic_addr s' = g_lapic_addr s0" unfolding s0(3) by (elim exE conjE) (rule that)
  have "init_madt s = Inr s'"
    using init_madt_walk[OF assms(1-3)] assms(4) s'(1) unfolding s0_def assms(5)[symmetric]
    by (simp add: overrides_wf_def)
  moreover have "madt_get_lapic_base_addr s' = Inr (ucast (madt_lapic_addr (kmem s) h))"
    using s'(5,6) by (simp add: madt_get_lapic_base_addr_def s0_def)
  moreover have "g_is_initialized s'" using s'(5) by (simp add: s0_def)
  ultimately show ?thesis using gsi_of_override[OF _ s'(2,3)] unfolding s'(4)
    by (intro exI[of _ s'] conjI allI impI)
qed

text \<open>
  C28: a first MADT record of length 0 makes init_madt loop forever.
\<close>

theorem init_madt_zero_record_hangs:
  fixes s :: "'a madt_state_scheme"
  assumes "\<not> g_is_initialized s" "acpi_get_std_header ATT_ACPI_TABLE_MADT s = Inr h" "h \<noteq> 0"
    and "length (g_legacy_interrupt_source_override s) = 16"
    and "madt_entries h < h + ucast (ash_length (kmem s) h)" "meh_record_len (kmem s) (madt_entries h) = 0"
  shows "init_madt s = Inl Hang"
  using init_madt_walk[OF assms(1-3)] assms(4-6)
  by (simp add: overrides_wf_def madt_walk_stuck)

text \<open>
  Firmware tables for examples: a 32-bit root table at 0x1000 and behind it at 0x1028 a MADT with
  the local APIC at 0xFEE00000 and one record, an override of interrupt 0 by 2, with the given
  record length and checksum bytes.
\<close>

definition firmware_bytes :: "u8 \<Rightarrow> u8 \<Rightarrow> u8 list" where
  "firmware_bytes len chk = [0x52, 0x53, 0x44, 0x54, 40, 0, 0, 0, 0, 0, 0, 0, 0, 0, 0, 0, 0, 0, 0, 0,
     0, 0, 0, 0, 0, 0, 0, 0, 0, 0, 0, 0, 0, 0, 0, 0, 0x28, 0x10, 0, 0,
     0x41, 0x50, 0x49, 0x43, 54, 0, 0, 0, 0, chk, 0, 0, 0, 0, 0, 0, 0, 0, 0, 0, 0, 0, 0, 0, 0, 0, 0, 0,
     0, 0, 0, 0, 0, 0, 0, 0, 0x00, 0x00, 0xE0, 0xFE, 0, 0, 0, 0, 2, len, 0, 0, 2, 0, 0, 0, 0, 0]"

definition firmware_mem :: "u8 \<Rightarrow> u8 \<Rightarrow> mem" where
  "firmware_mem len chk = mem_store (\<lambda>_. 0) 0x1000 (firmware_bytes len chk)"

definition firmware_demo :: "u8 \<Rightarrow> u8 \<Rightarrow> madt_state" where
  "firmware_demo len chk = \<lparr>g_bitmap = \<lparr>bit_count = 0, bitmap = []\<rparr>, pmm_hhdm_offset = 0,
     kmem = firmware_mem len chk, vmm_hhdm_offset = 0, cr3 = 0, g_acpi_init = True, g_rsdt = 0x1000,
     g_is_xsdt = False, g_is_initialized = False, g_madt_header = 0, g_io_apic_addr = 0,
     g_lapic_addr = 0, g_legacy_interrupt_source_override = replicate 16 0\<rparr>"

lemma firmware_demo_fields [simp]:
  "kmem (firmware_demo len chk) = firmware_mem len chk" "\<not> g_is_initialized (firmware_demo len chk)"
  "length (g_legacy_interrupt_source_override (firmware_demo len chk)) = 16"
  by (simp_all add: firmware_demo_def)

lemma firmware_read:
  "k + n \<le> 94 \<Longrightarrow> mem_bytes (firmware_mem len chk) (0x1000 + word_of_nat k) n = take n (drop k (firmware_bytes len chk))"
  unfolding firmware_mem_def by (rule mem_bytes_of_store) (simp_all add: firmware_bytes_def)

lemmas firmware_reads = firmware_read[of 4 4, simplified] firmware_read[of 36 4, simplified]
  firmware_read[of 40 4, simplified] firmware_read[of 44 4, simplified] firmware_read[of 40 54, simplified]
  firmware_read[of 85 1, simplified] firmware_read[of 84 8, simplified] firmware_read[of 88 4, simplified]

lemma firmware_tables:
  "ash_length (firmware_mem len chk) 0x1000 = 40" "ash_length (firmware_mem len chk) 0x1028 = 54"
  "ash_signature (firmware_mem len chk) 0x1028 = att_signature ATT_ACPI_TABLE_MADT"
  "read32 (firmware_mem len chk) 0x1024 = 0x1028"
  "byte_sum (firmware_mem len chk) 0x1028 54 = 821 + unat len + unat chk"
  "meh_record_len (firmware_mem len chk) 0x1054 = len"
proof -
  have "mem_bytes (firmware_mem len chk) 0x1055 1 = [firmware_mem len chk 0x1055]" by (simp add: mem_bytes_def)
  then show "meh_record_len (firmware_mem len chk) 0x1054 = len"
    by (simp add: meh_record_len_def firmware_reads firmware_bytes_def)
qed (simp_all add: ash_length_def ash_signature_def read32_def byte_sum_def firmware_reads firmware_bytes_def)

lemma firmware_madt:
  assumes "256 dvd 821 + unat len + unat chk"
  shows "acpi_get_std_header ATT_ACPI_TABLE_MADT (firmware_demo len chk) = Inr 0x1028"
proof -
  have "acpi_tables (firmware_demo len chk) = [0x1028]"
    by (simp add: acpi_tables_def acpi_entry_count_def acpi_table_at_def firmware_demo_def
        firmware_tables vmm_phys_to_virt_hhdm_def)
  then show ?thesis using assms
    by (simp add: acpi_get_std_header_def acpi_find_first acpi_lookup_def firmware_tables
        del: att_signature.simps)
qed

theorem init_madt_zero_record_hangs_witness:
  "init_madt (firmware_demo 0 203) = Inl Hang"
proof -
  have "acpi_get_std_header ATT_ACPI_TABLE_MADT (firmware_demo 0 203) = Inr 0x1028"
    by (rule firmware_madt) simp
  then show ?thesis
    by (rule init_madt_zero_record_hangs[OF firmware_demo_fields(2)])
      (simp_all add: firmware_tables madt_entries_def)
qed

lemma firmware_one_record:
  assumes "madt_record_at (firmware_mem 10 193) 0x1054 0x105E a"
  shows "a = 0x1054"
  using assms by induction (simp_all add: firmware_tables)

lemma firmware_override:
  "madt_override (firmware_mem 10 193) 0x1054 irq g \<longleftrightarrow> irq = 0 \<and> g = 2"
proof -
  have "mem_bytes (firmware_mem 10 193) 0x1054 8 = [firmware_mem 10 193 0x1054, firmware_mem 10 193 0x1055,
      firmware_mem 10 193 0x1056, firmware_mem 10 193 0x1057, firmware_mem 10 193 0x1058,
      firmware_mem 10 193 0x1059, firmware_mem 10 193 0x105A, firmware_mem 10 193 0x105B]"
    by (simp add: mem_bytes_def upt_rec)
  then have "firmware_mem 10 193 0x1054 = 2" "firmware_mem 10 193 0x1056 = 0" "firmware_mem 10 193 0x1057 = 0"
    by (simp_all add: firmware_reads firmware_bytes_def)
  moreover have "read32 (firmware_mem 10 193) 0x1058 = 2"
    by (simp add: read32_def firmware_reads firmware_bytes_def)
  ultimately show ?thesis
    by (auto simp: madt_override_def meh_entry_type_def ae2_bus_source_def ae2_irq_source_def ae2_gsi_def)
qed

theorem init_madt_terminates_witness:
  "\<exists>s'. init_madt (firmware_demo 10 193) = Inr s' \<and>
    madt_get_gsi_for_irq 1 s' = Inr 1 \<and> madt_get_gsi_for_irq 0 s' = Inr 2"
proof -
  have h: "acpi_get_std_header ATT_ACPI_TABLE_MADT (firmware_demo 10 193) = Inr 0x1028"
    by (rule firmware_madt) simp
  have e: "0x105E = 0x1028 + ucast (ash_length (firmware_mem 10 193) 0x1028)" "madt_entries 0x1028 = 0x1054"
    by (simp_all add: firmware_tables madt_entries_def)
  have R: "Collect (madt_record_at (firmware_mem 10 193) 0x1054 0x105E) = {0x1054}"
    using firmware_one_record madt_record_at.first[of "0x1054" "0x105E"] by auto
  have lim: "(0x1028 :: u64) \<noteq> 0" "unat (0x105E :: u64) + 255 < 2 ^ 64" by simp_all
  have nz: "\<forall>a. madt_record_at (firmware_mem 10 193) 0x1054 0x105E a \<longrightarrow> meh_record_len (firmware_mem 10 193) a \<noteq> 0"
    by (auto dest!: firmware_one_record simp: firmware_tables)
  obtain s' where s': "init_madt (firmware_demo 10 193) = Inr s'"
    "\<forall>irq < 16. \<exists>g. madt_get_gsi_for_irq irq s' = Inr g \<and>
      (if \<exists>a \<in> {0x1054}. \<exists>g. madt_override (firmware_mem 10 193) a (unat irq) g
       then \<exists>a \<in> {0x1054}. madt_override (firmware_mem 10 193) a (unat irq) g else g = irq)"
    using init_madt_terminates[OF firmware_demo_fields(2) h lim(1) firmware_demo_fields(3),
        unfolded firmware_demo_fields(1), OF e(1) lim(2), unfolded e(2) R, OF nz]
    by (elim exE conjE) (rule that)
  show ?thesis using s'(1) s'(2)[THEN spec[of _ 0]] s'(2)[THEN spec[of _ 1]] by (simp add: firmware_override)
qed

end
