(* ===== verification/Hardware.thy ===== *)
theory Hardware
  imports Tz_Prelude
begin

text \<open>
  The machine the kernel talks to. Devices answer reads of I/O ports and of memory-mapped
  registers and change on both reads and writes; what they do is the argument \<open>'d hw\<close> of every
  routine that touches them, a record of the five accesses the code uses. drivers/io.c wraps the
  port instructions, kernel/cpu wraps cpuid and the model-specific registers.
\<close>

section \<open>Ports and memory-mapped registers\<close>

record 'd hw =
  hw_inb :: "u16 \<Rightarrow> 'd \<Rightarrow> u8 \<times> 'd"
  hw_outb :: "u16 \<Rightarrow> u8 \<Rightarrow> 'd \<Rightarrow> 'd"
  hw_inw :: "u16 \<Rightarrow> 'd \<Rightarrow> u16 \<times> 'd"
  hw_outw :: "u16 \<Rightarrow> u16 \<Rightarrow> 'd \<Rightarrow> 'd"
  hw_read32 :: "u64 \<Rightarrow> 'd \<Rightarrow> u32 \<times> 'd"
  hw_write32 :: "u64 \<Rightarrow> u32 \<Rightarrow> 'd \<Rightarrow> 'd"

definition outb :: "'d hw \<Rightarrow> u16 \<Rightarrow> u8 \<Rightarrow> 'd \<Rightarrow> 'd" where
  "outb hw port val d = hw_outb hw port val d"

definition outw :: "'d hw \<Rightarrow> u16 \<Rightarrow> u16 \<Rightarrow> 'd \<Rightarrow> 'd" where
  "outw hw port val d = hw_outw hw port val d"

definition inb :: "'d hw \<Rightarrow> u16 \<Rightarrow> 'd \<Rightarrow> u8 \<times> 'd" where
  "inb hw port d = hw_inb hw port d"

definition inw :: "'d hw \<Rightarrow> u16 \<Rightarrow> 'd \<Rightarrow> u16 \<times> 'd" where
  "inw hw port d = hw_inw hw port d"

datatype io_ports = IO_MASTER_PIC_COMMAND_PORT | IO_MASTER_PIC_DATA_PORT | IO_SLAVE_PIC_COMMAND_PORT
  | IO_SLAVE_PIC_DATA_PORT | IO_KEYBOARD_DATA_PORT | IO_CMOS_ADDRESS_PORT | IO_CMOS_DATA_PORT
  | IO_VGA_REGISTER_PORT | IO_VGA_DATA_PORT | IO_ATA_PRIMARY_DEVICE_PORT

fun io_port :: "io_ports \<Rightarrow> u16" where
  "io_port IO_MASTER_PIC_COMMAND_PORT = 0x20"
| "io_port IO_MASTER_PIC_DATA_PORT = 0x21"
| "io_port IO_SLAVE_PIC_COMMAND_PORT = 0xA0"
| "io_port IO_SLAVE_PIC_DATA_PORT = 0xA1"
| "io_port IO_KEYBOARD_DATA_PORT = 0x60"
| "io_port IO_CMOS_ADDRESS_PORT = 0x70"
| "io_port IO_CMOS_DATA_PORT = 0x71"
| "io_port IO_VGA_REGISTER_PORT = 0x3d4"
| "io_port IO_VGA_DATA_PORT = 0x3D5"
| "io_port IO_ATA_PRIMARY_DEVICE_PORT = 0x1F0"

text \<open>
  Waiting until a port shows a condition. The device may never show it, so the wait is a partial
  function and not ending is the value None.
\<close>

partial_function (option) wait_port :: "'d hw \<Rightarrow> u16 \<Rightarrow> (u8 \<Rightarrow> bool) \<Rightarrow> 'd \<Rightarrow> 'd option" where
  "wait_port hw port ready d =
     (let (v, d) = inb hw port d in if ready v then Some d else wait_port hw port ready d)"

definition await_port :: "'d hw \<Rightarrow> u16 \<Rightarrow> (u8 \<Rightarrow> bool) \<Rightarrow> 'd \<Rightarrow> 'd kres" where
  "await_port hw port ready d =
     (case wait_port hw port ready d of None \<Rightarrow> Inl Hang | Some d \<Rightarrow> Inr d)"

text \<open>A wait ends as soon as one of the following reads shows the condition.\<close>

fun port_after :: "'d hw \<Rightarrow> u16 \<Rightarrow> nat \<Rightarrow> 'd \<Rightarrow> 'd" where
  "port_after hw port 0 d = d"
| "port_after hw port (Suc k) d = port_after hw port k (snd (inb hw port d))"

lemma await_port_ends:
  assumes "ready (fst (inb hw port (port_after hw port k d)))"
  shows "\<exists>j \<le> k. await_port hw port ready d = Inr (port_after hw port (Suc j) d) \<and>
    ready (fst (inb hw port (port_after hw port j d)))"
  using assms
proof (induction k arbitrary: d)
  case 0
  then show ?case
    by (cases "inb hw port d") (simp add: await_port_def wait_port.simps[of _ _ _ d])
next
  case (Suc k)
  show ?case
  proof (cases "ready (fst (inb hw port d))")
    case True
    then show ?thesis
      by (cases "inb hw port d") (auto simp: await_port_def wait_port.simps[of _ _ _ d])
  next
    case False
    let ?d = "snd (inb hw port d)"
    have "await_port hw port ready d = await_port hw port ready ?d"
      using False by (cases "inb hw port d") (simp add: await_port_def wait_port.simps[of _ _ _ d])
    moreover obtain j where "j \<le> k" "await_port hw port ready ?d = Inr (port_after hw port (Suc j) ?d)"
      "ready (fst (inb hw port (port_after hw port j ?d)))"
      using Suc.IH[of ?d] Suc.prems by auto
    ultimately show ?thesis by (intro exI[of _ "Suc j"]) simp
  qed
qed

section \<open>kernel/cpu/cpuid.c and msr.c\<close>

record msr_state =
  g_msr_enabled :: bool
  cpu_msrs :: "u32 \<Rightarrow> u64"

abbreviation (input) "CPUID_FEAT_EDX_MSR \<equiv> (0x20 :: u32)"
abbreviation (input) "CPUID_FEAT_EDX_APIC \<equiv> (0x200 :: u32)"

text \<open>The instruction cpuid maps a code to the contents of eax and edx.\<close>

definition cpuid_is_apic_supported :: "(u32 \<Rightarrow> u32 \<times> u32) \<Rightarrow> bool" where
  "cpuid_is_apic_supported cpuid = (let (eax, edx) = cpuid 1 in edx AND CPUID_FEAT_EDX_APIC \<noteq> 0)"

definition cpuid_is_msr_supported :: "(u32 \<Rightarrow> u32 \<times> u32) \<Rightarrow> bool" where
  "cpuid_is_msr_supported cpuid = (let (eax, edx) = cpuid 1 in edx AND CPUID_FEAT_EDX_MSR \<noteq> 0)"

definition init_msr_cpu ::
  "(u32 \<Rightarrow> u32 \<times> u32) \<Rightarrow> 'a msr_state_scheme \<Rightarrow> 'a msr_state_scheme kres" where
  "init_msr_cpu cpuid s =
     kassert (cpuid_is_msr_supported cpuid) ''This cpu does not support MSR''
     (Inr (s\<lparr>g_msr_enabled := True\<rparr>))"

text \<open>rdmsr and wrmsr move the halves of a register through two 32-bit registers.\<close>

definition msr_get_register :: "u32 \<Rightarrow> 'a msr_state_scheme \<Rightarrow> u64 kres" where
  "msr_get_register msr s =
     kassert (g_msr_enabled s) ''MSR is not enabled''
     (let low = (ucast (cpu_msrs s msr) :: u32);
          high = (ucast (drop_bit 32 (cpu_msrs s msr)) :: u32)
      in Inr (push_bit 32 (ucast high) OR ucast low))"

definition msr_set_register ::
  "u32 \<Rightarrow> u64 \<Rightarrow> 'a msr_state_scheme \<Rightarrow> 'a msr_state_scheme kres" where
  "msr_set_register msr val s =
     kassert (g_msr_enabled s) ''MSR is not enabled''
     (let low = (ucast (val AND 0xFFFFFFFF) :: u32);
          high = (ucast (ucast (drop_bit 32 val) :: u32) :: u64)
      in Inr (s\<lparr>cpu_msrs := (cpu_msrs s)(msr := push_bit 32 high OR ucast low)\<rparr>))"

datatype msr_registers = MR_EFER_MSR | MR_STAR_MSR | MR_LSTAR_MSR | MR_FSMASK_MSR | MR_GS_BAS_MSR
  | MR_KERNEL_GS_BAS_MSR

fun msr_register :: "msr_registers \<Rightarrow> u32" where
  "msr_register MR_EFER_MSR = 0xC0000080"
| "msr_register MR_STAR_MSR = 0xC0000081"
| "msr_register MR_LSTAR_MSR = 0xC0000082"
| "msr_register MR_FSMASK_MSR = 0xC0000084"
| "msr_register MR_GS_BAS_MSR = 0xC0000101"
| "msr_register MR_KERNEL_GS_BAS_MSR = 0xC0000102"

text \<open>The fields of EFER the kernel sets and the layout of STAR.\<close>

definition efer_set_sce :: "u64 \<Rightarrow> u64" where
  "efer_set_sce raw = set_bit 0 raw"

definition star_make :: "u32 \<Rightarrow> u16 \<Rightarrow> u16 \<Rightarrow> u64" where
  "star_make eip syscall_cs_ss sysret_cs_ss =
     ucast eip OR push_bit 32 (ucast syscall_cs_ss) OR push_bit 48 (ucast sysret_cs_ss)"

lemma join_halves:
  "push_bit 32 (ucast (ucast (drop_bit 32 v) :: u32)) OR ucast (ucast v :: u32) = (v :: u64)"
proof (rule bit_word_eqI)
  fix n assume "n < LENGTH(64)"
  then consider "n < 32" | "32 \<le> n" "n < 64" by fastforce
  then show "bit (push_bit 32 (ucast (ucast (drop_bit 32 v) :: u32)) OR ucast (ucast v :: u32) :: u64) n =
      bit v n"
    by cases (simp_all add: bit_simps less_diff_conv2)
qed

lemma msr_get_register_val [simp]: "g_msr_enabled s \<Longrightarrow> msr_get_register msr s = Inr (cpu_msrs s msr)"
  by (simp add: msr_get_register_def join_halves Let_def)

lemma msr_set_register_val [simp]:
  "g_msr_enabled s \<Longrightarrow> msr_set_register msr v s = Inr (s\<lparr>cpu_msrs := (cpu_msrs s)(msr := v)\<rparr>)"
proof -
  have "ucast (v AND 0xFFFFFFFF) = (ucast v :: u32)"
    by (rule bit_word_eqI) (simp add: and_low_mask bit_simps)
  then show "g_msr_enabled s \<Longrightarrow> msr_set_register msr v s = Inr (s\<lparr>cpu_msrs := (cpu_msrs s)(msr := v)\<rparr>)"
    by (simp add: msr_set_register_def join_halves Let_def)
qed

end
