(* ===== verification/Rtc.thy ===== *)
theory Rtc
  imports Hardware
begin

text \<open>
  The CMOS real-time clock, kernel/cmos/rtc\_cmos.c, and the PIT delay loop, kernel/time/pit.c.
  Integer expressions the code computes in the type int are computed on int and reduced to the
  width of the variable they are stored in. The lemmas show that the epoch time of a calendar date
  counts the days from the first of January 1970, day by day through the Gregorian calendar.
\<close>

section \<open>kernel/cmos/rtc\_cmos.c\<close>

abbreviation (input) "SEC_PER_MIN \<equiv> (60 :: int)"
abbreviation (input) "SEC_PER_HOUR \<equiv> (3600 :: int)"
abbreviation (input) "SEC_PER_DAY \<equiv> (86400 :: int)"
abbreviation (input) "EPOCH_YEAR \<equiv> (1970 :: u16)"

definition IS_LEAP_YEAR :: "u16 \<Rightarrow> bool" where
  "IS_LEAP_YEAR year \<longleftrightarrow> (year mod 4 = 0 \<and> year mod 100 \<noteq> 0) \<or> year mod 400 = 0"

definition BCD_TO_BIN :: "u8 \<Rightarrow> int" where
  "BCD_TO_BIN val = uint (val AND 0x0F) + uint (drop_bit 4 val) * 10"

definition DAYS_PER_MONTH :: "int list list" where
  "DAYS_PER_MONTH =
     [[31, 28, 31, 30, 31, 30, 31, 31, 30, 31, 30, 31],
      [31, 29, 31, 30, 31, 30, 31, 31, 30, 31, 30, 31]]"

definition DAYS_PER_YEAR :: "int list" where
  "DAYS_PER_YEAR = [365, 366]"

datatype cmos_register = CR_SECONDS_CMOS_REGISTER | CR_MINUTES_CMOS_REGISTER
  | CR_HOURS_CMOS_REGISTER | CR_DAY_OF_WEEK_CMOS_REGISTER | CR_DAY_OF_MONTH_CMOS_REGISTER
  | CR_MONTH_CMOS_REGISTER | CR_YEAR_CMOS_REGISTER | CR_STATUS_A_CMOS_REGISTER
  | CR_STATUS_B_CMOS_REGISTER

fun cmos_register_code :: "cmos_register \<Rightarrow> u8" where
  "cmos_register_code CR_SECONDS_CMOS_REGISTER = 0x00"
| "cmos_register_code CR_MINUTES_CMOS_REGISTER = 0x02"
| "cmos_register_code CR_HOURS_CMOS_REGISTER = 0x04"
| "cmos_register_code CR_DAY_OF_WEEK_CMOS_REGISTER = 0x06"
| "cmos_register_code CR_DAY_OF_MONTH_CMOS_REGISTER = 0x07"
| "cmos_register_code CR_MONTH_CMOS_REGISTER = 0x08"
| "cmos_register_code CR_YEAR_CMOS_REGISTER = 0x09"
| "cmos_register_code CR_STATUS_A_CMOS_REGISTER = 0x0A"
| "cmos_register_code CR_STATUS_B_CMOS_REGISTER = 0x0B"

definition read_cmos_register :: "'d hw \<Rightarrow> cmos_register \<Rightarrow> 'd \<Rightarrow> u8 \<times> 'd" where
  "read_cmos_register hw reg d =
     (let nmi_disable = push_bit 7 1;
          d = outb hw (io_port IO_CMOS_ADDRESS_PORT) (cmos_register_code reg OR nmi_disable) d;
          (dat, d) = inb hw (io_port IO_CMOS_DATA_PORT) d;
          d = outb hw (io_port IO_CMOS_ADDRESS_PORT) 0 d
      in (dat, d))"

definition rtc_to_unix_epoch_seconds :: "u8 \<Rightarrow> u8 \<Rightarrow> u8 \<Rightarrow> u8 \<Rightarrow> u8 \<Rightarrow> u16 \<Rightarrow> u32 kres" where
  "rtc_to_unix_epoch_seconds seconds mins hours day month year =
     kbind (for_loop EPOCH_YEAR year (\<lambda>y_k (years, leap_years).
         if IS_LEAP_YEAR y_k then Inr (years, leap_years + 1) else Inr (years + 1, leap_years))
       (0 :: u8, 0 :: u8)) (\<lambda>(years, leap_years).
     let unix_epoch_seconds = 0 + word_of_int
           ((uint years * DAYS_PER_YEAR ! 0 + uint leap_years * DAYS_PER_YEAR ! 1) * SEC_PER_DAY) :: u32;
         year_index = (if IS_LEAP_YEAR year then 1 else 0)
     in kbind (for_loop (0 :: u8) (if month = 0 then 0 else month - 1) (\<lambda>mo_k unix_epoch_seconds.
            kbind (arr_get (DAYS_PER_MONTH ! year_index) (unat mo_k)) (\<lambda>days.
            Inr (unix_epoch_seconds + word_of_int (days * SEC_PER_DAY)))) unix_epoch_seconds)
          (\<lambda>unix_epoch_seconds.
        let unix_epoch_seconds = unix_epoch_seconds + word_of_int ((uint day - 1) * SEC_PER_DAY);
            unix_epoch_seconds = unix_epoch_seconds + word_of_int (uint hours * SEC_PER_HOUR);
            unix_epoch_seconds = unix_epoch_seconds + word_of_int (uint mins * SEC_PER_MIN);
            unix_epoch_seconds = unix_epoch_seconds + ucast seconds
        in Inr unix_epoch_seconds))"

definition rtc_get_unix_epoch_seconds :: "'d hw \<Rightarrow> 'd \<Rightarrow> (u64 \<times> 'd) kres" where
  "rtc_get_unix_epoch_seconds hw d =
     (let (v, d) = read_cmos_register hw CR_SECONDS_CMOS_REGISTER d;
          seconds = word_of_int (BCD_TO_BIN v);
          (v, d) = read_cmos_register hw CR_MINUTES_CMOS_REGISTER d;
          mins = word_of_int (BCD_TO_BIN v);
          (v, d) = read_cmos_register hw CR_HOURS_CMOS_REGISTER d;
          hours = word_of_int (BCD_TO_BIN v);
          (v, d) = read_cmos_register hw CR_DAY_OF_MONTH_CMOS_REGISTER d;
          day = word_of_int (BCD_TO_BIN v);
          (v, d) = read_cmos_register hw CR_MONTH_CMOS_REGISTER d;
          month = word_of_int (BCD_TO_BIN v);
          (v, d) = read_cmos_register hw CR_YEAR_CMOS_REGISTER d;
          year = word_of_int (BCD_TO_BIN v + 2000)
      in kbind (rtc_to_unix_epoch_seconds seconds mins hours day month year) (\<lambda>secs.
         Inr (ucast secs, d)))"

record cmos_state =
  g_boot_unix_epoch_seconds :: u64

definition init_cmos :: "'d hw \<Rightarrow> 'd \<Rightarrow> 'a cmos_state_scheme \<Rightarrow> ('d \<times> 'a cmos_state_scheme) kres" where
  "init_cmos hw d s =
     (if g_boot_unix_epoch_seconds s \<noteq> 0 then Inr (d, s)
      else kbind (rtc_get_unix_epoch_seconds hw d) (\<lambda>(secs, d).
           Inr (d, s\<lparr>g_boot_unix_epoch_seconds := secs\<rparr>)))"

definition cmos_get_boot_unix_epoch_secs :: "'a cmos_state_scheme \<Rightarrow> u64" where
  "cmos_get_boot_unix_epoch_secs s = g_boot_unix_epoch_seconds s"

section \<open>kernel/time/pit.c\<close>

abbreviation (input) "PIT_COMMAND_PORT \<equiv> (0x43 :: u16)"
abbreviation (input) "PIT_CHANNEL_2_PORT \<equiv> (0x42 :: u16)"
abbreviation (input) "PC_SPEAKER_PORT \<equiv> (0x61 :: u16)"
abbreviation (input) "PIT_TICKS_PER_MS \<equiv> (1193 :: u16)"

definition time_pit_spin_sleep_ms :: "'d hw \<Rightarrow> u32 \<Rightarrow> 'd \<Rightarrow> 'd kres" where
  "time_pit_spin_sleep_ms hw milliseconds d =
     for_loop 0 milliseconds (\<lambda>i d.
       let d = outb hw PIT_COMMAND_PORT 0xB0 d;
           d = outb hw PIT_CHANNEL_2_PORT (ucast (PIT_TICKS_PER_MS AND 0xFF)) d;
           d = outb hw PIT_CHANNEL_2_PORT (ucast (drop_bit 8 PIT_TICKS_PER_MS AND 0xFF)) d;
           (val, d) = inb hw PC_SPEAKER_PORT d;
           d = outb hw PC_SPEAKER_PORT (val OR 0x01) d
       in kbind (await_port hw PC_SPEAKER_PORT (\<lambda>v. v AND 0x20 \<noteq> 0) d) (\<lambda>d.
          Inr (outb hw PC_SPEAKER_PORT (val AND NOT 0x01) d))) d"

section \<open>The calendar\<close>

definition leap :: "nat \<Rightarrow> bool" where
  "leap y \<longleftrightarrow> 4 dvd y \<and> (100 dvd y \<longrightarrow> 400 dvd y)"

definition month_days :: "nat \<Rightarrow> nat \<Rightarrow> nat" where
  "month_days y m =
     (if m = 2 then if leap y then 29 else 28 else if m \<in> {4, 6, 9, 11} then 30 else 31)"

fun next_day :: "nat \<times> nat \<times> nat \<Rightarrow> nat \<times> nat \<times> nat" where
  "next_day (y, m, d) =
     (if d < month_days y m then (y, m, d + 1)
      else if m < 12 then (y, m + 1, 1)
      else (y + 1, 1, 1))"

text \<open>The date n days after the first of January 1970.\<close>

definition date_of_day :: "nat \<Rightarrow> nat \<times> nat \<times> nat" where
  "date_of_day n = (next_day ^^ n) (1970, 1, 1)"

definition valid_date :: "nat \<times> nat \<times> nat \<Rightarrow> bool" where
  "valid_date = (\<lambda>(y, m, d). 1970 \<le> y \<and> 1 \<le> m \<and> m \<le> 12 \<and> 1 \<le> d \<and> d \<le> month_days y m)"

fun days_before_year :: "nat \<Rightarrow> nat" where
  "days_before_year y = (\<Sum>k \<in> {1970..<y}. if leap k then 366 else 365)"

fun days_before_month :: "nat \<Rightarrow> nat \<Rightarrow> nat" where
  "days_before_month y m = (\<Sum>k \<in> {1..<m}. month_days y k)"

definition day_number :: "nat \<times> nat \<times> nat \<Rightarrow> nat" where
  "day_number = (\<lambda>(y, m, d). days_before_year y + days_before_month y m + (d - 1))"

lemma month_days_pos: "0 < month_days y m"
  by (simp add: month_days_def)

lemma next_day_valid: "valid_date D \<Longrightarrow> valid_date (next_day D)"
  using month_days_pos by (cases D) (auto simp: valid_date_def Suc_le_eq)

lemma days_before_month_13: "days_before_month y 13 = (if leap y then 366 else 365)"
  by (simp add: numeral_eq_Suc month_days_def)

lemma day_number_next: "valid_date D \<Longrightarrow> day_number (next_day D) = Suc (day_number D)"
proof (cases D)
  case (fields y m d)
  assume v: "valid_date D"
  show ?thesis
  proof (cases "d < month_days y m")
    case True
    then show ?thesis using v by (auto simp: fields day_number_def valid_date_def)
  next
    case False
    then have d: "d = month_days y m" using v by (simp add: fields valid_date_def)
    show ?thesis
    proof (cases "m < 12")
      case True
      then show ?thesis using v d month_days_pos[of y m]
        by (simp add: fields day_number_def valid_date_def)
    next
      case False
      then have m: "m = 12" using v by (simp add: fields valid_date_def)
      have "days_before_month y 12 + month_days y 12 = days_before_month y 13"
        by (simp add: numeral_eq_Suc)
      then show ?thesis using v d m month_days_pos[of y 12] days_before_month_13[of y]
        by (simp add: fields day_number_def valid_date_def)
    qed
  qed
qed

lemma date_of_day_props: "valid_date (date_of_day n) \<and> day_number (date_of_day n) = n"
proof (induction n)
  case 0
  then show ?case by (simp add: date_of_day_def valid_date_def day_number_def month_days_def)
next
  case (Suc n)
  then show ?case using next_day_valid day_number_next by (simp add: date_of_day_def)
qed

section \<open>The loops of rtc\_to\_unix\_epoch\_seconds\<close>

lemma IS_LEAP_YEAR_leap: "IS_LEAP_YEAR w \<longleftrightarrow> leap (unat w)"
proof -
  have "400 dvd n \<Longrightarrow> 4 dvd n" for n :: nat by (rule dvd_trans[of 4 400]) simp_all
  then show ?thesis
    by (auto simp: IS_LEAP_YEAR_def leap_def word_unat_eq_iff unat_mod_distrib dvd_eq_mod_eq_0)
qed

lemma year_loop:
  assumes "1970 \<le> unat year" "unat year \<le> 2225"
  shows "\<exists>a b. for_loop EPOCH_YEAR year (\<lambda>y_k (years, leap_years).
         if IS_LEAP_YEAR y_k then Inr (years, leap_years + 1) else Inr (years + 1, leap_years))
       (0 :: u8, 0 :: u8) = Inr (a, b) \<and> 365 * unat a + 366 * unat b = days_before_year (unat year)"
proof -
  let ?P = "\<lambda>k (a :: u8, b :: u8). 365 * unat a + 366 * unat b = days_before_year k \<and>
    unat a + unat b = k - 1970"
  have "\<exists>r. for_loop EPOCH_YEAR year (\<lambda>y_k (years, leap_years).
         if IS_LEAP_YEAR y_k then Inr (years, leap_years + 1) else Inr (years + 1, leap_years))
       (0 :: u8, 0 :: u8) = Inr r \<and> ?P (unat year) r"
  proof (rule for_loop_total)
    fix j :: u16 and r assume j: "EPOCH_YEAR \<le> j" "j < year" and P: "?P (unat j) r"
    obtain a b where r: "r = (a, b)" by (cases r)
    have k: "1970 \<le> unat j" "unat j < 2225" using j assms by (simp_all add: word_le_nat_alt word_less_nat_alt)
    have sum: "days_before_year (Suc (unat j)) = days_before_year (unat j) + (if leap (unat j) then 366 else 365)"
      using k by (simp add: atLeastLessThanSuc)
    have "unat a < 255" "unat b < 255" using P k by (auto simp: r)
    then have "unat (a + 1) = Suc (unat a)" "unat (b + 1) = Suc (unat b)"
      using unat_add_if_fits[of a 1] unat_add_if_fits[of b 1] by simp_all
    then show "\<exists>r'. (case r of (years, leap_years) \<Rightarrow>
         if IS_LEAP_YEAR j then Inr (years, leap_years + 1) else Inr (years + 1, leap_years)) = Inr r' \<and>
         ?P (Suc (unat j)) r'"
      using P k sum by (cases "leap (unat j)") (simp_all add: r IS_LEAP_YEAR_leap del: days_before_year.simps)
  qed (use assms in \<open>simp_all add: word_le_nat_alt\<close>)
  then show ?thesis by auto
qed

lemma DAYS_PER_MONTH_entry:
  assumes "k < 12"
  shows "DAYS_PER_MONTH ! (if leap y then 1 else 0) ! k = int (month_days y (Suc k))"
    "length (DAYS_PER_MONTH ! (if leap y then 1 else 0)) = 12"
proof -
  have "k \<in> {0, 1, 2, 3, 4, 5, 6, 7, 8, 9, 10, 11}" using assms by (auto simp: numeral_eq_Suc less_Suc_eq)
  then show "DAYS_PER_MONTH ! (if leap y then 1 else 0) ! k = int (month_days y (Suc k))"
    by (elim insertE emptyE) (simp_all add: DAYS_PER_MONTH_def month_days_def)
  show "length (DAYS_PER_MONTH ! (if leap y then 1 else 0)) = 12"
    by (simp add: DAYS_PER_MONTH_def)
qed

lemma month_loop:
  assumes "1 \<le> unat month" "unat month \<le> 12"
  shows "for_loop (0 :: u8) (if month = 0 then 0 else month - 1) (\<lambda>mo_k t.
      kbind (arr_get (DAYS_PER_MONTH ! (if leap y then 1 else 0)) (unat mo_k)) (\<lambda>days.
      Inr (t + word_of_int (days * SEC_PER_DAY)))) t0 =
    Inr (t0 + word_of_nat (86400 * days_before_month y (unat month)) :: u32)"
proof -
  let ?n = "if month = 0 then 0 else month - 1"
  have n: "unat ?n = unat month - 1"
    using assms by (auto simp: unat_sub word_le_nat_alt unat_gt_0)
  have "\<exists>t. for_loop (0 :: u8) ?n (\<lambda>mo_k t.
      kbind (arr_get (DAYS_PER_MONTH ! (if leap y then 1 else 0)) (unat mo_k)) (\<lambda>days.
      Inr (t + word_of_int (days * SEC_PER_DAY)))) t0 = Inr t \<and>
      t = t0 + word_of_nat (86400 * days_before_month y (Suc (unat ?n)))"
  proof (rule for_loop_total)
    fix j and t :: u32 assume j: "j < ?n" and t: "t = t0 + word_of_nat (86400 * days_before_month y (Suc (unat j)))"
    have k: "unat j < 12" using j n assms by (simp add: word_less_nat_alt)
    have sum: "days_before_month y (Suc (Suc (unat j))) =
      days_before_month y (Suc (unat j)) + month_days y (Suc (unat j))" by simp
    have "word_of_int (int (month_days y (Suc (unat j))) * 86400) =
        (word_of_nat (86400 * month_days y (Suc (unat j))) :: u32)" by simp
    then show "\<exists>t'. kbind (arr_get (DAYS_PER_MONTH ! (if leap y then 1 else 0)) (unat j)) (\<lambda>days.
        Inr (t + word_of_int (days * SEC_PER_DAY))) = Inr t' \<and>
        t' = t0 + word_of_nat (86400 * days_before_month y (Suc (Suc (unat j))))"
      using k DAYS_PER_MONTH_entry[OF k, of y] unfolding sum
      by (simp add: t distrib_left del: days_before_month.simps)
  qed simp_all
  moreover have "Suc (unat ?n) = unat month" using n assms by simp
  ultimately show ?thesis by simp
qed

lemma rtc_epoch_day_number:
  assumes "valid_date (unat year, unat month, unat day)" "unat year \<le> 2225"
  shows "rtc_to_unix_epoch_seconds seconds mins hours day month year = Inr (word_of_nat
    (86400 * day_number (unat year, unat month, unat day) + 3600 * unat hours + 60 * unat mins + unat seconds))"
proof -
  have v: "1970 \<le> unat year" "1 \<le> unat month" "unat month \<le> 12" "1 \<le> unat day"
    using assms(1) by (simp_all add: valid_date_def)
  obtain a b where y: "for_loop EPOCH_YEAR year (\<lambda>y_k (years, leap_years).
         if IS_LEAP_YEAR y_k then Inr (years, leap_years + 1) else Inr (years + 1, leap_years))
       (0 :: u8, 0 :: u8) = Inr (a, b)" "365 * unat a + 366 * unat b = days_before_year (unat year)"
    using year_loop[OF v(1) assms(2)] by (elim exE conjE) (rule that)
  have e: "(uint a * 365 + uint b * 366) * 86400 = int (86400 * (365 * unat a + 366 * unat b))"
    "(uint day - 1) * 86400 = int (86400 * (unat day - 1))"
    "uint hours * 3600 = int (3600 * unat hours)" "uint mins * 60 = int (60 * unat mins)"
    using v(4) by (simp_all add: of_nat_diff)
  have s: "ucast seconds = (word_of_nat (unat seconds) :: u32)" by simp
  have dpy: "DAYS_PER_YEAR ! 0 = 365" "DAYS_PER_YEAR ! 1 = 366" by (simp_all add: DAYS_PER_YEAR_def)
  show ?thesis
    unfolding rtc_to_unix_epoch_seconds_def y(1) kbind_simps prod.case Let_def
    unfolding IS_LEAP_YEAR_leap month_loop[OF v(2,3)] kbind_simps dpy e of_int_of_nat_eq y(2) s
    by (simp add: day_number_def distrib_left del: days_before_year.simps days_before_month.simps)
qed

section \<open>Reading the clock\<close>

definition bcd :: "nat \<Rightarrow> u8" where
  "bcd n = word_of_nat (16 * (n div 10) + n mod 10)"

lemma BCD_TO_BIN_bcd:
  assumes "n < 100"
  shows "BCD_TO_BIN (bcd n) = int n"
proof -
  have q: "n div 10 < 10" "n mod 10 < 16" using assms by auto
  have u: "unat (bcd n) = 16 * (n div 10) + n mod 10"
    unfolding bcd_def unat_of_nat using q by simp
  have "unat (bcd n AND 0xF) = unat (bcd n) mod 16"
    by (simp add: and_low_mask take_bit_eq_mod unat_mod_distrib)
  moreover have "unat (drop_bit 4 (bcd n)) = unat (bcd n) div 16"
    by (simp add: drop_bit_eq_div unat_div_distrib)
  ultimately have "unat (bcd n AND 0xF) = n mod 10" "unat (drop_bit 4 (bcd n)) = n div 10"
    using q(2) by (simp_all add: u)
  then have "uint (bcd n AND 0xF) = int (n mod 10)" "uint (drop_bit 4 (bcd n)) = int (n div 10)"
    by (simp_all only: uint_nat)
  then show ?thesis unfolding BCD_TO_BIN_def by (simp only:) presburger
qed

text \<open>
  A CMOS clock answers a read of the data port after a selection of a register with the contents
  of this register.
\<close>

definition cmos_shows :: "'d hw \<Rightarrow> (cmos_register \<Rightarrow> u8) \<Rightarrow> bool" where
  "cmos_shows hw cmos \<longleftrightarrow> (\<forall>reg d. fst (inb hw (io_port IO_CMOS_DATA_PORT)
     (outb hw (io_port IO_CMOS_ADDRESS_PORT) (cmos_register_code reg OR 0x80) d)) = cmos reg)"

definition clock_registers :: "nat \<times> nat \<times> nat \<Rightarrow> nat \<times> nat \<times> nat \<Rightarrow> cmos_register \<Rightarrow> u8" where
  "clock_registers = (\<lambda>(y, m, d) (h, mi, sec) reg. case reg of
     CR_SECONDS_CMOS_REGISTER \<Rightarrow> bcd sec | CR_MINUTES_CMOS_REGISTER \<Rightarrow> bcd mi
   | CR_HOURS_CMOS_REGISTER \<Rightarrow> bcd h | CR_DAY_OF_MONTH_CMOS_REGISTER \<Rightarrow> bcd d
   | CR_MONTH_CMOS_REGISTER \<Rightarrow> bcd m | CR_YEAR_CMOS_REGISTER \<Rightarrow> bcd (y - 2000) | _ \<Rightarrow> 0)"

lemma read_cmos_register_shows:
  assumes "cmos_shows hw cmos"
  shows "\<exists>d'. read_cmos_register hw reg d = (cmos reg, d')"
  using assms by (simp add: cmos_shows_def read_cmos_register_def split_beta Let_def)

lemma day_number_bound:
  assumes "valid_date (y, m, d)" "y < 2100"
  shows "day_number (y, m, d) \<le> 47700"
proof -
  have v: "1970 \<le> y" "m \<le> 12" "d \<le> 31"
    using assms(1) by (auto simp: valid_date_def month_days_def split: if_splits)
  have "days_before_year y \<le> (\<Sum>k \<in> {1970..<y}. 366)" unfolding days_before_year.simps
    by (rule sum_mono) simp
  moreover have "days_before_month y m \<le> (\<Sum>k \<in> {1..<m}. 31)" unfolding days_before_month.simps
    by (rule sum_mono) (simp add: month_days_def)
  ultimately have "days_before_year y \<le> 366 * 129" "days_before_month y m \<le> 31 * 11"
    using assms(2) v by simp_all
  then show ?thesis using v(3) by (simp add: day_number_def del: days_before_year.simps days_before_month.simps)
qed


text \<open>A clock that shows 2024-02-29 12:34:56; its state is the selected register.\<close>

definition leap_day_clock :: "u8 hw" where
  "leap_day_clock = \<lparr>
     hw_inb = (\<lambda>port reg. (if reg = 0x80 then 0x56 else if reg = 0x82 then 0x34 else if reg = 0x84 then 0x12
       else if reg = 0x87 then 0x29 else if reg = 0x88 then 0x02 else if reg = 0x89 then 0x24 else 0, reg)),
     hw_outb = (\<lambda>port v reg. v), hw_inw = (\<lambda>port reg. (0, reg)), hw_outw = (\<lambda>port v reg. reg),
     hw_read32 = (\<lambda>a reg. (0, reg)), hw_write32 = (\<lambda>a v reg. reg)\<rparr>"

lemma leap_day_clock_shows: "cmos_shows leap_day_clock (clock_registers (2024, 2, 29) (12, 34, 56))"
proof -
  have "fst (inb leap_day_clock (io_port IO_CMOS_DATA_PORT)
     (outb leap_day_clock (io_port IO_CMOS_ADDRESS_PORT) (cmos_register_code reg OR 0x80) d)) =
     clock_registers (2024, 2, 29) (12, 34, 56) reg" for reg d
    by (cases reg) (simp_all add: leap_day_clock_def inb_def outb_def clock_registers_def bcd_def)
  then show ?thesis by (simp add: cmos_shows_def)
qed


end
