(* ===== verification/Interrupts.thy ===== *)
theory Interrupts
  imports Descriptor_Tables
begin

text \<open>
  Interrupt dispatch: the frame the assembly stubs push (struct interrupt\_info and the rflags
  fields of kernel/include/intrrupts.h), the handler tables of cpu\_exceptions.c and
  hardware\_intrrupts.c and their central handlers. A handler is a function address, NULL is 0;
  what a call of the handler at an address does is the argument \<open>call\<close>.
\<close>

section \<open>The interrupt frame\<close>

record interrupt_info =
  ii_rax :: u64
  ii_rbx :: u64
  ii_rcx :: u64
  ii_rdx :: u64
  ii_rsi :: u64
  ii_rdi :: u64
  ii_rbp :: u64
  ii_r8 :: u64
  ii_r9 :: u64
  ii_r10 :: u64
  ii_r11 :: u64
  ii_r12 :: u64
  ii_r13 :: u64
  ii_r14 :: u64
  ii_r15 :: u64
  ii_interrupt_index :: u64
  ii_potential_error_code :: u64
  ii_rip :: u64
  ii_code_segment :: u64
  ii_rflags :: u64
  ii_original_rsp :: u64
  ii_stack_segment :: u64

datatype rflag = Carry_flag | Parity_flag | Auxiliary_carry_flag | Zero_flag | Sign_flag | Trap_flag
  | Interrupt_enable_flag | Direction_flag | Overflow_flag | Nested_task | Resume_flag
  | Virtual_8086_mode | Alignment_check_or_access_control | Virtual_interrupt_flag
  | Virtual_interrupt_pending | Id_flag

text \<open>The position of the one-bit fields of rflags; bits 12 and 13 are the I/O privilege level.\<close>

fun rflag_bit :: "rflag \<Rightarrow> nat" where
  "rflag_bit Carry_flag = 0"
| "rflag_bit Parity_flag = 2"
| "rflag_bit Auxiliary_carry_flag = 4"
| "rflag_bit Zero_flag = 6"
| "rflag_bit Sign_flag = 7"
| "rflag_bit Trap_flag = 8"
| "rflag_bit Interrupt_enable_flag = 9"
| "rflag_bit Direction_flag = 10"
| "rflag_bit Overflow_flag = 11"
| "rflag_bit Nested_task = 14"
| "rflag_bit Resume_flag = 16"
| "rflag_bit Virtual_8086_mode = 17"
| "rflag_bit Alignment_check_or_access_control = 18"
| "rflag_bit Virtual_interrupt_flag = 19"
| "rflag_bit Virtual_interrupt_pending = 20"
| "rflag_bit Id_flag = 21"

definition rflags_set :: "rflag \<Rightarrow> u64 \<Rightarrow> u64" where
  "rflags_set f raw = set_bit (rflag_bit f) raw"

definition rflags_io_privilege_level :: "u64 \<Rightarrow> 2 word" where
  "rflags_io_privilege_level raw = ucast (drop_bit 12 raw)"

datatype cpu_exceptions_indexes = CEI_DIVIDE_ERROR | CEI_DEBUG_EXCEPTION | CEI_NMI_INTERRUPT
  | CEI_BREAKPOINT | CEI_OVERFLOW | CEI_BOUND_RANGE_EXCEEDED | CEI_INVALID_OPCODE
  | CEI_DEVICE_NOT_AVAILABLE | CEI_DOUBLE_FAULT | CEI_COPROCESSOR_SEGMENT_OVERRUN | CEI_INVALID_TSS
  | CEI_SEGMENT_NOT_PRESENT | CEI_STACK_SEGMENT_FAULT | CEI_GENERAL_PROTECTION | CEI_PAGE_FAULT
  | CEI_X87_FLOATING_POINT_ERROR | CEI_ALIGNMENT_CHECK | CEI_MACHINE_CHECK
  | CEI_SIMD_FLOATING_POINT_EXCEPTION | CEI_VIRTUALIZATION_EXCEPTION
  | CEI_CONTROL_PROTECTION_EXCEPTION

fun cpu_exception_index :: "cpu_exceptions_indexes \<Rightarrow> nat" where
  "cpu_exception_index CEI_DIVIDE_ERROR = 0x0"
| "cpu_exception_index CEI_DEBUG_EXCEPTION = 0x1"
| "cpu_exception_index CEI_NMI_INTERRUPT = 0x2"
| "cpu_exception_index CEI_BREAKPOINT = 0x3"
| "cpu_exception_index CEI_OVERFLOW = 0x4"
| "cpu_exception_index CEI_BOUND_RANGE_EXCEEDED = 0x5"
| "cpu_exception_index CEI_INVALID_OPCODE = 0x6"
| "cpu_exception_index CEI_DEVICE_NOT_AVAILABLE = 0x7"
| "cpu_exception_index CEI_DOUBLE_FAULT = 0x8"
| "cpu_exception_index CEI_COPROCESSOR_SEGMENT_OVERRUN = 0x9"
| "cpu_exception_index CEI_INVALID_TSS = 0xA"
| "cpu_exception_index CEI_SEGMENT_NOT_PRESENT = 0xB"
| "cpu_exception_index CEI_STACK_SEGMENT_FAULT = 0xC"
| "cpu_exception_index CEI_GENERAL_PROTECTION = 0xD"
| "cpu_exception_index CEI_PAGE_FAULT = 0xE"
| "cpu_exception_index CEI_X87_FLOATING_POINT_ERROR = 0x10"
| "cpu_exception_index CEI_ALIGNMENT_CHECK = 0x11"
| "cpu_exception_index CEI_MACHINE_CHECK = 0x12"
| "cpu_exception_index CEI_SIMD_FLOATING_POINT_EXCEPTION = 0x13"
| "cpu_exception_index CEI_VIRTUALIZATION_EXCEPTION = 0x14"
| "cpu_exception_index CEI_CONTROL_PROTECTION_EXCEPTION = 0x15"

section \<open>Handler tables\<close>

record handler_state =
  s_cpu_exception_handlers :: "u64 list"
  g_hardware_interrupt_handlers :: "u64 list"

definition set_cpu_exception_handler ::
  "cpu_exceptions_indexes \<Rightarrow> u64 \<Rightarrow> 'a handler_state_scheme \<Rightarrow> 'a handler_state_scheme kres" where
  "set_cpu_exception_handler index handler s =
     kassert (cpu_exception_index index < CPU_EXCEPTION_INTERRUPT_COUNT) ''Invalid CPU exception index''
     (kbind (arr_set (s_cpu_exception_handlers s) (cpu_exception_index index) handler) (\<lambda>hs.
      Inr (s\<lparr>s_cpu_exception_handlers := hs\<rparr>)))"

definition cpu_exceptions_isr_central_handler ::
  "(u64 \<Rightarrow> interrupt_info \<Rightarrow> 'a handler_state_scheme \<Rightarrow> 'b kres) \<Rightarrow> interrupt_info \<Rightarrow>
   'a handler_state_scheme \<Rightarrow> 'b kres" where
  "cpu_exceptions_isr_central_handler call info s =
     kbind (arr_get (s_cpu_exception_handlers s) (unat (ii_interrupt_index info))) (\<lambda>handler.
     if handler \<noteq> 0 then call handler info s
     else Inl (Kernel_panic ''Unexpected CPU exception occurred''))"

definition hardware_interrupts_isr_central_handler ::
  "(u64 \<Rightarrow> interrupt_info \<Rightarrow> 'a handler_state_scheme \<Rightarrow> 'b kres) \<Rightarrow> interrupt_info \<Rightarrow>
   'a handler_state_scheme \<Rightarrow> 'b kres" where
  "hardware_interrupts_isr_central_handler call info s =
     kbind (arr_get (g_hardware_interrupt_handlers s)
       (unat (ii_interrupt_index info - CPU_EXCEPTION_INTERRUPT_COUNT))) (\<lambda>handler.
     if handler \<noteq> 0 then call handler info s
     else Inl (Kernel_panic ''Unexpected interrupt occurred''))"

definition set_hardware_interrupt_handler ::
  "u8 \<Rightarrow> u64 \<Rightarrow> 'a handler_state_scheme \<Rightarrow> 'a handler_state_scheme kres" where
  "set_hardware_interrupt_handler index handler s =
     kassert (index \<ge> CPU_EXCEPTION_INTERRUPT_COUNT) ''Invalid hardware interrupt index''
     (kbind (arr_set (g_hardware_interrupt_handlers s) (unat (index - CPU_EXCEPTION_INTERRUPT_COUNT))
        handler) (\<lambda>hs. Inr (s\<lparr>g_hardware_interrupt_handlers := hs\<rparr>)))"

function get_free_interrupt_desc_loop :: "u8 \<Rightarrow> 'a handler_state_scheme \<Rightarrow> u8 kres" where
  "get_free_interrupt_desc_loop i s =
     (if i < HARDWARE_INTERRUPT_COUNT
      then kbind (arr_get (g_hardware_interrupt_handlers s) (unat i)) (\<lambda>h.
           if h = 0 then Inr (i + CPU_EXCEPTION_INTERRUPT_COUNT)
           else get_free_interrupt_desc_loop (i + 1) s)
      else Inl (Kernel_panic ''No free hardware interrupt descriptor available''))"
  by pat_completeness auto
termination
  by (relation "measure (\<lambda>(i, s). 224 - unat i)")
    (simp_all, frule unat_Suc_less, simp add: word_less_nat_alt)

declare get_free_interrupt_desc_loop.simps [simp del]

definition get_free_interrupt_desc :: "'a handler_state_scheme \<Rightarrow> u8 kres" where
  "get_free_interrupt_desc s = get_free_interrupt_desc_loop 0 s"

section \<open>Dispatch\<close>

definition handlers_wf :: "'a handler_state_scheme \<Rightarrow> bool" where
  "handlers_wf s \<longleftrightarrow> length (s_cpu_exception_handlers s) = 32 \<and> length (g_hardware_interrupt_handlers s) = 224"

lemma vector_index:
  fixes v :: u8
  assumes "32 \<le> v"
  shows "unat (ucast v - 32 :: u64) = unat v - 32" "unat (v - 32) = unat v - 32"
proof -
  have v: "32 \<le> unat v" using assms by (simp add: word_le_nat_alt)
  have u: "unat (ucast v :: u64) = unat v"
    using unat_u8_less[of v] by (simp add: unsigned_ucast_eq take_bit_nat_eq_self)
  show "unat (ucast v - 32 :: u64) = unat v - 32" using v u by (simp add: unat_sub word_le_nat_alt)
  show "unat (v - 32) = unat v - 32" using v by (simp add: unat_sub word_le_nat_alt)
qed

lemma get_free_loop:
  assumes "handlers_wf s" "i \<le> 224" "\<forall>k < unat i. g_hardware_interrupt_handlers s ! k \<noteq> 0"
  shows "case get_free_interrupt_desc_loop i s of
      Inl e \<Rightarrow> e = Kernel_panic ''No free hardware interrupt descriptor available'' \<and>
        0 \<notin> set (g_hardware_interrupt_handlers s)
    | Inr v \<Rightarrow> 32 \<le> v \<and> g_hardware_interrupt_handlers s ! (unat v - 32) = 0 \<and>
        (\<forall>k < unat v - 32. g_hardware_interrupt_handlers s ! k \<noteq> 0)"
  using assms
proof (induction i s rule: get_free_interrupt_desc_loop.induct)
  case (1 i s)
  let ?hs = "g_hardware_interrupt_handlers s"
  have len: "length ?hs = 224" using "1.prems"(1) by (simp add: handlers_wf_def)
  show ?case
  proof (cases "i < 224")
    case True
    have ui: "unat i < 224" using True by (simp add: word_less_nat_alt)
    show ?thesis
    proof (cases "?hs ! unat i = 0")
      case free: True
      have "unat (i + 32) = unat i + 32" using ui unat_add_if_fits[of i 32] by simp
      then show ?thesis using free ui True "1.prems"(3) len
        by (simp add: get_free_interrupt_desc_loop.simps[of i] word_le_nat_alt)
    next
      case taken: False
      have "i + 1 \<le> 224" using ui unat_Suc_less[OF True] by (simp add: word_le_nat_alt)
      moreover have "\<forall>k < unat (i + 1). ?hs ! k \<noteq> 0"
        using taken "1.prems"(3) unat_Suc_less[OF True] by (simp add: less_Suc_eq)
      ultimately show ?thesis using "1.IH"[OF True, of "?hs ! unat i"] taken True ui len "1.prems"(1)
        by (simp add: get_free_interrupt_desc_loop.simps[of i])
    qed
  next
    case False
    then have "unat i = 224" using "1.prems"(2) by simp
    then show ?thesis using False "1.prems"(3) len
      by (auto simp: get_free_interrupt_desc_loop.simps[of i] in_set_conv_nth)
  qed
qed

lemmas get_free_spec = get_free_loop[of _ 0, folded get_free_interrupt_desc_def, simplified]

lemma hardware_dispatch:
  assumes "ii_interrupt_index info = ucast (w::u8)" "32 \<le> w"
  shows "hardware_interrupts_isr_central_handler call info s =
    kbind (arr_get (g_hardware_interrupt_handlers s) (unat w - 32)) (\<lambda>h.
      if h \<noteq> 0 then call h info s else Inl (Kernel_panic ''Unexpected interrupt occurred''))"
  using assms by (simp add: hardware_interrupts_isr_central_handler_def vector_index)

lemma vector_eq:
  fixes v w :: u8
  assumes "32 \<le> v" "32 \<le> w" "unat w - 32 = unat v - 32"
  shows "w = v"
  using assms by (simp add: word_le_nat_alt word_unat_eq_iff)

text \<open>
  C35: the vector get_free_interrupt_desc returns has no handler and is the lowest such one, and
  once a handler is installed on it, the central handler sends exactly the interrupts of this vector
  to the new handler, all other vectors are dispatched as before and the vector is not handed out
  again; only when all 224 vectors have handlers does it panic.
\<close>

theorem free_interrupt_desc_dispatch:
  assumes "handlers_wf s"
  shows "case get_free_interrupt_desc s of
      Inl e \<Rightarrow> e = Kernel_panic ''No free hardware interrupt descriptor available'' \<and>
        0 \<notin> set (g_hardware_interrupt_handlers s)
    | Inr v \<Rightarrow> 32 \<le> v \<and> g_hardware_interrupt_handlers s ! (unat v - 32) = 0 \<and>
        (\<forall>i < unat v - 32. g_hardware_interrupt_handlers s ! i \<noteq> 0) \<and>
        (\<forall>h. h \<noteq> 0 \<longrightarrow> (\<exists>s'. set_hardware_interrupt_handler v h s = Inr s' \<and> handlers_wf s' \<and>
          get_free_interrupt_desc s' \<noteq> Inr v \<and>
          (\<forall>info w call. ii_interrupt_index info = ucast (w::u8) \<and> 32 \<le> w \<longrightarrow>
             hardware_interrupts_isr_central_handler call info s' =
               (if w = v then call h info s'
                else kbind (arr_get (g_hardware_interrupt_handlers s) (unat w - 32)) (\<lambda>g.
                  if g \<noteq> 0 then call g info s'
                  else Inl (Kernel_panic ''Unexpected interrupt occurred''))))))"
proof (cases "get_free_interrupt_desc s")
  case (Inl e)
  then show ?thesis using get_free_spec[OF assms] by simp
next
  case (Inr v)
  let ?hs = "g_hardware_interrupt_handlers s"
  have v: "32 \<le> v" "?hs ! (unat v - 32) = 0" "\<forall>i < unat v - 32. ?hs ! i \<noteq> 0"
    using get_free_spec[OF assms] Inr by auto
  have i: "unat v - 32 < length ?hs" using unat_u8_less[of v] assms by (simp add: handlers_wf_def)
  have "\<exists>s'. set_hardware_interrupt_handler v h s = Inr s' \<and> handlers_wf s' \<and>
      get_free_interrupt_desc s' \<noteq> Inr v \<and>
      (\<forall>info w call. ii_interrupt_index info = ucast (w::u8) \<and> 32 \<le> w \<longrightarrow>
         hardware_interrupts_isr_central_handler call info s' =
           (if w = v then call h info s'
            else kbind (arr_get ?hs (unat w - 32)) (\<lambda>g.
              if g \<noteq> 0 then call g info s'
              else Inl (Kernel_panic ''Unexpected interrupt occurred''))))" (is "\<exists>s'. ?Q s'")
    if h: "h \<noteq> 0" for h
  proof -
    let ?s = "s\<lparr>g_hardware_interrupt_handlers := ?hs[unat v - 32 := h]\<rparr>"
    have wf: "handlers_wf ?s" using assms by (simp add: handlers_wf_def)
    have "get_free_interrupt_desc ?s \<noteq> Inr v"
      using get_free_spec[OF wf] i h by (auto split: sum.splits)
    moreover have "set_hardware_interrupt_handler v h s = Inr ?s"
      using v(1) i by (simp add: set_hardware_interrupt_handler_def vector_index)
    moreover have "arr_get (?hs[unat v - 32 := h]) (unat w - 32) =
        (if w = v then Inr h else arr_get ?hs (unat w - 32))" if "32 \<le> w" for w
      using vector_eq[OF v(1) that] i by (auto simp: arr_get_def nth_list_update)
    ultimately have "?Q ?s" using wf h by (auto simp: hardware_dispatch)
    then show ?thesis by blast
  qed
  note install = this
  show ?thesis unfolding Inr sum.case by (intro conjI v allI impI install)
qed

theorem free_interrupt_desc_dispatch_witness:
  "\<exists>s'. get_free_interrupt_desc \<lparr>s_cpu_exception_handlers = replicate 32 0,
     g_hardware_interrupt_handlers = 5 # replicate 223 0\<rparr> = Inr 33 \<and>
   set_hardware_interrupt_handler 33 7 \<lparr>s_cpu_exception_handlers = replicate 32 0,
     g_hardware_interrupt_handlers = 5 # replicate 223 0\<rparr> = Inr s' \<and> handlers_wf s'"
proof -
  let ?s = "\<lparr>s_cpu_exception_handlers = replicate 32 0, g_hardware_interrupt_handlers = 5 # replicate 223 0\<rparr>"
  have wf: "handlers_wf ?s" by (simp add: handlers_wf_def)
  have free: "get_free_interrupt_desc ?s = Inr 33"
    by (simp add: get_free_interrupt_desc_def get_free_interrupt_desc_loop.simps)
  note install = free_interrupt_desc_dispatch[OF wf, unfolded free sum.case,
      THEN conjunct2, THEN conjunct2, THEN conjunct2, THEN spec[of _ 7], THEN mp]
  have "(7::u64) \<noteq> 0" by simp
  from install[OF this] show ?thesis by (elim exE conjE) (intro exI conjI free)
qed

end
