(* ===== verification/Apic.thy ===== *)
theory Apic
  imports Acpi Rtc Interrupts
begin

text \<open>
  The interrupt controllers, kernel/interrupts/hardware\_intrrupts/apic.c, and the time of day,
  kernel/time/time.c. The registers of the I/O APIC and of the local APIC are memory-mapped and
  accessed through the machine \<open>hw\<close>. A redirection entry is its raw 64-bit word. The timer
  interrupt calls the handler that the process manager installs; what the call does is the
  argument \<open>call\<close>, and it gets the interrupt frame, the devices and the kernel state.
\<close>

section \<open>kernel/interrupts/hardware\_intrrupts/apic.c\<close>

datatype legacy_isa_irq = LIRQ_PIT | LIRQ_KEYBOARD | LIRQ_CASCADE | LIRQ_COM2 | LIRQ_COM1 | LIRQ_LPT2
  | LIRQ_FLOPPY_DISK | LIRQ_LPT1 | LIRQ_CMOS_RTC | LIRQ_FREE_FOR_PERIPHERALS1
  | LIRQ_FREE_FOR_PERIPHERALS2 | LIRQ_FREE_FOR_PERIPHERALS3 | LIRQ_PS2_MOUSE | LIRQ_FPU
  | LIRQ_PRIMARY_ATA_HARD_DISK | LIRQ_SECONDARY_ATA_HARD_DISK

fun legacy_irq_number :: "legacy_isa_irq \<Rightarrow> u64" where
  "legacy_irq_number LIRQ_PIT = 0"
| "legacy_irq_number LIRQ_KEYBOARD = 1"
| "legacy_irq_number LIRQ_CASCADE = 2"
| "legacy_irq_number LIRQ_COM2 = 3"
| "legacy_irq_number LIRQ_COM1 = 4"
| "legacy_irq_number LIRQ_LPT2 = 5"
| "legacy_irq_number LIRQ_FLOPPY_DISK = 6"
| "legacy_irq_number LIRQ_LPT1 = 7"
| "legacy_irq_number LIRQ_CMOS_RTC = 8"
| "legacy_irq_number LIRQ_FREE_FOR_PERIPHERALS1 = 9"
| "legacy_irq_number LIRQ_FREE_FOR_PERIPHERALS2 = 10"
| "legacy_irq_number LIRQ_FREE_FOR_PERIPHERALS3 = 11"
| "legacy_irq_number LIRQ_PS2_MOUSE = 12"
| "legacy_irq_number LIRQ_FPU = 13"
| "legacy_irq_number LIRQ_PRIMARY_ATA_HARD_DISK = 14"
| "legacy_irq_number LIRQ_SECONDARY_ATA_HARD_DISK = 15"

datatype lapic_registers = LAPIC_REG_APICID | LAPIC_REG_APICVER | LAPIC_REG_TASKPRIOR | LAPIC_REG_EOI
  | LAPIC_REG_LDR | LAPIC_REG_DFR | LAPIC_REG_SPURIOUS | LAPIC_REG_ESR | LAPIC_REG_ICRL
  | LAPIC_REG_ICRH | LAPIC_REG_LVT_TMR | LAPIC_REG_LVT_PERF | LAPIC_REG_LVT_LINT0
  | LAPIC_REG_LVT_LINT1 | LAPIC_REG_LVT_ERR | LAPIC_REG_TMRINITCNT | LAPIC_REG_TMRCURRCNT
  | LAPIC_REG_TMRDIV | LAPIC_REG_LAST

fun lapic_register_offset :: "lapic_registers \<Rightarrow> u64" where
  "lapic_register_offset LAPIC_REG_APICID = 0x20"
| "lapic_register_offset LAPIC_REG_APICVER = 0x30"
| "lapic_register_offset LAPIC_REG_TASKPRIOR = 0x80"
| "lapic_register_offset LAPIC_REG_EOI = 0x0B0"
| "lapic_register_offset LAPIC_REG_LDR = 0x0D0"
| "lapic_register_offset LAPIC_REG_DFR = 0x0E0"
| "lapic_register_offset LAPIC_REG_SPURIOUS = 0x0F0"
| "lapic_register_offset LAPIC_REG_ESR = 0x280"
| "lapic_register_offset LAPIC_REG_ICRL = 0x300"
| "lapic_register_offset LAPIC_REG_ICRH = 0x310"
| "lapic_register_offset LAPIC_REG_LVT_TMR = 0x320"
| "lapic_register_offset LAPIC_REG_LVT_PERF = 0x340"
| "lapic_register_offset LAPIC_REG_LVT_LINT0 = 0x350"
| "lapic_register_offset LAPIC_REG_LVT_LINT1 = 0x360"
| "lapic_register_offset LAPIC_REG_LVT_ERR = 0x370"
| "lapic_register_offset LAPIC_REG_TMRINITCNT = 0x380"
| "lapic_register_offset LAPIC_REG_TMRCURRCNT = 0x390"
| "lapic_register_offset LAPIC_REG_TMRDIV = 0x3E0"
| "lapic_register_offset LAPIC_REG_LAST = 0x38F"

abbreviation (input) "APIC_LVT_INT_MASKED \<equiv> (0x10000 :: u32)"
abbreviation (input) "LAPIC_TMR_PERIODIC \<equiv> (0x20000 :: u32)"
abbreviation (input) "MILLISECONDS_PER_TIMER_ACTIVATION \<equiv> 10"

definition GET_APIC_REDIRECTION_ENTRY_INDEX :: "u64 \<Rightarrow> u64" where
  "GET_APIC_REDIRECTION_ENTRY_INDEX index = 0x10 + index * 2"

record apic_state = madt_state +
  g_io_apic_base :: u64
  g_lapic_base :: u64
  g_lapic_timer_handler :: u64
  g_system_lapic_timer_uptimer :: u64

text \<open>The fields of a redirection entry that the code stores to.\<close>

definition are_set_vector :: "u64 \<Rightarrow> u64 \<Rightarrow> u64" where
  "are_set_vector v e = (e AND NOT 0xFF) OR (v AND 0xFF)"

definition are_clear_mask :: "u64 \<Rightarrow> u64" where
  "are_clear_mask e = unset_bit 16 e"

definition are_set_destination :: "u64 \<Rightarrow> u64 \<Rightarrow> u64" where
  "are_set_destination v e = (e AND NOT (push_bit 56 0xFF)) OR push_bit 56 (v AND 0xFF)"

definition read_ioapic_redirection_entry ::
  "'d hw \<Rightarrow> u64 \<Rightarrow> 'a apic_state_scheme \<Rightarrow> 'd \<Rightarrow> u64 \<times> 'd" where
  "read_ioapic_redirection_entry hw index s d =
     (let d = hw_write32 hw (g_io_apic_base s) (ucast (GET_APIC_REDIRECTION_ENTRY_INDEX index)) d;
          (lower_dword, d) = hw_read32 hw (g_io_apic_base s + 4 * 4) d;
          d = hw_write32 hw (g_io_apic_base s) (ucast (GET_APIC_REDIRECTION_ENTRY_INDEX index + 1)) d;
          (upper_dword, d) = hw_read32 hw (g_io_apic_base s + 4 * 4) d
      in (ucast lower_dword OR push_bit 32 (ucast upper_dword), d))"

definition write_ioapic_redirection_entry ::
  "'d hw \<Rightarrow> u64 \<Rightarrow> u64 \<Rightarrow> 'a apic_state_scheme \<Rightarrow> 'd \<Rightarrow> 'd" where
  "write_ioapic_redirection_entry hw entry index s d =
     (let d = hw_write32 hw (g_io_apic_base s) (ucast (GET_APIC_REDIRECTION_ENTRY_INDEX index)) d;
          d = hw_write32 hw (g_io_apic_base s + 4 * 4) (ucast entry) d;
          d = hw_write32 hw (g_io_apic_base s) (ucast (GET_APIC_REDIRECTION_ENTRY_INDEX index + 1)) d
      in hw_write32 hw (g_io_apic_base s + 4 * 4) (ucast (drop_bit 32 entry)) d)"

definition read_lapic_register ::
  "'d hw \<Rightarrow> lapic_registers \<Rightarrow> 'a apic_state_scheme \<Rightarrow> 'd \<Rightarrow> u32 \<times> 'd" where
  "read_lapic_register hw reg_offset s d =
     hw_read32 hw (g_lapic_base s + 4 * (lapic_register_offset reg_offset div 4)) d"

definition write_lapic_register ::
  "'d hw \<Rightarrow> lapic_registers \<Rightarrow> u32 \<Rightarrow> 'a apic_state_scheme \<Rightarrow> 'd \<Rightarrow> 'd" where
  "write_lapic_register hw reg_offset val s d =
     hw_write32 hw (g_lapic_base s + 4 * (lapic_register_offset reg_offset div 4)) val d"

definition disable_pic :: "'d hw \<Rightarrow> 'd \<Rightarrow> 'd" where
  "disable_pic hw d =
     (let d = outb hw (io_port IO_MASTER_PIC_DATA_PORT) 0xff d
      in outb hw (io_port IO_SLAVE_PIC_DATA_PORT) 0xff d)"

definition init_ioapic ::
  "'d hw \<Rightarrow> (u32 \<Rightarrow> u32 \<times> u32) \<Rightarrow> 'd \<Rightarrow> 'a apic_state_scheme \<Rightarrow> ('d \<times> 'a apic_state_scheme) kres" where
  "init_ioapic hw cpuid d s =
     kassert (cpuid_is_apic_supported cpuid) ''APIC is not supported on this CPU''
     (kbind (madt_get_io_apic_base_addr s) (\<lambda>io_apic.
      let s = s\<lparr>g_io_apic_base := vmm_phys_to_virt_hhdm s io_apic\<rparr>
      in kbind (madt_get_lapic_base_addr s) (\<lambda>lapic.
         let s = s\<lparr>g_lapic_base := vmm_phys_to_virt_hhdm s lapic\<rparr>
         in Inr (disable_pic hw d, s))))"

text \<open>
  \<open>timer_isr\<close> is the address of lapic\_timer\_handler; the handler tables are the state \<open>h\<close>.
\<close>

definition init_lapic ::
  "'d hw \<Rightarrow> u64 \<Rightarrow> 'd \<Rightarrow> 'a apic_state_scheme \<Rightarrow> 'b handler_state_scheme \<Rightarrow>
   ('d \<times> 'b handler_state_scheme) kres" where
  "init_lapic hw timer_isr d s h =
     (let d = write_lapic_register hw LAPIC_REG_TMRDIV 0x3 s d;
          d = write_lapic_register hw LAPIC_REG_TMRINITCNT 0xFFFFFFFF s d
      in kbind (time_pit_spin_sleep_ms hw MILLISECONDS_PER_TIMER_ACTIVATION d) (\<lambda>d.
         let d = write_lapic_register hw LAPIC_REG_LVT_TMR APIC_LVT_INT_MASKED s d;
             (currcnt, d) = read_lapic_register hw LAPIC_REG_TMRCURRCNT s d;
             ticks_per_activation = 0xFFFFFFFF - currcnt
         in kbind (get_free_interrupt_desc h) (\<lambda>idt_index.
            kbind (set_hardware_interrupt_handler idt_index timer_isr h) (\<lambda>h.
            let d = write_lapic_register hw LAPIC_REG_LVT_TMR (ucast idt_index OR LAPIC_TMR_PERIODIC) s d;
                d = write_lapic_register hw LAPIC_REG_TMRDIV 0x3 s d;
                d = write_lapic_register hw LAPIC_REG_TMRINITCNT ticks_per_activation s d
            in Inr (d, h)))))"

definition apic_send_eoi :: "'d hw \<Rightarrow> 'a apic_state_scheme \<Rightarrow> 'd \<Rightarrow> 'd" where
  "apic_send_eoi hw s d = write_lapic_register hw LAPIC_REG_EOI 0 s d"

definition apic_set_legacy_irq_desc_num ::
  "'d hw \<Rightarrow> legacy_isa_irq \<Rightarrow> u32 \<Rightarrow> 'a apic_state_scheme \<Rightarrow> 'd \<Rightarrow> 'd kres" where
  "apic_set_legacy_irq_desc_num hw irq desc_num s d =
     kbind (madt_get_gsi_for_irq (legacy_irq_number irq) s) (\<lambda>pin_index.
     let (entry, d) = read_ioapic_redirection_entry hw pin_index s d;
         entry = are_clear_mask entry;
         entry = are_set_destination 0 entry;
         entry = are_set_vector (ucast desc_num) entry
     in Inr (write_ioapic_redirection_entry hw entry pin_index s d))"

definition apic_setup_timer_handler :: "u64 \<Rightarrow> 'a apic_state_scheme \<Rightarrow> 'a apic_state_scheme" where
  "apic_setup_timer_handler handler s = s\<lparr>g_lapic_timer_handler := handler\<rparr>"

definition apic_get_system_milliseconds_uptime :: "'a apic_state_scheme \<Rightarrow> u64" where
  "apic_get_system_milliseconds_uptime s =
     g_system_lapic_timer_uptimer s * MILLISECONDS_PER_TIMER_ACTIVATION"

type_synonym ('d, 's) irq_run = "interrupt_info \<times> 'd \<times> 's"

definition lapic_timer_handler ::
  "'d hw \<Rightarrow> (u64 \<Rightarrow> ('d, 'a apic_state_scheme) irq_run \<Rightarrow> ('d, 'a apic_state_scheme) irq_run kres) \<Rightarrow>
   ('d, 'a apic_state_scheme) irq_run \<Rightarrow> ('d, 'a apic_state_scheme) irq_run kres" where
  "lapic_timer_handler hw call = (\<lambda>(state, d, s).
     let s = s\<lparr>g_system_lapic_timer_uptimer := g_system_lapic_timer_uptimer s + 1\<rparr>
     in kbind (if g_lapic_timer_handler s \<noteq> 0 \<and> g_system_lapic_timer_uptimer s mod 35 = 0
               then call (g_lapic_timer_handler s) (state, d, s) else Inr (state, d, s)) (\<lambda>(state, d, s).
        Inr (state, apic_send_eoi hw s d, s)))"

section \<open>kernel/time/time.c\<close>

record timeval =
  tv_sec :: u64
  tv_usec :: u64

definition gettimeofday ::
  "timeval \<Rightarrow> 'b cmos_state_scheme \<Rightarrow> 'a apic_state_scheme \<Rightarrow> int \<times> timeval" where
  "gettimeofday timeval c s =
     (let boot_unix_epoch_seconds = cmos_get_boot_unix_epoch_secs c;
          milliseconds_since_boot = apic_get_system_milliseconds_uptime s
      in (0, timeval\<lparr>tv_sec := boot_unix_epoch_seconds + milliseconds_since_boot div 1000,
                     tv_usec := milliseconds_since_boot mod 1000 * 1000\<rparr>))"

section \<open>Routing of legacy interrupts\<close>

text \<open>
  The documented behaviour of an I/O APIC at a base address: the register selected by a write to
  the base is read and written through the window behind it, and nothing else changes a register.
\<close>

definition ioapic_device :: "'d hw \<Rightarrow> u64 \<Rightarrow> ('d \<Rightarrow> u32 \<Rightarrow> u32) \<Rightarrow> bool" where
  "ioapic_device hw base regs \<longleftrightarrow>
     (\<forall>d i. fst (hw_read32 hw (base + 16) (hw_write32 hw base i d)) = regs d i) \<and>
     (\<forall>d. regs (snd (hw_read32 hw (base + 16) d)) = regs d) \<and>
     (\<forall>d i. regs (hw_write32 hw base i d) = regs d) \<and>
     (\<forall>d i v. regs (hw_write32 hw (base + 16) v (hw_write32 hw base i d)) = (regs d)(i := v))"

definition redirection_entry :: "(u32 \<Rightarrow> u32) \<Rightarrow> u64 \<Rightarrow> u64" where
  "redirection_entry regs pin =
     ucast (regs (ucast (0x10 + 2 * pin))) OR push_bit 32 (ucast (regs (ucast (0x11 + 2 * pin))))"

lemma redirection_index:
  fixes pin :: u64
  assumes "pin < 0x40000000"
  shows "unat (ucast (0x10 + 2 * pin) :: u32) = 16 + 2 * unat pin"
    "unat (ucast (0x11 + 2 * pin) :: u32) = 17 + 2 * unat pin"
proof -
  have "unat pin < 0x40000000" using assms by (simp add: word_less_nat_alt)
  moreover from this have "unat (2 * pin) = 2 * unat pin" using unat_mult_if_fits[of 2 pin] by simp
  ultimately have "unat (0x10 + 2 * pin) = 16 + 2 * unat pin" "unat (0x11 + 2 * pin) = 17 + 2 * unat pin"
    "unat pin < 0x40000000"
    using unat_add_if_fits[of "0x10" "2 * pin"] unat_add_if_fits[of "0x11" "2 * pin"] by simp_all
  then show "unat (ucast (0x10 + 2 * pin) :: u32) = 16 + 2 * unat pin"
    "unat (ucast (0x11 + 2 * pin) :: u32) = 17 + 2 * unat pin"
    by (simp_all add: unsigned_ucast_eq take_bit_nat_eq_self)
qed

lemma read_ioapic:
  assumes "ioapic_device hw (g_io_apic_base s) regs"
  shows "\<exists>d'. read_ioapic_redirection_entry hw pin s d = (redirection_entry (regs d) pin, d') \<and> regs d' = regs d"
  using assms
  by (simp add: ioapic_device_def read_ioapic_redirection_entry_def redirection_entry_def split_beta Let_def
      GET_APIC_REDIRECTION_ENTRY_INDEX_def mult.commute add.commute add.left_commute)

lemma write_ioapic:
  assumes "ioapic_device hw (g_io_apic_base s) regs"
  shows "regs (write_ioapic_redirection_entry hw e pin s d) =
    (regs d)(ucast (0x10 + 2 * pin) := ucast e, ucast (0x11 + 2 * pin) := ucast (drop_bit 32 e))"
  using assms
  by (simp add: ioapic_device_def write_ioapic_redirection_entry_def Let_def
      GET_APIC_REDIRECTION_ENTRY_INDEX_def mult.commute add.commute add.left_commute)

lemma redirection_entry_update:
  assumes "pin < 0x40000000" "q < 0x40000000"
  shows "redirection_entry (regs(ucast (0x10 + 2 * pin) := ucast e, ucast (0x11 + 2 * pin) := ucast (drop_bit 32 e))) q =
    (if q = pin then e else redirection_entry regs q)"
proof -
  have ne: "(ucast (0x10 + 2 * q) :: u32) \<noteq> ucast (0x11 + 2 * pin)" "(ucast (0x11 + 2 * q) :: u32) \<noteq> ucast (0x10 + 2 * pin)"
  proof -
    have "16 + 2 * unat q \<noteq> 17 + 2 * unat pin" "17 + 2 * unat q \<noteq> 16 + 2 * unat pin" by presburger+
    then show "(ucast (0x10 + 2 * q) :: u32) \<noteq> ucast (0x11 + 2 * pin)" "(ucast (0x11 + 2 * q) :: u32) \<noteq> ucast (0x10 + 2 * pin)"
      using redirection_index[OF assms(1)] redirection_index[OF assms(2)] by (metis)+
  qed
  show ?thesis
  proof (cases "q = pin")
    case True
    then show ?thesis using ne join_halves[of e] by (simp add: redirection_entry_def or.commute)
  next
    case False
    then have "unat q \<noteq> unat pin" by (simp add: word_unat_eq_iff)
    then have "(ucast (0x10 + 2 * q) :: u32) \<noteq> ucast (0x10 + 2 * pin)" "(ucast (0x11 + 2 * q) :: u32) \<noteq> ucast (0x11 + 2 * pin)"
      using redirection_index[OF assms(1)] redirection_index[OF assms(2)] by (metis add_left_cancel mult_left_cancel zero_neq_numeral)+
    then show ?thesis using ne False by (simp add: redirection_entry_def)
  qed
qed

definition routed_entry :: "u64 \<Rightarrow> u64 \<Rightarrow> u64" where
  "routed_entry v e = are_set_vector v (are_set_destination 0 (are_clear_mask e))"

lemma bit_routed_entry:
  assumes "n < 64"
  shows "bit (routed_entry v e) n = (if n < 8 then bit v n else n \<noteq> 16 \<and> n < 56 \<and> bit e n)"
proof -
  have m: "(0xFF :: u64) = mask 8" by (simp add: mask_eq_exp_minus_1)
  show ?thesis using assms
    by (auto simp: routed_entry_def are_set_vector_def are_set_destination_def are_clear_mask_def m bit_simps)
qed


text \<open>An I/O APIC at 0xFEC00000 with a selected register and its registers, and a kernel state for it.\<close>

definition ioapic_demo :: "(u32 \<times> (u32 \<Rightarrow> u32)) hw" where
  "ioapic_demo = \<lparr>hw_inb = (\<lambda>port d. (0, d)), hw_outb = (\<lambda>port v d. d), hw_inw = (\<lambda>port d. (0, d)),
     hw_outw = (\<lambda>port v d. d),
     hw_read32 = (\<lambda>a (i, r). (if a = 0xFEC00010 then r i else 0, (i, r))),
     hw_write32 = (\<lambda>a v (i, r). if a = 0xFEC00000 then (v, r) else if a = 0xFEC00010 then (i, r(i := v)) else (i, r))\<rparr>"

definition apic_demo :: apic_state where
  "apic_demo = \<lparr>g_bitmap = \<lparr>bit_count = 0, bitmap = []\<rparr>, pmm_hhdm_offset = 0, kmem = (\<lambda>_. 0),
     vmm_hhdm_offset = 0, cr3 = 0, g_acpi_init = True, g_rsdt = 0x1000, g_is_xsdt = False,
     g_is_initialized = True, g_madt_header = 0x1028, g_io_apic_addr = 0xFEC00000,
     g_lapic_addr = 0xFEE00000, g_legacy_interrupt_source_override = 2 # replicate 15 (-1),
     g_io_apic_base = 0xFEC00000, g_lapic_base = 0xFEE00000, g_lapic_timer_handler = 0x400,
     g_system_lapic_timer_uptimer = 0\<rparr>"


section \<open>The timer\<close>

primrec timer_ticks ::
  "'d hw \<Rightarrow> (u64 \<Rightarrow> ('d, 'a apic_state_scheme) irq_run \<Rightarrow> ('d, 'a apic_state_scheme) irq_run kres) \<Rightarrow>
   nat \<Rightarrow> ('d, 'a apic_state_scheme) irq_run \<Rightarrow> ('d, 'a apic_state_scheme) irq_run kres" where
  "timer_ticks hw call 0 r = Inr r"
| "timer_ticks hw call (Suc k) r = kbind (timer_ticks hw call k r) (lapic_timer_handler hw call)"

lemma apic_send_eoi_uptime [simp]:
  "apic_send_eoi hw (s\<lparr>g_system_lapic_timer_uptimer := u\<rparr>) = apic_send_eoi hw s"
  by (simp add: apic_send_eoi_def write_lapic_register_def fun_eq_iff)

lemma quiet_ticks:
  assumes "g_system_lapic_timer_uptimer s = word_of_nat u" "35 dvd u" "u + 35 < 2 ^ 64" "k < 35"
  shows "timer_ticks hw call k (state, d, s) =
    Inr (state, (apic_send_eoi hw s ^^ k) d, s\<lparr>g_system_lapic_timer_uptimer := word_of_nat (u + k)\<rparr>)"
  using assms(4)
proof (induction k)
  case 0
  then show ?case using assms(1) by simp
next
  case (Suc k)
  have "unat (word_of_nat (u + Suc k) :: u64) = u + Suc k"
    using assms(3) Suc.prems by (simp only: unat_of_nat) simp
  then have "unat (word_of_nat (u + Suc k) mod 35 :: u64) = (u + Suc k) mod 35"
    by (simp only: unat_mod_distrib) simp
  also have "\<dots> = Suc k" using assms(2) Suc.prems by (elim dvdE) (simp del: add_Suc_right)
  finally have "(word_of_nat (u + Suc k) :: u64) mod 35 \<noteq> 0"
    by (metis unat_0 nat.distinct(1))
  moreover have "(1 :: u64) + word_of_nat u + word_of_nat k = word_of_nat (u + Suc k)" by simp
  ultimately show ?case using Suc by (simp add: lapic_timer_handler_def Let_def add.commute add.left_commute)
qed

lemma calling_tick:
  assumes "g_lapic_timer_handler s \<noteq> 0" "g_system_lapic_timer_uptimer s + 1 = v" "v mod 35 = 0"
  shows "lapic_timer_handler hw call (state, d, s) =
    kbind (call (g_lapic_timer_handler s) (state, d, s\<lparr>g_system_lapic_timer_uptimer := v\<rparr>))
      (\<lambda>(state, d, s). Inr (state, apic_send_eoi hw s d, s))"
  using assms by (simp add: lapic_timer_handler_def)

text \<open>
  C36: the timer handler the process manager installs is called exactly once in every 35 timer
  interrupts: starting where the tick count is a multiple of 35, 34 interrupts only count and
  acknowledge, and the 35th calls the handler with the unchanged interrupt frame and then
  acknowledges too.
\<close>

theorem timer_handler_every_35_ticks:
  assumes "g_system_lapic_timer_uptimer s = word_of_nat u" "35 dvd u" "u + 35 < 2 ^ 64" "g_lapic_timer_handler s \<noteq> 0"
  shows "timer_ticks hw call 35 (state, d, s) =
    kbind (call (g_lapic_timer_handler s) (state, (apic_send_eoi hw s ^^ 34) d,
      s\<lparr>g_system_lapic_timer_uptimer := word_of_nat (u + 35)\<rparr>))
      (\<lambda>(state, d, s). Inr (state, apic_send_eoi hw s d, s))"
proof -
  have "unat (word_of_nat (u + 35) :: u64) = u + 35"
    using assms(3) by (simp only: unat_of_nat) simp
  then have "unat (word_of_nat (u + 35) mod 35 :: u64) = (u + 35) mod 35"
    by (simp only: unat_mod_distrib) simp
  also have "\<dots> = 0" using assms(2) by (simp add: dvd_eq_mod_eq_0)
  finally have m: "(word_of_nat (u + 35) :: u64) mod 35 = 0" by (simp add: word_unat_eq_iff)
  have "timer_ticks hw call (Suc 34) (state, d, s) = kbind (timer_ticks hw call 34 (state, d, s)) (lapic_timer_handler hw call)"
    by (simp only: timer_ticks.simps)
  also have "\<dots> = lapic_timer_handler hw call (state, (apic_send_eoi hw s ^^ 34) d,
      s\<lparr>g_system_lapic_timer_uptimer := word_of_nat (u + 34)\<rparr>)"
    using quiet_ticks[OF assms(1-3), of 34 hw call state d] by (simp del: of_nat_add)
  also have "\<dots> = kbind (call (g_lapic_timer_handler s) (state, (apic_send_eoi hw s ^^ 34) d,
      s\<lparr>g_system_lapic_timer_uptimer := word_of_nat (u + 35)\<rparr>))
      (\<lambda>(state, d, s). Inr (state, apic_send_eoi hw s d, s))"
    using assms(4) m by (subst calling_tick[where v = "word_of_nat (u + 35)"]) simp_all
  finally show ?thesis by simp
qed

theorem timer_handler_every_35_ticks_witness:
  "\<exists>d s. timer_ticks ioapic_demo (\<lambda>h (state, d, s). Inr (state\<lparr>ii_rip := h\<rparr>, d, s)) 35
      (\<lparr>ii_rax = 0, ii_rbx = 0, ii_rcx = 0, ii_rdx = 0, ii_rsi = 0, ii_rdi = 0, ii_rbp = 0, ii_r8 = 0,
        ii_r9 = 0, ii_r10 = 0, ii_r11 = 0, ii_r12 = 0, ii_r13 = 0, ii_r14 = 0, ii_r15 = 0,
        ii_interrupt_index = 32, ii_potential_error_code = 0, ii_rip = 0x1000, ii_code_segment = 8,
        ii_rflags = 0x202, ii_original_rsp = 0x8000, ii_stack_segment = 16\<rparr>, (0, \<lambda>_. 0), apic_demo) =
    Inr (\<lparr>ii_rax = 0, ii_rbx = 0, ii_rcx = 0, ii_rdx = 0, ii_rsi = 0, ii_rdi = 0, ii_rbp = 0, ii_r8 = 0,
        ii_r9 = 0, ii_r10 = 0, ii_r11 = 0, ii_r12 = 0, ii_r13 = 0, ii_r14 = 0, ii_r15 = 0,
        ii_interrupt_index = 32, ii_potential_error_code = 0, ii_rip = 0x400, ii_code_segment = 8,
        ii_rflags = 0x202, ii_original_rsp = 0x8000, ii_stack_segment = 16\<rparr>, d, s)"
proof -
  have "g_system_lapic_timer_uptimer apic_demo = word_of_nat 0" "g_lapic_timer_handler apic_demo = 0x400"
    by (simp_all add: apic_demo_def)
  then show ?thesis by (subst timer_handler_every_35_ticks[of _ 0]) simp_all
qed

section \<open>Time of day\<close>



end
