(* ===== verification/Char_Device.thy ===== *)
theory Char_Device
  imports Kernel_Heap C_Strings
begin

text \<open>
  Character devices, drivers/char\_device.c and char\_device.h. A device is its name, capabilities
  and private data; the function pointers of a device are determined by what it is, so the private
  data of a device names it: one of the four hardware devices, a multiwrite device over others or
  a duplex device. What the hardware devices do on a read and a write is an argument. The
  structures are allocated with kmalloc from the heap, their contents are values of the model.
\<close>

abbreviation (input) "CDC_NO_CAPABILITIES \<equiv> (0 :: u32)"
abbreviation (input) "CDC_READ_CAPABILITY \<equiv> (1 :: u32)"
abbreviation (input) "CDC_WRITE_CAPABILITY \<equiv> (2 :: u32)"
abbreviation (input) "CHAR_DEVICE_NAME_LEN \<equiv> 100"
abbreviation (input) "SIZEOF_char_device \<equiv> (136 :: u64)"

datatype leaf_device = Com1 | Vga_text | Framebuffer_print | Ps2_keyboard

datatype char_device = Char_device (cd_name: "u8 list") (cd_capabilities: u32) (cd_private_data: dev_data)
  and dev_data = Leaf_dev leaf_device | Multiwrite_dev "char_device list" | Duplex_dev char_device char_device

text \<open>Whether the write pointer of a device is set.\<close>

fun has_write :: "char_device \<Rightarrow> bool" where
  "has_write d = True"

fun has_read :: "char_device \<Rightarrow> bool" where
  "has_read (Char_device _ _ (Multiwrite_dev _)) = False"
| "has_read _ = True"

definition setup_device_name :: "u8 list \<Rightarrow> u8 list \<Rightarrow> u8 list kres" where
  "setup_device_name device_name name =
     kbind (strlen name) (\<lambda>name_len.
     let name_len = (if name_len \<ge> CHAR_DEVICE_NAME_LEN then CHAR_DEVICE_NAME_LEN - 1 else name_len);
         device_name = take (unat name_len) name @ drop (unat name_len) device_name
     in arr_set device_name (unat name_len) 0)"

text \<open>\<open>old\<close> is what the fresh memory holds where the name will be.\<close>

definition char_dev_create_multiwrite_dev ::
  "u8 list \<Rightarrow> u8 list \<Rightarrow> char_device list \<Rightarrow> 'a heap_state_scheme \<Rightarrow>
   (char_device option \<times> 'a heap_state_scheme) kres" where
  "char_dev_create_multiwrite_dev old name devices s =
     (if list_ex (\<lambda>d. \<not> has_write d \<or> cd_capabilities d AND CDC_WRITE_CAPABILITY = 0) devices
      then Inr (None, s)
      else kbind (kmalloc SIZEOF_char_device s) (\<lambda>(_, s).
           kbind (kmalloc 16 s) (\<lambda>(_, s).
           kbind (setup_device_name old name) (\<lambda>device_name.
           Inr (Some (Char_device device_name CDC_WRITE_CAPABILITY (Multiwrite_dev devices)), s)))))"

definition char_dev_create_duplex ::
  "u8 list \<Rightarrow> u8 list \<Rightarrow> char_device option \<Rightarrow> char_device option \<Rightarrow> 'a heap_state_scheme \<Rightarrow>
   (char_device option \<times> 'a heap_state_scheme) kres" where
  "char_dev_create_duplex old name read_dev write_dev s =
     (case (read_dev, write_dev) of
        (Some r, Some w) \<Rightarrow>
          if cd_capabilities r AND CDC_READ_CAPABILITY = 0 \<or> cd_capabilities w AND CDC_WRITE_CAPABILITY = 0
          then Inr (None, s)
          else kbind (kmalloc 16 s) (\<lambda>(_, s).
               kbind (kmalloc SIZEOF_char_device s) (\<lambda>(_, s).
               kbind (setup_device_name old name) (\<lambda>device_name.
               Inr (Some (Char_device device_name (CDC_WRITE_CAPABILITY OR CDC_READ_CAPABILITY)
                      (Duplex_dev r w)), s))))
      | _ \<Rightarrow> Inr (None, s))"

text \<open>Writing to a device: duplex\_device\_write, multiwrite\_dev\_write and its loop.\<close>

fun char_dev_write ::
    "(leaf_device \<Rightarrow> u8 list \<Rightarrow> 'w \<Rightarrow> (int \<times> 'w) kres) \<Rightarrow> char_device \<Rightarrow> u8 list \<Rightarrow> 'w \<Rightarrow> (int \<times> 'w) kres"
  and multiwrite_loop ::
    "(leaf_device \<Rightarrow> u8 list \<Rightarrow> 'w \<Rightarrow> (int \<times> 'w) kres) \<Rightarrow> char_device list \<Rightarrow> u8 list \<Rightarrow> 'w \<Rightarrow> 'w kres" where
  "char_dev_write dev (Char_device n c (Leaf_dev l)) buffer w = dev l buffer w"
| "char_dev_write dev (Char_device n c (Multiwrite_dev ds)) buffer w =
     kbind (multiwrite_loop dev ds buffer w) (\<lambda>w. Inr (int (length buffer), w))"
| "char_dev_write dev (Char_device n c (Duplex_dev r wd)) buffer w = char_dev_write dev wd buffer w"
| "multiwrite_loop dev [] buffer w = Inr w"
| "multiwrite_loop dev (d # ds) buffer w =
     kbind (char_dev_write dev d buffer w) (\<lambda>(_, w). multiwrite_loop dev ds buffer w)"

text \<open>Reading: a multiwrite device has no read function.\<close>

fun char_dev_read ::
  "(leaf_device \<Rightarrow> u64 \<Rightarrow> 'w \<Rightarrow> (int \<times> u8 list \<times> 'w) kres) \<Rightarrow> char_device \<Rightarrow> u64 \<Rightarrow> 'w \<Rightarrow>
   (int \<times> u8 list \<times> 'w) kres" where
  "char_dev_read dev (Char_device n c (Leaf_dev l)) sz w = dev l sz w"
| "char_dev_read dev (Char_device n c (Multiwrite_dev ds)) sz w = Inl Fault"
| "char_dev_read dev (Char_device n c (Duplex_dev r wd)) sz w = char_dev_read dev r sz w"

section \<open>Which hardware devices a write reaches\<close>

fun leaves :: "char_device \<Rightarrow> leaf_device list" and leaves_all :: "char_device list \<Rightarrow> leaf_device list" where
  "leaves (Char_device n c (Leaf_dev l)) = [l]"
| "leaves (Char_device n c (Multiwrite_dev ds)) = leaves_all ds"
| "leaves (Char_device n c (Duplex_dev r w)) = leaves w"
| "leaves_all [] = []"
| "leaves_all (d # ds) = leaves d @ leaves_all ds"

fun write_leaves ::
  "(leaf_device \<Rightarrow> u8 list \<Rightarrow> 'w \<Rightarrow> (int \<times> 'w) kres) \<Rightarrow> leaf_device list \<Rightarrow> u8 list \<Rightarrow> 'w \<Rightarrow> 'w kres" where
  "write_leaves dev [] buffer w = Inr w"
| "write_leaves dev (l # ls) buffer w = kbind (dev l buffer w) (\<lambda>(_, w). write_leaves dev ls buffer w)"

lemma write_leaves_append:
  "write_leaves dev (xs @ ys) buffer w = kbind (write_leaves dev xs buffer w) (write_leaves dev ys buffer)"
proof (induction xs arbitrary: w)
  case (Cons l xs)
  then show ?case by (cases "dev l buffer w") auto
qed simp

lemma write_reaches_leaves:
  "kbind (char_dev_write dev d buffer w) (\<lambda>(_, w). Inr w) = write_leaves dev (leaves d) buffer w"
  "multiwrite_loop dev ds buffer w = write_leaves dev (leaves_all ds) buffer w"
proof (induction dev d buffer w and dev ds buffer w rule: char_dev_write_multiwrite_loop.induct)
  case (1 dev n c l buffer w)
  then show ?case by (cases "dev l buffer w") auto
next
  case (2 dev n c ds buffer w)
  then show ?case by (simp add: kbind_assoc)
next
  case (5 dev d ds buffer w)
  show ?case
  proof (cases "char_dev_write dev d buffer w")
    case (Inl e)
    then have "write_leaves dev (leaves d) buffer w = Inl e" using 5(1) by simp
    then show ?thesis using Inl by (simp add: write_leaves_append)
  next
    case (Inr r)
    obtain n w1 where r: "r = (n, w1)" by (cases r)
    then have "write_leaves dev (leaves d) buffer w = Inr w1" using 5(1) Inr by simp
    then show ?thesis using Inr r 5(2) by (simp add: write_leaves_append)
  qed
qed auto

section \<open>Device names\<close>

text \<open>
  A device name fits its 100-byte field with its terminator whatever the length of the given
  name: the field holds a string, the first 99 characters of the name.
\<close>

theorem setup_device_name_terminated:
  assumes "length old = 100" "0 \<notin> set text" "length text < 2 ^ 31"
  shows "\<exists>n. setup_device_name old (text @ 0 # rest) = Inr n \<and> length n = 100 \<and>
    take (min (length text) 99) n = take 99 text \<and> n ! min (length text) 99 = 0 \<and>
    strlen n = Inr (word_of_nat (min (length text) 99))"
proof -
  let ?k = "min (length text) 99"
  let ?len = "word_of_nat (length text) :: u64"
  have l: "strlen (text @ 0 # rest) = Inr ?len" using assms strlen_text by simp
  have u: "unat ?len = length text" using assms(3) by (simp add: unat_of_nat)
  have k: "unat (if ?len \<ge> 100 then 100 - 1 else ?len) = ?k"
    using u by (auto simp: word_le_nat_alt)
  let ?n = "(take ?k (text @ 0 # rest) @ drop ?k old)[?k := 0]"
  have "setup_device_name old (text @ 0 # rest) = Inr ?n"
    unfolding setup_device_name_def l kbind_simps Let_def k using assms(1) by (simp add: arr_set_def min_def)
  moreover have n: "?n = take 99 text @ 0 # drop (Suc ?k) old"
    using assms(1) by (cases "length text \<le> 99")
      (auto simp: list_update_append min_def Cons_nth_drop_Suc[symmetric])
  moreover have "0 \<notin> set (take 99 text)" using assms(2) by (auto dest: in_set_takeD)
  then have "strlen ?n = Inr (word_of_nat ?k)" unfolding n
    using assms strlen_text[of "take 99 text" "drop (Suc ?k) old"] by simp
  ultimately show ?thesis using assms(1) by (intro exI[of _ ?n]) (auto simp: nth_append min_def)
qed

theorem setup_device_name_terminated_witness:
  "\<exists>n. setup_device_name (replicate 100 0xAA) (replicate 120 0x61 @ 0 # []) = Inr n \<and> strlen n = Inr 99"
  using setup_device_name_terminated[of "replicate 100 0xAA" "replicate 120 0x61" "[]"] by auto

end
