(* ===== verification/Serial.thy ===== *)
theory Serial
  imports Char_Device Hardware
begin

text \<open>
  The serial port, drivers/serial/serial.c. Transmitting a byte waits until the transmitter is
  empty, which the port may never become; then the write hangs.
\<close>

abbreviation (input) "PORT \<equiv> (0x3f8 :: u16)"

text \<open>The string literal com1 with its terminator.\<close>

definition com1_name :: "u8 list" where
  "com1_name = [0x63, 0x6F, 0x6D, 0x31, 0]"

record serial_state =
  com1_is_initialized :: bool

definition init_com1 :: "'d hw \<Rightarrow> 'd \<Rightarrow> int \<times> 'd" where
  "init_com1 hw d =
     (let d = outb hw (PORT + 1) 0x00 d;
          d = outb hw (PORT + 3) 0x80 d;
          d = outb hw (PORT + 0) 0x03 d;
          d = outb hw (PORT + 1) 0x00 d;
          d = outb hw (PORT + 3) 0x03 d;
          d = outb hw (PORT + 2) 0xC7 d;
          d = outb hw (PORT + 4) 0x0B d;
          d = outb hw (PORT + 4) 0x1E d;
          d = outb hw (PORT + 0) 0xAE d;
          (v, d) = inb hw (PORT + 0) d
      in if v \<noteq> 0xAE then (-1, d) else (0, outb hw (PORT + 4) 0x0F d))"

definition serial_com1_init ::
  "'d hw \<Rightarrow> 'd \<Rightarrow> 'a serial_state_scheme \<Rightarrow> char_device option \<times> 'd \<times> 'a serial_state_scheme" where
  "serial_com1_init hw d s =
     (let dev = Char_device (com1_name @ replicate 95 0) CDC_WRITE_CAPABILITY (Leaf_dev Com1)
      in if com1_is_initialized s then (Some dev, d, s)
         else
           let s = s\<lparr>com1_is_initialized := True\<rparr>;
               (r, d) = init_com1 hw d
           in if r = -1 then (None, d, s) else (Some dev, d, s))"

definition com1_read :: "u64 \<Rightarrow> int" where
  "com1_read sz = -1"

definition com1_ioctl :: "u32 \<Rightarrow> u64 \<Rightarrow> int" where
  "com1_ioctl command arg = 0"

text \<open>is\_transmit\_empty is the condition of the wait loop of transmit\_char.\<close>

definition is_transmit_empty :: "u8 \<Rightarrow> bool" where
  "is_transmit_empty status \<longleftrightarrow> status AND 0x20 \<noteq> 0"

definition transmit_char :: "'d hw \<Rightarrow> u8 \<Rightarrow> 'd \<Rightarrow> 'd kres" where
  "transmit_char hw chr d =
     kbind (await_port hw (PORT + 5) is_transmit_empty d) (\<lambda>d. Inr (outb hw PORT chr d))"

fun com1_write_loop :: "'d hw \<Rightarrow> u8 list \<Rightarrow> 'd \<Rightarrow> 'd kres" where
  "com1_write_loop hw [] d = Inr d"
| "com1_write_loop hw (c # cs) d = kbind (transmit_char hw c d) (com1_write_loop hw cs)"

definition com1_write :: "'d hw \<Rightarrow> u8 list \<Rightarrow> 'd \<Rightarrow> (int \<times> 'd) kres" where
  "com1_write hw buffer d = kbind (com1_write_loop hw buffer d) (\<lambda>d. Inr (int (length buffer), d))"

section \<open>All bytes are sent\<close>

text \<open>
  The documented behaviour of the port: reading the line status loses no sent byte, writing the
  data register sends the byte, and the transmitter becomes empty again after finitely many reads
  of the line status.
\<close>

definition uart_device :: "'d hw \<Rightarrow> ('d \<Rightarrow> u8 list) \<Rightarrow> bool" where
  "uart_device hw sent \<longleftrightarrow>
     (\<forall>d. sent (snd (inb hw (PORT + 5) d)) = sent d) \<and>
     (\<forall>d c. sent (outb hw PORT c d) = sent d @ [c]) \<and>
     (\<forall>d. \<exists>k. is_transmit_empty (fst (inb hw (PORT + 5) (port_after hw (PORT + 5) k d))))"

lemma sent_port_after:
  "uart_device hw sent \<Longrightarrow> sent (port_after hw (PORT + 5) k d) = sent d"
  by (induction k arbitrary: d) (simp_all add: uart_device_def)

lemma transmit_char_sends:
  assumes "uart_device hw sent"
  shows "\<exists>d'. transmit_char hw c d = Inr d' \<and> sent d' = sent d @ [c]"
proof -
  obtain k where "is_transmit_empty (fst (inb hw (PORT + 5) (port_after hw (PORT + 5) k d)))"
    using assms unfolding uart_device_def by blast
  then obtain j where "await_port hw (PORT + 5) is_transmit_empty d = Inr (port_after hw (PORT + 5) (Suc j) d)"
    using await_port_ends[of is_transmit_empty hw "PORT + 5" k d] by blast
  then show ?thesis using assms sent_port_after[OF assms, of "Suc j" d]
    by (simp add: transmit_char_def uart_device_def)
qed

lemma com1_write_loop_sends:
  "uart_device hw sent \<Longrightarrow> \<exists>d'. com1_write_loop hw cs d = Inr d' \<and> sent d' = sent d @ cs"
proof (induction cs arbitrary: d)
  case (Cons c cs)
  obtain d1 where "transmit_char hw c d = Inr d1" "sent d1 = sent d @ [c]"
    using transmit_char_sends[OF Cons.prems] by blast
  then show ?case using Cons.IH[OF Cons.prems, of d1] by auto
qed simp


text \<open>A port that is busy for two status reads after each byte: its state is the delay and what was sent.\<close>

definition slow_uart :: "(nat \<times> u8 list) hw" where
  "slow_uart = \<lparr>hw_inb = (\<lambda>port (k, out). (if k = 0 then 0x20 else 0, (k - 1, out))),
     hw_outb = (\<lambda>port v (k, out). if port = PORT then (2, out @ [v]) else (k, out)),
     hw_inw = (\<lambda>port d. (0, d)), hw_outw = (\<lambda>port v d. d), hw_read32 = (\<lambda>a d. (0, d)),
     hw_write32 = (\<lambda>a v d. d)\<rparr>"

lemma slow_uart_device: "uart_device slow_uart snd"
proof -
  have "port_after slow_uart (PORT + 5) k (k, out) = (0, out)" for k out
    by (induction k) (simp_all add: slow_uart_def inb_def)
  then have "is_transmit_empty (fst (inb slow_uart (PORT + 5) (port_after slow_uart (PORT + 5) (fst d) d)))" for d
    by (cases d) (simp add: slow_uart_def inb_def is_transmit_empty_def)
  moreover have "snd (snd (inb slow_uart (PORT + 5) d)) = snd d" for d
    by (cases d) (simp add: slow_uart_def inb_def)
  moreover have "snd (outb slow_uart PORT c d) = snd d @ [c]" for c d
    by (cases d) (simp add: slow_uart_def outb_def)
  ultimately show ?thesis unfolding uart_device_def by blast
qed


end
