(* ===== verification/Vga_Text.thy ===== *)
theory Vga_Text
  imports Char_Device Hardware
begin

text \<open>
  The VGA text console, drivers/vga\_text/vga\_text\_ch\_device.c. The screen is the byte memory at
  0xB8000, two bytes for each of the 25 times 80 cells. The cursor index of a write is 16 bits wide
  and wraps. The lemmas show that text without backspaces stays on the screen, and what a backspace
  in the first cell does.
\<close>

abbreviation (input) "VGA_WIDTH \<equiv> 80"
abbreviation (input) "VGA_HEIGHT \<equiv> 25"
abbreviation (input) "VGA_MEMORY \<equiv> (0xB8000 :: u64)"
abbreviation (input) "VGA_LAST_MEMORY_ADDRESS \<equiv> (0xB8000 + VGA_WIDTH * VGA_HEIGHT * 2 :: u64)"
abbreviation (input) "VGA_EMPTY_CELL \<equiv> (0x0a20 :: u16)"
abbreviation (input) "NEW_LINE \<equiv> (10 :: u8)"
abbreviation (input) "BACK_SPACE \<equiv> (8 :: u8)"

record vga_data =
  vga_width :: u64
  vga_height :: u64
  starting_vga_memory_addr :: u64
  final_vga_memory_addr :: u64
  cursor_position :: u64
  max_cursor_position :: u64

record vga_state =
  vga_is_initialized :: bool
  g_vga_data :: vga_data
  global_cursor_position :: u64

definition position_to_coordinates :: "u8 \<Rightarrow> u8 \<Rightarrow> u16" where
  "position_to_coordinates x y = word_of_int (uint y * VGA_WIDTH + uint x)"

definition set_cursor_position ::
  "'d hw \<Rightarrow> u16 \<Rightarrow> 'd \<Rightarrow> 'a vga_state_scheme \<Rightarrow> 'd \<times> 'a vga_state_scheme" where
  "set_cursor_position hw position d s =
     (let d = outb hw (io_port IO_VGA_REGISTER_PORT) 0x0F d;
          d = outb hw (io_port IO_VGA_DATA_PORT) (ucast (position AND 0xFF)) d;
          d = outb hw (io_port IO_VGA_REGISTER_PORT) 0x0E d;
          d = outb hw (io_port IO_VGA_DATA_PORT) (ucast (drop_bit 8 position AND 0xFF)) d
      in (d, s\<lparr>global_cursor_position := ucast position\<rparr>))"

text \<open>The offset is a 32-bit product.\<close>

definition output_char :: "u8 \<Rightarrow> u64 \<Rightarrow> u32 \<Rightarrow> mem \<Rightarrow> mem" where
  "output_char output_ch starting_vga_mem offset m =
     m(starting_vga_mem + ucast (offset * 2) := output_ch)"

partial_function (option) cls_loop :: "u64 \<Rightarrow> u64 \<Rightarrow> mem \<Rightarrow> mem option" where
  "cls_loop final ptr m =
     (if ptr \<noteq> final then cls_loop final (ptr + 2) (write16 m ptr VGA_EMPTY_CELL) else Some m)"

definition cls :: "vga_data \<Rightarrow> mem \<Rightarrow> (vga_data \<times> mem) kres" where
  "cls v m =
     (let v = v\<lparr>cursor_position := 0\<rparr>
      in case cls_loop (final_vga_memory_addr v) (starting_vga_memory_addr v) m of
           None \<Rightarrow> Inl Hang | Some m \<Rightarrow> Inr (v, m))"

definition slide_window :: "vga_data \<Rightarrow> mem \<Rightarrow> mem kres" where
  "slide_window v m =
     (let row_size = vga_width v * 2
      in kbind (for_loop 0 (vga_height v - 1) (\<lambda>i m.
             let dst = starting_vga_memory_addr v + i * row_size;
                 src = starting_vga_memory_addr v + (i + 1) * row_size
             in Inr (memcpy dst src row_size m)) m) (\<lambda>m.
         let last_line = starting_vga_memory_addr v + (vga_height v - 1) * row_size
         in for_loop 0 (vga_width v) (\<lambda>i m. Inr (write16 m (last_line + i * 2) VGA_EMPTY_CELL)) m))"

text \<open>One round of the loop of vga\_text\_write.\<close>

definition vga_text_char :: "vga_data \<Rightarrow> u8 \<Rightarrow> u16 \<times> mem \<Rightarrow> (u16 \<times> mem) kres" where
  "vga_text_char v c = (\<lambda>(curr_cursor_index, m).
     kbind (if ucast curr_cursor_index \<ge> max_cursor_position v
            then kbind (slide_window v m) (\<lambda>m. Inr (curr_cursor_index - ucast (vga_width v), m))
            else Inr (curr_cursor_index, m)) (\<lambda>(curr_cursor_index, m).
     let (curr_cursor_index, m) =
           (if c = NEW_LINE
            then let curr_cursor_index = curr_cursor_index + ucast (vga_width v)
                 in (curr_cursor_index - ucast (ucast curr_cursor_index mod vga_width v + 1), m)
            else if c = BACK_SPACE
            then let curr_cursor_index = curr_cursor_index - 1;
                     m = output_char 32 VGA_MEMORY (ucast curr_cursor_index) m
                 in (curr_cursor_index - 1, m)
            else (curr_cursor_index, output_char c VGA_MEMORY (ucast curr_cursor_index) m))
     in Inr (curr_cursor_index + 1, m)))"

fun vga_text_loop :: "vga_data \<Rightarrow> u8 list \<Rightarrow> u16 \<times> mem \<Rightarrow> (u16 \<times> mem) kres" where
  "vga_text_loop v [] r = Inr r"
| "vga_text_loop v (c # cs) r = kbind (vga_text_char v c r) (vga_text_loop v cs)"

definition vga_text_write ::
  "'d hw \<Rightarrow> u8 list \<Rightarrow> 'd \<times> mem \<times> 'a vga_state_scheme \<Rightarrow> (int \<times> 'd \<times> mem \<times> 'a vga_state_scheme) kres" where
  "vga_text_write hw buffer = (\<lambda>(d, m, s).
     kbind (vga_text_loop (g_vga_data s) buffer (ucast (cursor_position (g_vga_data s)), m))
       (\<lambda>(curr_cursor_index, m).
     let s = s\<lparr>g_vga_data := (g_vga_data s)\<lparr>cursor_position := ucast curr_cursor_index\<rparr>\<rparr>;
         (d, s) = set_cursor_position hw curr_cursor_index d s
     in Inr (int (length buffer), d, m, s)))"

definition vga_text_read :: "u64 \<Rightarrow> int" where "vga_text_read sz = -1"
definition vga_text_ioctl :: "u32 \<Rightarrow> u64 \<Rightarrow> int" where "vga_text_ioctl command arg = 0"

text \<open>The string literal vga\_text with its terminator.\<close>

definition vga_text_name :: "u8 list" where
  "vga_text_name = [0x76, 0x67, 0x61, 0x5F, 0x74, 0x65, 0x78, 0x74, 0]"

definition vga_text_init ::
  "'d hw \<Rightarrow> 'd \<times> mem \<times> 'a vga_state_scheme \<Rightarrow> (char_device \<times> 'd \<times> mem \<times> 'a vga_state_scheme) kres" where
  "vga_text_init hw = (\<lambda>(d, m, s).
     let dev = Char_device (vga_text_name @ replicate 91 0) CDC_WRITE_CAPABILITY (Leaf_dev Vga_text)
     in if vga_is_initialized s then Inr (dev, d, m, s)
        else
          let s = s\<lparr>vga_is_initialized := True\<rparr>;
              s = s\<lparr>g_vga_data := \<lparr>vga_width = VGA_WIDTH, vga_height = VGA_HEIGHT,
                    starting_vga_memory_addr = VGA_MEMORY,
                    final_vga_memory_addr = VGA_LAST_MEMORY_ADDRESS, cursor_position = 0,
                    max_cursor_position = VGA_WIDTH * VGA_HEIGHT - 1\<rparr>\<rparr>;
              (d, s) = set_cursor_position hw (position_to_coordinates 0 0) d s
          in kbind (cls (g_vga_data s) m) (\<lambda>(v, m).
             Inr (dev, d, m, s\<lparr>g_vga_data := v\<rparr>)))"

section \<open>Text stays on the screen\<close>

abbreviation (input) "same_off_screen \<equiv> same_outside 0xB8000 4000"

definition vga_wf :: "vga_data \<Rightarrow> bool" where
  "vga_wf v \<longleftrightarrow> vga_width v = 80 \<and> vga_height v = 25 \<and> starting_vga_memory_addr v = 0xB8000 \<and>
     max_cursor_position v = 1999"

lemma unat_cell_offset:
  fixes i k :: u64
  assumes "unat i < n" "n * unat k < 2 ^ 64"
  shows "unat (i * k) = unat i * unat k"
proof -
  have "unat i * unat k < 2 ^ 64"
    using mult_le_mono1[OF less_imp_le[OF assms(1)], of "unat k"] assms(2) by linarith
  then show ?thesis by (intro unat_mult_if_fits) simp
qed

lemma slide_window_on_screen:
  assumes "vga_wf v"
  shows "\<exists>m'. slide_window v m = Inr m' \<and> same_off_screen m m'"
proof -
  have v: "vga_width v = 80" "vga_height v = 25" "starting_vga_memory_addr v = 0xB8000"
    using assms by (simp_all add: vga_wf_def)
  have "\<exists>m'. for_loop 0 24 (\<lambda>i m. Inr (memcpy (0xB8000 + i * 160) (0xB8000 + (i + 1) * 160) 160 m)) m = Inr m' \<and>
      same_off_screen m m'"
  proof (rule for_loop_total[where P = "\<lambda>k. same_off_screen m"])
    fix j :: u64 and t assume j: "j < 24" and t: "same_off_screen m t"
    have "unat j < 24" using j by (simp add: word_less_nat_alt)
    then have "unat (j * 160) + unat (160 :: u64) \<le> 4000" using unat_cell_offset[of j 24 160] by simp
    then have "same_off_screen t (memcpy (0xB8000 + j * 160) (0xB8000 + (j + 1) * 160) 160 t)"
      by (rule same_outside_memcpy) simp
    then show "\<exists>t'. Inr (memcpy (0xB8000 + j * 160) (0xB8000 + (j + 1) * 160) 160 t) = Inr t' \<and> same_off_screen m t'"
      using same_outside_trans[OF t] by blast
  qed simp_all
  then obtain m1 where m1: "for_loop 0 24 (\<lambda>i m. Inr (memcpy (0xB8000 + i * 160) (0xB8000 + (i + 1) * 160) 160 m)) m = Inr m1"
    "same_off_screen m m1" by blast
  have "\<exists>m'. for_loop 0 80 (\<lambda>i m. Inr (write16 m (0xB8F00 + i * 2) VGA_EMPTY_CELL)) m1 = Inr m' \<and> same_off_screen m m'"
  proof (rule for_loop_total[where P = "\<lambda>k. same_off_screen m"])
    fix j :: u64 and t assume j: "j < 80" and t: "same_off_screen m t"
    have "unat j < 80" using j by (simp add: word_less_nat_alt)
    moreover from this have "unat (j * 2) = unat j * 2" using unat_cell_offset[of j 80 2] by simp
    ultimately have "unat (0xF00 + j * 2) + length (le_bytes 2 VGA_EMPTY_CELL) \<le> 4000"
      using unat_add_if_fits[of "0xF00" "j * 2"] by simp
    then have "same_off_screen t (mem_store t (0xB8000 + (0xF00 + j * 2)) (le_bytes 2 VGA_EMPTY_CELL))"
      by (rule same_outside_store) simp
    then show "\<exists>t'. Inr (write16 t (0xB8F00 + j * 2) VGA_EMPTY_CELL) = Inr t' \<and> same_off_screen m t'"
      using same_outside_trans[OF t] by (simp add: write16_def add.assoc[symmetric])
  qed (use m1 in simp_all)
  then show ?thesis using m1(1) by (auto simp: slide_window_def v Let_def)
qed

lemma output_char_on_screen:
  assumes "unat (c :: u16) < 2000"
  shows "same_off_screen m (output_char ch 0xB8000 (ucast c) m)"
proof -
  have "unat (ucast c :: u32) = unat c" using unat_u16_less[of c] by (simp add: unsigned_ucast_eq take_bit_nat_eq_self)
  then have "unat ((ucast c :: u32) * 2) = unat c * 2" using assms unat_mult_if_fits[of "ucast c :: u32" 2] by simp
  then have "unat (ucast ((ucast c :: u32) * 2) :: u64) = unat c * 2"
    using assms by (simp add: unsigned_ucast_eq take_bit_nat_eq_self)
  moreover have "output_char ch 0xB8000 (ucast c) m = mem_store m (0xB8000 + ucast ((ucast c :: u32) * 2)) [ch]"
    by (auto simp: output_char_def mem_store_def fun_eq_iff unat_eq_zero)
  ultimately show ?thesis using assms by (simp add: same_outside_store)
qed

lemma newline_cursor:
  assumes "unat (c :: u16) \<le> 1999"
  shows "unat (c + 80 - ucast (ucast (c + 80) mod (80::u64) + 1) + 1) = 80 * (unat c div 80 + 1)"
proof -
  have u: "unat (c + 80) = unat c + 80" using assms unat_add_if_fits[of c 80] by simp
  let ?r = "(unat c + 80) mod 80"
  have r: "?r < 80" by simp
  have "unat (ucast (c + 80) :: u64) = unat c + 80"
    using u assms by (simp add: unsigned_ucast_eq take_bit_nat_eq_self)
  then have "unat (ucast (c + 80) mod (80::u64)) = ?r" by (simp only: unat_mod_distrib) simp
  moreover from this have "unat (ucast (c + 80) mod (80::u64) + 1) = ?r + 1"
    using r unat_add_if_fits[of "ucast (c + 80) mod (80::u64)" 1] by simp
  ultimately have k: "unat (ucast (ucast (c + 80) mod (80::u64) + 1) :: u16) = ?r + 1"
    using r by (simp add: unsigned_ucast_eq take_bit_nat_eq_self)
  have le: "?r + 1 \<le> unat c + 80" using r by linarith
  then have "unat (c + 80 - ucast (ucast (c + 80) mod (80::u64) + 1)) = unat c + 80 - (?r + 1)"
    using u k by (simp add: unat_sub word_le_nat_alt)
  then have "unat (c + 80 - ucast (ucast (c + 80) mod (80::u64) + 1) + 1) = unat c + 80 - ?r"
    using assms le unat_add_if_fits[of "c + 80 - ucast (ucast (c + 80) mod (80::u64) + 1)" 1] by simp
  also have "\<dots> = 80 * ((unat c + 80) div 80)" by (rule minus_mod_eq_mult_div)
  also have "(unat c + 80) div 80 = unat c div 80 + 1" by simp
  finally show ?thesis .
qed

lemma vga_text_char_on_screen:
  assumes "vga_wf v" "c \<noteq> BACK_SPACE" "unat cur \<le> 2000"
  shows "\<exists>cur' m'. vga_text_char v c (cur, m) = Inr (cur', m') \<and> unat cur' \<le> 2000 \<and> same_off_screen m m'"
proof -
  have v: "vga_width v = 80" "max_cursor_position v = 1999" using assms(1) by (simp_all add: vga_wf_def)
  have mx: "(ucast cur \<ge> (1999 :: u64)) = (1999 \<le> unat cur)"
    using unat_u16_less[of cur] by (simp add: word_le_nat_alt unsigned_ucast_eq take_bit_nat_eq_self)
  obtain cur1 m1 where c1: "(if ucast cur \<ge> max_cursor_position v
            then kbind (slide_window v m) (\<lambda>m. Inr (cur - ucast (vga_width v), m))
            else Inr (cur, m)) = Inr (cur1, m1)" "unat cur1 \<le> 1998" "same_off_screen m m1"
  proof (cases "1999 \<le> unat cur")
    case True
    obtain m1 where "slide_window v m = Inr m1" "same_off_screen m m1"
      using slide_window_on_screen[OF assms(1)] by blast
    moreover have "unat (cur - 80) = unat cur - 80" using True by (simp add: unat_sub word_le_nat_alt)
    then have "unat (cur - 80) \<le> 1998" using assms(3) by linarith
    ultimately show thesis using True by (intro that) (simp_all add: v mx)
  next
    case False
    then have "unat cur \<le> 1998" by linarith
    moreover have "same_off_screen m m" by (rule same_outside_refl)
    ultimately show thesis using False by (intro that[of cur m]) (simp_all add: v mx)
  qed
  show ?thesis
  proof (cases "c = NEW_LINE")
    case True
    have "unat (cur1 + 80 - ucast (ucast (cur1 + 80) mod (80::u64) + 1) + 1) = 80 * (unat cur1 div 80 + 1)"
      using newline_cursor c1(2) by simp
    moreover have "unat cur1 div 80 \<le> 24" using c1(2) by linarith
    ultimately show ?thesis using True c1(1,3) unfolding vga_text_char_def by (simp add: v Let_def)
  next
    case False
    have "same_off_screen m1 (output_char c 0xB8000 (ucast cur1) m1)"
      using output_char_on_screen c1(2) by simp
    moreover have "unat (cur1 + 1) = unat cur1 + 1" using c1(2) unat_add_if_fits[of cur1 1] by simp
    ultimately show ?thesis using False assms(2) c1 same_outside_trans[OF c1(3)]
      unfolding vga_text_char_def by (simp add: v)
  qed
qed

lemma vga_text_loop_on_screen:
  assumes "vga_wf v" "BACK_SPACE \<notin> set cs" "unat cur \<le> 2000"
  shows "\<exists>cur' m'. vga_text_loop v cs (cur, m) = Inr (cur', m') \<and> unat cur' \<le> 2000 \<and> same_off_screen m m'"
  using assms(2,3)
proof (induction cs arbitrary: cur m)
  case (Cons c cs)
  obtain cur1 m1 where 1: "vga_text_char v c (cur, m) = Inr (cur1, m1)" "unat cur1 \<le> 2000" "same_off_screen m m1"
    using vga_text_char_on_screen[OF assms(1), of c cur m] Cons.prems by auto
  obtain cur2 m2 where "vga_text_loop v cs (cur1, m1) = Inr (cur2, m2)" "unat cur2 \<le> 2000" "same_off_screen m1 m2"
    using Cons.IH[OF _ 1(2), of m1] Cons.prems(1) by auto
  then show ?case using 1 same_outside_trans[OF 1(3)] by auto
qed simp

text \<open>
  C31: writing text without backspaces to the VGA console returns the number of characters, changes
  no byte of memory outside the 4000 bytes of the screen, scrolling included, and leaves the cursor
  at most one cell past the last one, from where the next write starts again.
\<close>

theorem vga_text_write_on_screen:
  assumes "vga_wf (g_vga_data s)" "unat (cursor_position (g_vga_data s)) \<le> 2000" "BACK_SPACE \<notin> set buffer"
  shows "\<exists>d' m' s'. vga_text_write hw buffer (d, m, s) = Inr (int (length buffer), d', m', s') \<and>
    same_outside 0xB8000 4000 m m' \<and> vga_wf (g_vga_data s') \<and> unat (cursor_position (g_vga_data s')) \<le> 2000"
proof -
  let ?c = "cursor_position (g_vga_data s)"
  have "unat (ucast ?c :: u16) = unat ?c" using assms(2) by (simp add: unsigned_ucast_eq take_bit_nat_eq_self)
  then obtain cur m' where m': "vga_text_loop (g_vga_data s) buffer (ucast ?c, m) = Inr (cur, m')"
    "unat cur \<le> 2000" "same_off_screen m m'"
    using vga_text_loop_on_screen[OF assms(1,3), of "ucast ?c" m] assms(2) by auto
  moreover have "unat (ucast cur :: u64) = unat cur"
    using unat_u16_less[of cur] by (simp add: unsigned_ucast_eq take_bit_nat_eq_self)
  ultimately show ?thesis using assms(1)
    by (simp add: vga_text_write_def set_cursor_position_def vga_wf_def Let_def)
qed

lemma ucast_wrapped_cursor: "ucast (-1 :: u16) = (0xFFFF :: u32)" "ucast (-1 :: u16) = (0xFFFF :: u64)"
proof -
  have "(-1 :: u16) = 0xFFFF" by simp
  then show "ucast (-1 :: u16) = (0xFFFF :: u32)" "ucast (-1 :: u16) = (0xFFFF :: u64)" by (simp_all only:) simp_all
qed

text \<open>
  C32: a backspace in the first cell writes outside the screen: the 16-bit cursor wraps to 65535, so
  a blank is stored 131070 bytes past the start of the screen and the cursor is left at 65535.
\<close>

theorem vga_text_backspace_escapes:
  assumes "vga_wf (g_vga_data s)" "cursor_position (g_vga_data s) = 0"
  shows "\<exists>d' s'. vga_text_write hw [BACK_SPACE] (d, m, s) = Inr (1, d', m(0xD7FFE := 32), s') \<and>
    cursor_position (g_vga_data s') = 0xFFFF"
  using assms
  by (simp add: vga_text_write_def vga_text_char_def vga_wf_def output_char_def set_cursor_position_def
      ucast_wrapped_cursor Let_def)

definition vga_demo :: vga_state where
  "vga_demo = \<lparr>vga_is_initialized = True, g_vga_data = \<lparr>vga_width = 80, vga_height = 25,
     starting_vga_memory_addr = 0xB8000, final_vga_memory_addr = 0xB8FA0, cursor_position = 0,
     max_cursor_position = 1999\<rparr>, global_cursor_position = 0\<rparr>"

definition cursor_port :: "u8 hw" where
  "cursor_port = \<lparr>hw_inb = (\<lambda>p d. (0, d)), hw_outb = (\<lambda>p v d. v), hw_inw = (\<lambda>p d. (0, d)),
     hw_outw = (\<lambda>p v d. d), hw_read32 = (\<lambda>a d. (0, d)), hw_write32 = (\<lambda>a v d. d)\<rparr>"

theorem vga_text_backspace_escapes_witness:
  "\<exists>d' s'. vga_text_write cursor_port [8] (0, \<lambda>_. 0xFF, vga_demo) =
    Inr (1, d', (\<lambda>_. 0xFF)(0xD7FFE := 32), s') \<and> cursor_position (g_vga_data s') = 0xFFFF"
  by (rule vga_text_backspace_escapes) (simp_all add: vga_demo_def vga_wf_def)

theorem vga_text_write_on_screen_witness:
  "\<exists>d' m' s'. vga_text_write cursor_port [0x68, 0x69, 10] (0, \<lambda>_. 0xFF, vga_demo) = Inr (3, d', m', s') \<and>
    m' 0xB8FA0 = 0xFF"
proof -
  have wf: "vga_wf (g_vga_data vga_demo)" "unat (cursor_position (g_vga_data vga_demo)) \<le> 2000"
    "8 \<notin> set [0x68, 0x69, 10 :: u8]" by (simp_all add: vga_demo_def vga_wf_def)
  show ?thesis using vga_text_write_on_screen[OF wf, of cursor_port 0 "\<lambda>_. 0xFF"]
    by (auto simp: same_outside_def)
qed

end
