(* ===== verification/Framebuffer.thy ===== *)
theory Framebuffer
  imports Char_Device Font
begin

text \<open>
  The framebuffer console, drivers/framebuffer\_print/framebuffer.c: 8 by 16 pixel glyphs drawn as
  32-bit pixels into the byte memory. The glyph table has 128 entries and a character is an index
  into it of up to 255, so a read past the table is a fault, and so is a division by the number of
  columns when a framebuffer is narrower than a glyph. Pixel counts are 32-bit where the code
  computes them so.
\<close>

section \<open>State and set-up\<close>

record limine_framebuffer =
  lfb_address :: u64
  lfb_width :: u64
  lfb_height :: u64
  lfb_pitch :: u64

record fb_state =
  fb_pitch :: u64
  g_framebuffer_addr :: u64
  g_framebuffer_height :: u64
  g_framebuffer_width :: u64
  g_curr_cursor_index :: u64
  g_device_initialized :: bool

abbreviation (input) "CHAR_PIXEL_WIDTH \<equiv> (8 :: u64)"
abbreviation (input) "CHAR_PIXEL_HEIGHT \<equiv> (16 :: u64)"

text \<open>The string framebuffer, padded with zeros to the length of the name field.\<close>

definition framebuffer_device :: char_device where
  "framebuffer_device = Char_device
     ([0x66, 0x72, 0x61, 0x6D, 0x65, 0x62, 0x75, 0x66, 0x66, 0x65, 0x72] @ replicate 89 0)
     CDC_WRITE_CAPABILITY (Leaf_dev Framebuffer_print)"

definition init_framebuffer_print ::
  "limine_framebuffer list option \<Rightarrow> 'a fb_state_scheme \<Rightarrow> (char_device \<times> 'a fb_state_scheme) kres" where
  "init_framebuffer_print framebuffer_response s =
     (case framebuffer_response of
        None \<Rightarrow> Inl (Kernel_panic ''framebuffer response is NULL'')
      | Some framebuffers \<Rightarrow>
        kassert (length framebuffers > 0) ''No framebuffer found''
        (if g_device_initialized s then Inr (framebuffer_device, s)
         else let g_framebuffer = framebuffers ! 0
              in Inr (framebuffer_device,
                   s\<lparr>fb_pitch := lfb_pitch g_framebuffer, g_framebuffer_addr := lfb_address g_framebuffer,
                     g_framebuffer_height := lfb_height g_framebuffer,
                     g_framebuffer_width := lfb_width g_framebuffer, g_device_initialized := True\<rparr>)))"

definition get_framebuffer_print_driver :: "'a fb_state_scheme \<Rightarrow> char_device kres" where
  "get_framebuffer_print_driver s =
     kassert (g_device_initialized s) ''Framebuffer print driver not initialized'' (Inr framebuffer_device)"

definition framebuffer_read :: "u64 \<Rightarrow> int" where "framebuffer_read sz = -1"
definition framebuffer_ioctl :: "u32 \<Rightarrow> u64 \<Rightarrow> int" where "framebuffer_ioctl command arg = 0"

section \<open>Drawing\<close>

definition is_pixel_on :: "u8 \<Rightarrow> u64 \<Rightarrow> u64 \<Rightarrow> bool kres" where
  "is_pixel_on c x y =
     (let bytes_per_row = (CHAR_PIXEL_WIDTH + 7) div 8;
          byte_index = y * bytes_per_row + x div 8;
          bit_index = 7 - x mod 8
      in kbind (arr_get font8x16 (unat c)) (\<lambda>glyph.
         kbind (arr_get glyph (unat byte_index)) (\<lambda>b.
         Inr (b AND push_bit (unat bit_index) 1 \<noteq> 0))))"

definition print_letter :: "u8 \<Rightarrow> 'a fb_state_scheme \<Rightarrow> mem \<Rightarrow> mem kres" where
  "print_letter letter s m =
     (let chars_per_row = g_framebuffer_width s div CHAR_PIXEL_WIDTH
      in if chars_per_row = 0 then Inl Fault
         else
           let char_x = g_curr_cursor_index s mod chars_per_row;
               char_y = g_curr_cursor_index s div chars_per_row
           in for_loop 0 CHAR_PIXEL_HEIGHT (\<lambda>y m.
                for_loop 0 CHAR_PIXEL_WIDTH (\<lambda>x m.
                  kbind (is_pixel_on letter x y) (\<lambda>on.
                  let pixel_color = (if on then 0x00FF00 else 0x000000);
                      pixel_y = char_y * CHAR_PIXEL_HEIGHT + y;
                      pixel_x = char_x * CHAR_PIXEL_WIDTH + x
                  in Inr (write32 m
                       (g_framebuffer_addr s + 4 * (pixel_y * (fb_pitch s div 4) + pixel_x)) pixel_color))) m) m)"

definition slide_framebuffer :: "'a fb_state_scheme \<Rightarrow> mem \<Rightarrow> mem" where
  "slide_framebuffer s m =
     (let pixels_per_row = ucast (fb_pitch s div 4) :: u32;
          pixels_to_copy = (g_framebuffer_height s - CHAR_PIXEL_HEIGHT) * ucast pixels_per_row;
          m = memcpy (g_framebuffer_addr s) (g_framebuffer_addr s + 4 * ucast (16 * pixels_per_row))
                (pixels_to_copy * 4) m
      in memset (g_framebuffer_addr s + 4 * pixels_to_copy) 0 (ucast (16 * pixels_per_row) * 4) m)"

text \<open>One round of the loop of framebuffer\_write.\<close>

definition framebuffer_char :: "u8 \<Rightarrow> 'a fb_state_scheme \<times> mem \<Rightarrow> ('a fb_state_scheme \<times> mem) kres" where
  "framebuffer_char c = (\<lambda>(s, m).
     let chars_per_row = g_framebuffer_width s div CHAR_PIXEL_WIDTH;
         chars_per_col = g_framebuffer_height s div CHAR_PIXEL_HEIGHT
     in kbind
          (if c = 10
           then if chars_per_row = 0 then Inl Fault
                else let cur = g_curr_cursor_index s + chars_per_row
                     in Inr (s\<lparr>g_curr_cursor_index := cur - cur mod chars_per_row\<rparr>, m)
           else kbind (print_letter c s m) (\<lambda>m.
                Inr (s\<lparr>g_curr_cursor_index := g_curr_cursor_index s + 1\<rparr>, m))) (\<lambda>(s, m).
        if g_curr_cursor_index s \<ge> chars_per_row * chars_per_col
        then let m = slide_framebuffer s m
             in Inr (s\<lparr>g_curr_cursor_index := g_curr_cursor_index s - chars_per_row\<rparr>, m)
        else Inr (s, m)))"

fun framebuffer_loop :: "u8 list \<Rightarrow> 'a fb_state_scheme \<times> mem \<Rightarrow> ('a fb_state_scheme \<times> mem) kres" where
  "framebuffer_loop [] r = Inr r"
| "framebuffer_loop (c # cs) r = kbind (framebuffer_char c r) (framebuffer_loop cs)"

definition framebuffer_write ::
  "u8 list \<Rightarrow> 'a fb_state_scheme \<times> mem \<Rightarrow> (int \<times> 'a fb_state_scheme \<times> mem) kres" where
  "framebuffer_write buffer r = kbind (framebuffer_loop buffer r) (\<lambda>(s, m). Inr (0, s, m))"

section \<open>Pixels\<close>

lemma mem_bytes_store_apart:
  assumes "length bs \<le> unat (b - a)" "n \<le> unat (a - b)" "length bs + n \<le> 2 ^ 63"
  shows "mem_bytes (mem_store m a bs) b n = mem_bytes m b n"
proof (rule mem_bytes_cong)
  fix i assume i: "i < n"
  have ne: "b - a \<noteq> 0 \<or> bs = []" using assms(1) by (metis le_zero_eq length_0_conv unat_0)
  have "\<not> unat (b + word_of_nat i - a) < length bs"
  proof (cases "bs = []")
    case False
    then have d: "b - a \<noteq> 0" using ne by blast
    have ui: "unat (word_of_nat i :: u64) = i" using i assms(3) by (simp only: unat_of_nat) simp
    have "a - b = - (b - a)" by simp
    then have "unat (a - b) = 2 ^ 64 - unat (b - a)" using unat_uminus_u64[OF d] by simp
    then have "unat (b - a) + unat (word_of_nat i :: u64) < 2 ^ LENGTH(64)" using assms(2) i ui by simp
    then have "unat (b - a + word_of_nat i) = unat (b - a) + i" using unat_add_if_fits[of "b - a" "word_of_nat i"] ui by simp
    moreover have e: "b + word_of_nat i - a = b - a + word_of_nat i" by simp
    ultimately show ?thesis using assms(1) unfolding e by simp
  qed simp
  then show "mem_store m a bs (b + word_of_nat i) = m (b + word_of_nat i)" by (simp add: mem_store_def)
qed

lemma read32_write32_same: "read32 (write32 m a v) a = v"
  using mem_bytes_mem_store[of "le_bytes 4 v" m a] by (simp add: read32_def write32_def)

lemma read32_write32_other: "4 \<le> unat (b - a) \<Longrightarrow> 4 \<le> unat (a - b) \<Longrightarrow> read32 (write32 m a v) b = read32 m b"
  using mem_bytes_store_apart[of "le_bytes 4 v" b a 4 m] by (simp add: read32_def write32_def)

text \<open>The pixel with a given index, and the index of the pixel in column px of row py.\<close>

definition pixel_at :: "u64 \<Rightarrow> mem \<Rightarrow> nat \<Rightarrow> u32" where
  "pixel_at base m i = read32 m (base + 4 * word_of_nat i)"

lemma unat_pixel_offset: "i < 2 ^ 62 \<Longrightarrow> unat (4 * word_of_nat i :: u64) = 4 * i"
  by (simp add: unat_word_ariths unat_of_nat)

lemma pixel_offsets_apart:
  assumes "i < 2 ^ 62" "j < 2 ^ 62" "i \<noteq> j"
  shows "4 \<le> unat (base + 4 * word_of_nat i - (base + 4 * word_of_nat j :: u64))"
proof -
  let ?d = "4 * word_of_nat i - 4 * word_of_nat j :: u64"
  have "?d \<noteq> 0"
  proof
    assume "?d = 0"
    then have "unat (4 * word_of_nat i :: u64) = unat (4 * word_of_nat j :: u64)" by simp
    then show False using assms by (simp only: unat_pixel_offset)
  qed
  then have "0 < unat ?d" using unat_gt_0[of ?d] by blast
  moreover have "?d = 4 * (word_of_nat i - word_of_nat j)" by (simp add: right_diff_distrib)
  moreover have "4 dvd unat (4 * w :: u64)" for w by (simp add: unat_word_ariths dvd_mod)
  ultimately have "4 \<le> unat ?d" by (metis dvd_imp_le)
  moreover have "base + 4 * word_of_nat i - (base + 4 * word_of_nat j) = ?d" by simp
  ultimately show ?thesis by (simp only:)
qed

lemma pixel_at_write:
  assumes "i < 2 ^ 62" "j < 2 ^ 62"
  shows "pixel_at base (write32 m (base + 4 * word_of_nat i) v) j = (if i = j then v else pixel_at base m j)"
  using pixel_offsets_apart[OF assms, of base] pixel_offsets_apart[OF assms(2,1), of base]
  by (auto simp: pixel_at_def read32_write32_same read32_write32_other)

text \<open>What a glyph looks like, and the pixels a partly drawn letter has set.\<close>

definition glyph_pixel :: "u8 \<Rightarrow> nat \<Rightarrow> nat \<Rightarrow> u32" where
  "glyph_pixel c x y = (if bit (font8x16 ! unat c ! y) (7 - x) then 0x00FF00 else 0x000000)"

lemma is_pixel_on_glyph:
  assumes "unat c < 128" "x < 8" "y < 16"
  shows "is_pixel_on c x y = Inr (bit (font8x16 ! unat c ! unat y) (7 - unat x))"
proof -
  have x: "unat x < 8" and y: "unat y < 16" using assms(2,3) by (simp_all add: word_less_nat_alt)
  have "x div 8 = 0" using x by (simp add: word_unat_eq_iff unat_div_distrib)
  moreover have "unat (7 - x mod 8) = 7 - unat x"
    using x by (simp add: unat_sub word_le_nat_alt unat_mod_distrib)
  moreover have "push_bit n 1 = (2 ^ n :: u8)" for n by (simp add: push_bit_eq_mult)
  ultimately show ?thesis using assms(1) y font8x16_glyph[of "unat c"]
    by (simp add: is_pixel_on_def length_font8x16 and_exp_eq_0_iff_not_bit)
qed

definition drawn :: "u64 \<Rightarrow> nat \<Rightarrow> nat \<Rightarrow> u8 \<Rightarrow> nat \<Rightarrow> nat \<Rightarrow> nat \<Rightarrow> nat \<Rightarrow> mem \<Rightarrow> mem \<Rightarrow> bool" where
  "drawn base ppr H c cx cy y x m m' \<longleftrightarrow> same_outside base (4 * (ppr * H)) m m' \<and>
     (\<forall>px < ppr. \<forall>py < H. pixel_at base m' (py * ppr + px) =
        (if 8 * cx \<le> px \<and> px < 8 * cx + 8 \<and> 16 * cy \<le> py \<and>
            (py < 16 * cy + y \<or> py = 16 * cy + y \<and> px < 8 * cx + x)
         then glyph_pixel c (px - 8 * cx) (py - 16 * cy) else pixel_at base m (py * ppr + px)))"

lemma pixel_index_inj:
  assumes "px < ppr" "px' < ppr"
  shows "py * ppr + px = py' * ppr + px' \<longleftrightarrow> py = py' \<and> px = (px'::nat)"
proof
  assume e: "py * ppr + px = py' * ppr + px'"
  have "(py * ppr + px) div ppr = py" "(py' * ppr + px') div ppr = py'" using assms by simp_all
  moreover have "(py * ppr + px) mod ppr = px" "(py' * ppr + px') mod ppr = px'" using assms by simp_all
  ultimately show "py = py' \<and> px = px'" using e by metis
qed simp

lemma pixel_index_less: "px < ppr \<Longrightarrow> py < H \<Longrightarrow> py * ppr + px < ppr * (H::nat)"
proof -
  assume a: "px < ppr" "py < H"
  then have "(py + 1) * ppr \<le> H * ppr" by (intro mult_le_mono1) simp
  then show ?thesis using a(1) by (simp add: algebra_simps)
qed

lemma drawn_0 [simp]: "drawn base ppr H c cx cy 0 0 m m"
  by (auto simp: drawn_def)

lemma drawn_row: "drawn base ppr H c cx cy y 8 m m' \<longleftrightarrow> drawn base ppr H c cx cy (Suc y) 0 m m'"
  unfolding drawn_def
proof -
  have "(8 * cx \<le> px \<and> px < 8 * cx + 8 \<and> 16 * cy \<le> py \<and> (py < 16 * cy + y \<or> py = 16 * cy + y \<and> px < 8 * cx + 8))
    = (8 * cx \<le> px \<and> px < 8 * cx + 8 \<and> 16 * cy \<le> py \<and> (py < 16 * cy + Suc y \<or> py = 16 * cy + Suc y \<and> px < 8 * cx + 0))"
    for px py by auto
  then show "(same_outside base (4 * (ppr * H)) m m' \<and>
     (\<forall>px < ppr. \<forall>py < H. pixel_at base m' (py * ppr + px) =
        (if 8 * cx \<le> px \<and> px < 8 * cx + 8 \<and> 16 * cy \<le> py \<and>
            (py < 16 * cy + y \<or> py = 16 * cy + y \<and> px < 8 * cx + 8)
         then glyph_pixel c (px - 8 * cx) (py - 16 * cy) else pixel_at base m (py * ppr + px)))) =
    (same_outside base (4 * (ppr * H)) m m' \<and>
     (\<forall>px < ppr. \<forall>py < H. pixel_at base m' (py * ppr + px) =
        (if 8 * cx \<le> px \<and> px < 8 * cx + 8 \<and> 16 * cy \<le> py \<and>
            (py < 16 * cy + Suc y \<or> py = 16 * cy + Suc y \<and> px < 8 * cx + 0)
         then glyph_pixel c (px - 8 * cx) (py - 16 * cy) else pixel_at base m (py * ppr + px))))"
    by presburger
qed

lemma drawn_step:
  assumes d: "drawn base ppr H c cx cy y x m m1" and x: "x < 8" and y: "y < 16"
    and fit: "8 * cx + 8 \<le> ppr" "16 * cy + 16 \<le> H" "ppr * H < 2 ^ 62"
  shows "drawn base ppr H c cx cy y (Suc x) m
    (write32 m1 (base + 4 * word_of_nat ((16 * cy + y) * ppr + (8 * cx + x))) (glyph_pixel c x y))"
proof -
  let ?i = "(16 * cy + y) * ppr + (8 * cx + x)"
  let ?m = "write32 m1 (base + 4 * word_of_nat ?i) (glyph_pixel c x y)"
  have "8 * cx + x < ppr" "16 * cy + y < H" using x y fit by simp_all
  then have i: "?i < ppr * H" by (rule pixel_index_less)
  have u: "unat (4 * word_of_nat ?i :: u64) = 4 * ?i" using i fit(3) by (intro unat_pixel_offset) linarith
  have four: "a < b \<Longrightarrow> 4 * a + 4 \<le> 4 * b" for a b :: nat by simp
  have "same_outside base (4 * (ppr * H)) m1 ?m"
    unfolding write32_def
  proof (rule same_outside_store)
    show "unat (4 * word_of_nat ?i :: u64) + length (le_bytes 4 (glyph_pixel c x y)) \<le> 4 * (ppr * H)"
      unfolding u length_le_bytes by (rule four[OF i])
    have "a < 2 ^ 62 \<Longrightarrow> 4 * a \<le> 2 ^ 64" for a :: nat by simp
    then show "4 * (ppr * H) \<le> 2 ^ 64" using fit(3) .
  qed
  then have out: "same_outside base (4 * (ppr * H)) m ?m" using d same_outside_trans unfolding drawn_def by blast
  have "pixel_at base ?m (py * ppr + px) =
      (if py = 16 * cy + y \<and> px = 8 * cx + x then glyph_pixel c x y else pixel_at base m1 (py * ppr + px))"
    if "px < ppr" "py < H" for px py
    using pixel_at_write[of ?i "py * ppr + px" base m1 "glyph_pixel c x y"] i fit(3) pixel_index_less[OF that]
      pixel_index_inj[OF \<open>8 * cx + x < ppr\<close> that(1), of "16 * cy + y" py] by auto
  then show ?thesis using d out x unfolding drawn_def by (auto simp: less_Suc_eq)
qed

section \<open>Letters\<close>

definition fb_ppr :: "'a fb_state_scheme \<Rightarrow> nat" where "fb_ppr s = unat (fb_pitch s div 4)"
definition fb_rows :: "'a fb_state_scheme \<Rightarrow> nat" where "fb_rows s = unat (g_framebuffer_height s)"
definition fb_cpr :: "'a fb_state_scheme \<Rightarrow> nat" where "fb_cpr s = unat (g_framebuffer_width s) div 8"
definition fb_cells :: "'a fb_state_scheme \<Rightarrow> nat" where "fb_cells s = fb_cpr s * (fb_rows s div 16)"

text \<open>The geometry: at least one glyph fits, rows do not overlap, sizes are those of real displays.\<close>

definition fb_wf :: "'a fb_state_scheme \<Rightarrow> bool" where
  "fb_wf s \<longleftrightarrow> 8 \<le> unat (g_framebuffer_width s) \<and> 16 \<le> fb_rows s \<and> unat (g_framebuffer_width s) \<le> fb_ppr s \<and>
     fb_ppr s < 2 ^ 28 \<and> fb_rows s < 2 ^ 32 \<and> unat (g_curr_cursor_index s) < fb_cells s"

lemma fb_wf_bounds:
  assumes "fb_wf s"
  shows "fb_ppr s * fb_rows s < 2 ^ 60" "0 < fb_cpr s" "8 * fb_cpr s \<le> fb_ppr s" "0 < fb_rows s div 16"
    "fb_cpr s < 2 ^ 25" "fb_rows s div 16 < 2 ^ 28" "fb_cells s < 2 ^ 53"
    "16 * (fb_rows s div 16) \<le> fb_rows s"
proof -
  have w: "8 \<le> unat (g_framebuffer_width s)" "16 \<le> fb_rows s" "unat (g_framebuffer_width s) \<le> fb_ppr s"
    "fb_ppr s < 2 ^ 28" "fb_rows s < 2 ^ 32" using assms by (simp_all add: fb_wf_def)
  have "fb_ppr s * fb_rows s < 2 ^ 28 * 2 ^ 32" using w(4,5) by (intro mult_strict_mono) simp_all
  then show "fb_ppr s * fb_rows s < 2 ^ 60" by simp
  have cpr8: "8 * fb_cpr s \<le> unat (g_framebuffer_width s)" by (simp add: fb_cpr_def)
  then show "8 * fb_cpr s \<le> fb_ppr s" using w(3) by linarith
  then show cpr: "fb_cpr s < 2 ^ 25" using w(4) by simp
  show "0 < fb_cpr s" using w(1) by (simp add: fb_cpr_def div_greater_zero_iff)
  show "0 < fb_rows s div 16" using w(2) by (simp add: div_greater_zero_iff)
  show rows: "fb_rows s div 16 < 2 ^ 28" using w(5) by (simp add: less_mult_imp_div_less)
  have "fb_cpr s * (fb_rows s div 16) < 2 ^ 25 * 2 ^ 28" using cpr rows by (intro mult_strict_mono) simp_all
  then show "fb_cells s < 2 ^ 53" by (simp add: fb_cells_def)
  show "16 * (fb_rows s div 16) \<le> fb_rows s" by simp
qed

lemma print_letter_draws:
  assumes wf: "fb_wf s" and c: "unat c < 128"
  defines "k \<equiv> unat (g_curr_cursor_index s)"
  shows "\<exists>m'. print_letter c s m = Inr m' \<and>
    drawn (g_framebuffer_addr s) (fb_ppr s) (fb_rows s) c (k mod fb_cpr s) (k div fb_cpr s) 16 0 m m'"
proof -
  note b = fb_wf_bounds[OF wf]
  let ?cpr = "g_framebuffer_width s div 8" and ?ppr = "fb_ppr s" and ?H = "fb_rows s" and ?base = "g_framebuffer_addr s"
  let ?cx = "k mod fb_cpr s" and ?cy = "k div fb_cpr s"
  have ucpr: "unat ?cpr = fb_cpr s" by (simp add: fb_cpr_def unat_div_distrib)
  have cx: "g_curr_cursor_index s mod ?cpr = word_of_nat ?cx" "g_curr_cursor_index s div ?cpr = word_of_nat ?cy"
    unfolding k_def ucpr[symmetric] unat_mod_distrib[symmetric] unat_div_distrib[symmetric] by simp_all
  have "k < fb_rows s div 16 * fb_cpr s" using wf by (simp add: fb_wf_def k_def fb_cells_def mult.commute)
  then have "?cy < fb_rows s div 16" by (rule less_mult_imp_div_less)
  then have "?cy + 1 \<le> fb_rows s div 16" by simp
  then have "16 * (?cy + 1) \<le> 16 * (fb_rows s div 16)" by (rule mult_le_mono2)
  then have cy: "16 * ?cy + 16 \<le> ?H" using b(8) by simp
  have "?cx < fb_cpr s" using b(2) by (rule mod_less_divisor)
  then have "?cx + 1 \<le> fb_cpr s" by linarith
  then have "8 * (?cx + 1) \<le> 8 * fb_cpr s" by (rule mult_le_mono2)
  then have cx8: "8 * ?cx + 8 \<le> ?ppr" using b(3) by simp
  have big: "?ppr * ?H < 2 ^ 62" using b(1) by simp
  let ?D = "\<lambda>y x m'. drawn ?base ?ppr ?H c ?cx ?cy y x m m'"
  have body: "\<exists>m2. kbind (is_pixel_on c x y) (\<lambda>on.
        let pixel_color = (if on then 0x00FF00 else 0x000000);
            pixel_y = word_of_nat ?cy * 16 + y; pixel_x = word_of_nat ?cx * 8 + x
        in Inr (write32 m1 (?base + 4 * (pixel_y * (fb_pitch s div 4) + pixel_x)) pixel_color)) = Inr m2 \<and>
      ?D (unat y) (Suc (unat x)) m2"
    if x: "x < 8" and y: "y < 16" and D: "?D (unat y) (unat x) m1" for x y m1
  proof -
    have xy: "unat x < 8" "unat y < 16" using x y by (simp_all add: word_less_nat_alt)
    have "4 * ((word_of_nat ?cy * 16 + y) * (fb_pitch s div 4) + (word_of_nat ?cx * 8 + x)) =
      4 * word_of_nat ((16 * ?cy + unat y) * ?ppr + (8 * ?cx + unat x))"
      by (simp add: fb_ppr_def mult.commute)
    then show ?thesis using drawn_step[OF D xy cx8 cy big] is_pixel_on_glyph[OF c x y]
      by (simp only: kbind_simps Let_def glyph_pixel_def) simp
  qed
  have row: "\<exists>m2. for_loop 0 8 (\<lambda>x m. kbind (is_pixel_on c x y) (\<lambda>on.
        let pixel_color = (if on then 0x00FF00 else 0x000000);
            pixel_y = word_of_nat ?cy * 16 + y; pixel_x = word_of_nat ?cx * 8 + x
        in Inr (write32 m (?base + 4 * (pixel_y * (fb_pitch s div 4) + pixel_x)) pixel_color))) m1 = Inr m2 \<and>
      ?D (Suc (unat y)) 0 m2" if y: "y < 16" and D: "?D (unat y) 0 m1" for y m1
    using for_loop_total[of "?D (unat y)" 0 m1 8 "\<lambda>x m. kbind (is_pixel_on c x y) (\<lambda>on.
        let pixel_color = (if on then 0x00FF00 else 0x000000);
            pixel_y = word_of_nat ?cy * 16 + y; pixel_x = word_of_nat ?cx * 8 + x
        in Inr (write32 m (?base + 4 * (pixel_y * (fb_pitch s div 4) + pixel_x)) pixel_color))"] body[OF _ y] D
    by (simp add: drawn_row)
  have "\<exists>m'. for_loop 0 16 (\<lambda>y m. for_loop 0 8 (\<lambda>x m. kbind (is_pixel_on c x y) (\<lambda>on.
        let pixel_color = (if on then 0x00FF00 else 0x000000);
            pixel_y = word_of_nat ?cy * 16 + y; pixel_x = word_of_nat ?cx * 8 + x
        in Inr (write32 m (?base + 4 * (pixel_y * (fb_pitch s div 4) + pixel_x)) pixel_color))) m) m = Inr m' \<and>
      ?D (unat (16 :: u64)) 0 m'"
    by (rule for_loop_total[of "\<lambda>y. ?D y 0"]) (use row in simp_all)
  moreover have "?cpr \<noteq> 0" using ucpr b(2) by (auto simp: word_unat_eq_iff)
  ultimately show ?thesis unfolding print_letter_def Let_def cx by simp
qed

section \<open>Text stays in the framebuffer\<close>

abbreviation (input) "same_off_fb s \<equiv> same_outside (g_framebuffer_addr s) (4 * (fb_ppr s * fb_rows s))"

definition same_geometry :: "'a fb_state_scheme \<Rightarrow> 'a fb_state_scheme \<Rightarrow> bool" where
  "same_geometry s s' \<longleftrightarrow> s' = s\<lparr>g_curr_cursor_index := g_curr_cursor_index s'\<rparr>"

lemma same_geometryD:
  assumes "same_geometry s s'"
  shows "g_framebuffer_addr s' = g_framebuffer_addr s" "fb_ppr s' = fb_ppr s" "fb_rows s' = fb_rows s"
    "fb_cpr s' = fb_cpr s" "fb_cells s' = fb_cells s"
    "fb_wf s \<Longrightarrow> unat (g_curr_cursor_index s') < fb_cells s \<Longrightarrow> fb_wf s'"
proof -
  have e: "s' = s\<lparr>g_curr_cursor_index := g_curr_cursor_index s'\<rparr>" using assms by (simp add: same_geometry_def)
  have sel: "g_framebuffer_addr s' = g_framebuffer_addr s" "fb_pitch s' = fb_pitch s"
    "g_framebuffer_height s' = g_framebuffer_height s" "g_framebuffer_width s' = g_framebuffer_width s"
    by (subst e, simp)+
  show "g_framebuffer_addr s' = g_framebuffer_addr s" by (rule sel)
  show all: "fb_ppr s' = fb_ppr s" "fb_rows s' = fb_rows s" "fb_cpr s' = fb_cpr s" "fb_cells s' = fb_cells s"
    by (simp_all add: fb_ppr_def fb_rows_def fb_cpr_def fb_cells_def sel)
  show "fb_wf s \<Longrightarrow> unat (g_curr_cursor_index s') < fb_cells s \<Longrightarrow> fb_wf s'"
    by (simp add: fb_wf_def all sel)
qed

lemma same_geometry_refl [simp]: "same_geometry s s" "same_geometry s (s\<lparr>g_curr_cursor_index := v\<rparr>)"
  by (simp_all add: same_geometry_def)

lemma same_geometry_trans: "same_geometry s s' \<Longrightarrow> same_geometry s' s'' \<Longrightarrow> same_geometry s s''"
  by (simp add: same_geometry_def) (metis fb_state.update_convs(5) fb_state.cases_scheme)

lemma slide_framebuffer_in_bounds:
  assumes "fb_wf s"
  shows "same_off_fb s m (slide_framebuffer s m)"
proof -
  note b = fb_wf_bounds[OF assms]
  have w: "16 \<le> fb_rows s" "fb_ppr s < 2 ^ 28" using assms by (simp_all add: fb_wf_def)
  let ?H = "fb_rows s" and ?P = "fb_ppr s"
  let ?ppr = "ucast (fb_pitch s div 4) :: u32"
  let ?ptc = "(g_framebuffer_height s - 16) * ucast ?ppr :: u64"
  have up: "unat ?ppr = ?P" using w(2) by (simp add: fb_ppr_def unsigned_ucast_eq take_bit_nat_eq_self)
  have uu: "unat (ucast p :: u64) = unat p" for p :: u32
    using unat_u32_less[of p] by (simp add: unsigned_ucast_eq take_bit_nat_eq_self)
  have up64: "unat (ucast ?ppr :: u64) = ?P" using uu[of ?ppr] up by (simp only:)
  have "unat (16 * p) = 16 * unat p" if "unat p < 2 ^ 28" for p :: u32 using that by (simp add: unat_word_ariths)
  from this[of ?ppr] have u16: "unat (ucast (16 * ?ppr) :: u64) = 16 * ?P"
    unfolding uu using up w(2) by (simp only: simp_thms)
  have uh: "unat (g_framebuffer_height s - 16) = ?H - 16" using w(1) by (simp add: unat_sub word_le_nat_alt fb_rows_def)
  define N where "N = ?P * ?H"
  have split: "(?H - 16) * ?P + 16 * ?P = N" using w(1) by (simp add: N_def add_mult_distrib[symmetric])
  have N: "N < 2 ^ 60" using b(1) by (simp add: N_def)
  have uptc: "unat ?ptc = (?H - 16) * ?P"
    using unat_mult_if_fits[of "g_framebuffer_height s - 16" "ucast ?ppr :: u64"] uh up64 split N by simp
  have u4: "unat (?ptc * 4) = 4 * ((?H - 16) * ?P)" "unat (4 * ?ptc) = 4 * ((?H - 16) * ?P)"
    using uptc split N by (simp_all add: unat_word_ariths mult.commute)
  have um: "unat (ucast (16 * ?ppr) * 4 :: u64) = 4 * (16 * ?P)"
    using u16 w(2) by (simp add: unat_word_ariths mult.commute)
  let ?m1 = "memcpy (g_framebuffer_addr s) (g_framebuffer_addr s + 4 * ucast (16 * ?ppr)) (?ptc * 4) m"
  have "same_outside (g_framebuffer_addr s) (4 * N) m ?m1"
    using same_outside_memcpy[of 0 "?ptc * 4" "4 * N" "g_framebuffer_addr s"] u4 split N by simp
  moreover have "same_outside (g_framebuffer_addr s) (4 * N) ?m1
      (memset (g_framebuffer_addr s + 4 * ?ptc) 0 (ucast (16 * ?ppr) * 4) ?m1)"
    using u4 um split N by (intro same_outside_memset) simp_all
  ultimately show ?thesis
    unfolding slide_framebuffer_def Let_def N_def[symmetric] by (rule same_outside_trans)
qed

lemma newline_index:
  fixes k cpr cpc :: nat
  assumes "k < cpr * cpc"
  shows "k + cpr - (k + cpr) mod cpr \<le> cpr * cpc" "cpr \<le> k + cpr - (k + cpr) mod cpr"
proof -
  have c: "0 < cpr" using assms by (cases cpr) auto
  have "k < cpc * cpr" using assms by (simp add: mult.commute)
  then have "k div cpr + 1 \<le> cpc" using less_mult_imp_div_less[of k cpc cpr] by simp
  then have le: "cpr * (k div cpr + 1) \<le> cpr * cpc" by (rule mult_le_mono2)
  have "k + cpr - (k + cpr) mod cpr = cpr * ((k + cpr) div cpr)" by (rule minus_mod_eq_mult_div)
  also have "(k + cpr) div cpr = k div cpr + 1" using c by (subst div_add_self2) simp_all
  finally show "k + cpr - (k + cpr) mod cpr \<le> cpr * cpc" "cpr \<le> k + cpr - (k + cpr) mod cpr"
    using le by simp_all
qed

lemma framebuffer_char_in_bounds:
  assumes wf: "fb_wf s" and c: "unat c < 128"
  shows "\<exists>s' m'. framebuffer_char c (s, m) = Inr (s', m') \<and> same_geometry s s' \<and> fb_wf s' \<and> same_off_fb s m m'"
proof -
  note b = fb_wf_bounds[OF wf]
  let ?cpr = "g_framebuffer_width s div 8" and ?cpc = "g_framebuffer_height s div 16"
  let ?cur = "g_curr_cursor_index s"
  have k: "unat ?cur < fb_cells s" using wf by (simp add: fb_wf_def)
  have ucpr: "unat ?cpr = fb_cpr s" by (simp add: fb_cpr_def unat_div_distrib)
  have ucpc: "unat ?cpc = fb_rows s div 16" by (simp add: fb_rows_def unat_div_distrib)
  have cells: "unat (?cpr * ?cpc) = fb_cells s"
    using unat_mult_if_fits[of ?cpr ?cpc] ucpr ucpc b(7) by (simp add: fb_cells_def)
  have cpr_le: "fb_cpr s \<le> fb_cells s" using b(4) by (simp add: fb_cells_def)
  obtain cur1 m1 where step: "(if c = 10
           then if ?cpr = 0 then Inl Fault
                else let cur = ?cur + ?cpr in Inr (s\<lparr>g_curr_cursor_index := cur - cur mod ?cpr\<rparr>, m)
           else kbind (print_letter c s m) (\<lambda>m. Inr (s\<lparr>g_curr_cursor_index := ?cur + 1\<rparr>, m))) =
      Inr (s\<lparr>g_curr_cursor_index := cur1\<rparr>, m1)" "unat cur1 \<le> fb_cells s" "same_off_fb s m m1"
  proof (cases "c = 10")
    case True
    have nz: "?cpr \<noteq> 0" using ucpr b(2) by (auto simp: word_unat_eq_iff)
    have u: "unat (?cur + ?cpr) = unat ?cur + fb_cpr s"
      using unat_add_if_fits[of ?cur ?cpr] ucpr k b(5,7) by simp
    have "unat (w - w mod v) = unat w - unat w mod unat v" for w v :: u64
      by (simp add: unat_sub word_le_nat_alt unat_mod_distrib)
    then have "unat (?cur + ?cpr - (?cur + ?cpr) mod ?cpr) = unat ?cur + fb_cpr s - (unat ?cur + fb_cpr s) mod fb_cpr s"
      by (simp only: u ucpr)
    then have "unat (?cur + ?cpr - (?cur + ?cpr) mod ?cpr) \<le> fb_cells s"
      using newline_index(1)[of "unat ?cur" "fb_cpr s" "fb_rows s div 16"] k by (simp add: fb_cells_def)
    then show thesis using True nz by (intro that[of "?cur + ?cpr - (?cur + ?cpr) mod ?cpr" m]) (simp_all add: Let_def)
  next
    case False
    obtain m1 where m1: "print_letter c s m = Inr m1" "same_off_fb s m m1"
      using print_letter_draws[OF wf c, of m] unfolding drawn_def by blast
    have "unat (?cur + 1) = unat ?cur + 1" using unat_add_if_fits[of ?cur 1] k b(7) by simp
    then show thesis using False m1 k by (intro that[of "?cur + 1" m1]) simp_all
  qed
  let ?s1 = "s\<lparr>g_curr_cursor_index := cur1\<rparr>"
  show ?thesis
  proof (cases "cur1 \<ge> ?cpr * ?cpc")
    case True
    then have eq: "unat cur1 = fb_cells s" using cells step(2) by (simp add: word_le_nat_alt)
    let ?s' = "?s1\<lparr>g_curr_cursor_index := cur1 - ?cpr\<rparr>"
    have "unat (cur1 - ?cpr) = fb_cells s - fb_cpr s"
      using eq ucpr cpr_le by (simp add: unat_sub word_le_nat_alt)
    then have "unat (g_curr_cursor_index ?s') < fb_cells s" using b(2) cpr_le by simp
    then have "fb_wf ?s'" using same_geometryD(6)[of s ?s'] wf by (simp add: same_geometry_def)
    moreover have "same_off_fb s m1 (slide_framebuffer ?s1 m1)"
      using slide_framebuffer_in_bounds[OF wf, of m1] by (simp add: slide_framebuffer_def)
    ultimately show ?thesis using True step same_outside_trans[OF step(3)]
      by (simp add: framebuffer_char_def Let_def)
  next
    case False
    then have "unat (g_curr_cursor_index ?s1) < fb_cells s" using cells by (simp add: word_le_nat_alt)
    then have "fb_wf ?s1" using same_geometryD(6)[of s ?s1] wf by simp
    then show ?thesis using False step by (simp add: framebuffer_char_def Let_def)
  qed
qed

lemma framebuffer_loop_in_bounds:
  assumes "fb_wf s" "\<forall>c \<in> set cs. unat c < 128"
  shows "\<exists>s' m'. framebuffer_loop cs (s, m) = Inr (s', m') \<and> same_geometry s s' \<and> fb_wf s' \<and> same_off_fb s m m'"
  using assms
proof (induction cs arbitrary: s m)
  case (Cons c cs)
  obtain s1 m1 where 1: "framebuffer_char c (s, m) = Inr (s1, m1)" "same_geometry s s1" "fb_wf s1" "same_off_fb s m m1"
    using framebuffer_char_in_bounds[OF Cons.prems(1), of c m] Cons.prems(2) by auto
  obtain s2 m2 where 2: "framebuffer_loop cs (s1, m1) = Inr (s2, m2)" "same_geometry s1 s2" "fb_wf s2"
    "same_off_fb s1 m1 m2" using Cons.IH[OF 1(3), of m1] Cons.prems(2) by auto
  have "same_off_fb s m m2" using 2(4) same_outside_trans[OF 1(4)] unfolding same_geometryD[OF 1(2)] by blast
  then show ?case using 1(1) 2 same_geometry_trans[OF 1(2) 2(2)] by auto
qed auto

text \<open>The cell of the text grid a pixel belongs to.\<close>

definition cell_of :: "nat \<Rightarrow> nat \<Rightarrow> nat \<Rightarrow> nat" where
  "cell_of cpr px py = py div 16 * cpr + px div 8"

lemma in_cell_iff:
  assumes "0 < cpr"
  shows "(8 * (k mod cpr) \<le> px \<and> px < 8 * (k mod cpr) + 8 \<and> 16 * (k div cpr) \<le> py \<and> py < 16 * (k div cpr) + 16) \<longleftrightarrow>
    px < 8 * cpr \<and> cell_of cpr px py = k"
proof -
  have x: "(8 * q \<le> px \<and> px < 8 * q + 8) \<longleftrightarrow> px div 8 = q" for q by auto
  have y: "(16 * q \<le> py \<and> py < 16 * q + 16) \<longleftrightarrow> py div 16 = q" for q by auto
  have "k mod cpr < cpr" using assms by simp
  then have lt: "px < 8 * cpr" if "px div 8 = k mod cpr" using that by linarith
  have "cell_of cpr px py = k \<longleftrightarrow> py div 16 = k div cpr \<and> px div 8 = k mod cpr" if "px < 8 * cpr"
  proof -
    have "px div 8 < cpr" using that by linarith
    then have "cell_of cpr px py div cpr = py div 16" "cell_of cpr px py mod cpr = px div 8"
      by (simp_all add: cell_of_def)
    then show ?thesis by (metis cell_of_def div_mult_mod_eq)
  qed
  then show ?thesis using x[of "k mod cpr"] y[of "k div cpr"] lt by blast
qed

lemma print_letter_cell:
  assumes wf: "fb_wf s" and c: "unat c < 128"
  shows "\<exists>m'. print_letter c s m = Inr m' \<and>
    (\<forall>px < fb_ppr s. \<forall>py < fb_rows s. pixel_at (g_framebuffer_addr s) m' (py * fb_ppr s + px) =
       (if px < 8 * fb_cpr s \<and> cell_of (fb_cpr s) px py = unat (g_curr_cursor_index s)
        then glyph_pixel c (px mod 8) (py mod 16)
        else pixel_at (g_framebuffer_addr s) m (py * fb_ppr s + px)))"
proof -
  let ?k = "unat (g_curr_cursor_index s)" and ?cpr = "fb_cpr s"
  have cpr: "0 < ?cpr" by (rule fb_wf_bounds(2)[OF wf])
  obtain m' where m': "print_letter c s m = Inr m'"
    "drawn (g_framebuffer_addr s) (fb_ppr s) (fb_rows s) c (?k mod ?cpr) (?k div ?cpr) 16 0 m m'"
    using print_letter_draws[OF wf c] by blast
  have "px - 8 * (?k mod ?cpr) = px mod 8 \<and> py - 16 * (?k div ?cpr) = py mod 16"
    if "px < 8 * ?cpr \<and> cell_of ?cpr px py = ?k" for px py
  proof -
    have "px div 8 = ?k mod ?cpr" "py div 16 = ?k div ?cpr"
      using that in_cell_iff[OF cpr, of ?k px py] by linarith+
    then show ?thesis by (metis minus_mult_div_eq_mod)
  qed
  then show ?thesis using m' in_cell_iff[OF cpr, of ?k] unfolding drawn_def
    by (intro exI[of _ m'] conjI allI impI) (auto simp: conj_assoc)
qed

section \<open>Properties\<close>

text \<open>
  C38: writing any ASCII text to the framebuffer console returns, changes no byte outside the pixels
  of the framebuffer, scrolling included, and leaves the cursor inside the text grid, so the next
  write starts from a good state.
\<close>

theorem framebuffer_write_in_bounds:
  assumes "fb_wf s" "\<forall>c \<in> set cs. unat c < 128"
  shows "\<exists>s' m'. framebuffer_write cs (s, m) = Inr (0, s', m') \<and> fb_wf s' \<and>
    same_outside (g_framebuffer_addr s) (4 * (fb_ppr s * fb_rows s)) m m'"
  using framebuffer_loop_in_bounds[OF assms, of m] by (auto simp: framebuffer_write_def)

definition fb_demo :: fb_state where
  "fb_demo = \<lparr>fb_pitch = 64, g_framebuffer_addr = 0xFD000000, g_framebuffer_height = 32, g_framebuffer_width = 16,
     g_curr_cursor_index = 0, g_device_initialized = True\<rparr>"

lemma fb_demo_wf: "fb_wf fb_demo" "fb_ppr fb_demo = 16" "fb_rows fb_demo = 32" "fb_cpr fb_demo = 2" "fb_cells fb_demo = 4"
  "g_framebuffer_addr fb_demo = 0xFD000000" "g_curr_cursor_index fb_demo = 0"
  by (simp_all add: fb_wf_def fb_ppr_def fb_rows_def fb_cpr_def fb_cells_def fb_demo_def)

theorem framebuffer_write_in_bounds_witness:
  "\<exists>s' m'. framebuffer_write [0x48, 0x69, 10, 0x21, 0x21, 0x21, 10] (fb_demo, \<lambda>_. 0xAA) = Inr (0, s', m') \<and>
    m' 0xFD000800 = 0xAA"
proof -
  obtain s' m' where "framebuffer_write [0x48, 0x69, 10, 0x21, 0x21, 0x21, 10] (fb_demo, \<lambda>_. 0xAA) = Inr (0, s', m')"
    "same_outside 0xFD000000 2048 (\<lambda>_. 0xAA) m'"
    using framebuffer_write_in_bounds[OF fb_demo_wf(1), of "[0x48, 0x69, 10, 0x21, 0x21, 0x21, 10]" "\<lambda>_. 0xAA"]
    by (auto simp: fb_demo_wf)
  then show ?thesis by (auto simp: same_outside_def)
qed



end
