(* ===== verification/Heap_Client.thy ===== *)
theory Heap_Client
  imports Heap_Laws
begin

text \<open>
  Reasoning about code that uses the kernel heap. \<open>runs r P\<close> says that an operation either stops
  because memory ran out or returns a result with P. The rules for kmalloc, kfree and for stores
  into buffers keep track of the buffers handed out and of the bytes they hold.
\<close>

section \<open>Operations that stop only when memory runs out\<close>

definition runs :: "'a kres \<Rightarrow> ('a \<Rightarrow> bool) \<Rightarrow> bool" where
  "runs r P \<longleftrightarrow> r = Inl heap_oom \<or> (\<exists>x. r = Inr x \<and> P x)"

lemma runs_Inr [simp]: "runs (Inr x) P \<longleftrightarrow> P x"
  by (simp add: runs_def)

lemma runs_bind: "runs r P \<Longrightarrow> (\<And>x. P x \<Longrightarrow> runs (f x) Q) \<Longrightarrow> runs (kbind r f) Q"
  by (fastforce simp: runs_def)

lemma runs_mono: "runs r P \<Longrightarrow> (\<And>x. P x \<Longrightarrow> Q x) \<Longrightarrow> runs r Q"
  by (auto simp: runs_def)

lemma runs_cases: "runs r P \<Longrightarrow> (r = Inl heap_oom \<Longrightarrow> Q) \<Longrightarrow> (\<And>x. r = Inr x \<Longrightarrow> P x \<Longrightarrow> Q) \<Longrightarrow> Q"
  by (auto simp: runs_def)

text \<open>A loop runs when an invariant indexed by its counter is kept by every round.\<close>

lemma runs_for_loop:
  assumes "P (unat i) s" "i \<le> n"
    and "\<And>j t. i \<le> j \<Longrightarrow> j < n \<Longrightarrow> P (unat j) t \<Longrightarrow> runs (f j t) (P (Suc (unat j)))"
  shows "runs (for_loop i n f s) (P (unat n))"
  using assms
proof (induction i n f s rule: for_loop.induct)
  case (1 i n f s)
  show ?case
  proof (cases "i < n")
    case True
    have u: "unat (i + 1) = Suc (unat i)" using unat_Suc_less[OF True] .
    have le: "i + 1 \<le> n" "i \<le> i + 1" using u True by (simp_all add: word_le_nat_alt word_less_nat_alt)
    have "runs (f i s) (P (Suc (unat i)))" using 1(2,4) True by simp
    then show ?thesis unfolding for_loop_step[OF True]
    proof (rule runs_bind)
      fix t assume t: "P (Suc (unat i)) t"
      show "runs (for_loop (i + 1) n f t) (P (unat n))"
        by (rule 1(1)[OF True _ le(1)]) (use t u 1(4) le(2) in \<open>auto intro: order_trans\<close>)
    qed
  next
    case False
    then have "i = n" using 1(3) by simp
    then show ?thesis using 1(2) by simp
  qed
qed

section \<open>Bytes of buffers\<close>

text \<open>The bytes of the buffers in L are the same in both states.\<close>

definition keeps :: "(u64 \<times> u64) set \<Rightarrow> 'a heap_state_scheme \<Rightarrow> 'a heap_state_scheme \<Rightarrow> bool" where
  "keeps L s s' \<longleftrightarrow> nframes s' = nframes s \<and>
     (\<forall>(q, k) \<in> L. \<forall>x \<in> region q (unat k). kmem s' x = kmem s x)"

lemma keeps_refl [simp]: "keeps L s s"
  by (auto simp: keeps_def)

lemma keeps_trans: "keeps L s s' \<Longrightarrow> keeps L' s' s'' \<Longrightarrow> L'' \<subseteq> L \<Longrightarrow> L'' \<subseteq> L' \<Longrightarrow> keeps L'' s s''"
  unfolding keeps_def by fastforce

lemma keeps_mono: "keeps L s s' \<Longrightarrow> L' \<subseteq> L \<Longrightarrow> keeps L' s s'"
  unfolding keeps_def by blast

lemma keeps_fits: "keeps L s s' \<Longrightarrow> heap_fits s' n = heap_fits s n"
  by (simp add: keeps_def heap_fits_def)

lemma region_offset:
  assumes "i < k" "j + k \<le> n" "n \<le> 2 ^ 64"
  shows "p + word_of_nat j + word_of_nat i \<in> region p n"
proof -
  have "p + word_of_nat j + word_of_nat i - p = (word_of_nat (j + i) :: u64)" by simp
  moreover have "unat (word_of_nat (j + i) :: u64) = j + i" using assms by (subst unat_of_nat) simp
  ultimately show ?thesis using assms unfolding region_def by simp
qed

lemma keeps_bytes:
  assumes "keeps L s s'" "(p, n) \<in> L" "j + k \<le> unat n"
  shows "mem_bytes (kmem s') (p + word_of_nat j) k = mem_bytes (kmem s) (p + word_of_nat j) k"
proof (rule mem_bytes_cong)
  fix i assume "i < k"
  then have "p + word_of_nat j + word_of_nat i \<in> region p (unat n)"
    using region_offset[of i k j "unat n" p] assms(3) unat_u64_less[of n] by simp
  then show "kmem s' (p + word_of_nat j + word_of_nat i) = kmem s (p + word_of_nat j + word_of_nat i)"
    using assms(1,2) by (auto simp: keeps_def)
qed

lemma keeps_buffer:
  assumes "keeps L s s'" "(p, n) \<in> L"
  shows "mem_bytes (kmem s') p (unat n) = mem_bytes (kmem s) p (unat n)"
  using keeps_bytes[OF assms, of 0 "unat n"] by simp

section \<open>Rules\<close>

lemma kmalloc_runs:
  assumes "heap_inv s L" "n \<noteq> 0" "heap_fits s n"
  shows "runs (kmalloc n s) (\<lambda>(p, s'). p \<notin> fst ` L \<and> heap_inv s' (insert (p, n) L) \<and> keeps L s s')"
  using kmalloc_ok[OF assms] same_blocks_live[OF assms(1) _ subset_refl]
  by (auto simp: alloc_ok_def runs_def keeps_def)

lemma kfree_runs:
  assumes "heap_inv s L" "(p, n) \<in> L"
  shows "runs (kfree p s) (\<lambda>s'. heap_inv s' (L - {(p, n)}) \<and> keeps (L - {(p, n)}) s s')"
proof -
  obtain s' where "kfree p s = Inr s'" "heap_inv s' (L - {(p, n)})" "nframes s' = nframes s"
    "same_blocks s s' (live (L - {(p, n)}))" using kfree_ok[OF assms] by blast
  then show ?thesis
    using same_blocks_live[OF assms(1), of s' "L - {(p, n)}"] by (auto simp: keeps_def)
qed

text \<open>Writing inside one buffer.\<close>

lemma heap_write_buffer:
  assumes inv: "heap_inv s L" and p: "(p, n) \<in> L" and m: "same_outside p (unat n) (kmem s) m"
  shows "heap_inv (s\<lparr>kmem := m\<rparr>) L" "keeps (L - {(p, n)}) s (s\<lparr>kmem := m\<rparr>)"
proof -
  show "heap_inv (s\<lparr>kmem := m\<rparr>) L"
    by (rule heap_write_ok[OF inv]) (use p m in \<open>auto simp: heap_may_write_def same_outside_def region_def\<close>)
  have "m x = kmem s x" if q: "(q, k) \<in> L - {(p, n)}" "x \<in> region q (unat k)" for q k x
  proof -
    have "x \<notin> region p (unat n)" using heap_inv_disjoint[OF inv p, of q k] q by blast
    then show ?thesis using m by (auto simp: same_outside_def region_def)
  qed
  then show "keeps (L - {(p, n)}) s (s\<lparr>kmem := m\<rparr>)" by (auto simp: keeps_def nframes_def)
qed

lemma heap_store_buffer:
  assumes inv: "heap_inv s L" and p: "(p, n) \<in> L" and fits: "j + length bs \<le> unat n"
  defines "s' \<equiv> s\<lparr>kmem := mem_store (kmem s) (p + word_of_nat j) bs\<rparr>"
  shows "heap_inv s' L" "keeps (L - {(p, n)}) s s'"
    "mem_bytes (kmem s') p (unat n) =
       take j (mem_bytes (kmem s) p (unat n)) @ bs @ drop (j + length bs) (mem_bytes (kmem s) p (unat n))"
proof -
  have j: "unat (word_of_nat j :: u64) = j" using fits unat_u64_less[of n] by (simp add: unat_of_nat)
  have "same_outside p (unat n) (kmem s) (mem_store (kmem s) (p + word_of_nat j) bs)"
    using fits j unat_u64_less[of n] by (intro same_outside_store) simp_all
  then show "heap_inv s' L" "keeps (L - {(p, n)}) s s'"
    unfolding s'_def by (rule heap_write_buffer[OF inv p])+
  show "mem_bytes (kmem s') p (unat n) =
       take j (mem_bytes (kmem s) p (unat n)) @ bs @ drop (j + length bs) (mem_bytes (kmem s) p (unat n))"
  proof (rule nth_equalityI)
    fix i assume "i < length (mem_bytes (kmem s') p (unat n))"
    then have i: "i < unat n" by simp
    have e: "p + word_of_nat i - (p + word_of_nat j) = word_of_nat i - (word_of_nat j :: u64)" by simp
    have i': "unat (word_of_nat i :: u64) = i" using i unat_u64_less[of n] by (simp add: unat_of_nat)
    have u: "unat (p + word_of_nat i - (p + word_of_nat j)) < length bs \<longleftrightarrow> j \<le> i \<and> i < j + length bs"
    proof (cases "j \<le> i")
      case True
      then have "unat (word_of_nat i - (word_of_nat j :: u64)) = i - j"
        using i' j by (simp add: unat_sub word_le_nat_alt)
      then show ?thesis unfolding e using True by auto
    next
      case False
      then have "word_of_nat i - (word_of_nat j :: u64) = - word_of_nat (j - i)" by (simp add: of_nat_diff)
      moreover have "unat (word_of_nat (j - i) :: u64) = j - i" using fits unat_u64_less[of n] by (simp add: unat_of_nat)
      moreover from this have "word_of_nat (j - i) \<noteq> (0 :: u64)" using False by (metis diff_is_0_eq less_imp_le_nat not_le unat_0)
      ultimately have "unat (word_of_nat i - (word_of_nat j :: u64)) = 2 ^ 64 - (j - i)"
        using unat_uminus_u64 by metis
      then show ?thesis unfolding e using False fits i unat_u64_less[of n] by auto
    qed
    have v: "unat (p + word_of_nat i - (p + word_of_nat j)) = i - j" if "j \<le> i"
      using that i' j unfolding e by (simp add: unat_sub word_le_nat_alt)
    show "mem_bytes (kmem s') p (unat n) ! i =
       (take j (mem_bytes (kmem s) p (unat n)) @ bs @ drop (j + length bs) (mem_bytes (kmem s) p (unat n))) ! i"
      using i u v fits unfolding s'_def by (auto simp: mem_store_def nth_append)
  qed (use fits in simp)
qed

text \<open>A copy between two buffers stores the bytes of the one in the other.\<close>

lemma memcpy_store:
  assumes "unat n \<le> unat (d - src)"
  shows "memcpy d src n m = mem_store m d (mem_bytes m src (unat n))"
  unfolding memcpy_closed[OF disjI2[OF assms]] by (rule ext) (simp add: mem_store_def)

lemma memcpy_regions:
  assumes dis: "region p n \<inter> region q k = {}" and le: "n < 2 ^ 64" "k < 2 ^ 64"
    and i: "i + unat c \<le> n" and j: "j + unat c \<le> k"
  shows "memcpy (p + word_of_nat i) (q + word_of_nat j) c m =
    mem_store m (p + word_of_nat i) (mem_bytes m (q + word_of_nat j) (unat c))"
proof (cases "c = 0")
  case True
  then show ?thesis by (simp add: memcpy_def mem_bytes_def mem_store_def)
next
  case False
  then have c: "0 < unat c" by (simp add: unat_gt_0)
  have "p + word_of_nat i \<in> region p n"
    using region_offset[of 0 "unat c" i n p] c i le by simp
  then have out: "p + word_of_nat i \<notin> region q k" using dis by blast
  have "unat c \<le> unat (p + word_of_nat i - (q + word_of_nat j))"
  proof (rule ccontr)
    let ?o = "p + word_of_nat i - (q + word_of_nat j)"
    assume "\<not> ?thesis"
    then have "q + word_of_nat j + word_of_nat (unat ?o) \<in> region q k"
      using region_offset[of "unat ?o" "unat c" j k q] j le by simp
    then show False using out by simp
  qed
  then show ?thesis by (rule memcpy_store)
qed

lemma memcpy_buffers:
  assumes "heap_inv s L" "(p, n) \<in> L" "(q, k) \<in> L" "(p, n) \<noteq> (q, k)"
    "i + unat c \<le> unat n" "j + unat c \<le> unat k"
  shows "memcpy (p + word_of_nat i) (q + word_of_nat j) c m =
    mem_store m (p + word_of_nat i) (mem_bytes m (q + word_of_nat j) (unat c))"
  using memcpy_regions[of p "unat n" q "unat k" i c j m] heap_inv_disjoint[OF assms(1-4)] assms(5,6)
    unat_u64_less[of n] unat_u64_less[of k] by simp

text \<open>No buffer contains the address 0.\<close>

lemma buffer_no_null:
  assumes "heap_inv s L" "(p, n) \<in> L" "x \<in> region p (unat n)"
  shows "x \<noteq> 0"
proof -
  obtain fs ss where h: "heap_rep s fs ss (live L)" "p - 32 \<in> live L" using heap_invD[OF assms(1)] assms(2) by metis
  have "0 \<notin> blk (mb_block_size s) (p - 32)" using blocks_okD(3)[OF heap_repD(2)[OF h(1)]] h(2) by blast
  then show ?thesis using live_buffer_in_block(1)[OF assms] by blast
qed

end
