(* ===== verification/Block_Device.thy ===== *)
theory Block_Device
  imports Mem_Utils Hardware
begin

text \<open>
  Block devices, drivers/block\_device.c, and the ATA drive behind them,
  drivers/ata\_pio/read\_write.c. A block device is a record with its read and write functions; a
  block read yields its bytes, which the caller stores where its buffer is: in memory or in the
  local array of read\_blk\_device\_bytes. What the drive does is the hardware argument; the section
  on the drive states the documented protocol (registers are programmed, a command is given, the
  status shows data, the words are read) as a predicate.
\<close>

section \<open>drivers/block\_device.h and block\_device.c\<close>

abbreviation (input) "BLOCK_DEVICE_NAME_LEN \<equiv> (100 :: nat)"
abbreviation (input) "MAX_BLOCK_SIZE \<equiv> (512 :: u64)"

text \<open>The first argument of read_block and write_block is the partition offset of the device passed.\<close>

record 'd block_device =
  bd_name :: "u8 list"
  block_size :: u64
  blocks_count :: u64
  partition_offset :: u64
  read_block :: "u64 \<Rightarrow> u64 \<Rightarrow> 'd \<Rightarrow> (u64 \<times> u8 list \<times> 'd) kres"
  write_block :: "u64 \<Rightarrow> u64 \<Rightarrow> u8 list \<Rightarrow> 'd \<Rightarrow> (u64 \<times> 'd) kres"

text \<open>The copy of the name, from index i on; the test reads the character before it looks at i.\<close>

function partition_name_loop :: "u8 list \<Rightarrow> nat \<Rightarrow> u8 list \<Rightarrow> u8 list kres" where
  "partition_name_loop part_name i name =
     kbind (arr_get part_name i) (\<lambda>c.
     if c \<noteq> 0 \<and> i < BLOCK_DEVICE_NAME_LEN - 1
     then kbind (arr_set name i c) (partition_name_loop part_name (i + 1))
     else arr_set name i 0)"
  by pat_completeness auto
termination by (relation "measure (\<lambda>(p, i, n). 100 - i)") auto

declare partition_name_loop.simps [simp del]

definition create_partition_wrapper ::
  "'d block_device \<Rightarrow> u64 \<Rightarrow> u8 list \<Rightarrow> u64 \<Rightarrow> 'd block_device kres" where
  "create_partition_wrapper parent_disk start_lba part_name partition_size =
     (let new_part = parent_disk\<lparr>blocks_count := partition_size,
            partition_offset := partition_offset parent_disk + start_lba\<rparr>
      in kbind (partition_name_loop part_name 0 (bd_name new_part)) (\<lambda>name. Inr (new_part\<lparr>bd_name := name\<rparr>)))"

text \<open>The body: whole blocks go straight to the destination.\<close>

function read_body ::
  "'d block_device \<Rightarrow> u64 \<Rightarrow> u64 \<Rightarrow> u64 \<Rightarrow> mem \<times> 'd \<Rightarrow> (u64 \<times> u64 \<times> u64 \<times> mem \<times> 'd) kres" where
  "read_body dev dstbuf remaining curr_lba (m, d) =
     (if block_size dev = 0 \<or> \<not> remaining \<ge> block_size dev then Inr (dstbuf, remaining, curr_lba, m, d)
      else kbind (read_block dev (partition_offset dev) curr_lba d) (\<lambda>(_, bytes, d).
           read_body dev (dstbuf + block_size dev) (remaining - block_size dev) (curr_lba + 1)
             (mem_store m dstbuf bytes, d)))"
  by pat_completeness auto
termination
  by (relation "measure (\<lambda>(dev, b, r, l, x). unat r)")
    (auto simp: unat_sub word_le_nat_alt unat_gt_0 unat_eq_zero intro!: diff_less)

declare read_body.simps [simp del]

text \<open>The body and the tail together read what is left.\<close>

definition read_rest :: "'d block_device \<Rightarrow> u64 \<Rightarrow> u64 \<Rightarrow> u64 \<Rightarrow> u64 \<Rightarrow> mem \<times> 'd \<Rightarrow> (u64 \<times> mem \<times> 'd) kres" where
  "read_rest dev sz dstbuf remaining curr_lba w =
     kbind (read_body dev dstbuf remaining curr_lba w) (\<lambda>(dstbuf, remaining, curr_lba, m, d).
     if remaining = 0 then Inr (sz, m, d)
     else kbind (read_block dev (partition_offset dev) curr_lba d) (\<lambda>(_, read_buffer, d).
          Inr (sz, mem_store m dstbuf (take (unat remaining) read_buffer), d)))"

definition read_blk_device_bytes ::
  "'d block_device \<Rightarrow> u64 \<Rightarrow> u64 \<Rightarrow> u64 \<Rightarrow> mem \<times> 'd \<Rightarrow> (u64 \<times> mem \<times> 'd) kres" where
  "read_blk_device_bytes dev byte_offset buf sz w =
     (if block_size dev > MAX_BLOCK_SIZE then (case w of (m, d) \<Rightarrow> Inr (0, m, d))
      else if block_size dev = 0 then Inl Fault
      else
        let curr_lba = byte_offset div block_size dev;
            head_offset = byte_offset mod block_size dev
        in kbind
          (if head_offset > 0
           then let head_bytes_to_copy = block_size dev - head_offset;
                    head_bytes_to_copy = (if head_bytes_to_copy > sz then sz else head_bytes_to_copy)
                in case w of (m, d) \<Rightarrow>
                   kbind (read_block dev (partition_offset dev) curr_lba d) (\<lambda>(_, read_buffer, d).
                   let m = mem_store m buf (take (unat head_bytes_to_copy) (drop (unat head_offset) read_buffer))
                   in Inr (buf + head_bytes_to_copy, sz - head_bytes_to_copy, curr_lba + 1, m, d))
           else (case w of (m, d) \<Rightarrow> Inr (buf, sz, curr_lba, m, d)))
          (\<lambda>(dstbuf, remaining, curr_lba, w). read_rest dev sz dstbuf remaining curr_lba w))"

section \<open>drivers/ata\_pio/read\_write.c\<close>

abbreviation (input) "SECTOR_SIZE \<equiv> (512 :: u64)"

record ata_ctrl =
  ctrl_base :: u16
  ctrl_dev_ctl :: u16

datatype base_registers_offset = DATA_REGISTER | ERROR_OR_FEATURE_REGISTER | SECTOR_COUNT_REGISTER
  | SECTOR_NUMBER_REGISTER | CYLINDER_LOW_REGISTER | CYLINDER_HIGH_REGISTER | DRIVE_OR_HEAD_REGISTER
  | STATUS_OR_COMMAND_REGISTER

fun base_register_offset :: "base_registers_offset \<Rightarrow> u16" where
  "base_register_offset DATA_REGISTER = 0"
| "base_register_offset ERROR_OR_FEATURE_REGISTER = 1"
| "base_register_offset SECTOR_COUNT_REGISTER = 2"
| "base_register_offset SECTOR_NUMBER_REGISTER = 3"
| "base_register_offset CYLINDER_LOW_REGISTER = 4"
| "base_register_offset CYLINDER_HIGH_REGISTER = 5"
| "base_register_offset DRIVE_OR_HEAD_REGISTER = 6"
| "base_register_offset STATUS_OR_COMMAND_REGISTER = 7"

datatype command_port_values = COMMAND_PORT_READ_VALUE | COMMAND_PORT_WRITE_VALUE

fun command_port_value :: "command_port_values \<Rightarrow> u8" where
  "command_port_value COMMAND_PORT_READ_VALUE = 0x20"
| "command_port_value COMMAND_PORT_WRITE_VALUE = 0x30"

definition ata_pio_prepare_for_operations :: "'d hw \<Rightarrow> ata_ctrl \<Rightarrow> u64 \<Rightarrow> u64 \<Rightarrow> 'd \<Rightarrow> 'd" where
  "ata_pio_prepare_for_operations hw s_ctrl lba_addressing sectors_to_operate d =
     (let drive_register_value = (ucast ((drop_bit 24 lba_addressing AND 0x0F) OR 0xE0) :: u8);
          d = outb hw (ctrl_base s_ctrl + base_register_offset DRIVE_OR_HEAD_REGISTER) drive_register_value d;
          d = outb hw (ctrl_base s_ctrl + base_register_offset ERROR_OR_FEATURE_REGISTER) 0 d;
          d = outb hw (ctrl_base s_ctrl + base_register_offset SECTOR_COUNT_REGISTER) (ucast sectors_to_operate) d;
          d = outb hw (ctrl_base s_ctrl + base_register_offset SECTOR_NUMBER_REGISTER) (ucast (lba_addressing AND 0x0FF)) d;
          d = outb hw (ctrl_base s_ctrl + base_register_offset CYLINDER_LOW_REGISTER)
                (ucast (drop_bit 8 lba_addressing AND 0xFF)) d
      in outb hw (ctrl_base s_ctrl + base_register_offset CYLINDER_HIGH_REGISTER)
           (ucast (drop_bit 16 lba_addressing AND 0xFF)) d)"

text \<open>Moving n words through the data port.\<close>

primrec read_words :: "'d hw \<Rightarrow> u16 \<Rightarrow> nat \<Rightarrow> 'd \<Rightarrow> u16 list \<times> 'd" where
  "read_words hw port 0 d = ([], d)"
| "read_words hw port (Suc n) d =
     (let (w, d) = inw hw port d; (ws, d) = read_words hw port n d in (w # ws, d))"

primrec write_words :: "'d hw \<Rightarrow> u16 \<Rightarrow> u16 list \<Rightarrow> 'd \<Rightarrow> 'd" where
  "write_words hw port [] d = d"
| "write_words hw port (w # ws) d = write_words hw port ws (outw hw port w d)"

definition ata_pio_read :: "'d hw \<Rightarrow> ata_ctrl \<Rightarrow> u64 \<Rightarrow> u64 \<Rightarrow> 'd \<Rightarrow> (u8 list \<times> 'd) kres" where
  "ata_pio_read hw s_ctrl lba_addressing sectors_to_read d =
     (let d = ata_pio_prepare_for_operations hw s_ctrl lba_addressing sectors_to_read d;
          command_port = ctrl_base s_ctrl + base_register_offset STATUS_OR_COMMAND_REGISTER;
          d = outb hw command_port (command_port_value COMMAND_PORT_READ_VALUE) d
      in kbind (await_port hw command_port (\<lambda>v. v AND 8 \<noteq> 0) d) (\<lambda>d.
         let data_port = ctrl_base s_ctrl + base_register_offset DATA_REGISTER;
             (ws, d) = read_words hw data_port (unat (sectors_to_read * 256)) d
         in Inr (concat (map (le_bytes 2) ws), d)))"

text \<open>\<open>buf\<close> is the contents of the buffer; its words are the pairs of its bytes.\<close>

definition buf_words :: "u8 list \<Rightarrow> nat \<Rightarrow> u16 list" where
  "buf_words buf n = map (\<lambda>i. le_word [buf ! (2 * i), buf ! (2 * i + 1)]) [0..<n]"

definition ata_pio_write :: "'d hw \<Rightarrow> ata_ctrl \<Rightarrow> u64 \<Rightarrow> u64 \<Rightarrow> u8 list \<Rightarrow> 'd \<Rightarrow> 'd kres" where
  "ata_pio_write hw s_ctrl lba_addressing sectors_to_write buf d =
     (let d = ata_pio_prepare_for_operations hw s_ctrl lba_addressing sectors_to_write d;
          command_port = ctrl_base s_ctrl + base_register_offset STATUS_OR_COMMAND_REGISTER;
          d = outb hw command_port (command_port_value COMMAND_PORT_WRITE_VALUE) d
      in kbind (await_port hw command_port (\<lambda>v. v AND 8 \<noteq> 0) d) (\<lambda>d.
         let data_port = ctrl_base s_ctrl + base_register_offset DATA_REGISTER;
             n = unat (sectors_to_write * 256)
         in if length buf < 2 * n then Inl Fault else Inr (write_words hw data_port (buf_words buf n) d)))"

definition ata_pio_read_sector :: "'d hw \<Rightarrow> ata_ctrl \<Rightarrow> u64 \<Rightarrow> u64 \<Rightarrow> 'd \<Rightarrow> (u64 \<times> u8 list \<times> 'd) kres" where
  "ata_pio_read_sector hw s_ctrl part_offset lba d =
     kbind (ata_pio_read hw s_ctrl (lba + part_offset) 1 d) (\<lambda>(buffer, d). Inr (SECTOR_SIZE, buffer, d))"

definition ata_pio_write_sector :: "'d hw \<Rightarrow> ata_ctrl \<Rightarrow> u64 \<Rightarrow> u64 \<Rightarrow> u8 list \<Rightarrow> 'd \<Rightarrow> (u64 \<times> 'd) kres" where
  "ata_pio_write_sector hw s_ctrl part_offset lba buffer d =
     kbind (ata_pio_write hw s_ctrl (lba + part_offset) 1 buffer d) (\<lambda>d. Inr (SECTOR_SIZE, d))"

record 'd ata_state =
  s_ctrl :: ata_ctrl
  s_block_device :: "'d block_device"
  driver_initlized :: bool

text \<open>The device functions read s_ctrl when they run; it is set once, before they are reachable.\<close>

definition ata_pio_init :: "'d hw \<Rightarrow> 'd ata_state \<Rightarrow> 'd block_device \<times> 'd ata_state" where
  "ata_pio_init hw s =
     (if driver_initlized s then (s_block_device s, s)
      else
        let s = s\<lparr>driver_initlized := True\<rparr>;
            s = s\<lparr>s_ctrl := \<lparr>ctrl_base = 0x1F0, ctrl_dev_ctl = 0x3F6\<rparr>\<rparr>;
            s = s\<lparr>s_block_device := (s_block_device s)\<lparr>block_size := SECTOR_SIZE, blocks_count := 0,
                  partition_offset := 0, read_block := ata_pio_read_sector hw (s_ctrl s),
                  write_block := ata_pio_write_sector hw (s_ctrl s)\<rparr>\<rparr>
        in (s_block_device s, s))"

section \<open>Reading bytes\<close>

lemma mem_store_append:
  assumes "length xs + length ys \<le> 2 ^ 64"
  shows "mem_store (mem_store m a xs) (a + word_of_nat (length xs)) ys = mem_store m a (xs @ ys)"
proof (rule ext)
  fix x
  let ?d = "x - a" and ?n = "word_of_nat (length xs) :: u64"
  show "mem_store (mem_store m a xs) (a + ?n) ys x = mem_store m a (xs @ ys) x"
  proof (cases "ys = []")
    case True
    then show ?thesis by (simp add: mem_store_def)
  next
    case False
    then have n: "unat ?n = length xs" using assms by (subst unat_of_nat) (auto simp: neq_Nil_conv)
    have e: "x - (a + ?n) = ?d - ?n" by simp
    show ?thesis
    proof (cases "unat ?d < length xs")
      case True
      then have lt: "0 < unat (?n - ?d)" "unat (?n - ?d) = length xs - unat ?d"
        using n by (simp_all add: unat_sub word_le_nat_alt)
      moreover have "?n - ?d \<noteq> 0" using lt(1) unat_gt_0 by blast
      ultimately have "unat (?d - ?n) = 2 ^ 64 - (length xs - unat ?d)"
        using unat_uminus_u64[of "?n - ?d"] by simp
      then have "\<not> unat (?d - ?n) < length ys" using assms True by simp
      then show ?thesis unfolding mem_store_def e using True by (simp add: nth_append)
    next
      case False
      then have "unat (?d - ?n) = unat ?d - length xs" using n by (simp add: unat_sub word_le_nat_alt)
      then show ?thesis unfolding mem_store_def e using False by (auto simp: nth_append)
    qed
  qed
qed

lemma mem_store_Nil [simp]: "mem_store m a [] = m"
  by (simp add: mem_store_def)

text \<open>
  A device whose N blocks hold the bytes \<open>img\<close>: a read of a block below N returns them and leaves
  the device in a state from which it answers the next read.
\<close>

definition dev_bytes :: "(nat \<Rightarrow> u8) \<Rightarrow> nat \<Rightarrow> nat \<Rightarrow> u8 list" where
  "dev_bytes img off n = map (\<lambda>i. img (off + i)) [0..<n]"

lemma length_dev_bytes [simp]: "length (dev_bytes img off n) = n"
  by (simp add: dev_bytes_def)

lemma nth_dev_bytes [simp]: "i < n \<Longrightarrow> dev_bytes img off n ! i = img (off + i)"
  by (simp add: dev_bytes_def)

lemma dev_bytes_append: "dev_bytes img off a @ dev_bytes img (off + a) b = dev_bytes img off (a + b)"
  by (rule nth_equalityI) (auto simp: nth_append)

lemma take_dev_bytes: "k \<le> n \<Longrightarrow> take k (dev_bytes img off n) = dev_bytes img off k"
  by (rule nth_equalityI) auto

lemma drop_dev_bytes: "drop k (dev_bytes img off n) = dev_bytes img (off + k) (n - k)"
  by (rule nth_equalityI) (auto simp: add.assoc)

lemma store_dev_bytes:
  assumes "unat w + k \<le> 2 ^ 64"
  shows "mem_store (mem_store m buf (dev_bytes img off (unat w))) (buf + w) (dev_bytes img (off + unat w) k) =
    mem_store m buf (dev_bytes img off (unat w + k))"
  using mem_store_append[of "dev_bytes img off (unat w)" "dev_bytes img (off + unat w) k" m buf] assms
  by (simp add: dev_bytes_append)

definition block_reads :: "'d block_device \<Rightarrow> ('d \<Rightarrow> bool) \<Rightarrow> nat \<Rightarrow> (nat \<Rightarrow> u8) \<Rightarrow> bool" where
  "block_reads dev idle N img \<longleftrightarrow> 0 < block_size dev \<and> block_size dev \<le> 512 \<and>
     (\<forall>lba d. idle d \<and> unat lba < N \<longrightarrow>
        (\<exists>r d'. read_block dev (partition_offset dev) lba d =
             Inr (r, dev_bytes img (unat lba * unat (block_size dev)) (unat (block_size dev)), d') \<and> idle d'))"

lemma block_readsD:
  assumes "block_reads dev idle N img" "idle d" "unat lba < N"
  obtains r d' where "read_block dev (partition_offset dev) lba d =
             Inr (r, dev_bytes img (unat lba * unat (block_size dev)) (unat (block_size dev)), d')" "idle d'"
  using assms unfolding block_reads_def by blast

lemma read_body_reads:
  assumes "block_reads dev idle N img" "idle d" "N < 2 ^ 64"
    "unat lba * unat (block_size dev) + unat rem \<le> N * unat (block_size dev)"
  shows "\<exists>d'. read_body dev buf rem lba (m, d) =
      Inr (buf + (rem - rem mod block_size dev), rem mod block_size dev, lba + rem div block_size dev,
           mem_store m buf (dev_bytes img (unat lba * unat (block_size dev)) (unat (rem - rem mod block_size dev))), d') \<and> idle d'"
  using assms(2,4)
proof (induction "unat rem" arbitrary: rem buf lba m d rule: less_induct)
  case less
  let ?b = "block_size dev"
  have b: "?b \<noteq> 0" "0 < unat ?b" using assms(1) by (auto simp: block_reads_def unat_gt_0)
  show ?case
  proof (cases "?b \<le> rem")
    case False
    then have "rem < ?b" by simp
    then have "rem mod ?b = rem" "rem div ?b = 0" by (simp_all add: word_less_nat_alt word_unat_eq_iff unat_divmod)
    then show ?thesis using False less.prems(1) by (simp add: read_body.simps[of _ _ rem] dev_bytes_def)
  next
    case True
    then have br: "unat ?b \<le> unat rem" by (simp add: word_le_nat_alt)
    let ?r = "rem - ?b"
    have r: "unat ?r = unat rem - unat ?b" using True by (simp add: unat_sub)
    have "unat lba * unat ?b < N * unat ?b" using less.prems(2) br b(2) by linarith
    then have lN: "unat lba < N" by simp
    obtain x d1 where rd: "read_block dev (partition_offset dev) lba d =
        Inr (x, dev_bytes img (unat lba * unat ?b) (unat ?b), d1)" "idle d1"
      using block_readsD[OF assms(1) less.prems(1) lN] .
    have l1: "unat (lba + 1) = unat lba + 1" using lN assms(3) unat_add_if_fits[of lba 1] by simp
    let ?m = "mem_store m buf (dev_bytes img (unat lba * unat ?b) (unat ?b))"
    have bd: "unat (lba + 1) * unat ?b + unat ?r \<le> N * unat ?b" using less.prems(2) l1 r br by (simp add: algebra_simps)
    have rlt: "unat ?r < unat rem" using r b(2) br by linarith
    obtain d2 where IH: "read_body dev (buf + ?b) ?r (lba + 1) (?m, d1) =
      Inr (buf + ?b + (?r - ?r mod ?b), ?r mod ?b, lba + 1 + ?r div ?b,
           mem_store ?m (buf + ?b) (dev_bytes img (unat (lba + 1) * unat ?b) (unat (?r - ?r mod ?b))), d2)" "idle d2"
      using less.hyps[OF rlt rd(2) bd, of "buf + ?b" ?m] by blast
    have um: "unat ?r mod unat ?b = unat rem mod unat ?b" unfolding r using br by (simp add: le_mod_geq)
    have mod: "?r mod ?b = rem mod ?b" using um by (simp add: word_unat_eq_iff unat_mod_distrib)
    have "unat ?r div unat ?b + 1 = unat rem div unat ?b" unfolding r using br b(2) by (simp add: le_div_geq)
    then have "unat (1 + ?r div ?b) = unat (rem div ?b)"
      using unat_add_if_fits[of 1 "?r div ?b"] unat_u64_less[of "rem div ?b"] by (simp add: unat_div_distrib)
    then have dv: "1 + ?r div ?b = rem div ?b" by (simp only: word_unat_eq_iff)
    have down: "unat (x - x mod ?b) = unat x - unat x mod unat ?b" for x
      by (simp add: unat_sub word_le_nat_alt unat_mod_distrib)
    have sz: "unat ?b + unat (?r - ?r mod ?b) = unat (rem - rem mod ?b)"
      unfolding down um unfolding r using br mod_less_eq_dividend[of "unat ?r" "unat ?b"] um r by linarith
    have "mem_store (mem_store m buf (dev_bytes img (unat lba * unat ?b) (unat ?b))) (buf + ?b)
             (dev_bytes img (unat (lba + 1) * unat ?b) (unat (?r - ?r mod ?b))) =
          mem_store m buf (dev_bytes img (unat lba * unat ?b) (unat (rem - rem mod ?b)))"
      using mem_store_append[of "dev_bytes img (unat lba * unat ?b) (unat ?b)"
          "dev_bytes img (unat (lba + 1) * unat ?b) (unat (?r - ?r mod ?b))" m buf] sz
        dev_bytes_append[of img "unat lba * unat ?b" "unat ?b" "unat (?r - ?r mod ?b)"] l1
        unat_u64_less[of "rem - rem mod ?b"]
      by (simp add: algebra_simps)
    moreover have "buf + ?b + (?r - ?r mod ?b) = buf + (rem - rem mod ?b)" unfolding mod by simp
    moreover have "lba + 1 + ?r div ?b = lba + rem div ?b" unfolding dv[symmetric] by simp
    ultimately show ?thesis
      using IH rd(1) True b(1) mod by (subst read_body.simps) (simp add: not_le[symmetric])
  qed
qed

lemma read_rest_reads:
  assumes dev: "block_reads dev idle N img" and d: "idle d" and N: "N < 2 ^ 64"
    and le: "unat lba * unat (block_size dev) + unat rem \<le> N * unat (block_size dev)"
  shows "\<exists>d'. read_rest dev sz buf rem lba (m, d) =
      Inr (sz, mem_store m buf (dev_bytes img (unat lba * unat (block_size dev)) (unat rem)), d') \<and> idle d'"
proof -
  let ?b = "block_size dev"
  have b: "0 < unat ?b" using dev by (auto simp: block_reads_def unat_gt_0)
  have um: "unat (rem mod ?b) = unat rem mod unat ?b" by (simp add: unat_mod_distrib)
  have "rem mod ?b \<le> rem" by (simp add: word_le_nat_alt um)
  from unat_sub[OF this] have down: "unat (rem - rem mod ?b) = unat rem div unat ?b * unat ?b"
    by (simp only: um minus_mod_eq_div_mult)
  obtain d1 where body: "read_body dev buf rem lba (m, d) =
      Inr (buf + (rem - rem mod ?b), rem mod ?b, lba + rem div ?b,
           mem_store m buf (dev_bytes img (unat lba * unat ?b) (unat (rem - rem mod ?b))), d1)" "idle d1"
    using read_body_reads[OF dev d N le, of buf m] by blast
  show ?thesis
  proof (cases "rem mod ?b = 0")
    case True
    then show ?thesis using body by (simp add: read_rest_def)
  next
    case False
    let ?l = "unat lba + unat rem div unat ?b"
    have pos: "0 < unat rem mod unat ?b" using False um by (metis gr0I word_unat_eq_iff unat_0)
    have "?l * unat ?b + unat rem mod unat ?b \<le> N * unat ?b" using le by (simp add: algebra_simps)
    then have lN: "?l < N" using pos by (metis add_lessD1 less_add_same_cancel1 mult_less_cancel2 order_less_le_trans)
    then have ul: "unat (lba + rem div ?b) = ?l"
      using unat_add_if_fits[of lba "rem div ?b"] N by (simp add: unat_div_distrib)
    obtain r d2 where rd: "read_block dev (partition_offset dev) (lba + rem div ?b) d1 =
        Inr (r, dev_bytes img (?l * unat ?b) (unat ?b), d2)" "idle d2"
      using block_readsD[OF dev body(2), of "lba + rem div ?b"] lN unfolding ul by blast
    have tail: "take (unat rem mod unat ?b) (dev_bytes img (?l * unat ?b) (unat ?b)) =
        dev_bytes img (unat lba * unat ?b + unat rem div unat ?b * unat ?b) (unat rem mod unat ?b)"
      using b by (subst take_dev_bytes) (simp_all add: algebra_simps)
    have "mem_store (mem_store m buf (dev_bytes img (unat lba * unat ?b) (unat (rem - rem mod ?b))))
        (buf + (rem - rem mod ?b)) (take (unat (rem mod ?b)) (dev_bytes img (?l * unat ?b) (unat ?b))) =
      mem_store m buf (dev_bytes img (unat lba * unat ?b) (unat rem))"
      unfolding um tail down[symmetric]
      by (subst store_dev_bytes) (use unat_u64_less[of rem] in \<open>simp_all add: down\<close>)
    then show ?thesis using body(1) rd False by (simp add: read_rest_def)
  qed
qed

lemma read_blk_rest:
  assumes "0 < block_size dev" "block_size dev \<le> 512"
  shows "read_blk_device_bytes dev off buf sz (m, d) =
    (if off mod block_size dev > 0
     then let hb = (if block_size dev - off mod block_size dev > sz then sz else block_size dev - off mod block_size dev)
          in kbind (read_block dev (partition_offset dev) (off div block_size dev) d) (\<lambda>(_, read_buffer, d).
             read_rest dev sz (buf + hb) (sz - hb) (off div block_size dev + 1)
               (mem_store m buf (take (unat hb) (drop (unat (off mod block_size dev)) read_buffer)), d))
     else read_rest dev sz buf sz (off div block_size dev) (m, d))"
proof -
  have "\<not> block_size dev > 512" "block_size dev \<noteq> 0" using assms by auto
  then show ?thesis
    by (cases "read_block dev (partition_offset dev) (off div block_size dev) d")
      (auto simp: read_blk_device_bytes_def Let_def)
qed

lemma read_blk_reads:
  assumes dev: "block_reads dev idle N img" and d: "idle d" and N: "N < 2 ^ 64"
    and le: "unat off + unat sz \<le> N * unat (block_size dev)"
  shows "\<exists>d'. read_blk_device_bytes dev off buf sz (m, d) =
      Inr (sz, mem_store m buf (dev_bytes img (unat off) (unat sz)), d') \<and> idle d'"
proof -
  let ?b = "block_size dev" and ?h = "unat off mod unat (block_size dev)" and ?l = "unat off div unat (block_size dev)"
  have b: "0 < ?b" "?b \<le> 512" "0 < unat ?b" using dev by (auto simp: block_reads_def unat_gt_0)
  have u: "unat (off mod ?b) = ?h" "unat (off div ?b) = ?l" by (simp_all add: unat_divmod)
  have off: "?l * unat ?b + ?h = unat off" by simp
  show ?thesis
  proof (cases "off mod ?b > 0")
    case False
    then have "?h = 0" using u(1) by (simp add: word_gt_0)
    then have "?l * unat ?b = unat off" using off by simp
    then show ?thesis using read_rest_reads[OF dev d N, of "off div ?b" sz sz buf m] le False u(2)
      by (simp add: read_blk_rest[OF b(1,2)])
  next
    case True
    define hb where "hb = (if ?b - off mod ?b > sz then sz else ?b - off mod ?b)"
    have h: "0 < ?h" "?h < unat ?b" using True b(3) u(1) unat_gt_0[of "off mod ?b"] by (simp_all add: word_gt_0)
    have ub: "unat (?b - off mod ?b) = unat ?b - ?h" using h(2) u(1) by (simp add: unat_sub word_le_nat_alt)
    then have hb: "unat hb = min (unat sz) (unat ?b - ?h)" by (auto simp: hb_def word_less_nat_alt)
    have "?l * unat ?b < N * unat ?b" using le off h(1) by linarith
    then have lN: "?l < N" by simp
    obtain r d1 where rd: "read_block dev (partition_offset dev) (off div ?b) d =
        Inr (r, dev_bytes img (?l * unat ?b) (unat ?b), d1)" "idle d1"
      using block_readsD[OF dev d, of "off div ?b"] lN unfolding u(2) by blast
    have "unat hb \<le> unat ?b - ?h" using hb by simp
    then have hd: "take (unat hb) (drop (unat (off mod ?b)) (dev_bytes img (?l * unat ?b) (unat ?b))) = dev_bytes img (unat off) (unat hb)"
      unfolding u(1) drop_dev_bytes off by (rule take_dev_bytes)
    have l1: "unat (off div ?b + 1) = ?l + 1" using lN N unat_add_if_fits[of "off div ?b" 1] u(2) by simp
    have rem: "unat (sz - hb) = unat sz - unat hb" using hb by (simp add: unat_sub word_le_nat_alt)
    have "(?l + 1) * unat ?b + (unat sz - unat hb) \<le> N * unat ?b"
    proof (cases "unat sz \<le> unat ?b - ?h")
      case True
      have "(?l + 1) * unat ?b \<le> N * unat ?b" using lN by (intro mult_right_mono) simp_all
      then show ?thesis using True hb by simp
    next
      case False
      have "(?l + 1) * unat ?b + ?h = unat off + unat ?b" using off by (simp add: add_mult_distrib)
      moreover have "unat hb = unat ?b - ?h" using False hb by simp
      ultimately show ?thesis using False h(2) le by linarith
    qed
    then obtain d2 where rest: "read_rest dev sz (buf + hb) (sz - hb) (off div ?b + 1) (mem_store m buf (dev_bytes img (unat off) (unat hb)), d1) =
      Inr (sz, mem_store (mem_store m buf (dev_bytes img (unat off) (unat hb))) (buf + hb)
        (dev_bytes img ((?l + 1) * unat ?b) (unat sz - unat hb)), d2)" "idle d2"
      using read_rest_reads[OF dev rd(2) N, of "off div ?b + 1" "sz - hb" sz "buf + hb"] unfolding l1 rem by blast
    have next_blk: "dev_bytes img ((?l + 1) * unat ?b) (unat sz - unat hb) = dev_bytes img (unat off + unat hb) (unat sz - unat hb)"
    proof (cases "unat sz \<le> unat ?b - ?h")
      case False
      have "(?l + 1) * unat ?b + ?h = unat off + unat ?b" using off by (simp add: add_mult_distrib)
      moreover have "unat hb = unat ?b - ?h" using False hb by simp
      ultimately have "unat off + unat hb = (?l + 1) * unat ?b" using h(2) by linarith
      then show ?thesis by simp
    qed (simp add: hb dev_bytes_def)
    have "mem_store (mem_store m buf (dev_bytes img (unat off) (unat hb))) (buf + hb)
        (dev_bytes img (unat off + unat hb) (unat sz - unat hb)) = mem_store m buf (dev_bytes img (unat off) (unat sz))"
      by (subst store_dev_bytes) (use hb unat_u64_less[of sz] in simp_all)
    then show ?thesis using rest rd(1) True hd unfolding next_blk
      by (simp add: read_blk_rest[OF b(1,2)] Let_def flip: hb_def)
  qed
qed

section \<open>The ATA drive\<close>

text \<open>
  The documented behaviour of a drive holding the bytes \<open>img\<close>. While it is idle a write to one of
  the registers at 0x1F1 to 0x1F6 only sets that register. A read command for one sector, given
  while the drive and LBA bits are set, shows the data request bit after some polls, and then the
  256 words of the addressed sector come through the data port and the drive is idle again.
\<close>

definition ata_lba :: "(u16 \<Rightarrow> u8) \<Rightarrow> u32" where
  "ata_lba r = ucast (r 0x1F3) OR push_bit 8 (ucast (r 0x1F4)) OR push_bit 16 (ucast (r 0x1F5)) OR
     push_bit 24 (ucast (r 0x1F6 AND 0x0F))"

definition sector_words :: "(nat \<Rightarrow> u8) \<Rightarrow> nat \<Rightarrow> u16 list" where
  "sector_words img lba = map (\<lambda>i. le_word [img (512 * lba + 2 * i), img (512 * lba + 2 * i + 1)]) [0..<256]"

definition ata_drive :: "'d hw \<Rightarrow> ('d \<Rightarrow> bool) \<Rightarrow> ('d \<Rightarrow> u16 \<Rightarrow> u8) \<Rightarrow> (nat \<Rightarrow> u8) \<Rightarrow> bool" where
  "ata_drive hw idle regs img \<longleftrightarrow>
     (\<forall>d p v. idle d \<and> 0x1F1 \<le> p \<and> p \<le> 0x1F6 \<longrightarrow> idle (outb hw p v d) \<and> regs (outb hw p v d) = (regs d)(p := v)) \<and>
     (\<forall>d. idle d \<and> regs d 0x1F2 = 1 \<and> regs d 0x1F6 AND 0xF0 = 0xE0 \<longrightarrow>
        (let d1 = outb hw 0x1F7 0x20 d
         in (\<exists>k. fst (inb hw 0x1F7 (port_after hw 0x1F7 k d1)) AND 8 \<noteq> 0) \<and>
            (\<forall>j. fst (inb hw 0x1F7 (port_after hw 0x1F7 j d1)) AND 8 \<noteq> 0 \<longrightarrow>
               (\<exists>d2. read_words hw 0x1F0 256 (port_after hw 0x1F7 (Suc j) d1) =
                  (sector_words img (unat (ata_lba (regs d))), d2) \<and> idle d2))))"

lemma le_bytes_pair: "le_bytes 2 (le_word [a, b] :: u16) = [a, b]"
proof -
  have "ucast (le_word [a, b] :: u16) = a" "ucast (drop_bit 8 (le_word [a, b] :: u16)) = b"
    by (rule bit_word_eqI; simp add: bit_simps bit_le_word bit_beyond)+
  then show ?thesis by (simp add: le_bytes_def upt_rec)
qed

lemma concat_pairs: "concat (map (\<lambda>i. [f (2 * i), f (2 * i + 1)]) [0..<n]) = map f [0..<2 * n]"
  by (induction n) auto

lemma sector_bytes: "concat (map (le_bytes 2) (sector_words img lba)) = dev_bytes img (512 * lba) 512"
  using concat_pairs[of "\<lambda>i. img (512 * lba + i)" 256]
  by (simp add: sector_words_def dev_bytes_def le_bytes_pair comp_def add.assoc del: le_word.simps)

lemma ata_lba_programmed:
  assumes "unat lba < 2 ^ 28"
    "r 0x1F3 = ucast (lba AND 0xFF)" "r 0x1F4 = ucast (drop_bit 8 lba AND 0xFF)" "r 0x1F5 = ucast (drop_bit 16 lba AND 0xFF)"
    "r 0x1F6 = ucast ((drop_bit 24 lba AND 0x0F) OR 0xE0)"
  shows "unat (ata_lba r) = unat (lba :: u64)"
proof -
  have hi: "\<not> bit lba n" if "28 \<le> n" for n
  proof
    assume b: "bit lba n"
    have "unat (take_bit 28 lba) = unat lba" using assms(1) by (simp add: unsigned_take_bit_eq take_bit_nat_eq_self)
    then have "lba = take_bit 28 lba" by (simp only: word_unat_eq_iff)
    then show False using b that by (metis bit_take_bit_iff not_le)
  qed
  have "ata_lba r = ucast lba"
  proof (rule bit_word_eqI)
    fix n assume "n < LENGTH(32)"
    then consider "n < 8" | "8 \<le> n" "n < 16" | "16 \<le> n" "n < 24" | "n = 24" | "n = 25" | "n = 26" | "n = 27" | "28 \<le> n" "n < 32" by fastforce
    then show "bit (ata_lba r) n = bit (ucast lba :: u32) n"
      unfolding ata_lba_def assms(2-5) and_low_mask
      by cases (auto simp: bit_simps hi bit_beyond)
  qed
  moreover have "unat (ucast lba :: u32) = unat lba" using assms(1) by (simp add: unsigned_ucast_eq take_bit_nat_eq_self)
  ultimately show ?thesis by simp
qed

abbreviation (input) "ata_primary \<equiv> \<lparr>ctrl_base = 0x1F0, ctrl_dev_ctl = 0x3F6\<rparr>"

lemma ata_prepared:
  assumes drive: "ata_drive hw idle regs img" and d: "idle d" and lba: "unat lba < 2 ^ 28"
  defines "d' \<equiv> ata_pio_prepare_for_operations hw ata_primary lba 1 d"
  shows "idle d'" "regs d' 0x1F2 = 1" "regs d' 0x1F6 AND 0xF0 = 0xE0" "unat (ata_lba (regs d')) = unat lba"
proof -
  have set: "idle (outb hw p v d)" "regs (outb hw p v d) = (regs d)(p := v)"
    if "idle d" "0x1F1 \<le> p" "p \<le> 0x1F6" for p v d
    using drive that unfolding ata_drive_def by blast+
  show "idle d'" using d unfolding d'_def by (simp add: ata_pio_prepare_for_operations_def Let_def set)
  have r: "regs d' = (regs d)(0x1F6 := ucast ((drop_bit 24 lba AND 0x0F) OR 0xE0), 0x1F1 := 0, 0x1F2 := 1,
      0x1F3 := ucast (lba AND 0xFF), 0x1F4 := ucast (drop_bit 8 lba AND 0xFF), 0x1F5 := ucast (drop_bit 16 lba AND 0xFF))"
    using d unfolding d'_def by (simp add: ata_pio_prepare_for_operations_def Let_def set)
  show "regs d' 0x1F2 = 1" by (simp add: r)
  have "(ucast ((drop_bit 24 lba AND 0x0F) OR 0xE0) :: u8) AND 0xF0 = 0xE0"
  proof (rule bit_word_eqI)
    fix n assume "n < LENGTH(8)"
    then have "n \<in> {0, 1, 2, 3, 4, 5, 6, 7}" by auto
    then show "bit ((ucast ((drop_bit 24 lba AND 0x0F) OR 0xE0) :: u8) AND 0xF0) n = bit (0xE0 :: u8) n"
      by (auto simp: bit_simps and_low_mask)
  qed
  then show "regs d' 0x1F6 AND 0xF0 = 0xE0" by (simp add: r)
  show "unat (ata_lba (regs d')) = unat lba" by (rule ata_lba_programmed[OF lba]) (simp_all add: r)
qed

lemma ata_read_sector:
  assumes drive: "ata_drive hw idle regs img" and d: "idle d" and lba: "unat lba < 2 ^ 28"
  shows "\<exists>d'. ata_pio_read hw ata_primary lba 1 d = Inr (dev_bytes img (512 * unat lba) 512, d') \<and> idle d'"
proof -
  let ?d = "ata_pio_prepare_for_operations hw ata_primary lba 1 d"
  note p = ata_prepared[OF drive d lba]
  let ?d1 = "outb hw 0x1F7 0x20 ?d"
  have cmd: "(\<exists>k. fst (inb hw 0x1F7 (port_after hw 0x1F7 k ?d1)) AND 8 \<noteq> 0)"
    "\<And>j. fst (inb hw 0x1F7 (port_after hw 0x1F7 j ?d1)) AND 8 \<noteq> 0 \<Longrightarrow>
       \<exists>d2. read_words hw 0x1F0 256 (port_after hw 0x1F7 (Suc j) ?d1) = (sector_words img (unat lba), d2) \<and> idle d2"
    using drive p unfolding ata_drive_def Let_def by metis+
  obtain j where j: "await_port hw 0x1F7 (\<lambda>v. v AND 8 \<noteq> 0) ?d1 = Inr (port_after hw 0x1F7 (Suc j) ?d1)"
    "fst (inb hw 0x1F7 (port_after hw 0x1F7 j ?d1)) AND 8 \<noteq> 0"
    using cmd(1) await_port_ends[of "\<lambda>v. v AND 8 \<noteq> 0" hw "0x1F7"] by blast
  then obtain d2 where "read_words hw 0x1F0 256 (port_after hw 0x1F7 (Suc j) ?d1) = (sector_words img (unat lba), d2)" "idle d2"
    using cmd(2) by blast
  then show ?thesis using j(1) sector_bytes[of img "unat lba"] by (simp add: ata_pio_read_def Let_def del: port_after.simps)
qed

lemma ata_block_reads:
  assumes "ata_drive hw idle regs img" "block_size dev = 512" "read_block dev = ata_pio_read_sector hw ata_primary"
    "unat (partition_offset dev) + N \<le> 2 ^ 28"
  shows "block_reads dev idle N (\<lambda>i. img (512 * unat (partition_offset dev) + i))"
  unfolding block_reads_def
proof (intro conjI allI impI; (elim conjE)?)
  fix lba :: u64 and d
  assume d: "idle d" "unat lba < N"
  have u: "unat (lba + partition_offset dev) = unat lba + unat (partition_offset dev)"
    using unat_add_if_fits[of lba "partition_offset dev"] d(2) assms(4) by simp
  then have "unat (lba + partition_offset dev) < 2 ^ 28" using d(2) assms(4) by simp
  then obtain d' where "ata_pio_read hw ata_primary (lba + partition_offset dev) 1 d =
      Inr (dev_bytes img (512 * unat (lba + partition_offset dev)) 512, d')" "idle d'"
    using ata_read_sector[OF assms(1) d(1)] by blast
  moreover have "dev_bytes img (512 * unat (lba + partition_offset dev)) 512 =
      dev_bytes (\<lambda>i. img (512 * unat (partition_offset dev) + i)) (unat lba * 512) 512"
    unfolding u by (simp add: dev_bytes_def algebra_simps)
  ultimately show "\<exists>r d'. read_block dev (partition_offset dev) lba d =
      Inr (r, dev_bytes (\<lambda>i. img (512 * unat (partition_offset dev) + i)) (unat lba * unat (block_size dev)) (unat (block_size dev)), d') \<and> idle d'"
    using assms(2,3) by (simp add: ata_pio_read_sector_def)
qed (use assms(2) in simp_all)

lemma partition_name_loop_ok:
  assumes "i \<le> length str" "i \<le> 99" "length name = 100" "0 \<notin> set str"
  shows "\<exists>name'. partition_name_loop (str @ 0 # rest) i name = Inr name' \<and> length name' = 100"
  using assms
proof (induction "100 - i" arbitrary: i name rule: less_induct)
  case less
  show ?case
  proof (cases "i < length str \<and> i < 99")
    case True
    then have "str ! i \<noteq> 0" using less.prems(4) by (metis nth_mem)
    moreover have "100 - (i + 1) < 100 - i" using True by linarith
    ultimately show ?thesis using True less.prems less.hyps[of "i + 1" "name[i := str ! i]"]
      by (subst partition_name_loop.simps) (simp add: arr_get_def arr_set_def nth_append)
  next
    case False
    then show ?thesis using less.prems
      by (subst partition_name_loop.simps) (auto simp: arr_get_def arr_set_def nth_append)
  qed
qed

section \<open>Properties\<close>

text \<open>
  C11: reading a range of bytes from a partition of the ATA drive, whatever its alignment to
  sectors, stores exactly those bytes of the drive in the buffer and changes no other byte of
  memory, and leaves the drive ready for the next read.
\<close>

theorem partition_reads_drive_bytes:
  assumes "ata_drive hw idle regs img" "idle d" "\<not> driver_initlized s" "length (bd_name (s_block_device s)) = 100"
    "0 \<notin> set str" "unat start + N \<le> 2 ^ 28" "unat off + unat sz \<le> N * 512"
  shows "\<exists>dev d'. create_partition_wrapper (fst (ata_pio_init hw s)) start (str @ 0 # rest) cnt = Inr dev \<and>
    read_blk_device_bytes dev off buf sz (m, d) =
      Inr (sz, mem_store m buf (dev_bytes img (512 * unat start + unat off) (unat sz)), d') \<and> idle d'"
proof -
  let ?p = "(fst (ata_pio_init hw s))\<lparr>blocks_count := cnt, partition_offset := start\<rparr>"
  have init: "block_size (fst (ata_pio_init hw s)) = 512" "partition_offset (fst (ata_pio_init hw s)) = 0"
    "read_block (fst (ata_pio_init hw s)) = ata_pio_read_sector hw ata_primary"
    "bd_name (fst (ata_pio_init hw s)) = bd_name (s_block_device s)"
    using assms(3) by (simp_all add: ata_pio_init_def)
  obtain name where name: "partition_name_loop (str @ 0 # rest) 0 (bd_name ?p) = Inr name"
    using partition_name_loop_ok[of 0 str "bd_name ?p" rest] init(4) assms(4,5) by auto
  let ?dev = "?p\<lparr>bd_name := name\<rparr>"
  have "create_partition_wrapper (fst (ata_pio_init hw s)) start (str @ 0 # rest) cnt = Inr ?dev"
    using name init(2) by (simp add: create_partition_wrapper_def)
  moreover have "block_reads ?dev idle N (\<lambda>i. img (512 * unat start + i))"
    using ata_block_reads[OF assms(1), of ?dev N] init assms(6) by simp
  then obtain d' where "read_blk_device_bytes ?dev off buf sz (m, d) =
      Inr (sz, mem_store m buf (dev_bytes (\<lambda>i. img (512 * unat start + i)) (unat off) (unat sz)), d')" "idle d'"
    using read_blk_reads[of ?dev idle N _ d off sz buf m] assms(2,6,7) init(1) by auto
  ultimately show ?thesis by (auto simp: dev_bytes_def add.assoc)
qed

text \<open>A drive simulated by its registers and the words waiting in its buffer.\<close>

definition sim_ata :: "(nat \<Rightarrow> u8) \<Rightarrow> ((u16 \<Rightarrow> u8) \<times> u16 list) hw" where
  "sim_ata img =
     \<lparr>hw_inb = (\<lambda>p (r, q). (if p = 0x1F7 then (if q = [] then 0x50 else 0x58) else r p, (r, q))),
      hw_outb = (\<lambda>p v (r, q). if p = 0x1F7 then (if v = 0x20 then (r, sector_words img (unat (ata_lba r))) else (r, q)) else (r(p := v), q)),
      hw_inw = (\<lambda>p (r, q). case q of [] \<Rightarrow> (0, (r, q)) | w # q \<Rightarrow> (w, (r, q))),
      hw_outw = (\<lambda>p v d. d), hw_read32 = (\<lambda>a d. (0, d)), hw_write32 = (\<lambda>a v d. d)\<rparr>"

lemma sim_read_words: "read_words (sim_ata img) p (length ws) (r, ws) = (ws, (r, []))"
  by (induction ws) (simp_all add: inw_def sim_ata_def)

lemma sim_port_after: "port_after (sim_ata img) p k d = d"
  by (induction k arbitrary: d) (simp_all add: inb_def sim_ata_def split: prod.split)

lemma sim_ata_drive: "ata_drive (sim_ata img) (\<lambda>d. snd d = []) fst img"
proof -
  have "length (sector_words img l) = 256" "sector_words img l \<noteq> []" for l
    by (simp_all add: sector_words_def)
  moreover have "read_words (sim_ata img) 0x1F0 256 (r, sector_words img l) = (sector_words img l, (r, []))" for r l
    using sim_read_words[of img "0x1F0" "sector_words img l" r] by (simp add: sector_words_def)
  ultimately show ?thesis
    unfolding ata_drive_def Let_def sim_port_after by (auto simp: sim_ata_def outb_def inb_def)
qed

theorem partition_reads_drive_bytes_witness:
  "\<exists>dev d'. create_partition_wrapper (fst (ata_pio_init (sim_ata word_of_nat)
       \<lparr>s_ctrl = \<lparr>ctrl_base = 0, ctrl_dev_ctl = 0\<rparr>,
        s_block_device = \<lparr>bd_name = replicate 100 0, block_size = 0, blocks_count = 0, partition_offset = 0,
          read_block = (\<lambda>_ _ _. Inl Fault), write_block = (\<lambda>_ _ _ _. Inl Fault)\<rparr>,
        driver_initlized = False\<rparr>)) 2048 [0x73, 0x64, 0x61, 0x31, 0] 0 = Inr dev \<and>
    read_blk_device_bytes dev 1000 0x5000 2000 (\<lambda>_. 0, (\<lambda>_. 0, [])) =
      Inr (2000, mem_store (\<lambda>_. 0) 0x5000 (dev_bytes word_of_nat 1049576 2000), d')"
  using partition_reads_drive_bytes[where img = word_of_nat, OF sim_ata_drive, where d = "(\<lambda>_. 0, [])" and
      s = "\<lparr>s_ctrl = \<lparr>ctrl_base = 0, ctrl_dev_ctl = 0\<rparr>,
        s_block_device = \<lparr>bd_name = replicate 100 0, block_size = 0, blocks_count = 0, partition_offset = 0,
          read_block = (\<lambda>_ _ _. Inl Fault), write_block = (\<lambda>_ _ _ _. Inl Fault)\<rparr>,
        driver_initlized = False\<rparr>" and str = "[0x73, 0x64, 0x61, 0x31]" and start = 2048 and N = 6 and off = 1000 and
      sz = 2000 and rest = "[]" and cnt = 0 and buf = "0x5000" and m = "\<lambda>_. 0"] by auto

end
