(* ===== verification/Fat12.thy ===== *)
theory Fat12
  imports Heap_Client Block_Device C_Strings
begin

text \<open>
  The FAT12 driver, drivers/fat12/fat12.c and fat12\_defs.h, over the kernel heap and a block
  device. Buffers (the table, clusters, directory entries, names) are kmalloc'ed bytes of memory and
  are read and written there; structures are read from their packed bytes. The state of an
  operation is the heap with its memory and the state of the device. Counting the clusters of a
  chain may not end, so it is a partial function.
\<close>

section \<open>fat12\_defs.h\<close>

record fat12_header =
  h_bootjmp :: "u8 list"
  h_oem_name :: "u8 list"
  h_bytes_per_sector :: u16
  h_sectors_per_cluster :: u8
  h_reserved_sector_count :: u16
  h_table_count :: u8
  h_root_entry_count :: u16
  h_total_sectors16 :: u16
  h_media_type :: u8
  h_table_size16 :: u16
  h_sectors_per_track :: u16
  h_head_side_count :: u16
  h_hidden_sector_count :: u32
  h_total_sectors32 :: u32
  h_bios_drive_num :: u8
  h_reserved1 :: u8
  h_boot_signature :: u8
  h_volume_id :: u32
  h_volume_label :: "u8 list"
  h_fat_type_label :: "u8 list"

text \<open>The packed layout, 62 bytes.\<close>

definition fat12_header_of :: "u8 list \<Rightarrow> fat12_header" where
  "fat12_header_of b =
     \<lparr>h_bootjmp = take 3 b, h_oem_name = take 8 (drop 3 b), h_bytes_per_sector = le_word (take 2 (drop 11 b)),
      h_sectors_per_cluster = b ! 13, h_reserved_sector_count = le_word (take 2 (drop 14 b)),
      h_table_count = b ! 16, h_root_entry_count = le_word (take 2 (drop 17 b)),
      h_total_sectors16 = le_word (take 2 (drop 19 b)), h_media_type = b ! 21,
      h_table_size16 = le_word (take 2 (drop 22 b)), h_sectors_per_track = le_word (take 2 (drop 24 b)),
      h_head_side_count = le_word (take 2 (drop 26 b)), h_hidden_sector_count = le_word (take 4 (drop 28 b)),
      h_total_sectors32 = le_word (take 4 (drop 32 b)), h_bios_drive_num = b ! 36, h_reserved1 = b ! 37,
      h_boot_signature = b ! 38, h_volume_id = le_word (take 4 (drop 39 b)),
      h_volume_label = take 11 (drop 43 b), h_fat_type_label = take 8 (drop 54 b)\<rparr>"

record fat12_directory_entry =
  file_name :: "u8 list"
  attributes :: u8
  reserved :: u8
  creation_time_centiseconds :: u8
  creation_time :: u16
  creation_date :: u16
  last_access_date :: u16
  zero_value :: u16
  last_modify_time :: u16
  last_modify_date :: u16
  first_cluster_id :: u16
  file_size_in_bytes :: u32

abbreviation (input) "SIZEOF_directory_entry \<equiv> (32 :: u64)"

definition directory_entry_of :: "u8 list \<Rightarrow> fat12_directory_entry" where
  "directory_entry_of b =
     \<lparr>file_name = take 11 b, attributes = b ! 11, reserved = b ! 12, creation_time_centiseconds = b ! 13,
      creation_time = le_word (take 2 (drop 14 b)), creation_date = le_word (take 2 (drop 16 b)),
      last_access_date = le_word (take 2 (drop 18 b)), zero_value = le_word (take 2 (drop 20 b)),
      last_modify_time = le_word (take 2 (drop 22 b)), last_modify_date = le_word (take 2 (drop 24 b)),
      first_cluster_id = le_word (take 2 (drop 26 b)), file_size_in_bytes = le_word (take 4 (drop 28 b))\<rparr>"

definition dir_entry_at :: "mem \<Rightarrow> u64 \<Rightarrow> fat12_directory_entry" where
  "dir_entry_at m e = directory_entry_of (mem_bytes m e 32)"

abbreviation (input) "FINAL_ENTRY \<equiv> (0x00 :: u8)"
abbreviation (input) "DELETED_ENTRY \<equiv> (0xE5 :: u8)"
abbreviation (input) "VOLUME_LABEL_ATTRIBUTE \<equiv> (0x08 :: u8)"
abbreviation (input) "FAT12_ATTR_DIRECTORY \<equiv> (0x10 :: u8)"
abbreviation (input) "FAT_LAST_CLUSTER_NUM \<equiv> (0xFFF :: u16)"

definition is_final_directory_entry :: "fat12_directory_entry \<Rightarrow> bool" where
  "is_final_directory_entry entry \<longleftrightarrow> file_name entry ! 0 = FINAL_ENTRY"

definition is_volume_label_entry :: "fat12_directory_entry \<Rightarrow> bool" where
  "is_volume_label_entry entry \<longleftrightarrow> attributes entry AND VOLUME_LABEL_ATTRIBUTE \<noteq> 0"

definition is_deleted_entry :: "fat12_directory_entry \<Rightarrow> bool" where
  "is_deleted_entry entry \<longleftrightarrow> file_name entry ! 0 = DELETED_ENTRY"

definition is_directory_entry_directory :: "fat12_directory_entry \<Rightarrow> bool" where
  "is_directory_entry_directory entry \<longleftrightarrow> attributes entry AND FAT12_ATTR_DIRECTORY \<noteq> 0"

record fat12_info =
  bytes_per_sector :: u32
  sectors_per_cluster :: u32
  total_sectors :: u32
  fat_sector_size :: u32
  fat_section_sector_size :: u32
  root_dir_sectors_size :: u32
  data_sectors_size :: u32
  cluster_count :: u32
  data_section_sector_offset :: u32
  fat_section_sector_offset :: u32
  root_dir_sector_offset :: u32

definition cluster_id_to_cluster_num :: "u16 \<Rightarrow> u32" where
  "cluster_id_to_cluster_num cluster_id = ucast cluster_id - 2"

text \<open>A sector size of zero divides by zero.\<close>

definition bytes_to_sectors_round_up :: "u32 \<Rightarrow> u16 \<Rightarrow> u32 kres" where
  "bytes_to_sectors_round_up bytes bps =
     (if bps = 0 then Inl Fault else Inr ((bytes + ucast bps - 1) div ucast bps))"

section \<open>Reading the volume\<close>

record 'd fat12_state =
  g_blk_dev :: "'d block_device"
  g_fat12_header :: fat12_header
  g_fat12_info :: fat12_info

definition pread_device ::
  "'d block_device \<Rightarrow> u64 \<Rightarrow> u64 \<Rightarrow> u64 \<Rightarrow> 'a heap_state_scheme \<times> 'd \<Rightarrow> ('a heap_state_scheme \<times> 'd) kres" where
  "pread_device dev buffer read_bytes offset w =
     (case w of (s, d) \<Rightarrow>
       kbind (read_blk_device_bytes dev offset buffer read_bytes (kmem s, d)) (\<lambda>(_, m, d).
       Inr (s\<lparr>kmem := m\<rparr>, d)))"

text \<open>\<open>buffer\<close> is the address of the static array the header is read into.\<close>

definition load_fat12_header ::
  "u64 \<Rightarrow> 'd block_device \<Rightarrow> 'a heap_state_scheme \<times> 'd \<Rightarrow> (fat12_header \<times> 'a heap_state_scheme \<times> 'd) kres" where
  "load_fat12_header buffer dev w =
     kbind (pread_device dev buffer 62 0 w) (\<lambda>(s, d).
     Inr (fat12_header_of (mem_bytes (kmem s) buffer 62), s, d))"

definition load_fat12_info :: "fat12_header \<Rightarrow> fat12_info kres" where
  "load_fat12_info h =
     (let root_dir_bytes = (ucast (h_root_entry_count h) * 32 :: u32);
          total = (if h_total_sectors16 h \<noteq> 0 then ucast (h_total_sectors16 h) else h_total_sectors32 h);
          fat_size = (ucast (h_table_size16 h) :: u32);
          fat_section = ucast (h_table_count h) * fat_size
      in kbind (bytes_to_sectors_round_up root_dir_bytes (h_bytes_per_sector h)) (\<lambda>root_dir.
         let data_sectors = total - ucast (h_reserved_sector_count h) - fat_section - root_dir
         in if h_sectors_per_cluster h = 0 then Inl Fault
            else
              let data_offset = ucast (h_reserved_sector_count h) + fat_section + root_dir
              in Inr \<lparr>bytes_per_sector = ucast (h_bytes_per_sector h),
                      sectors_per_cluster = ucast (h_sectors_per_cluster h), total_sectors = total,
                      fat_sector_size = fat_size, fat_section_sector_size = fat_section,
                      root_dir_sectors_size = root_dir, data_sectors_size = data_sectors,
                      cluster_count = data_sectors div ucast (h_sectors_per_cluster h),
                      data_section_sector_offset = data_offset,
                      fat_section_sector_offset = ucast (h_reserved_sector_count h),
                      root_dir_sector_offset = data_offset - root_dir\<rparr>))"

definition init_fat12 ::
  "u64 \<Rightarrow> 'd block_device \<Rightarrow> 'a heap_state_scheme \<times> 'd \<Rightarrow> ('d fat12_state \<times> 'a heap_state_scheme \<times> 'd) kres" where
  "init_fat12 buffer blk_dev w =
     kbind (load_fat12_header buffer blk_dev w) (\<lambda>(h, s, d).
     kbind (load_fat12_info h) (\<lambda>info.
     Inr (\<lparr>g_blk_dev = blk_dev, g_fat12_header = h, g_fat12_info = info\<rparr>, s, d)))"

section \<open>The table\<close>

definition get_fat ::
  "'d block_device \<Rightarrow> fat12_info \<Rightarrow> 'a heap_state_scheme \<times> 'd \<Rightarrow> (u64 \<times> 'a heap_state_scheme \<times> 'd) kres" where
  "get_fat dev info w =
     (let FAT12_TABLE_SIZE = fat_sector_size info * bytes_per_sector info;
          FAT_BYTE_OFFSET = bytes_per_sector info * fat_section_sector_offset info
      in case w of (s, d) \<Rightarrow>
         kbind (kmalloc (ucast FAT12_TABLE_SIZE) s) (\<lambda>(fat, s).
         kbind (pread_device dev fat (ucast FAT12_TABLE_SIZE) (ucast FAT_BYTE_OFFSET) (s, d)) (\<lambda>(s, d).
         Inr (fat, s, d))))"

definition get_next_cluster_id :: "u16 \<Rightarrow> u64 \<Rightarrow> mem \<Rightarrow> u16" where
  "get_next_cluster_id cluster_id fat m =
     (let offset = (ucast cluster_id + ucast (cluster_id div 2) :: u32);
          packed = (ucast (m (fat + ucast offset)) OR push_bit 8 (ucast (m (fat + ucast (offset + 1)))) :: u32)
      in if cluster_id mod 2 \<noteq> 0 then ucast (drop_bit 4 packed) else ucast (packed AND 0x0FFF))"

partial_function (option) count_clusters_loop :: "u64 \<Rightarrow> mem \<Rightarrow> u16 \<Rightarrow> u32 \<Rightarrow> u32 option" where
  "count_clusters_loop fat m curr_cluster_id count =
     (if curr_cluster_id \<noteq> FAT_LAST_CLUSTER_NUM
      then count_clusters_loop fat m (get_next_cluster_id curr_cluster_id fat m) (count + 1)
      else Some count)"

definition count_file_clusters :: "u16 \<Rightarrow> u64 \<Rightarrow> mem \<Rightarrow> u32 kres" where
  "count_file_clusters initial_cluster_id fat m =
     (case count_clusters_loop fat m initial_cluster_id 0 of None \<Rightarrow> Inl Hang | Some n \<Rightarrow> Inr n)"

section \<open>Files\<close>

definition read_cluster ::
  "'d block_device \<Rightarrow> u16 \<Rightarrow> fat12_info \<Rightarrow> 'a heap_state_scheme \<times> 'd \<Rightarrow>
   (u64 \<times> u32 \<times> 'a heap_state_scheme \<times> 'd) kres" where
  "read_cluster dev cluster_id info w =
     (let cluster_num = cluster_id_to_cluster_num cluster_id;
          bytes_per_cluster = sectors_per_cluster info * bytes_per_sector info;
          data_section_offset = cluster_num * sectors_per_cluster info;
          device_sector_offset = data_section_sector_offset info + data_section_offset;
          device_bytes_offset = device_sector_offset * bytes_per_sector info
      in case w of (s, d) \<Rightarrow>
         kbind (kmalloc (ucast bytes_per_cluster) s) (\<lambda>(data, s).
         kbind (pread_device dev data (ucast bytes_per_cluster) (ucast device_bytes_offset) (s, d)) (\<lambda>(s, d).
         Inr (data, bytes_per_cluster, s, d))))"

text \<open>The body of the loop of get_file_content: the write position, the cluster and the state.\<close>

definition file_content_step ::
  "'d block_device \<Rightarrow> fat12_info \<Rightarrow> u64 \<Rightarrow> u32 \<Rightarrow> u64 \<times> u32 \<times> 'a heap_state_scheme \<times> 'd \<Rightarrow>
   (u64 \<times> u32 \<times> 'a heap_state_scheme \<times> 'd) kres" where
  "file_content_step dev info fat BYTES_PER_CLUSTER x =
     (case x of (curr_file_content_ptr, curr_cluster_id, w) \<Rightarrow>
       kbind (read_cluster dev (ucast curr_cluster_id) info w) (\<lambda>(cluster_data, _, s, d).
       let s = s\<lparr>kmem := memcpy curr_file_content_ptr cluster_data (ucast BYTES_PER_CLUSTER) (kmem s)\<rparr>
       in kbind (kfree cluster_data s) (\<lambda>s.
          Inr (curr_file_content_ptr + ucast BYTES_PER_CLUSTER,
               ucast (get_next_cluster_id (ucast curr_cluster_id) fat (kmem s)), s, d))))"

definition get_file_content ::
  "'d block_device \<Rightarrow> u64 \<Rightarrow> fat12_info \<Rightarrow> 'a heap_state_scheme \<times> 'd \<Rightarrow>
   (u64 \<times> u32 \<times> 'a heap_state_scheme \<times> 'd) kres" where
  "get_file_content dev file_directory_entry info w =
     (let BYTES_PER_CLUSTER = bytes_per_sector info * sectors_per_cluster info
      in kbind (get_fat dev info w) (\<lambda>(fat, s, d).
         kbind (count_file_clusters (first_cluster_id (dir_entry_at (kmem s) file_directory_entry)) fat (kmem s))
           (\<lambda>file_cluster_count.
         kbind (kmalloc (ucast file_cluster_count * ucast BYTES_PER_CLUSTER) s) (\<lambda>(file_content, s).
         let curr_cluster_id = ucast (first_cluster_id (dir_entry_at (kmem s) file_directory_entry))
         in kbind (for_loop 0 file_cluster_count (\<lambda>i. file_content_step dev info fat BYTES_PER_CLUSTER)
                     (file_content, curr_cluster_id, s, d)) (\<lambda>(_, _, s, d).
            kbind (kfree fat s) (\<lambda>s.
            if is_directory_entry_directory (dir_entry_at (kmem s) file_directory_entry)
            then Inr (file_content, BYTES_PER_CLUSTER * file_cluster_count, s, d)
            else Inr (file_content, file_size_in_bytes (dir_entry_at (kmem s) file_directory_entry), s, d)))))))"

section \<open>Directories\<close>

definition entry_addr :: "u64 \<Rightarrow> u32 \<Rightarrow> u64" where
  "entry_addr dir_entries i = dir_entries + ucast i * SIZEOF_directory_entry"

function count_valid_loop :: "mem \<Rightarrow> u64 \<Rightarrow> u32 \<Rightarrow> bool \<Rightarrow> u32 \<Rightarrow> u32 \<Rightarrow> u32" where
  "count_valid_loop m dir_entries max_entries include_all i count =
     (if i < max_entries
      then let e = dir_entry_at m (entry_addr dir_entries i)
           in if is_final_directory_entry e then count
              else if include_all
              then count_valid_loop m dir_entries max_entries include_all (i + 1) (count + 1)
              else count_valid_loop m dir_entries max_entries include_all (i + 1)
                     (if \<not> is_deleted_entry e \<and> \<not> is_volume_label_entry e then count + 1 else count)
      else count)"
  by pat_completeness auto
termination
  by (relation "measure (\<lambda>(m, d, n, a, i, c). unat n - unat i)") (auto simp: unat_Suc_less word_less_nat_alt)

declare count_valid_loop.simps [simp del]

definition count_valid_entries :: "mem \<Rightarrow> u64 \<Rightarrow> u32 \<Rightarrow> bool \<Rightarrow> u32" where
  "count_valid_entries m dir_entries max_entries include_none_file_or_dir_entries =
     count_valid_loop m dir_entries max_entries include_none_file_or_dir_entries 0 0"

text \<open>The loop that copies the valid entries to the new array; valid_index is a signed int.\<close>

function filter_loop :: "u64 \<Rightarrow> u64 \<Rightarrow> u32 \<Rightarrow> u32 \<Rightarrow> u32 \<Rightarrow> mem \<Rightarrow> mem" where
  "filter_loop filtered_entries dir_entries entries_count i valid_index m =
     (if i < entries_count
      then let a = entry_addr dir_entries i; e = dir_entry_at m a
           in if is_final_directory_entry e then m
              else if is_deleted_entry e \<or> is_volume_label_entry e
              then filter_loop filtered_entries dir_entries entries_count (i + 1) valid_index m
              else filter_loop filtered_entries dir_entries entries_count (i + 1) (valid_index + 1)
                     (memcpy (filtered_entries + scast valid_index * SIZEOF_directory_entry) a SIZEOF_directory_entry m)
      else m)"
  by pat_completeness auto
termination
  by (relation "measure (\<lambda>(f, d, n, i, c, m). unat n - unat i)") (auto simp: unat_Suc_less word_less_nat_alt)

declare filter_loop.simps [simp del]

definition filter_valid_directory_entries ::
  "u64 \<Rightarrow> u32 \<Rightarrow> 'a heap_state_scheme \<Rightarrow> (u64 \<times> u32 \<times> 'a heap_state_scheme) kres" where
  "filter_valid_directory_entries dir_entries entries_count s =
     (let file_type_entries_count = count_valid_entries (kmem s) dir_entries entries_count False
      in kbind (kmalloc (ucast file_type_entries_count * SIZEOF_directory_entry) s) (\<lambda>(filtered_entries, s).
         let s = s\<lparr>kmem := filter_loop filtered_entries dir_entries entries_count 0 0 (kmem s)\<rparr>
         in kbind (kfree dir_entries s) (\<lambda>s. Inr (filtered_entries, file_type_entries_count, s))))"

definition get_root_directory_entries ::
  "'d block_device \<Rightarrow> fat12_info \<Rightarrow> 'a heap_state_scheme \<times> 'd \<Rightarrow> (u64 \<times> u32 \<times> 'a heap_state_scheme \<times> 'd) kres" where
  "get_root_directory_entries dev info w =
     (let DIRECTORY_BYTES_SIZE = root_dir_sectors_size info * bytes_per_sector info;
          BYTES_OFFSET = root_dir_sector_offset info * bytes_per_sector info;
          MAX_ENTRIES = DIRECTORY_BYTES_SIZE div 32
      in case w of (s, d) \<Rightarrow>
         kbind (kmalloc (ucast DIRECTORY_BYTES_SIZE) s) (\<lambda>(dir_entries, s).
         kbind (pread_device dev dir_entries (ucast DIRECTORY_BYTES_SIZE) (ucast BYTES_OFFSET) (s, d)) (\<lambda>(s, d).
         kbind (filter_valid_directory_entries dir_entries MAX_ENTRIES s) (\<lambda>(dir_entries, n, s).
         Inr (dir_entries, n, s, d)))))"

definition get_directory_entries ::
  "'d block_device \<Rightarrow> u64 \<Rightarrow> fat12_info \<Rightarrow> 'a heap_state_scheme \<times> 'd \<Rightarrow>
   (u64 \<times> u32 \<times> 'a heap_state_scheme \<times> 'd) kres" where
  "get_directory_entries dev dir_entry info w = get_file_content dev dir_entry info w"

definition get_filtered_directory_entries ::
  "'d block_device \<Rightarrow> u64 \<Rightarrow> fat12_info \<Rightarrow> 'a heap_state_scheme \<times> 'd \<Rightarrow>
   (u64 \<times> u32 \<times> 'a heap_state_scheme \<times> 'd) kres" where
  "get_filtered_directory_entries dev dir_entry info w =
     kbind (get_file_content dev dir_entry info w) (\<lambda>(dirs, directory_bytes, s, d).
     let max_entries = directory_bytes div 32
     in kbind (filter_valid_directory_entries dirs max_entries s) (\<lambda>(dirs, n, s). Inr (dirs, n, s, d)))"

section \<open>Names and paths\<close>

text \<open>Squeezing the blanks out of the twelve characters, in place; j is the write index.\<close>

primrec squeeze_loop :: "u64 \<Rightarrow> nat \<Rightarrow> u64 \<Rightarrow> u64 \<Rightarrow> mem \<Rightarrow> u64 \<times> mem" where
  "squeeze_loop name 0 i j m = (j, m)"
| "squeeze_loop name (Suc k) i j m =
     (if m (name + i) \<noteq> 0x20
      then squeeze_loop name k (i + 1) (j + 1) (m(name + j := tolower (m (name + i))))
      else squeeze_loop name k (i + 1) j m)"

definition fat_file_name_to_str :: "u64 \<Rightarrow> 'a heap_state_scheme \<Rightarrow> (u64 \<times> 'a heap_state_scheme) kres" where
  "fat_file_name_to_str filename_fat_format s =
     kbind (kmalloc 13 s) (\<lambda>(name, s).
     let m = memcpy name filename_fat_format 8 (kmem s);
         m = m(name + 8 := (if m (filename_fat_format + 8) \<noteq> 0x20 then 0x2E else 0x20));
         m = memcpy (name + 9) (filename_fat_format + 8) 3 m;
         (j, m) = squeeze_loop name 12 0 0 m
     in Inr (name, s\<lparr>kmem := m(name + j := 0)\<rparr>))"

function names_loop :: "u64 \<Rightarrow> u64 \<Rightarrow> u32 \<Rightarrow> u32 \<Rightarrow> u32 \<Rightarrow> 'a heap_state_scheme \<Rightarrow> 'a heap_state_scheme kres" where
  "names_loop file_names dir_entries n i name_index s =
     (if i < n
      then let a = entry_addr dir_entries i; e = dir_entry_at (kmem s) a
           in if is_final_directory_entry e then Inr s
              else if is_deleted_entry e \<or> is_volume_label_entry e
              then names_loop file_names dir_entries n (i + 1) name_index s
              else kbind (fat_file_name_to_str a s) (\<lambda>(val, s).
                   names_loop file_names dir_entries n (i + 1) (name_index + 1)
                     (s\<lparr>kmem := write64 (kmem s) (file_names + scast name_index * 8) val\<rparr>))
      else Inr s)"
  by pat_completeness auto
termination
  by (relation "measure (\<lambda>(f, d, n, i, c, s). unat n - unat i)") (auto simp: unat_Suc_less word_less_nat_alt)

declare names_loop.simps [simp del]

definition get_entries_file_names ::
  "u64 \<Rightarrow> u32 \<Rightarrow> 'a heap_state_scheme \<Rightarrow> (u64 \<times> u32 \<times> 'a heap_state_scheme) kres" where
  "get_entries_file_names dir_entries dir_entries_count s =
     (let file_type_entries_count = count_valid_entries (kmem s) dir_entries dir_entries_count False
      in kbind (kmalloc (ucast file_type_entries_count * 8) s) (\<lambda>(file_names, s).
         kbind (names_loop file_names dir_entries dir_entries_count 0 0 s) (\<lambda>s.
         Inr (file_names, file_type_entries_count, s))))"

definition get_root_file_names ::
  "'d block_device \<Rightarrow> fat12_info \<Rightarrow> 'a heap_state_scheme \<times> 'd \<Rightarrow> (u64 \<times> u32 \<times> 'a heap_state_scheme \<times> 'd) kres" where
  "get_root_file_names dev info w =
     kbind (get_root_directory_entries dev info w) (\<lambda>(dir_entries, entries_count, s, d).
     kbind (get_entries_file_names dir_entries entries_count s) (\<lambda>(names, n, s).
     kbind (kfree dir_entries s) (\<lambda>s. Inr (names, n, s, d))))"

text \<open>The search for the name; strncmp reads at most path_element_len characters of the name.\<close>

primrec find_name_loop :: "nat \<Rightarrow> u64 \<Rightarrow> u64 \<Rightarrow> u8 list \<Rightarrow> u64 \<Rightarrow> u64 \<Rightarrow> mem \<Rightarrow> u64 kres" where
  "find_name_loop 0 i dir_entries path_element len elements_names m = Inr 0"
| "find_name_loop (Suc k) i dir_entries path_element len elements_names m =
     (let name = read64 m (elements_names + i * 8)
      in kbind (strncmp path_element (mem_bytes m name (unat len)) len) (\<lambda>r.
         if r = 0 \<and> m (name + len) = 0 then Inr (dir_entries + i * SIZEOF_directory_entry)
         else find_name_loop k (i + 1) dir_entries path_element len elements_names m))"

definition get_path_element_dir_entry ::
  "u64 \<Rightarrow> u8 list \<Rightarrow> u64 \<Rightarrow> u32 \<Rightarrow> 'a heap_state_scheme \<Rightarrow> (u64 \<times> 'a heap_state_scheme) kres" where
  "get_path_element_dir_entry dir_entries path_element path_element_len dir_entries_count s =
     kbind (get_entries_file_names dir_entries dir_entries_count s) (\<lambda>(elements_names, _, s).
     kbind (find_name_loop (unat dir_entries_count) 0 dir_entries path_element path_element_len elements_names (kmem s))
       (\<lambda>return_entry.
     kbind (for_loop 0 (ucast dir_entries_count :: u64)
              (\<lambda>i s. kfree (read64 (kmem s) (elements_names + i * 8)) s) s) (\<lambda>s.
     kbind (kfree elements_names s) (\<lambda>s. Inr (return_entry, s)))))"

text \<open>
  The walk over the path: the rest of the path, the start and length of the current element, the
  entries of the current directory. It ends at the terminator with the last element.
\<close>

fun fat12_walk ::
  "'d fat12_state \<Rightarrow> u64 \<Rightarrow> u8 list \<Rightarrow> u8 list \<Rightarrow> u64 \<Rightarrow> u64 \<Rightarrow> u32 \<Rightarrow> 'a heap_state_scheme \<times> 'd \<Rightarrow>
   ((u8 list \<times> u64 \<times> u64 \<times> u32) option \<times> 'a heap_state_scheme \<times> 'd) kres" where
  "fat12_walk g file_vfs [] element len dir_entries dir_entries_count w = Inl Fault"
| "fat12_walk g file_vfs (c # path) element len dir_entries dir_entries_count (s, d) =
     (if c = 0 then Inr (Some (element, len, dir_entries, dir_entries_count), s, d)
      else if c = 0x2F
      then kbind (get_path_element_dir_entry dir_entries element len dir_entries_count s) (\<lambda>(dir_entry, s).
           if dir_entry = 0
           then kbind (kfree dir_entries s) (\<lambda>s. kbind (kfree file_vfs s) (\<lambda>s. Inr (None, s, d)))
           else kbind (get_filtered_directory_entries (g_blk_dev g) dir_entry (g_fat12_info g) (s, d))
                  (\<lambda>(new_entries, n, s, d).
                kbind (kfree dir_entries s) (\<lambda>s.
                fat12_walk g file_vfs path path 0 new_entries n (s, d))))
      else fat12_walk g file_vfs path element (len + 1) dir_entries dir_entries_count (s, d))"

abbreviation (input) "SIZEOF_vfs_file \<equiv> (160 :: u64)"

text \<open>The open file: the address of the vfs_file, its size and its private data, the content.\<close>

definition fat12_open ::
  "'d fat12_state \<Rightarrow> u8 list \<Rightarrow> 'a heap_state_scheme \<times> 'd \<Rightarrow>
   ((u64 \<times> u64 \<times> u64) option \<times> 'a heap_state_scheme \<times> 'd) kres" where
  "fat12_open g filepath w =
     (case w of (s, d) \<Rightarrow>
     kbind (kmalloc SIZEOF_vfs_file s) (\<lambda>(file_vfs, s).
     kbind (get_root_directory_entries (g_blk_dev g) (g_fat12_info g) (s, d)) (\<lambda>(dir_entries, n, w).
     kbind (arr_get filepath 0) (\<lambda>c.
     let path = (if c = 0x2F then drop 1 filepath else filepath)
     in kbind (fat12_walk g file_vfs path path 0 dir_entries n w) (\<lambda>(r, s, d).
        case r of None \<Rightarrow> Inr (None, s, d)
        | Some (element, len, dir_entries, n) \<Rightarrow>
            kbind (get_path_element_dir_entry dir_entries element len n s) (\<lambda>(file_directory_entry, s).
            if file_directory_entry = 0
            then kbind (kfree dir_entries s) (\<lambda>s. kbind (kfree file_vfs s) (\<lambda>s. Inr (None, s, d)))
            else kbind (get_file_content (g_blk_dev g) file_directory_entry (g_fat12_info g) (s, d))
                   (\<lambda>(content, sz, s, d).
                 kbind (kfree dir_entries s) (\<lambda>s.
                 Inr (Some (file_vfs, ucast sz, content), s, d)))))))))"

text \<open>The operations of an open file; vfs\_fat12\_read, which copies to the caller's memory, is with the file layer.\<close>

definition vfs_fat12_close :: "u64 \<Rightarrow> 'a heap_state_scheme \<Rightarrow> (u64 \<times> 'a heap_state_scheme) kres" where
  "vfs_fat12_close fs_private_data s = kbind (kfree fs_private_data s) (\<lambda>s. Inr (0, s))"

definition vfs_fat12_write :: "u64 \<Rightarrow> u64 \<Rightarrow> 'b kres" where
  "vfs_fat12_write buffer sz = Inl (Kernel_panic ''FAT12 write is not supported yet'')"

end
