(* ===== verification/Fat12_Files.thy ===== *)
theory Fat12_Files
  imports Fat12
begin

text \<open>
  Files on a FAT12 volume: what the bytes of a volume mean (the table, the chain of a file, the
  bytes of its clusters), and that get\_file\_content reads exactly that into a fresh buffer, keeps
  every other buffer of the heap and releases what it borrowed.
\<close>

section \<open>The volume\<close>

definition bps :: "fat12_info \<Rightarrow> nat" where
  "bps info = unat (bytes_per_sector info)"

definition cluster_size :: "fat12_info \<Rightarrow> nat" where
  "cluster_size info = bps info * unat (sectors_per_cluster info)"

definition table_size :: "fat12_info \<Rightarrow> nat" where
  "table_size info = unat (fat_sector_size info) * bps info"

definition table_offset :: "fat12_info \<Rightarrow> nat" where
  "table_offset info = bps info * unat (fat_section_sector_offset info)"

definition cluster_offset :: "fat12_info \<Rightarrow> nat \<Rightarrow> nat" where
  "cluster_offset info c =
     (unat (data_section_sector_offset info) + (c - 2) * unat (sectors_per_cluster info)) * bps info"

text \<open>The volume has V bytes, fewer than 4 GB: the driver computes offsets in 32 bits.\<close>

definition volume_wf :: "fat12_info \<Rightarrow> nat \<Rightarrow> bool" where
  "volume_wf info V \<longleftrightarrow> V < 2 ^ 32 \<and> 0 < cluster_size info \<and> cluster_size info \<le> V \<and> 0 < table_size info \<and>
     table_offset info + table_size info \<le> V"

definition volume :: "'d block_device \<Rightarrow> ('d \<Rightarrow> bool) \<Rightarrow> nat \<Rightarrow> (nat \<Rightarrow> u8) \<Rightarrow> bool" where
  "volume dev idle V img \<longleftrightarrow>
     (\<exists>N. block_reads dev idle N img \<and> N < 2 ^ 64 \<and> V \<le> N * unat (block_size dev))"

text \<open>The entry of cluster c in the table: 12 bits, two entries in three bytes.\<close>

definition fat_next :: "(nat \<Rightarrow> u8) \<Rightarrow> fat12_info \<Rightarrow> nat \<Rightarrow> nat" where
  "fat_next img info c =
     (let o1 = table_offset info + c + c div 2; packed = unat (img o1) + 256 * unat (img (o1 + 1))
      in if odd c then packed div 16 else packed mod 4096)"

primrec fat_chain :: "(nat \<Rightarrow> u8) \<Rightarrow> fat12_info \<Rightarrow> nat \<Rightarrow> nat list \<Rightarrow> bool" where
  "fat_chain img info c [] \<longleftrightarrow> c = 0xFFF"
| "fat_chain img info c (x # xs) \<longleftrightarrow> c = x \<and> x \<noteq> 0xFFF \<and> fat_chain img info (fat_next img info x) xs"

definition cluster_ok :: "fat12_info \<Rightarrow> nat \<Rightarrow> nat \<Rightarrow> bool" where
  "cluster_ok info V c \<longleftrightarrow> 2 \<le> c \<and> c < 2 ^ 16 \<and> c + c div 2 + 1 < table_size info \<and>
     cluster_offset info c + cluster_size info \<le> V"

definition cluster_bytes :: "(nat \<Rightarrow> u8) \<Rightarrow> fat12_info \<Rightarrow> nat \<Rightarrow> u8 list" where
  "cluster_bytes img info c = dev_bytes img (cluster_offset info c) (cluster_size info)"

definition chain_bytes :: "(nat \<Rightarrow> u8) \<Rightarrow> fat12_info \<Rightarrow> nat list \<Rightarrow> u8 list" where
  "chain_bytes img info cs = concat (map (cluster_bytes img info) cs)"

lemma length_chain_bytes [simp]: "length (chain_bytes img info cs) = length cs * cluster_size info"
  by (induction cs) (simp_all add: chain_bytes_def cluster_bytes_def)

section \<open>Reading from the device\<close>

lemma pread_runs:
  assumes vol: "volume dev idle V img" and d: "idle d" and le: "unat off + unat sz \<le> V"
    and inv: "heap_inv s L" and p: "(p, n) \<in> L" and j: "j + unat sz \<le> unat n"
  shows "\<exists>s' d'. pread_device dev (p + word_of_nat j) sz off (s, d) = Inr (s', d') \<and> idle d' \<and> heap_inv s' L \<and>
    keeps (L - {(p, n)}) s s' \<and>
    mem_bytes (kmem s') (p + word_of_nat j) (unat sz) = dev_bytes img (unat off) (unat sz)"
proof -
  obtain N where N: "block_reads dev idle N img" "N < 2 ^ 64" "V \<le> N * unat (block_size dev)"
    using vol by (auto simp: volume_def)
  have "unat off + unat sz \<le> N * unat (block_size dev)" using le N(3) by simp
  then obtain d' where r: "read_blk_device_bytes dev off (p + word_of_nat j) sz (kmem s, d) =
      Inr (sz, mem_store (kmem s) (p + word_of_nat j) (dev_bytes img (unat off) (unat sz)), d')" "idle d'"
    using read_blk_reads[OF N(1) d N(2)] by blast
  let ?s = "s\<lparr>kmem := mem_store (kmem s) (p + word_of_nat j) (dev_bytes img (unat off) (unat sz))\<rparr>"
  have l: "j + length (dev_bytes img (unat off) (unat sz)) \<le> unat n" using j by simp
  note h = heap_store_buffer[OF inv p l]
  have "mem_bytes (kmem ?s) (p + word_of_nat j) (unat sz) = dev_bytes img (unat off) (unat sz)"
    using mem_bytes_mem_store[of "dev_bytes img (unat off) (unat sz)" "kmem s" "p + word_of_nat j"] unat_u64_less[of sz]
    by simp
  then show ?thesis using r h(1,2) by (intro exI[of _ ?s] exI[of _ d']) (simp add: pread_device_def)
qed

text \<open>Allocating a buffer and filling it from the device, as get_fat, read_cluster and others do.\<close>

lemma kmalloc_pread_runs:
  assumes vol: "volume dev idle V img" and d: "idle d" and le: "unat off + unat sz \<le> V"
    and inv: "heap_inv s L" and sz: "sz \<noteq> 0" "heap_fits s sz"
  shows "runs (kbind (kmalloc sz s) (\<lambda>(p, s). kbind (pread_device dev p sz off (s, d)) (\<lambda>(s, d). Inr (p, s, d))))
    (\<lambda>(p, s', d'). p \<notin> fst ` L \<and> heap_inv s' (insert (p, sz) L) \<and> keeps L s s' \<and> idle d' \<and>
       mem_bytes (kmem s') p (unat sz) = dev_bytes img (unat off) (unat sz))"
proof (rule runs_bind[OF kmalloc_runs[OF inv sz]], clarify)
  fix p s1 assume p: "p \<notin> fst ` L" "heap_inv s1 (insert (p, sz) L)" "keeps L s s1"
  obtain s2 d2 where r: "pread_device dev p sz off (s1, d) = Inr (s2, d2)" "idle d2" "heap_inv s2 (insert (p, sz) L)"
    "keeps (insert (p, sz) L - {(p, sz)}) s1 s2" "mem_bytes (kmem s2) p (unat sz) = dev_bytes img (unat off) (unat sz)"
    using pread_runs[OF vol d le p(2), of p sz 0] by auto
  have "L \<subseteq> insert (p, sz) L - {(p, sz)}" using p(1) by force
  then have "keeps L s s2" by (rule keeps_trans[OF p(3) r(4) subset_refl])
  then show "runs (kbind (pread_device dev p sz off (s1, d)) (\<lambda>(s, d). Inr (p, s, d)))
      (\<lambda>(p, s', d'). p \<notin> fst ` L \<and> heap_inv s' (insert (p, sz) L) \<and> keeps L s s' \<and> idle d' \<and>
       mem_bytes (kmem s') p (unat sz) = dev_bytes img (unat off) (unat sz))"
    using r p(1) by simp
qed

lemma ucast_u32: "unat (ucast (w :: u32) :: u64) = unat w"
  using unat_u32_less[of w] by (simp add: unsigned_ucast_eq take_bit_nat_eq_self)

lemma unat_mult_u32: "unat a * unat b < 2 ^ 32 \<Longrightarrow> unat (a * b :: u32) = unat a * unat b"
  using unat_mult_if_fits[of a b] by simp

lemma unat_add_u32: "unat a + unat b < 2 ^ 32 \<Longrightarrow> unat (a + b :: u32) = unat a + unat b"
  using unat_add_if_fits[of a b] by simp

lemma volume_wfD:
  assumes "volume_wf info V"
  shows "unat (bytes_per_sector info * sectors_per_cluster info) = cluster_size info"
    "unat (sectors_per_cluster info * bytes_per_sector info) = cluster_size info"
    "unat (fat_sector_size info * bytes_per_sector info) = table_size info"
    "unat (bytes_per_sector info * fat_section_sector_offset info) = table_offset info"
    "V < 2 ^ 32" "0 < cluster_size info" "cluster_size info \<le> V" "0 < table_size info"
    "table_offset info + table_size info \<le> V" "0 < bps info"
proof -
  show w: "V < 2 ^ 32" "0 < cluster_size info" "cluster_size info \<le> V" "0 < table_size info"
    "table_offset info + table_size info \<le> V" using assms by (simp_all add: volume_wf_def)
  then show "0 < bps info" by (simp add: cluster_size_def)
  show "unat (bytes_per_sector info * sectors_per_cluster info) = cluster_size info"
    using w by (subst unat_mult_u32) (simp_all add: cluster_size_def bps_def)
  then show "unat (sectors_per_cluster info * bytes_per_sector info) = cluster_size info" by (simp add: mult.commute)
  show "unat (fat_sector_size info * bytes_per_sector info) = table_size info"
    using w by (subst unat_mult_u32) (simp_all add: table_size_def bps_def)
  show "unat (bytes_per_sector info * fat_section_sector_offset info) = table_offset info"
    using w by (subst unat_mult_u32) (simp_all add: table_offset_def bps_def)
qed

lemma get_fat_runs:
  assumes vol: "volume dev idle V img" and d: "idle d" and wf: "volume_wf info V"
    and inv: "heap_inv s L" and fits: "table_size info + 64 \<le> 4096 * nframes s"
  defines "T \<equiv> ucast (fat_sector_size info * bytes_per_sector info) :: u64"
  shows "runs (get_fat dev info (s, d)) (\<lambda>(fat, s', d'). fat \<notin> fst ` L \<and> heap_inv s' (insert (fat, T) L) \<and>
    keeps L s s' \<and> idle d' \<and> mem_bytes (kmem s') fat (table_size info) = dev_bytes img (table_offset info) (table_size info))"
proof -
  note w = volume_wfD[OF wf]
  have T: "unat T = table_size info" unfolding T_def ucast_u32 by (rule w(3))
  have off: "unat (ucast (bytes_per_sector info * fat_section_sector_offset info) :: u64) = table_offset info"
    unfolding ucast_u32 by (rule w(4))
  have le: "unat (ucast (bytes_per_sector info * fat_section_sector_offset info) :: u64) + unat T \<le> V"
    using w(9) T off by simp
  have T0: "T \<noteq> 0" using T w(8) by auto
  have "heap_fits s T" using fits T by (simp add: heap_fits_def)
  from kmalloc_pread_runs[OF vol d le inv T0 this] show ?thesis
    unfolding get_fat_def Let_def T off unfolding T_def by simp
qed

section \<open>Chains\<close>

lemma unat_pair_or: "unat (ucast a OR push_bit 8 (ucast b) :: u32) = unat (a :: u8) + 256 * unat (b :: u8)"
proof -
  have a: "unat (ucast a :: u32) = unat a" "unat (ucast b :: u32) = unat b"
    using unat_u8_less[of a] unat_u8_less[of b] by (simp_all add: unsigned_ucast_eq take_bit_nat_eq_self)
  have p: "push_bit 8 (ucast b :: u32) = ucast b * 256" by (simp add: push_bit_eq_mult)
  have "unat (ucast b * 256 :: u32) = unat b * 256"
    using unat_u8_less[of b] a(2) by (subst unat_mult_u32) simp_all
  moreover have "ucast a OR push_bit 8 (ucast b :: u32) = ucast a + push_bit 8 (ucast b)"
    by (rule disjunctive_add[symmetric]) (auto simp: bit_simps bit_beyond)
  ultimately show ?thesis using unat_u8_less[of a] unat_u8_less[of b] a unfolding p
    by (simp add: unat_add_u32)
qed

lemma get_next_cluster_id_eq:
  assumes "mem_bytes m fat (table_size info) = dev_bytes img (table_offset info) (table_size info)"
    "unat c + unat c div 2 + 1 < table_size info"
  shows "unat (get_next_cluster_id c fat m) = fat_next img info (unat c)"
proof -
  let ?o = "unat c + unat c div 2"
  have uc: "unat (ucast c :: u32) = unat c" "unat (ucast (c div 2) :: u32) = unat c div 2"
    using unat_u16_less[of c] unat_u16_less[of "c div 2"]
    by (simp_all add: unsigned_ucast_eq take_bit_nat_eq_self unat_div_distrib)
  have o1: "unat (ucast c + ucast (c div 2) :: u32) = ?o"
    using unat_u16_less[of c] by (subst unat_add_u32) (simp_all add: uc)
  have o2: "unat (ucast c + ucast (c div 2) + 1 :: u32) = ?o + 1"
    using unat_u16_less[of c] by (subst unat_add_u32) (simp_all add: o1)
  have at: "m (fat + ucast (w :: u32)) = img (table_offset info + unat w)" if "unat w < table_size info" for w
  proof -
    have "(ucast w :: u64) = word_of_nat (unat w)" by simp
    then have "m (fat + ucast w) = mem_bytes m fat (table_size info) ! unat w" using that by simp
    then show ?thesis using that unfolding assms(1) by simp
  qed
  let ?p = "unat (img (table_offset info + ?o)) + 256 * unat (img (table_offset info + ?o + 1))"
  define packed :: u32 where
    "packed = ucast (m (fat + ucast (ucast c + ucast (c div 2) :: u32))) OR push_bit 8 (ucast (m (fat + ucast (ucast c + ucast (c div 2) + 1 :: u32))))"
  have pk: "unat packed = ?p"
    unfolding packed_def unat_pair_or using assms(2) at[of "ucast c + ucast (c div 2)"] at[of "ucast c + ucast (c div 2) + 1"]
    by (simp add: o1 o2)
  have lt: "?p < 65536"
    using unat_u8_less[of "img (table_offset info + ?o)"] unat_u8_less[of "img (table_offset info + ?o + 1)"] by linarith
  have "unat (ucast (drop_bit 4 packed) :: u16) = ?p div 16"
    using lt pk by (simp add: unsigned_ucast_eq take_bit_nat_eq_self drop_bit_eq_div unat_div_distrib)
  moreover have "packed AND 0x0FFF = take_bit 12 packed" by (simp add: take_bit_eq_mask mask_eq_exp_minus_1)
  then have "unat (packed AND 0x0FFF) = ?p mod 4096" using pk by (simp add: take_bit_eq_mod unat_mod_distrib)
  then have "unat (ucast (packed AND 0x0FFF) :: u16) = ?p mod 4096"
    using mod_less_divisor[of 4096 ?p] by (simp add: unsigned_ucast_eq take_bit_nat_eq_self)
  moreover have "c mod 2 \<noteq> 0 \<longleftrightarrow> odd (unat c)" by (simp add: word_unat_eq_iff unat_mod_distrib odd_iff_mod_2_eq_one)
  ultimately show ?thesis
    unfolding get_next_cluster_id_def Let_def packed_def[symmetric] fat_next_def by (simp add: add.assoc)
qed

lemma count_clusters_chain:
  assumes "mem_bytes m fat (table_size info) = dev_bytes img (table_offset info) (table_size info)"
    "\<forall>x \<in> set cs. x + x div 2 + 1 < table_size info" "fat_chain img info (unat c) cs"
  shows "count_clusters_loop fat m c n = Some (n + word_of_nat (length cs))"
  using assms(2,3)
proof (induction cs arbitrary: c n)
  case Nil
  then have "c = 0xFFF" by (simp add: word_unat_eq_iff)
  then show ?case by (simp add: count_clusters_loop.simps)
next
  case (Cons x cs)
  then have x: "unat c = x" "c \<noteq> 0xFFF" by auto
  have "unat (get_next_cluster_id c fat m) = fat_next img info x"
    using get_next_cluster_id_eq[OF assms(1), of c] Cons.prems(1) x(1) by simp
  then have "count_clusters_loop fat m (get_next_cluster_id c fat m) (n + 1) = Some (n + 1 + word_of_nat (length cs))"
    using Cons by (intro Cons.IH) simp_all
  then show ?case using x(2) by (subst count_clusters_loop.simps) (simp add: add.assoc)
qed

section \<open>Clusters\<close>

lemma cluster_device_offset:
  assumes wf: "volume_wf info V" and ok: "cluster_ok info V (unat (c :: u16))"
  shows "unat ((data_section_sector_offset info + cluster_id_to_cluster_num c * sectors_per_cluster info) * bytes_per_sector info) =
    cluster_offset info (unat c)"
proof -
  note w = volume_wfD[OF wf]
  let ?k = "unat c - 2" and ?spc = "unat (sectors_per_cluster info)" and ?D = "unat (data_section_sector_offset info)"
  have uc: "unat (ucast c :: u32) = unat c" using unat_u16_less[of c] by (simp add: unsigned_ucast_eq take_bit_nat_eq_self)
  have k: "unat (cluster_id_to_cluster_num c) = ?k"
    using ok uc by (simp add: cluster_id_to_cluster_num_def cluster_ok_def unat_sub word_le_nat_alt)
  have V: "(?D + ?k * ?spc) * bps info \<le> V" using ok by (simp add: cluster_ok_def cluster_offset_def)
  have "?D + ?k * ?spc \<le> (?D + ?k * ?spc) * bps info" using w(10) by simp
  then have sum: "?D + ?k * ?spc < 2 ^ 32" using V w(5) by linarith
  then have "unat (cluster_id_to_cluster_num c * sectors_per_cluster info) = ?k * ?spc"
    using k by (subst unat_mult_u32) simp_all
  then have "unat (data_section_sector_offset info + cluster_id_to_cluster_num c * sectors_per_cluster info) = ?D + ?k * ?spc"
    using sum by (subst unat_add_u32) simp_all
  then show ?thesis using V w(5) by (subst unat_mult_u32) (simp_all add: cluster_offset_def bps_def)
qed

lemma read_cluster_runs:
  assumes vol: "volume dev idle V img" and d: "idle d" and wf: "volume_wf info V" and ok: "cluster_ok info V (unat c)"
    and inv: "heap_inv s L" and fits: "cluster_size info + 64 \<le> 4096 * nframes s"
  defines "B \<equiv> ucast (sectors_per_cluster info * bytes_per_sector info) :: u64"
  shows "runs (read_cluster dev c info (s, d)) (\<lambda>(p, n, s', d'). p \<notin> fst ` L \<and> heap_inv s' (insert (p, B) L) \<and>
    keeps L s s' \<and> idle d' \<and> mem_bytes (kmem s') p (cluster_size info) = cluster_bytes img info (unat c))"
proof -
  note w = volume_wfD[OF wf]
  let ?off = "ucast ((data_section_sector_offset info + cluster_id_to_cluster_num c * sectors_per_cluster info) * bytes_per_sector info) :: u64"
  have B: "unat B = cluster_size info" unfolding B_def ucast_u32 by (rule w(2))
  have off: "unat ?off = cluster_offset info (unat c)" unfolding ucast_u32 by (rule cluster_device_offset[OF wf ok])
  have le: "unat ?off + unat B \<le> V" using ok B off by (simp add: cluster_ok_def)
  have B0: "B \<noteq> 0" using B w(6) by auto
  have fB: "heap_fits s B" using fits B by (simp add: heap_fits_def)
  have e: "read_cluster dev c info (s, d) = kbind (kbind (kmalloc B s) (\<lambda>(p, s). kbind (pread_device dev p B ?off (s, d)) (\<lambda>(s, d). Inr (p, s, d))))
      (\<lambda>(p, s, d). Inr (p, sectors_per_cluster info * bytes_per_sector info, s, d))"
    unfolding read_cluster_def Let_def B_def by (simp add: kbind_assoc split_def)
  show ?thesis unfolding e
    by (rule runs_bind[OF kmalloc_pread_runs[OF vol d le inv B0 fB]])
      (auto simp: B off cluster_bytes_def)
qed

section \<open>get\_file\_content\<close>

text \<open>After i rounds the first i clusters of the chain are in the buffer.\<close>

definition content_inv ::
  "('d \<Rightarrow> bool) \<Rightarrow> (nat \<Rightarrow> u8) \<Rightarrow> fat12_info \<Rightarrow> (u64 \<times> u64) set \<Rightarrow> nat list \<Rightarrow> u64 \<Rightarrow> u64 \<Rightarrow>
   'a heap_state_scheme \<Rightarrow> nat \<Rightarrow> u64 \<times> u32 \<times> 'a heap_state_scheme \<times> 'd \<Rightarrow> bool" where
  "content_inv idle img info L cs content tot s0 i x \<longleftrightarrow>
     (case x of (ptr, cur, s, d) \<Rightarrow>
        ptr = content + word_of_nat (i * cluster_size info) \<and> heap_inv s (insert (content, tot) L) \<and> keeps L s0 s \<and> idle d \<and>
        mem_bytes (kmem s) content (i * cluster_size info) = chain_bytes img info (take i cs) \<and>
        fat_chain img info (unat cur) (drop i cs))"

lemma file_content_step_runs:
  assumes vol: "volume dev idle V img" and wf: "volume_wf info V" and cs: "\<forall>c \<in> set cs. cluster_ok info V c"
    and fat: "(fat, T) \<in> L" "unat T = table_size info"
      "mem_bytes (kmem s0) fat (table_size info) = dev_bytes img (table_offset info) (table_size info)"
    and new: "content \<notin> fst ` L" and tot: "unat tot = length cs * cluster_size info"
    and fits: "cluster_size info + 64 \<le> 4096 * nframes s0" and i: "i < length cs"
    and x: "content_inv idle img info L cs content tot s0 i x"
  shows "runs (file_content_step dev info fat (bytes_per_sector info * sectors_per_cluster info) x)
    (content_inv idle img info L cs content tot s0 (Suc i))"
proof -
  note w = volume_wfD[OF wf]
  let ?B = "cluster_size info"
  obtain ptr cur s d where xx: "x = (ptr, cur, s, d)" by (cases x) auto
  have x': "ptr = content + word_of_nat (i * ?B)" "heap_inv s (insert (content, tot) L)" "keeps L s0 s" "idle d"
    "mem_bytes (kmem s) content (i * ?B) = chain_bytes img info (take i cs)" "fat_chain img info (unat cur) (drop i cs)"
    using x unfolding content_inv_def xx by simp_all
  have dr: "drop i cs = cs ! i # drop (Suc i) cs" using i by (simp add: Cons_nth_drop_Suc)
  have cur: "unat cur = cs ! i" "fat_chain img info (fat_next img info (cs ! i)) (drop (Suc i) cs)" using x'(6) unfolding dr by auto
  have ok: "cluster_ok info V (cs ! i)" using cs i by simp
  then have uc: "unat (ucast cur :: u16) = cs ! i"
    using cur(1) by (simp add: cluster_ok_def unsigned_ucast_eq take_bit_nat_eq_self)
  define B :: u64 where "B = ucast (sectors_per_cluster info * bytes_per_sector info)"
  have B: "unat B = ?B" unfolding B_def ucast_u32 by (rule w(2))
  have B': "ucast (bytes_per_sector info * sectors_per_cluster info) = B" unfolding B_def by (simp add: mult.commute)
  have room: "i * ?B + ?B \<le> unat tot"
    using mult_le_mono1[of "Suc i" "length cs" ?B] i unfolding tot by simp
  have fits': "?B + 64 \<le> 4096 * nframes s" using fits x'(3) by (simp add: keeps_def)
  have rd: "runs (read_cluster dev (ucast cur) info (s, d)) (\<lambda>(p, n, s', d'). p \<notin> fst ` insert (content, tot) L \<and>
      heap_inv s' (insert (p, B) (insert (content, tot) L)) \<and> keeps (insert (content, tot) L) s s' \<and> idle d' \<and>
      mem_bytes (kmem s') p ?B = cluster_bytes img info (cs ! i))"
    using read_cluster_runs[OF vol x'(4) wf _ x'(2) fits', of "ucast cur"] ok unfolding uc B_def by blast
  show ?thesis unfolding xx file_content_step_def prod.case
  proof (rule runs_bind[OF rd], clarify)
    fix p n s1 d1
    assume p: "p \<notin> fst ` insert (content, tot) L" "heap_inv s1 (insert (p, B) (insert (content, tot) L))"
      "keeps (insert (content, tot) L) s s1" "idle d1" "mem_bytes (kmem s1) p ?B = cluster_bytes img info (cs ! i)"
    let ?L = "insert (p, B) (insert (content, tot) L)"
    have cp: "memcpy ptr p B (kmem s1) = mem_store (kmem s1) (content + word_of_nat (i * ?B)) (cluster_bytes img info (cs ! i))"
      using memcpy_buffers[OF p(2), of content tot p B "i * ?B" B 0 "kmem s1"] p(1,5) room B x'(1) by auto
    let ?s2 = "s1\<lparr>kmem := memcpy ptr p B (kmem s1)\<rparr>"
    have len: "length (cluster_bytes img info (cs ! i)) = ?B" by (simp add: cluster_bytes_def)
    have st: "heap_inv ?s2 ?L" "keeps (?L - {(content, tot)}) s1 ?s2"
      "mem_bytes (kmem ?s2) content (unat tot) = take (i * ?B) (mem_bytes (kmem s1) content (unat tot)) @
         cluster_bytes img info (cs ! i) @ drop (i * ?B + ?B) (mem_bytes (kmem s1) content (unat tot))"
      using heap_store_buffer[OF p(2), of content tot "i * ?B" "cluster_bytes img info (cs ! i)"] room len unfolding cp by simp_all
    have pre: "take (k * ?B) (mem_bytes m content (unat tot)) = mem_bytes m content (k * ?B)" if "k * ?B \<le> unat tot" for k m
      using that by (intro nth_equalityI) simp_all
    have s1b: "mem_bytes (kmem s1) content (i * ?B) = chain_bytes img info (take i cs)"
      using keeps_bytes[OF p(3), of content tot 0 "i * ?B"] room x'(5) by simp
    have "mem_bytes (kmem ?s2) content (Suc i * ?B) = take (Suc i * ?B) (mem_bytes (kmem ?s2) content (unat tot))"
      using pre[of "Suc i"] room by simp
    also have "\<dots> = chain_bytes img info (take i cs) @ cluster_bytes img info (cs ! i)"
      unfolding st(3) using pre[of i "kmem s1"] room s1b len i by simp
    also have "\<dots> = chain_bytes img info (take (Suc i) cs)" using i by (simp add: chain_bytes_def take_Suc_conv_app_nth)
    finally have s2b: "mem_bytes (kmem ?s2) content (Suc i * ?B) = chain_bytes img info (take (Suc i) cs)" .
    have del: "?L - {(p, B)} = insert (content, tot) L" using p(1) by force
    have fr: "runs (kfree p ?s2) (\<lambda>s3. heap_inv s3 (insert (content, tot) L) \<and> keeps (insert (content, tot) L) ?s2 s3)"
      using kfree_runs[OF st(1), of p B] unfolding del by simp
    show "runs (let s = s1\<lparr>kmem := memcpy ptr p (ucast (bytes_per_sector info * sectors_per_cluster info)) (kmem s1)\<rparr>
        in kbind (kfree p s) (\<lambda>s. Inr (ptr + ucast (bytes_per_sector info * sectors_per_cluster info),
             ucast (get_next_cluster_id (ucast cur) fat (kmem s)), s, d1))) (content_inv idle img info L cs content tot s0 (Suc i))"
      unfolding Let_def B'
    proof (rule runs_bind[OF fr], clarify)
      fix s3 assume s3: "heap_inv s3 (insert (content, tot) L)" "keeps (insert (content, tot) L) ?s2 s3"
      have "L \<subseteq> ?L - {(content, tot)}" using new by force
      then have "keeps L s1 s3" by (rule keeps_trans[OF st(2) s3(2)]) auto
      then have "keeps L s s3" by (rule keeps_trans[OF p(3)]) auto
      then have k: "keeps L s0 s3" by (rule keeps_trans[OF x'(3)]) auto
      have "mem_bytes (kmem s3) fat (table_size info) = dev_bytes img (table_offset info) (table_size info)"
        using keeps_buffer[OF k fat(1)] fat(2,3) by simp
      then have "unat (get_next_cluster_id (ucast cur) fat (kmem s3)) = fat_next img info (cs ! i)"
        using get_next_cluster_id_eq[of "kmem s3" fat info img "ucast cur"] ok uc by (simp add: cluster_ok_def)
      then have nx: "unat (ucast (get_next_cluster_id (ucast cur) fat (kmem s3)) :: u32) = fat_next img info (cs ! i)"
        using unat_u16_less[of "get_next_cluster_id (ucast cur) fat (kmem s3)"] by (simp add: unsigned_ucast_eq take_bit_nat_eq_self)
      have "mem_bytes (kmem s3) content (Suc i * ?B) = chain_bytes img info (take (Suc i) cs)"
        using keeps_bytes[OF s3(2), of content tot 0 "Suc i * ?B"] room s2b by simp
      moreover have "ptr + B = content + word_of_nat (Suc i * ?B)" unfolding x'(1) by (simp add: B[symmetric])
      ultimately show "runs (Inr (ptr + B, ucast (get_next_cluster_id (ucast cur) fat (kmem s3)), s3, d1))
          (content_inv idle img info L cs content tot s0 (Suc i))"
        using s3(1) k p(4) cur(2) nx unfolding runs_Inr content_inv_def prod.case by simp
    qed
  qed
qed

text \<open>What get_file_content returns as the size of the file.\<close>

definition content_size :: "fat12_info \<Rightarrow> fat12_directory_entry \<Rightarrow> nat \<Rightarrow> u32" where
  "content_size info e n =
     (if is_directory_entry_directory e then bytes_per_sector info * sectors_per_cluster info * word_of_nat n
      else file_size_in_bytes e)"

text \<open>A chain of clusters the driver can read with the memory it has.\<close>

definition chain_ok :: "fat12_info \<Rightarrow> nat \<Rightarrow> nat \<Rightarrow> (nat \<Rightarrow> u8) \<Rightarrow> nat \<Rightarrow> nat list \<Rightarrow> bool" where
  "chain_ok info V frames img c cs \<longleftrightarrow> cs \<noteq> [] \<and> fat_chain img info c cs \<and> (\<forall>x \<in> set cs. cluster_ok info V x) \<and>
     length cs < 2 ^ 32 \<and> length cs * cluster_size info + 64 \<le> 4096 * frames \<and> length cs * cluster_size info < 2 ^ 64"

lemma get_file_content_runs:
  assumes vol: "volume dev idle V img" and d: "idle d" and wf: "volume_wf info V"
    and inv: "heap_inv s L" and e: "(q, k) \<in> L" "j + 32 \<le> unat k"
    and tab: "table_size info + 64 \<le> 4096 * nframes s"
    and chain: "chain_ok info V (nframes s) img (unat (first_cluster_id (dir_entry_at (kmem s) (q + word_of_nat j)))) cs"
  shows "runs (get_file_content dev (q + word_of_nat j) info (s, d)) (\<lambda>(p, sz, s', d').
    p \<notin> fst ` L \<and> heap_inv s' (insert (p, word_of_nat (length cs * cluster_size info)) L) \<and> keeps L s s' \<and> idle d' \<and>
    mem_bytes (kmem s') p (length cs * cluster_size info) = chain_bytes img info cs \<and>
    sz = content_size info (dir_entry_at (kmem s) (q + word_of_nat j)) (length cs))"
proof -
  let ?e = "q + word_of_nat j" and ?B = "cluster_size info" and ?Bw = "bytes_per_sector info * sectors_per_cluster info"
  let ?ent = "dir_entry_at (kmem s) ?e" and ?n = "word_of_nat (length cs) :: u32"
  define T :: u64 where "T = ucast (fat_sector_size info * bytes_per_sector info)"
  define tot :: u64 where "tot = ucast ?n * ucast ?Bw"
  note w = volume_wfD[OF wf]
  note ch = chain[unfolded chain_ok_def]
  have ent: "dir_entry_at (kmem s') ?e = ?ent" if "keeps L s s'" for s'
    using keeps_bytes[OF that e(1), of j 32] e(2) by (simp add: dir_entry_at_def)
  have T: "unat T = table_size info" unfolding T_def ucast_u32 by (rule w(3))
  have n: "unat ?n = length cs" using ch by (simp add: unat_of_nat)
  have Bw: "unat (ucast ?Bw :: u64) = ?B" unfolding ucast_u32 by (rule w(1))
  have tot: "unat tot = length cs * ?B"
    unfolding tot_def using ch n Bw ucast_u32[of ?n] unat_mult_if_fits[of "ucast ?n :: u64" "ucast ?Bw"] by simp
  have "word_of_nat (unat tot) = tot" by simp
  then have tw: "tot = word_of_nat (length cs * ?B)" unfolding tot ..
  have "?B \<le> length cs * ?B" using ch by (cases cs) simp_all
  then have fB: "?B + 64 \<le> 4096 * nframes s" using ch by linarith
  note gf = get_fat_runs[OF vol d wf inv tab, folded T_def]
  show ?thesis unfolding get_file_content_def Let_def
  proof (rule runs_bind[OF gf], clarify, goal_cases)
    case f: (1 fat s1 d1)
    have cnt: "count_file_clusters (first_cluster_id ?ent) fat (kmem s1) = Inr ?n"
      using count_clusters_chain[OF f(5), of cs "first_cluster_id ?ent" 0] ch
      by (simp add: count_file_clusters_def cluster_ok_def)
    have t0: "tot \<noteq> 0" using tot ch w(6) by auto
    have ft: "heap_fits s1 tot" using tot ch f(3) by (simp add: heap_fits_def keeps_def)
    let ?L = "insert (fat, T) L"
    show ?case unfolding ent[OF f(3)] cnt kbind_simps tot_def[symmetric]
    proof (rule runs_bind[OF kmalloc_runs[OF f(2) t0 ft]], clarify, goal_cases)
      case c: (1 content s2)
      have k2: "keeps L s s2" by (rule keeps_trans[OF f(3) c(3)]) auto
      have fat2: "mem_bytes (kmem s2) fat (table_size info) = dev_bytes img (table_offset info) (table_size info)"
        using keeps_buffer[OF c(3), of fat T] f(5) T by simp
      have fB2: "?B + 64 \<le> 4096 * nframes s2" using fB k2 by (simp add: keeps_def)
      have "unat (ucast (first_cluster_id ?ent) :: u32) = unat (first_cluster_id ?ent)"
        using unat_u16_less[of "first_cluster_id ?ent"] by (simp add: unsigned_ucast_eq take_bit_nat_eq_self)
      then have start: "content_inv idle img info ?L cs content tot s2 (unat (0 :: u32)) (content, ucast (first_cluster_id ?ent), s2, d1)"
        using c f(4) ch by (simp add: content_inv_def chain_bytes_def mem_bytes_def)
      have okcs: "\<forall>x \<in> set cs. cluster_ok info V x" using ch by simp
      have loop: "runs (for_loop 0 ?n (\<lambda>i. file_content_step dev info fat ?Bw) (content, ucast (first_cluster_id ?ent), s2, d1))
          (content_inv idle img info ?L cs content tot s2 (unat ?n))"
      proof (rule runs_for_loop[of "content_inv idle img info ?L cs content tot s2", OF start], goal_cases)
        case (2 i t)
        have "unat i < length cs" using 2(2) n by (simp add: word_less_nat_alt)
        then show ?case using file_content_step_runs[OF vol wf okcs insertI1 T fat2 c(1) tot fB2 _ 2(3)] by blast
      qed simp
      show ?case unfolding ent[OF k2]
      proof (rule runs_bind[OF loop], clarify, goal_cases)
        case (1 ptr cur s3 d3)
        then have x: "heap_inv s3 (insert (content, tot) ?L)" "keeps ?L s2 s3" "idle d3"
          "mem_bytes (kmem s3) content (length cs * ?B) = chain_bytes img info cs"
          unfolding n by (simp_all add: content_inv_def)
        have del: "insert (content, tot) ?L - {(fat, T)} = insert (content, tot) L" using c(1) f(1) by force
        have fr: "runs (kfree fat s3) (\<lambda>s4. heap_inv s4 (insert (content, tot) L) \<and> keeps (insert (content, tot) L) s3 s4)"
          using kfree_runs[OF x(1), of fat T] unfolding del by simp
        show ?case
        proof (rule runs_bind[OF fr], clarify, goal_cases)
          case s4: (1 s4)
          have "keeps L s2 s4" by (rule keeps_trans[OF x(2) s4(2)]) auto
          then have k4: "keeps L s s4" by (rule keeps_trans[OF k2]) auto
          have "mem_bytes (kmem s4) content (length cs * ?B) = chain_bytes img info cs"
            using keeps_bytes[OF s4(2), of content tot 0 "length cs * ?B"] tot x(4) by simp
          then show ?case
            unfolding ent[OF k4] using s4(1) k4 x(3) c(1) by (auto simp: content_size_def tw)
        qed
      qed
    qed
  qed
qed

end
