(* ===== verification/Fat12_Dirs.thy ===== *)
theory Fat12_Dirs
  imports Fat12_Files
begin

text \<open>
  Directories of a FAT12 volume: which entries of a directory are valid, the name of an entry as a
  C string, and that the driver's filtering, naming and searching of entries in heap buffers
  computes them and leaves the heap with the buffers it had.
\<close>

section \<open>Entries and names\<close>

definition fin_entry :: "u8 list \<Rightarrow> bool" where
  "fin_entry b \<longleftrightarrow> is_final_directory_entry (directory_entry_of b)"

definition skip_entry :: "u8 list \<Rightarrow> bool" where
  "skip_entry b \<longleftrightarrow> is_deleted_entry (directory_entry_of b) \<or> is_volume_label_entry (directory_entry_of b)"

definition valid_entries :: "u8 list list \<Rightarrow> u8 list list" where
  "valid_entries es = filter (\<lambda>b. \<not> skip_entry b) (takeWhile (\<lambda>b. \<not> fin_entry b) es)"

text \<open>The characters of a name: base and extension with a dot between, no blanks, lower case.\<close>

definition name_chars :: "u8 list \<Rightarrow> u8 list" where
  "name_chars b = map tolower (filter (\<lambda>c. c \<noteq> 0x20)
     (take 8 b @ [if b ! 8 \<noteq> 0x20 then 0x2E else 0x20] @ take 3 (drop 8 b)))"

definition entry_name :: "u8 list \<Rightarrow> u8 list" where
  "entry_name b = takeWhile (\<lambda>c. c \<noteq> 0) (name_chars b)"

text \<open>The n entries of a directory in memory.\<close>

definition entries_at :: "mem \<Rightarrow> u64 \<Rightarrow> nat \<Rightarrow> u8 list list" where
  "entries_at m p n = map (\<lambda>i. mem_bytes m (p + word_of_nat (32 * i)) 32) [0..<n]"

lemma length_entries_at [simp]: "length (entries_at m p n) = n"
  by (simp add: entries_at_def)

lemma nth_entries_at [simp]: "i < n \<Longrightarrow> entries_at m p n ! i = mem_bytes m (p + word_of_nat (32 * i)) 32"
  by (simp add: entries_at_def)

lemma drop_entries_at:
  "i < n \<Longrightarrow> drop i (entries_at m p n) = mem_bytes m (p + word_of_nat (32 * i)) 32 # drop (Suc i) (entries_at m p n)"
  by (simp add: Cons_nth_drop_Suc[symmetric])

lemma entry_at_index:
  fixes i :: u32
  shows "entry_addr p i = p + word_of_nat (32 * unat i)"
proof -
  have "(ucast i :: u64) = word_of_nat (unat i)" by simp
  then show ?thesis unfolding entry_addr_def by (simp only: of_nat_mult of_nat_numeral mult.commute)
qed

lemma dir_entry_bytes: "dir_entry_at m a = directory_entry_of (mem_bytes m a 32)"
  by (simp add: dir_entry_at_def)

lemma keeps_entries:
  assumes "keeps L s s'" "(p, k) \<in> L" "32 * n \<le> unat k"
  shows "entries_at (kmem s') p n = entries_at (kmem s) p n"
  unfolding entries_at_def
proof (rule map_cong[OF refl])
  fix i assume "i \<in> set [0..<n]"
  then show "mem_bytes (kmem s') (p + word_of_nat (32 * i)) 32 = mem_bytes (kmem s) (p + word_of_nat (32 * i)) 32"
    using keeps_bytes[OF assms(1,2), of "32 * i" 32] assms(3) by auto
qed

section \<open>Filtering\<close>

lemma valid_entries_Cons:
  "valid_entries (b # es) = (if fin_entry b then [] else if skip_entry b then valid_entries es else b # valid_entries es)"
  by (simp add: valid_entries_def)

lemma count_valid_loop_eq:
  "i \<le> n \<Longrightarrow> count_valid_loop m p n False i c = c + word_of_nat (length (valid_entries (drop (unat i) (entries_at m p (unat n)))))"
proof (induction "unat n - unat i" arbitrary: i c)
  case 0
  then have "i = n" by (simp add: word_le_nat_alt word_unat_eq_iff)
  then show ?case by (simp add: count_valid_loop.simps valid_entries_def)
next
  case (Suc k)
  then have lt: "i < n" by (simp add: word_less_nat_alt)
  have u: "unat (i + 1) = Suc (unat i)" using unat_Suc_less[OF lt] .
  have le: "i + 1 \<le> n" using u lt by (simp add: word_le_nat_alt word_less_nat_alt)
  let ?b = "mem_bytes m (entry_addr p i) 32" and ?r = "drop (unat (i + 1)) (entries_at m p (unat n))"
  have dr: "drop (unat i) (entries_at m p (unat n)) = ?b # ?r"
    unfolding entry_at_index u using lt by (intro drop_entries_at) (simp add: word_less_nat_alt)
  have "k = unat n - unat (i + 1)" using Suc(2) u by simp
  from Suc(1)[OF this le] have IH: "count_valid_loop m p n False (i + 1) c' = c' + word_of_nat (length (valid_entries ?r))" for c' .
  show ?case unfolding dr valid_entries_Cons count_valid_loop.simps[of m p n False i] dir_entry_bytes Let_def IH
    using lt by (simp add: fin_entry_def skip_entry_def)
qed

lemma count_valid_entries_eq:
  "count_valid_entries m p n False = word_of_nat (length (valid_entries (entries_at m p (unat n))))"
  using count_valid_loop_eq[of 0 n m p 0] by (simp add: count_valid_entries_def)

lemma length_valid_entries: "length (valid_entries es) \<le> length es"
  unfolding valid_entries_def by (meson length_filter_le length_takeWhile_le order_trans)

lemma scast_u32_nonneg:
  assumes "unat v < 2 ^ 31"
  shows "(scast (v :: u32) :: u64) = word_of_nat (unat v)"
proof -
  have "unat (take_bit 31 v) = unat v" using assms by (simp add: unsigned_take_bit_eq take_bit_nat_eq_self)
  then have "v = take_bit 31 v" by (simp only: word_unat_eq_iff)
  then have "\<not> bit v 31" by (metis bit_take_bit_iff less_irrefl)
  moreover have "0 \<le> uint v" "uint v < 2 ^ 32" using uint_range_size[of v] by (simp_all add: word_size)
  ultimately have "sint v = uint v"
    by (simp add: sint_uint signed_take_bit_eq_take_bit_minus bit_uint_iff take_bit_int_eq_self)
  then have "(scast v :: u64) = word_of_int (uint v)" by (simp add: scast_eq)
  then show ?thesis by simp
qed

lemma mem_store_other:
  assumes "region f nf \<inter> region p np = {}" "nf < 2 ^ 64" "j + length bs \<le> nf" "x \<in> region p np"
  shows "mem_store m (f + word_of_nat j) bs x = m x"
proof (rule mem_store_outside)
  show "\<not> unat (x - (f + word_of_nat j)) < length bs"
  proof
    assume "unat (x - (f + word_of_nat j)) < length bs"
    moreover have "unat (word_of_nat j :: u64) = j" using assms by (subst unat_of_nat) simp
    ultimately have "unat (x - f) < nf" using region_sub[of x f "word_of_nat j" "length bs" nf] assms by simp
    then show False using assms(1,4) by (auto simp: region_def)
  qed
qed

lemma entries_store_other:
  assumes "region f nf \<inter> region p np = {}" "nf < 2 ^ 64" "np < 2 ^ 64" "j + length bs \<le> nf" "32 * n \<le> np"
  shows "entries_at (mem_store m (f + word_of_nat j) bs) p n = entries_at m p n"
  unfolding entries_at_def
proof (rule map_cong[OF refl], rule mem_bytes_cong)
  fix i k assume ik: "i \<in> set [0..<n]" "k < (32 :: nat)"
  have "p + word_of_nat (32 * i) + word_of_nat k \<in> region p np"
    by (rule region_offset[of k 32]) (use ik assms in auto)
  then show "mem_store m (f + word_of_nat j) bs (p + word_of_nat (32 * i) + word_of_nat k) = m (p + word_of_nat (32 * i) + word_of_nat k)"
    by (rule mem_store_other[OF assms(1,2,4)])
qed

lemma valid_entries_32: "\<forall>b \<in> set es. length b = 32 \<Longrightarrow> length (concat (valid_entries es)) = 32 * length (valid_entries es)"
  by (induction es) (auto simp: valid_entries_def)

lemma entries_32: "b \<in> set (entries_at m p n) \<Longrightarrow> length b = 32"
  by (auto simp: entries_at_def)

lemma filter_loop_eq:
  assumes dis: "region f nf \<inter> region p np = {}" and n64: "nf < 2 ^ 64" "np < 2 ^ 64" and src: "32 * unat n \<le> np"
  shows "i \<le> n \<Longrightarrow> 32 * (unat v + length (valid_entries (drop (unat i) (entries_at m p (unat n))))) \<le> nf \<Longrightarrow>
    unat v + length (valid_entries (drop (unat i) (entries_at m p (unat n)))) < 2 ^ 31 \<Longrightarrow>
    filter_loop f p n i v m =
      mem_store m (f + word_of_nat (32 * unat v)) (concat (valid_entries (drop (unat i) (entries_at m p (unat n)))))"
proof (induction "unat n - unat i" arbitrary: i v m)
  case 0
  then have "i = n" by (simp add: word_le_nat_alt word_unat_eq_iff)
  then show ?case by (simp add: filter_loop.simps valid_entries_def)
next
  case (Suc k)
  then have lt: "i < n" by (simp add: word_less_nat_alt)
  have u: "unat (i + 1) = Suc (unat i)" using unat_Suc_less[OF lt] .
  have le: "i + 1 \<le> n" using u lt by (simp add: word_le_nat_alt word_less_nat_alt)
  let ?b = "mem_bytes m (entry_addr p i) 32" and ?r = "\<lambda>m. drop (unat (i + 1)) (entries_at m p (unat n))"
  have dr: "drop (unat i) (entries_at m p (unat n)) = ?b # ?r m"
    unfolding entry_at_index u using lt by (intro drop_entries_at) (simp add: word_less_nat_alt)
  have k: "k = unat n - unat (i + 1)" using Suc(2) u by simp
  note loop = filter_loop.simps[of f p n i v m, unfolded dir_entry_bytes Let_def]
  show ?case
  proof (cases "fin_entry ?b \<or> skip_entry ?b")
    case True
    then show ?thesis using Suc(1)[OF k le, of v m] Suc(4,5) lt unfolding loop dr valid_entries_Cons
      by (auto simp: fin_entry_def skip_entry_def)
  next
    case False
    have vs: "valid_entries (drop (unat i) (entries_at m p (unat n))) = ?b # valid_entries (?r m)"
      unfolding dr valid_entries_Cons using False by simp
    let ?F = "f + word_of_nat (32 * unat v)" and ?vs = "valid_entries (?r m)"
    have room: "32 * unat v + 32 \<le> nf" and v31: "unat v + 1 + length ?vs < 2 ^ 31" using Suc(4,5) unfolding vs by simp_all
    have v: "scast v * 32 = (word_of_nat (32 * unat v) :: u64)" using v31 by (simp add: scast_u32_nonneg mult.commute)
    have v1: "unat (v + 1) = unat v + 1" using v31 by (subst unat_add_u32) simp_all
    have "32 * unat i + 32 \<le> np" using src lt by (simp add: word_less_nat_alt)
    then have cp: "memcpy (f + scast v * 32) (entry_addr p i) 32 m = mem_store m ?F ?b"
      using memcpy_regions[OF dis n64, of "32 * unat v" 32 "32 * unat i" m] room unfolding v entry_at_index by simp
    have same: "entries_at (mem_store m ?F ?b) p (unat n) = entries_at m p (unat n)"
      using room by (intro entries_store_other[OF dis n64 _ src]) simp
    have "filter_loop f p n (i + 1) (v + 1) (mem_store m ?F ?b) =
        mem_store (mem_store m ?F ?b) (f + word_of_nat (32 * unat (v + 1))) (concat ?vs)"
      using Suc(1)[OF k le, of "v + 1" "mem_store m ?F ?b"] Suc(4) v31 unfolding same v1 vs by simp
    also have "f + word_of_nat (32 * unat (v + 1)) = ?F + word_of_nat (length ?b)" unfolding v1 by simp
    also have "mem_store (mem_store m ?F ?b) (?F + word_of_nat (length ?b)) (concat ?vs) = mem_store m ?F (?b @ concat ?vs)"
    proof (rule mem_store_append)
      have "length (concat ?vs) = 32 * length ?vs" by (rule valid_entries_32) (use entries_32 in \<open>auto dest: in_set_dropD\<close>)
      then show "length ?b + length (concat ?vs) \<le> 2 ^ 64" using v31 by simp
    qed
    finally show ?thesis using False lt unfolding loop vs cp by (simp add: fin_entry_def skip_entry_def)
  qed
qed

lemma take_drop_concat:
  assumes "\<forall>b \<in> set es. length b = 32" "i < length es"
  shows "take 32 (drop (32 * i) (concat es)) = es ! i"
  using assms
proof (induction es arbitrary: i)
  case (Cons e es)
  then show ?case by (cases i) (simp_all add: algebra_simps)
qed simp

lemma entries_of_bytes:
  assumes "mem_bytes m p (32 * length es) = concat es" "\<forall>b \<in> set es. length b = 32"
  shows "entries_at m p (length es) = es"
proof (rule nth_equalityI)
  fix i assume "i < length (entries_at m p (length es))"
  then have i: "i < length es" by simp
  have "mem_bytes m (p + word_of_nat (32 * i)) 32 = take 32 (drop (32 * i) (mem_bytes m p (32 * length es)))"
    using i by (intro nth_equalityI) (simp_all add: add.assoc)
  then show "entries_at m p (length es) ! i = es ! i" using i take_drop_concat[OF assms(2) i] assms(1) by simp
qed simp

lemma filter_valid_runs:
  assumes inv: "heap_inv s L" and p: "(p, np) \<in> L" and n: "32 * unat n \<le> unat np"
    and vs: "vs = valid_entries (entries_at (kmem s) p (unat n))" and ne: "vs \<noteq> []"
    and fits: "32 * length vs + 64 \<le> 4096 * nframes s" and v31: "length vs < 2 ^ 31"
  defines "L' \<equiv> L - {(p, np)}"
  shows "runs (filter_valid_directory_entries p n s) (\<lambda>(f, c, s'). f \<notin> fst ` L' \<and> unat c = length vs \<and>
    heap_inv s' (insert (f, word_of_nat (32 * length vs)) L') \<and> keeps L' s s' \<and> entries_at (kmem s') f (length vs) = vs)"
proof -
  let ?c = "word_of_nat (length vs) :: u32" and ?nf = "word_of_nat (32 * length vs) :: u64"
  have c: "unat ?c = length vs" using v31 by (simp add: unat_of_nat)
  have nf: "unat ?nf = 32 * length vs" using v31 by (subst unat_of_nat) simp
  have cnt: "count_valid_entries (kmem s) p n False = ?c" unfolding count_valid_entries_eq vs ..
  have sz: "ucast ?c * 32 = ?nf" using c nf ucast_u32[of ?c] v31
    by (simp add: word_unat_eq_iff unat_mult_lem[THEN iffD1] mult.commute)
  have "?nf \<noteq> 0" using nf ne by (metis length_greater_0_conv mult_pos_pos not_less_iff_gr_or_eq unat_0 zero_less_numeral)
  moreover have "heap_fits s ?nf" using fits nf by (simp add: heap_fits_def)
  ultimately have km: "runs (kmalloc ?nf s) (\<lambda>(f, s'). f \<notin> fst ` L \<and> heap_inv s' (insert (f, ?nf) L) \<and> keeps L s s')"
    by (rule kmalloc_runs[OF inv])
  have vs32: "\<forall>b \<in> set vs. length b = 32" unfolding vs valid_entries_def using entries_32 by (auto dest: set_takeWhileD)
  show ?thesis unfolding filter_valid_directory_entries_def cnt Let_def sz
  proof (rule runs_bind[OF km], clarify, goal_cases)
    case f: (1 f s1)
    have es: "entries_at (kmem s1) p (unat n) = entries_at (kmem s) p (unat n)" by (rule keeps_entries[OF f(3) p n])
    have "(f, ?nf) \<noteq> (p, np)" using f(1) p by force
    then have dis: "region f (unat ?nf) \<inter> region p (unat np) = {}"
      using heap_inv_disjoint[OF f(2), of f ?nf p np] p by blast
    have fl: "filter_loop f p n 0 0 (kmem s1) = mem_store (kmem s1) (f + word_of_nat 0) (concat vs)"
      using filter_loop_eq[OF dis _ _ n, of 0 0 "kmem s1"] unat_u64_less[of np] nf v31
      unfolding es by (simp add: vs[symmetric] del: of_nat_mult)
    have "length (concat vs) = 32 * length vs" unfolding vs by (rule valid_entries_32) (use entries_32 in blast)
    then have len: "length (concat vs) = unat ?nf" by (simp only: nf)
    let ?s2 = "s1\<lparr>kmem := filter_loop f p n 0 0 (kmem s1)\<rparr>"
    have st: "heap_inv ?s2 (insert (f, ?nf) L)" "keeps (insert (f, ?nf) L - {(f, ?nf)}) s1 ?s2"
      "mem_bytes (kmem ?s2) f (unat ?nf) = concat vs"
      using heap_store_buffer[OF f(2), of f ?nf 0 "concat vs"] len unfolding fl by simp_all
    have del: "insert (f, ?nf) L - {(p, np)} = insert (f, ?nf) L'" unfolding L'_def using f(1) p by force
    have fr: "runs (kfree p ?s2) (\<lambda>s3. heap_inv s3 (insert (f, ?nf) L') \<and> keeps (insert (f, ?nf) L') ?s2 s3)"
      using kfree_runs[OF st(1), of p np] p unfolding del by simp
    show ?case
    proof (rule runs_bind[OF fr], clarify, goal_cases)
      case s3: (1 s3)
      have "L' \<subseteq> insert (f, ?nf) L - {(f, ?nf)}" unfolding L'_def using f(1) by force
      then have "keeps L' s1 s3" by (rule keeps_trans[OF st(2) s3(2)]) auto
      then have "keeps L' s s3" by (rule keeps_trans[OF f(3)]) (auto simp: L'_def)
      moreover have "mem_bytes (kmem s3) f (32 * length vs) = concat vs"
        using keeps_buffer[OF s3(2), of f ?nf] st(3) nf by simp
      then have "entries_at (kmem s3) f (length vs) = vs" by (rule entries_of_bytes[OF _ vs32])
      moreover have "f \<notin> fst ` L'" using f(1) unfolding L'_def by force
      ultimately show ?case using s3(1) c by simp
    qed
  qed
qed

section \<open>Names\<close>

lemma fresh_ne: "p \<notin> fst ` L \<Longrightarrow> (q, k) \<in> L \<Longrightarrow> p \<noteq> q"
  by force

lemma word_of_nat_inj: "x < 2 ^ 64 \<Longrightarrow> y < 2 ^ 64 \<Longrightarrow> (word_of_nat x = (word_of_nat y :: u64)) \<longleftrightarrow> x = y"
  by (auto simp: word_unat_eq_iff unsigned_of_nat take_bit_nat_eq_self)

lemma mem_bytes_Suc: "mem_bytes m (p + word_of_nat a) (Suc k) = m (p + word_of_nat a) # mem_bytes m (p + word_of_nat (Suc a)) k"
  by (rule nth_equalityI) (auto simp: nth_Cons algebra_simps split: nat.splits)

lemma mem_bytes_snoc: "mem_bytes m p (Suc k) = mem_bytes m p k @ [m (p + word_of_nat k)]"
  by (simp add: mem_bytes_def)

lemma mem_bytes_upd:
  assumes "\<And>i. i < k \<Longrightarrow> a + i \<noteq> b" "a + k < 2 ^ 64" "b < 2 ^ 64"
  shows "mem_bytes (m(p + word_of_nat b := v)) (p + word_of_nat a) k = mem_bytes m (p + word_of_nat a) k"
proof (rule mem_bytes_cong)
  fix i assume i: "i < k"
  have "p + word_of_nat a + word_of_nat i = p + (word_of_nat (a + i) :: u64)" by simp
  moreover have "word_of_nat (a + i) \<noteq> (word_of_nat b :: u64)" using word_of_nat_inj[of "a + i" b] assms i by simp
  ultimately show "(m(p + word_of_nat b := v)) (p + word_of_nat a + word_of_nat i) = m (p + word_of_nat a + word_of_nat i)"
    by simp
qed

lemma squeeze_loop_eq:
  assumes "b \<le> a" "a + k \<le> 12"
  shows "\<exists>m'. squeeze_loop name k (word_of_nat a) (word_of_nat b) m =
      (word_of_nat (b + length (filter (\<lambda>c. c \<noteq> 0x20) (mem_bytes m (name + word_of_nat a) k))), m') \<and>
    mem_bytes m' name (b + length (filter (\<lambda>c. c \<noteq> 0x20) (mem_bytes m (name + word_of_nat a) k))) =
      mem_bytes m name b @ map tolower (filter (\<lambda>c. c \<noteq> 0x20) (mem_bytes m (name + word_of_nat a) k)) \<and>
    same_outside name 12 m m'"
  using assms
proof (induction k arbitrary: a b m)
  case 0
  then show ?case by (simp add: mem_bytes_def)
next
  case (Suc k)
  let ?c = "m (name + word_of_nat a)"
  have a1: "word_of_nat a + 1 = (word_of_nat (Suc a) :: u64)" "word_of_nat b + 1 = (word_of_nat (Suc b) :: u64)" by simp_all
  show ?case
  proof (cases "?c = 0x20")
    case True
    have le: "b \<le> Suc a" "Suc a + k \<le> 12" using Suc.prems by auto
    have "squeeze_loop name (Suc k) (word_of_nat a) (word_of_nat b) m = squeeze_loop name k (word_of_nat (Suc a)) (word_of_nat b) m"
      using True unfolding squeeze_loop.simps a1 by simp
    moreover have "filter (\<lambda>c. c \<noteq> 0x20) (mem_bytes m (name + word_of_nat a) (Suc k)) =
        filter (\<lambda>c. c \<noteq> 0x20) (mem_bytes m (name + word_of_nat (Suc a)) k)" using True unfolding mem_bytes_Suc by simp
    ultimately show ?thesis using Suc.IH[OF le, of m] by (simp only:)
  next
    case False
    let ?m = "m(name + word_of_nat b := tolower ?c)"
    have le: "Suc b \<le> Suc a" "Suc a + k \<le> 12" using Suc.prems by auto
    have src: "mem_bytes ?m (name + word_of_nat (Suc a)) k = mem_bytes m (name + word_of_nat (Suc a)) k"
      by (rule mem_bytes_upd) (use Suc.prems in auto)
    have dst: "mem_bytes ?m name (Suc b) = mem_bytes m name b @ [tolower ?c]"
      using mem_bytes_upd[of b 0 b m name "tolower ?c"] Suc.prems by (simp add: mem_bytes_snoc)
    have out: "same_outside name 12 m ?m"
      using Suc.prems by (auto simp: same_outside_def unat_of_nat)
    obtain m' where m': "squeeze_loop name k (word_of_nat (Suc a)) (word_of_nat (Suc b)) ?m =
        (word_of_nat (Suc b + length (filter (\<lambda>c. c \<noteq> 0x20) (mem_bytes m (name + word_of_nat (Suc a)) k))), m')"
      "mem_bytes m' name (Suc b + length (filter (\<lambda>c. c \<noteq> 0x20) (mem_bytes m (name + word_of_nat (Suc a)) k))) =
        mem_bytes ?m name (Suc b) @ map tolower (filter (\<lambda>c. c \<noteq> 0x20) (mem_bytes m (name + word_of_nat (Suc a)) k))"
      "same_outside name 12 ?m m'"
      using Suc.IH[OF le, of ?m] unfolding src by blast
    have "squeeze_loop name (Suc k) (word_of_nat a) (word_of_nat b) m = squeeze_loop name k (word_of_nat (Suc a)) (word_of_nat (Suc b)) ?m"
      using False unfolding squeeze_loop.simps a1 by simp
    then show ?thesis using m' False same_outside_trans[OF out m'(3)]
      unfolding mem_bytes_Suc dst by (intro exI[of _ m']) simp
  qed
qed

lemma squeeze_name:
  assumes "mem_bytes m name 12 = x" "cs = map tolower (filter (\<lambda>c. c \<noteq> 0x20) x)"
  shows "\<exists>m'. squeeze_loop name 12 0 0 m = (word_of_nat (length cs), m') \<and> mem_bytes m' name (length cs) = cs \<and>
    same_outside name 12 m m'"
  using squeeze_loop_eq[of 0 0 12 name m] assms by (simp add: mem_bytes_def[of _ _ 0])

lemma fun_upd_store: "m(a := v) = mem_store m a [v]"
  by (auto simp: mem_store_def fun_eq_iff unat_eq_zero)

lemma length_name_chars: "length (name_chars b) \<le> 12"
proof -
  have "length (take 8 b @ [if b ! 8 \<noteq> 0x20 then 0x2E else 0x20] @ take 3 (drop 8 b)) \<le> 12" by simp
  then show ?thesis unfolding name_chars_def length_map by (rule order_trans[OF length_filter_le])
qed

text \<open>The memory after the two copies and the separator.\<close>

lemma name_copied:
  assumes dis: "region name 13 \<inter> region q k = {}" and k: "k < 2 ^ 64" and j: "j + 32 \<le> k"
    and b: "b = mem_bytes m (q + word_of_nat j) 32"
  defines "src \<equiv> q + word_of_nat j"
  defines "m1 \<equiv> memcpy name src 8 m"
  defines "m2 \<equiv> m1(name + 8 := (if m1 (src + 8) \<noteq> 0x20 then 0x2E else 0x20))"
  shows "memcpy (name + 9) (src + 8) 3 m2 =
    mem_store m name (take 8 b @ [if b ! 8 \<noteq> 0x20 then 0x2E else 0x20] @ take 3 (drop 8 b))"
proof -
  have sub: "mem_bytes m (q + word_of_nat (j + a)) n = take n (drop a b)" if "a + n \<le> 32" for a n
    unfolding b using that by (intro nth_equalityI) (simp_all add: algebra_simps)
  have m1: "m1 = mem_store m name (take 8 b)"
    using memcpy_regions[OF dis _ k, of 0 8 j m] j sub[of 0 8] unfolding m1_def src_def by simp
  have other: "mem_store m name bs x = m x" if "x \<in> region q k" "length bs \<le> 13" for bs x
    using mem_store_other[OF dis _ _ that(1), of 0 bs m] that(2) by simp
  have inq: "q + word_of_nat (j + i) \<in> region q k" if "i < 32" for i
    using region_offset[of i 32 j k q] that j k by (simp add: add.assoc)
  have s8: "src + 8 = q + word_of_nat (j + 8)" unfolding src_def by simp
  have "m1 (src + 8) = b ! 8" unfolding m1 s8 using other[OF inq[of 8], of "take 8 b"] b by (simp add: add.assoc)
  then have m2: "m2 = mem_store m name (take 8 b @ [if b ! 8 \<noteq> 0x20 then 0x2E else 0x20])"
    using mem_store_append[of "take 8 b" "[if b ! 8 \<noteq> 0x20 then 0x2E else 0x20]" m name] b
    unfolding m2_def m1 fun_upd_store by simp
  have "mem_bytes m2 (q + word_of_nat (j + 8)) 3 = mem_bytes m (q + word_of_nat (j + 8)) 3"
  proof (rule mem_bytes_cong)
    fix i :: nat assume "i < 3"
    then have "q + word_of_nat (j + 8) + word_of_nat i \<in> region q k" using inq[of "8 + i"] by (simp add: algebra_simps)
    then show "m2 (q + word_of_nat (j + 8) + word_of_nat i) = m (q + word_of_nat (j + 8) + word_of_nat i)"
      unfolding m2 by (rule other) simp
  qed
  then have "memcpy (name + 9) (src + 8) 3 m2 = mem_store m2 (name + 9) (take 3 (drop 8 b))"
    using memcpy_regions[OF dis _ k, of 9 3 "j + 8" m2] j sub[of 8 3] unfolding s8 by simp
  then show ?thesis
    using mem_store_append[of "take 8 b @ [if b ! 8 \<noteq> 0x20 then 0x2E else 0x20]" "take 3 (drop 8 b)" m name] b
    unfolding m2 by simp
qed

lemma fat_file_name_runs:
  assumes inv: "heap_inv s L" and q: "(q, k) \<in> L" and j: "j + 32 \<le> unat k" and fits: "13 + 64 \<le> 4096 * nframes s"
  defines "cs \<equiv> name_chars (mem_bytes (kmem s) (q + word_of_nat j) 32)"
  shows "runs (fat_file_name_to_str (q + word_of_nat j) s) (\<lambda>(name, s'). name \<notin> fst ` L \<and> heap_inv s' (insert (name, 13) L) \<and>
    keeps L s s' \<and> mem_bytes (kmem s') name (Suc (length cs)) = cs @ [0])"
proof -
  have "heap_fits s 13" using fits by (simp add: heap_fits_def)
  then have km: "runs (kmalloc 13 s) (\<lambda>(p, s'). p \<notin> fst ` L \<and> heap_inv s' (insert (p, 13) L) \<and> keeps L s s')"
    by (intro kmalloc_runs[OF inv]) simp_all
  show ?thesis unfolding fat_file_name_to_str_def
  proof (rule runs_bind[OF km], clarify, goal_cases)
    case n: (1 name s1)
    let ?src = "q + word_of_nat j" and ?m = "kmem s1"
    let ?m1 = "memcpy name ?src 8 ?m"
    let ?m3 = "memcpy (name + 9) (?src + 8) 3 (?m1(name + 8 := (if ?m1 (?src + 8) \<noteq> 0x20 then 0x2E else 0x20)))"
    let ?b = "mem_bytes (kmem s) ?src 32"
    let ?x = "take 8 ?b @ [if ?b ! 8 \<noteq> 0x20 then 0x2E else 0x20] @ take 3 (drop 8 ?b)"
    have b: "?b = mem_bytes ?m ?src 32" using keeps_bytes[OF n(3) q, of j 32] j by simp
    have "name \<noteq> q" by (rule fresh_ne[OF n(1) q])
    then have "(name, 13) \<noteq> (q, k)" by simp
    from heap_inv_disjoint[OF n(2) insertI1 insertI2[OF q] this]
    have dis: "region name 13 \<inter> region q (unat k) = {}" by simp
    have m3: "?m3 = mem_store ?m name ?x" by (rule name_copied[OF dis _ j b]) (use unat_u64_less[of k] in simp)
    have x12: "length ?x = 12" by simp
    then have x: "mem_bytes ?m3 name 12 = ?x" unfolding m3 using mem_bytes_mem_store[of ?x ?m name] by simp
    have cs: "cs = map tolower (filter (\<lambda>c. c \<noteq> 0x20) ?x)" unfolding cs_def name_chars_def ..
    obtain m4 where m4: "squeeze_loop name 12 0 0 ?m3 = (word_of_nat (length cs), m4)" "mem_bytes m4 name (length cs) = cs"
      "same_outside name 12 ?m3 m4"
      using squeeze_name[OF x cs] by blast
    let ?s2 = "s1\<lparr>kmem := m4(name + word_of_nat (length cs) := 0)\<rparr>"
    have l12: "length cs \<le> 12" unfolding cs_def by (rule length_name_chars)
    have same: "same_outside name (unat (13 :: u64)) ?m (m4(name + word_of_nat (length cs) := 0))"
      using m4(3) l12 unfolding m3 same_outside_def mem_store_def x12 by (auto simp: unat_of_nat)
    note w = heap_write_buffer[OF n(2) insertI1 same]
    have "L \<subseteq> insert (name, 13) L - {(name, 13)}" using n(1) by force
    then have "keeps L s ?s2" by (rule keeps_trans[OF n(3) w(2) subset_refl])
    moreover have "mem_bytes (kmem ?s2) name (Suc (length cs)) = cs @ [0]"
      using mem_bytes_upd[of "length cs" 0 "length cs" m4 name 0] l12 m4(2) by (simp add: mem_bytes_snoc)
    ultimately show ?case using n(1) w(1) m4(1) by (simp add: Let_def)
  qed
qed

end
