(* ===== verification/Fat12_Paths.thy ===== *)
theory Fat12_Paths
  imports Fat12_Dirs
begin

text \<open>
  Looking up a path element in a directory: the driver builds an array of names, compares, and
  releases names and array. The lemma on get\_path\_element\_dir\_entry says that it finds the first
  entry with that name and leaves the heap with the buffers it had.
\<close>

section \<open>Comparing names\<close>

lemma strncmp_loop_name:
  assumes "0 \<notin> set acc" "0 \<notin> set e" "mem_bytes m p (Suc (length e)) = e @ [0]"
  shows "\<exists>r. strncmp_loop (length acc) (acc @ rest) (mem_bytes m p (length acc)) = Inr r \<and>
    (r = 0 \<and> m (p + word_of_nat (length acc)) = 0 \<longleftrightarrow> e = acc)"
  using assms
proof (induction acc arbitrary: e p)
  case Nil
  have "mem_bytes m p (Suc (length e)) ! 0 = (e @ [0]) ! 0" using Nil(3) by simp
  then have "m p = (e @ [0]) ! 0" by simp
  moreover have "(e @ [0]) ! 0 = 0 \<longleftrightarrow> e = []" using Nil(2) by (cases e) auto
  ultimately show ?case by (simp add: mem_bytes_def)
next
  case (Cons a acc)
  have hd: "mem_bytes m p (Suc k) = m p # mem_bytes m (p + 1) k" for k using mem_bytes_Suc[of m p 0 k] by simp
  show ?case
  proof (cases e)
    case Nil
    then have "m p = 0" using Cons.prems(3) by (simp add: mem_bytes_def)
    then show ?thesis using Cons.prems(1) Nil by (auto simp: hd word_uint_eq_iff)
  next
    case e: (Cons x e')
    then have x: "m p = x" "mem_bytes m (p + 1) (Suc (length e')) = e' @ [0]" using Cons.prems(3) hd[of "Suc (length e')"] by simp_all
    obtain r where "strncmp_loop (length acc) (acc @ rest) (mem_bytes m (p + 1) (length acc)) = Inr r"
      "r = 0 \<and> m (p + 1 + word_of_nat (length acc)) = 0 \<longleftrightarrow> e' = acc"
      using Cons.IH[OF _ _ x(2)] Cons.prems(1,2) e by auto
    then show ?thesis using Cons.prems(1) e x(1) by (auto simp: hd word_uint_eq_iff add.assoc)
  qed
qed

lemma strncmp_name:
  assumes "0 \<notin> set acc" "length acc < 2 ^ 64" "mem_bytes m p (Suc (length (name_chars b))) = name_chars b @ [0]"
  shows "\<exists>r. strncmp (acc @ rest) (mem_bytes m p (length acc)) (word_of_nat (length acc)) = Inr r \<and>
    (r = 0 \<and> m (p + word_of_nat (length acc)) = 0 \<longleftrightarrow> entry_name b = acc)"
proof -
  let ?cs = "name_chars b" and ?e = "entry_name b"
  have z: "0 \<notin> set ?e" unfolding entry_name_def by (auto dest: set_takeWhileD)
  have pre: "\<exists>r. ?cs @ [0] = ?e @ 0 # r"
  proof (cases "dropWhile (\<lambda>c. c \<noteq> 0) ?cs")
    case Nil
    then have "?e = ?cs" unfolding entry_name_def by (metis append_Nil2 takeWhile_dropWhile_id)
    then show ?thesis by simp
  next
    case (Cons c r)
    then have "c = 0" using hd_dropWhile[of "\<lambda>c. c \<noteq> 0" ?cs] by simp
    then show ?thesis using Cons takeWhile_dropWhile_id[of "\<lambda>c. c \<noteq> 0" ?cs] unfolding entry_name_def
      by (metis append.assoc append_Cons)
  qed
  then obtain r where r: "?cs @ [0] = ?e @ 0 # r" by blast
  have le: "Suc (length ?e) \<le> Suc (length ?cs)" unfolding entry_name_def by (simp add: length_takeWhile_le)
  have "mem_bytes m p (Suc (length ?e)) = take (Suc (length ?e)) (mem_bytes m p (Suc (length ?cs)))"
    using le by (intro nth_equalityI) simp_all
  also have "\<dots> = ?e @ [0]" unfolding assms(3) r by simp
  finally have "mem_bytes m p (Suc (length ?e)) = ?e @ [0]" .
  then show ?thesis
    using strncmp_loop_name[OF assms(1) z, of m p rest] assms(2) by (simp add: strncmp_def unsigned_of_nat take_bit_nat_eq_self)
qed

section \<open>The array of names\<close>

lemma fresh_subset: "p \<notin> fst ` L \<Longrightarrow> L \<subseteq> H \<Longrightarrow> L \<subseteq> H - {(p, n)}"
  by force

lemma read64_table:
  assumes "mem_bytes m tab T = X" "8 * j + 8 \<le> T"
  shows "read64 m (tab + word_of_nat (8 * j)) = le_word (take 8 (drop (8 * j) X))"
proof -
  have "mem_bytes m (tab + word_of_nat (8 * j)) 8 = take 8 (drop (8 * j) (mem_bytes m tab T))"
    using assms(2) by (intro nth_equalityI) (simp_all add: add.assoc)
  then show ?thesis unfolding read64_def assms(1) by simp
qed

definition name_bufs :: "u64 list \<Rightarrow> (u64 \<times> u64) set" where
  "name_bufs ns = (\<lambda>p. (p, 13)) ` set ns"

lemma fst_name_bufs [simp]: "fst ` name_bufs ns = set ns"
  by (simp add: name_bufs_def image_image)

text \<open>The first entries of the array point at names with the characters of the entries.\<close>

definition names_hold :: "mem \<Rightarrow> u64 \<Rightarrow> u8 list list \<Rightarrow> u64 list \<Rightarrow> bool" where
  "names_hold m tab es ns \<longleftrightarrow> (\<forall>j < length ns. read64 m (tab + word_of_nat (8 * j)) = ns ! j \<and>
     mem_bytes m (ns ! j) (Suc (length (name_chars (es ! j)))) = name_chars (es ! j) @ [0])"

definition names_inv ::
  "(u64 \<times> u64) set \<Rightarrow> u8 list list \<Rightarrow> u64 \<Rightarrow> u64 \<Rightarrow> 'a heap_state_scheme \<Rightarrow> nat \<Rightarrow> 'a heap_state_scheme \<Rightarrow> bool" where
  "names_inv L es tab sz s0 i s \<longleftrightarrow> (\<exists>ns. length ns = i \<and> distinct ns \<and> set ns \<inter> fst ` insert (tab, sz) L = {} \<and>
     heap_inv s (name_bufs ns \<union> insert (tab, sz) L) \<and> keeps L s0 s \<and> names_hold (kmem s) tab es ns)"

lemma names_hold_keeps:
  assumes "names_hold (kmem s) tab es ns" "keeps (name_bufs ns) s s'" "length ns * 8 \<le> T"
    "take (length ns * 8) (mem_bytes (kmem s') tab T) = take (length ns * 8) (mem_bytes (kmem s) tab T)"
  shows "names_hold (kmem s') tab es ns"
  unfolding names_hold_def
proof (intro allI impI conjI)
  fix j assume j: "j < length ns"
  have tk: "take 8 (drop (8 * j) (mem_bytes m tab T)) = take 8 (drop (8 * j) (take (length ns * 8) (mem_bytes m tab T)))" for m
    using j by (simp add: drop_take min_def)
  have T: "8 * j + 8 \<le> T" using j assms(3) by linarith
  show "read64 (kmem s') (tab + word_of_nat (8 * j)) = ns ! j"
    using assms(1) j read64_table[OF refl T, of "kmem s'" tab] read64_table[OF refl T, of "kmem s" tab]
      tk[of "kmem s"] tk[of "kmem s'"] assms(4) by (simp add: names_hold_def)
  have "(ns ! j, 13) \<in> name_bufs ns" using j by (simp add: name_bufs_def)
  then have "mem_bytes (kmem s') (ns ! j + word_of_nat 0) (Suc (length (name_chars (es ! j)))) =
      mem_bytes (kmem s) (ns ! j + word_of_nat 0) (Suc (length (name_chars (es ! j))))"
    using keeps_bytes[OF assms(2), of "ns ! j" 13 0] length_name_chars[of "es ! j"] by simp
  then show "mem_bytes (kmem s') (ns ! j) (Suc (length (name_chars (es ! j)))) = name_chars (es ! j) @ [0]"
    using assms(1) j by (simp add: names_hold_def)
qed

lemma names_step:
  assumes q: "(q, k) \<in> L" "32 * length es \<le> unat k" "entries_at (kmem s0) q (length es) = es"
    and sz: "unat sz = 8 * length es" and i: "i < length es" and fits: "13 + 64 \<le> 4096 * nframes s0" and new: "tab \<notin> fst ` L"
    and ni: "names_inv L es tab sz s0 i s"
  shows "runs (fat_file_name_to_str (q + word_of_nat (32 * i)) s)
    (\<lambda>(val, s'). names_inv L es tab sz s0 (Suc i) (s'\<lparr>kmem := write64 (kmem s') (tab + word_of_nat (8 * i)) val\<rparr>))"
proof -
  obtain ns where ns: "length ns = i" "distinct ns" "set ns \<inter> fst ` insert (tab, sz) L = {}"
    "heap_inv s (name_bufs ns \<union> insert (tab, sz) L)" "keeps L s0 s" "names_hold (kmem s) tab es ns"
    using ni by (auto simp: names_inv_def)
  let ?H = "name_bufs ns \<union> insert (tab, sz) L" and ?b = "mem_bytes (kmem s) (q + word_of_nat (32 * i)) 32"
  have "entries_at (kmem s) q (length es) ! i = es ! i" using keeps_entries[OF ns(5) q(1,2)] q(3) by simp
  then have b: "?b = es ! i" using i by simp
  have qH: "(q, k) \<in> ?H" using q(1) by simp
  have room: "32 * i + 32 \<le> unat k" using i q(2) by linarith
  have "13 + 64 \<le> 4096 * nframes s" using fits ns(5) by (simp add: keeps_def)
  from fat_file_name_runs[OF ns(4) qH room this] show ?thesis unfolding b
  proof (rule runs_mono, clarify)
    fix nm s1
    assume n: "nm \<notin> fst ` ?H" "heap_inv s1 (insert (nm, 13) ?H)" "keeps ?H s s1"
      "mem_bytes (kmem s1) nm (Suc (length (name_chars (es ! i)))) = name_chars (es ! i) @ [0]"
    let ?H' = "insert (nm, 13) ?H" and ?s2 = "s1\<lparr>kmem := write64 (kmem s1) (tab + word_of_nat (8 * i)) nm\<rparr>"
    have tabH: "(tab, sz) \<in> ?H'" by simp
    have "8 * i + length (le_bytes 8 nm) \<le> unat sz" using i sz by simp
    note st = heap_store_buffer[OF n(2) tabH this, folded write64_def]
    have tab13: "(tab, sz) \<notin> insert (nm, 13) (name_bufs ns)"
      using n(1) ns(3) by (auto simp: name_bufs_def)
    have kn: "keeps (insert (nm, 13) (name_bufs ns)) s1 ?s2" by (rule keeps_mono[OF st(2)]) (use tab13 in auto)
    have k01: "keeps L s0 s1" by (rule keeps_trans[OF ns(5) n(3)]) auto
    have "keeps L s1 ?s2" by (rule keeps_mono[OF st(2) fresh_subset[OF new]]) auto
    then have kL: "keeps L s0 ?s2" by (rule keeps_trans[OF k01]) auto
    have knb: "keeps (name_bufs ns) s ?s2" by (rule keeps_trans[OF n(3) kn]) auto
    have tb: "mem_bytes (kmem s1) tab (unat sz) = mem_bytes (kmem s) tab (unat sz)"
      by (rule keeps_buffer[OF n(3)]) simp
    have tk: "take (length ns * 8) (mem_bytes (kmem ?s2) tab (unat sz)) = take (length ns * 8) (mem_bytes (kmem s) tab (unat sz))"
      unfolding st(3) tb using ns(1) sz i by simp
    have le: "length ns * 8 \<le> unat sz" using ns(1) sz i by simp
    have old: "names_hold (kmem ?s2) tab es ns" by (rule names_hold_keeps[OF ns(6) knb le tk])
    have rd: "read64 (kmem ?s2) (tab + word_of_nat (8 * i)) = nm"
      by (simp add: read64_write64_same)
    have nmb: "mem_bytes (kmem ?s2) nm (Suc (length (name_chars (es ! i)))) = name_chars (es ! i) @ [0]"
      using keeps_bytes[OF kn, of nm 13 0] length_name_chars[of "es ! i"] n(4) by simp
    have hold: "names_hold (kmem ?s2) tab es (ns @ [nm])"
      using old rd nmb ns(1) by (auto simp: names_hold_def nth_append less_Suc_eq)
    have "nm \<notin> set ns" "nm \<notin> fst ` insert (tab, sz) L" using n(1) unfolding image_Un fst_name_bufs by simp_all
    moreover have "name_bufs (ns @ [nm]) \<union> insert (tab, sz) L = ?H'" by (auto simp: name_bufs_def)
    ultimately show "names_inv L es tab sz s0 (Suc i) ?s2"
      unfolding names_inv_def using st(1) kL hold ns(1-3)
      by (intro exI[of _ "ns @ [nm]"]) simp
  qed
qed

lemma names_loop_runs:
  assumes q: "(q, k) \<in> L" "32 * length es \<le> unat k" "entries_at (kmem s0) q (length es) = es"
    and sz: "unat sz = 8 * length es" and fits: "13 + 64 \<le> 4096 * nframes s0" and new: "tab \<notin> fst ` L"
    and n: "unat n = length es" "length es < 2 ^ 31" and valid: "\<forall>b \<in> set es. \<not> fin_entry b \<and> \<not> skip_entry b"
  shows "i \<le> n \<Longrightarrow> names_inv L es tab sz s0 (unat i) s \<Longrightarrow> runs (names_loop tab q n i i s) (names_inv L es tab sz s0 (length es))"
proof (induction "unat n - unat i" arbitrary: i s)
  case 0
  then have "i = n" by (simp add: word_le_nat_alt word_unat_eq_iff)
  then show ?case using 0(3) n(1) by (simp add: names_loop.simps)
next
  case (Suc j)
  then have lt: "i < n" by (simp add: word_less_nat_alt)
  have ilt: "unat i < length es" using lt n(1) by (simp add: word_less_nat_alt)
  have u: "unat (i + 1) = Suc (unat i)" using unat_Suc_less[OF lt] .
  have le: "i + 1 \<le> n" using u lt by (simp add: word_le_nat_alt word_less_nat_alt)
  have "keeps L s0 s" using Suc(4) by (auto simp: names_inv_def)
  from keeps_entries[OF this q(1,2)] have "entries_at (kmem s) q (length es) ! unat i = es ! unat i" using q(3) by simp
  then have b: "mem_bytes (kmem s) (entry_addr q i) 32 = es ! unat i" using ilt by (simp add: entry_at_index)
  have ok: "\<not> fin_entry (es ! unat i)" "\<not> skip_entry (es ! unat i)" using valid ilt by auto
  have idx: "scast i * 8 = (word_of_nat (8 * unat i) :: u64)" using ilt n(2) by (simp add: scast_u32_nonneg mult.commute)
  have step: "runs (fat_file_name_to_str (entry_addr q i) s)
    (\<lambda>(val, s'). names_inv L es tab sz s0 (Suc (unat i)) (s'\<lparr>kmem := write64 (kmem s') (tab + word_of_nat (8 * unat i)) val\<rparr>))"
    unfolding entry_at_index by (rule names_step[OF q sz ilt fits new Suc(4)])
  have "runs (kbind (fat_file_name_to_str (entry_addr q i) s) (\<lambda>(val, s).
        names_loop tab q n (i + 1) (i + 1) (s\<lparr>kmem := write64 (kmem s) (tab + word_of_nat (8 * unat i)) val\<rparr>)))
      (names_inv L es tab sz s0 (length es))"
  proof (rule runs_bind[OF step], clarify, goal_cases)
    case (1 val s')
    have "j = unat n - unat (i + 1)" using Suc(2) u by simp
    then show ?case using Suc(1)[of "i + 1"] le 1 u by simp
  qed
  then show ?case
    using lt ok unfolding names_loop.simps[of tab q n i i s] dir_entry_bytes b Let_def idx
    by (simp add: fin_entry_def skip_entry_def)
qed

section \<open>The search\<close>

text \<open>The index of the first entry with a name, the number of entries when there is none.\<close>

definition entry_index :: "u8 list \<Rightarrow> u8 list list \<Rightarrow> nat" where
  "entry_index name es = length (takeWhile (\<lambda>b. entry_name b \<noteq> name) es)"

lemma entry_index_Cons: "entry_index name (b # es) = (if entry_name b = name then 0 else Suc (entry_index name es))"
  by (simp add: entry_index_def)

lemma entry_index_found:
  "entry_index name es < length es \<Longrightarrow> entry_name (es ! entry_index name es) = name"
  unfolding entry_index_def using nth_length_takeWhile by blast

lemma find_name_loop_eq:
  assumes hold: "names_hold m tab es ns" and len: "length ns = length es" "length es < 2 ^ 32"
    and acc: "0 \<notin> set acc" "length acc < 2 ^ 64"
  shows "i + k = length es \<Longrightarrow>
    find_name_loop k (word_of_nat i) q (acc @ rest) (word_of_nat (length acc)) tab m =
      Inr (let j = i + entry_index acc (drop i es) in if j < length es then q + word_of_nat (32 * j) else 0)"
proof (induction k arbitrary: i)
  case (Suc k)
  let ?b = "es ! i" and ?nm = "ns ! i"
  have i: "i < length es" using Suc.prems by simp
  have nm: "read64 m (tab + word_of_nat i * 8) = ?nm"
    "mem_bytes m ?nm (Suc (length (name_chars ?b))) = name_chars ?b @ [0]"
    using hold i len(1) unfolding names_hold_def by (simp_all add: mult.commute)
  obtain r where r: "strncmp (acc @ rest) (mem_bytes m ?nm (length acc)) (word_of_nat (length acc)) = Inr r"
    "r = 0 \<and> m (?nm + word_of_nat (length acc)) = 0 \<longleftrightarrow> entry_name ?b = acc"
    using strncmp_name[OF acc nm(2)] by blast
  have ul: "unat (word_of_nat (length acc) :: u64) = length acc" using acc(2) by (simp add: unsigned_of_nat take_bit_nat_eq_self)
  have dr: "drop i es = ?b # drop (Suc i) es" using i by (simp add: Cons_nth_drop_Suc)
  have s: "word_of_nat i + 1 = (word_of_nat (Suc i) :: u64)" by simp
  show ?case
  proof (cases "entry_name ?b = acc")
    case True
    then show ?thesis using r i unfolding find_name_loop.simps nm(1) ul Let_def dr entry_index_Cons by (simp add: mult.commute)
  next
    case False
    then show ?thesis using r Suc.IH[of "Suc i"] Suc.prems unfolding find_name_loop.simps nm(1) ul Let_def dr entry_index_Cons s
      by auto
  qed
qed simp

section \<open>get\_path\_element\_dir\_entry\<close>

lemma free_names_runs:
  assumes ns: "length ns = unat n" "distinct ns" "set ns \<inter> fst ` insert (tab, sz) L = {}"
    and inv: "heap_inv s (name_bufs ns \<union> insert (tab, sz) L)" and hold: "names_hold (kmem s) tab es ns"
    and sz: "unat sz = 8 * length ns"
  shows "runs (for_loop 0 (ucast (n :: u32) :: u64) (\<lambda>i s. kfree (read64 (kmem s) (tab + i * 8)) s) s)
    (\<lambda>s'. heap_inv s' (insert (tab, sz) L) \<and> keeps (insert (tab, sz) L) s s')"
proof -
  let ?P = "\<lambda>i s'. heap_inv s' (name_bufs (drop i ns) \<union> insert (tab, sz) L) \<and> keeps (insert (tab, sz) L) s s'"
  have n: "unat (ucast n :: u64) = length ns" using ns(1) ucast_u32 by simp
  have "runs (for_loop 0 (ucast n :: u64) (\<lambda>i s. kfree (read64 (kmem s) (tab + i * 8)) s) s) (?P (unat (ucast n :: u64)))"
  proof (rule runs_for_loop[of ?P], goal_cases)
    case 1
    then show ?case using inv by simp
  next
    case (3 j t)
    have j: "unat j < length ns" using 3(2) n by (simp add: word_less_nat_alt)
    have dr: "drop (unat j) ns = ns ! unat j # drop (Suc (unat j)) ns" using j by (simp add: Cons_nth_drop_Suc)
    have at: "tab + j * 8 = tab + word_of_nat (8 * unat j)" by (simp add: mult.commute)
    have T: "8 * unat j + 8 \<le> unat sz" using j sz by simp
    have "mem_bytes (kmem t) tab (unat sz) = mem_bytes (kmem s) tab (unat sz)"
      using 3(3) by (intro keeps_buffer[of "insert (tab, sz) L"]) simp_all
    then have "read64 (kmem t) (tab + j * 8) = read64 (kmem s) (tab + word_of_nat (8 * unat j))"
      using read64_table[OF refl T, of "kmem t" tab] read64_table[OF refl T, of "kmem s" tab] unfolding at by simp
    moreover have "read64 (kmem s) (tab + word_of_nat (8 * unat j)) = ns ! unat j"
      using hold j unfolding names_hold_def by blast
    ultimately have rd: "read64 (kmem t) (tab + j * 8) = ns ! unat j" by (rule trans)
    let ?H = "name_bufs (drop (Suc (unat j)) ns) \<union> insert (tab, sz) L"
    have H: "name_bufs (drop (unat j) ns) \<union> insert (tab, sz) L = insert (ns ! unat j, 13) ?H"
      unfolding dr by (auto simp: name_bufs_def)
    have "ns ! unat j \<notin> set (drop (Suc (unat j)) ns)" using distinct_drop[OF ns(2), of "unat j"] unfolding dr by simp
    moreover have "ns ! unat j \<notin> fst ` insert (tab, sz) L" using ns(3) nth_mem[OF j] by blast
    ultimately have "ns ! unat j \<notin> fst ` ?H" unfolding image_Un fst_name_bufs by blast
    then have del: "insert (ns ! unat j, 13) ?H - {(ns ! unat j, 13)} = ?H" by (metis Diff_insert_absorb fst_conv imageI)
    have "runs (kfree (ns ! unat j) t) (\<lambda>s'. heap_inv s' ?H \<and> keeps ?H t s')"
      using kfree_runs[of t "insert (ns ! unat j, 13) ?H" "ns ! unat j" 13] 3(3) unfolding H del by simp
    then show ?case unfolding rd
    proof (rule runs_mono, goal_cases)
      case s': (1 s')
      have "keeps (insert (tab, sz) L) s s'" by (rule keeps_trans[of "insert (tab, sz) L" s t ?H]) (use 3(3) s' in auto)
      then show ?case using s' by blast
    qed
  qed simp
  then show ?thesis unfolding n by (rule runs_mono) (simp add: name_bufs_def)
qed

lemma path_element_runs:
  assumes inv: "heap_inv s L" and q: "(q, k) \<in> L" "32 * length es \<le> unat k" "entries_at (kmem s) q (length es) = es"
    and n: "unat n = length es" "0 < length es" "length es < 2 ^ 31" and fits: "32 * length es + 64 \<le> 4096 * nframes s"
    and valid: "\<forall>b \<in> set es. \<not> fin_entry b \<and> \<not> skip_entry b" and acc: "0 \<notin> set acc" "length acc < 2 ^ 64"
  shows "runs (get_path_element_dir_entry q (acc @ rest) (word_of_nat (length acc)) n s) (\<lambda>(r, s').
    heap_inv s' L \<and> keeps L s s' \<and>
    r = (if entry_index acc es < length es then q + word_of_nat (32 * entry_index acc es) else 0))"
proof -
  let ?sz = "word_of_nat (8 * length es) :: u64"
  have sz: "unat ?sz = 8 * length es" using n(3) by (subst unat_of_nat) simp
  have "takeWhile (\<lambda>b. \<not> fin_entry b) es = es" "filter (\<lambda>b. \<not> skip_entry b) es = es"
    using valid by (simp_all add: takeWhile_eq_all_conv filter_id_conv)
  then have "valid_entries es = es" by (simp only: valid_entries_def)
  then have "count_valid_entries (kmem s) q n False = word_of_nat (unat n)"
    unfolding count_valid_entries_eq n(1) q(3) by (simp only:)
  then have cnt: "count_valid_entries (kmem s) q n False = n" by simp
  have "(ucast n :: u64) = word_of_nat (unat n)" by simp
  then have usz: "ucast n * 8 = ?sz" by (simp only: n(1) of_nat_mult of_nat_numeral mult.commute)
  have "?sz \<noteq> 0" using sz n(2) by (metis length_greater_0_conv mult_pos_pos not_less_iff_gr_or_eq unat_0 zero_less_numeral)
  moreover have "heap_fits s ?sz" using fits sz by (simp add: heap_fits_def)
  ultimately have km: "runs (kmalloc ?sz s) (\<lambda>(p, s'). p \<notin> fst ` L \<and> heap_inv s' (insert (p, ?sz) L) \<and> keeps L s s')"
    by (rule kmalloc_runs[OF inv])
  have names: "runs (get_entries_file_names q n s) (\<lambda>(tab, c, s'). \<exists>ns. tab \<notin> fst ` L \<and> length ns = length es \<and> distinct ns \<and>
      set ns \<inter> fst ` insert (tab, ?sz) L = {} \<and> heap_inv s' (name_bufs ns \<union> insert (tab, ?sz) L) \<and> keeps L s s' \<and>
      names_hold (kmem s') tab es ns)"
    unfolding get_entries_file_names_def cnt Let_def usz
  proof (rule runs_bind[OF km], clarify, goal_cases)
    case t: (1 tab s1)
    have es1: "entries_at (kmem s1) q (length es) = es" using keeps_entries[OF t(3) q(1,2)] q(3) by simp
    have "nframes s1 = nframes s" using t(3) by (simp add: keeps_def)
    then have f1: "13 + 64 \<le> 4096 * nframes s1" using fits n(2) by linarith
    have start: "names_inv L es tab ?sz s1 (unat (0 :: u32)) s1"
      unfolding names_inv_def using t(2) by (auto simp: name_bufs_def names_hold_def)
    note lp = names_loop_runs[OF q(1,2) es1 sz f1 t(1) n(1,3) valid _ start]
    show ?case
    proof (rule runs_bind[OF lp])
      fix s2 assume "names_inv L es tab ?sz s1 (length es) s2"
      then obtain ns where ns: "length ns = length es" "distinct ns" "set ns \<inter> fst ` insert (tab, ?sz) L = {}"
        "heap_inv s2 (name_bufs ns \<union> insert (tab, ?sz) L)" "keeps L s1 s2" "names_hold (kmem s2) tab es ns"
        by (auto simp: names_inv_def)
      have "keeps L s s2" by (rule keeps_trans[OF t(3) ns(5)]) auto
      then show "runs (Inr (tab, n, s2)) (\<lambda>(tab, c, s'). \<exists>ns. tab \<notin> fst ` L \<and> length ns = length es \<and> distinct ns \<and>
        set ns \<inter> fst ` insert (tab, ?sz) L = {} \<and> heap_inv s' (name_bufs ns \<union> insert (tab, ?sz) L) \<and> keeps L s s' \<and>
        names_hold (kmem s') tab es ns)"
        using t(1) ns by (simp del: of_nat_mult) blast
    qed simp
  qed
  show ?thesis unfolding get_path_element_dir_entry_def
  proof (rule runs_bind[OF names], clarify, goal_cases)
    case c: (1 tab c s1 ns)
    have find: "find_name_loop (unat n) 0 q (acc @ rest) (word_of_nat (length acc)) tab (kmem s1) =
        Inr (if entry_index acc es < length es then q + word_of_nat (32 * entry_index acc es) else 0)"
      using find_name_loop_eq[OF c(7,2) _ acc, of 0 "unat n" q rest] n by (simp add: Let_def)
    have ln: "length ns = unat n" using c(2) n(1) by simp
    have szn: "unat ?sz = 8 * length ns" using sz c(2) by simp
    note fr = free_names_runs[OF ln c(3,4,5,7) szn]
    show ?case unfolding find kbind_simps
    proof (rule runs_bind[OF fr], clarify, goal_cases)
      case s2: (1 s2)
      have del: "insert (tab, ?sz) L - {(tab, ?sz)} = L" using c(1) by (metis Diff_insert_absorb fst_conv imageI)
      have kf: "runs (kfree tab s2) (\<lambda>s'. heap_inv s' L \<and> keeps L s2 s')"
        using kfree_runs[OF s2(1) insertI1] unfolding del .
      show ?case
      proof (rule runs_bind[OF kf], clarify, goal_cases)
        case s3: (1 s3)
        have "keeps L s1 s3" by (rule keeps_trans[OF s2(2) s3(2)]) auto
        then have "keeps L s s3" by (rule keeps_trans[OF c(6)]) auto
        then show ?case using s3(1) by (simp del: of_nat_mult)
      qed
    qed
  qed
qed

end
