(* ===== verification/Fat12_Open.thy ===== *)
theory Fat12_Open
  imports Fat12_Paths
begin

text \<open>
  Opening a file by its path. \<open>fat_path\<close> says what a path means on a volume, directory by
  directory; the theorem is that fat12\_open returns the file the path names, its content in a
  fresh buffer, or NULL when an element is missing, and releases every buffer it borrowed.
\<close>

section \<open>What a path means\<close>

text \<open>The first k directory entries in a sequence of bytes.\<close>

definition chunks :: "nat \<Rightarrow> u8 list \<Rightarrow> u8 list list" where
  "chunks k bs = map (\<lambda>i. take 32 (drop (32 * i) bs)) [0..<k]"

definition root_size :: "fat12_info \<Rightarrow> nat" where
  "root_size info = unat (root_dir_sectors_size info) * bps info"

definition root_offset :: "fat12_info \<Rightarrow> nat" where
  "root_offset info = unat (root_dir_sector_offset info) * bps info"

definition root_entries :: "(nat \<Rightarrow> u8) \<Rightarrow> fat12_info \<Rightarrow> u8 list list" where
  "root_entries img info = valid_entries (chunks (root_size info div 32) (dev_bytes img (root_offset info) (root_size info)))"

text \<open>The size of the content the driver reports for the entry b with the chain cs.\<close>

definition entry_size :: "fat12_info \<Rightarrow> u8 list \<Rightarrow> nat list \<Rightarrow> u32" where
  "entry_size info b cs = content_size info (directory_entry_of b) (length cs)"

definition sub_entries :: "(nat \<Rightarrow> u8) \<Rightarrow> fat12_info \<Rightarrow> u8 list \<Rightarrow> nat list \<Rightarrow> u8 list list" where
  "sub_entries img info b cs = valid_entries (chunks (unat (entry_size info b cs div 32)) (chain_bytes img info cs))"

text \<open>A directory the driver can handle: not empty (kmalloc refuses size 0) and small enough.\<close>

definition dir_ok :: "nat \<Rightarrow> u8 list list \<Rightarrow> bool" where
  "dir_ok frames es \<longleftrightarrow> es \<noteq> [] \<and> length es < 2 ^ 31 \<and> 32 * length es + 64 \<le> 4096 * frames"

inductive fat_path ::
  "(nat \<Rightarrow> u8) \<Rightarrow> fat12_info \<Rightarrow> nat \<Rightarrow> nat \<Rightarrow> u8 list list \<Rightarrow> u8 list \<Rightarrow> u8 list \<Rightarrow> (u8 list list \<times> u8 list) option \<Rightarrow> bool"
  for img info V frames where
  last: "dir_ok frames es \<Longrightarrow> fat_path img info V frames es acc (0 # rest) (Some (es, acc))"
| char: "c \<noteq> 0 \<Longrightarrow> c \<noteq> 0x2F \<Longrightarrow> fat_path img info V frames es (acc @ [c]) p r \<Longrightarrow>
    fat_path img info V frames es acc (c # p) r"
| missing: "dir_ok frames es \<Longrightarrow> entry_index acc es = length es \<Longrightarrow> fat_path img info V frames es acc (0x2F # p) None"
| enter: "dir_ok frames es \<Longrightarrow> entry_index acc es < length es \<Longrightarrow> b = es ! entry_index acc es \<Longrightarrow>
    chain_ok info V frames img (unat (first_cluster_id (directory_entry_of b))) cs \<Longrightarrow>
    unat (entry_size info b cs) \<le> length cs * cluster_size info \<Longrightarrow>
    fat_path img info V frames (sub_entries img info b cs) [] p r \<Longrightarrow>
    fat_path img info V frames es acc (0x2F # p) r"

text \<open>The file a path names: its entry and its chain, or nothing.\<close>

inductive fat_finds ::
  "(nat \<Rightarrow> u8) \<Rightarrow> fat12_info \<Rightarrow> nat \<Rightarrow> nat \<Rightarrow> u8 list \<Rightarrow> (u8 list \<times> nat list) option \<Rightarrow> bool"
  for img info V frames where
  no_dir: "fat_path img info V frames (root_entries img info) [] p None \<Longrightarrow> fat_finds img info V frames p None"
| no_file: "fat_path img info V frames (root_entries img info) [] p (Some (es, acc)) \<Longrightarrow>
    entry_index acc es = length es \<Longrightarrow> fat_finds img info V frames p None"
| found: "fat_path img info V frames (root_entries img info) [] p (Some (es, acc)) \<Longrightarrow>
    entry_index acc es < length es \<Longrightarrow> b = es ! entry_index acc es \<Longrightarrow>
    chain_ok info V frames img (unat (first_cluster_id (directory_entry_of b))) cs \<Longrightarrow>
    fat_finds img info V frames p (Some (b, cs))"

section \<open>Directories in buffers\<close>

lemma entries_chunks:
  assumes "mem_bytes m p T = bs" "32 * k \<le> T"
  shows "entries_at m p k = chunks k bs"
proof (rule nth_equalityI)
  fix i assume "i < length (entries_at m p k)"
  then have i: "i < k" by simp
  have "mem_bytes m (p + word_of_nat (32 * i)) 32 = take 32 (drop (32 * i) (mem_bytes m p T))"
    using i assms(2) by (intro nth_equalityI) (simp_all add: add.assoc)
  then show "entries_at m p k ! i = chunks k bs ! i" using i assms(1) by (simp add: chunks_def)
qed (simp add: chunks_def)

text \<open>The buffer of a directory: it holds the entries es, all of them valid.\<close>

definition dir_buf :: "nat \<Rightarrow> (u64 \<times> u64) set \<Rightarrow> u8 list list \<Rightarrow> u64 \<Rightarrow> u32 \<Rightarrow> 'a heap_state_scheme \<Rightarrow> bool" where
  "dir_buf frames H es q n s \<longleftrightarrow> q \<notin> fst ` H \<and> unat n = length es \<and> dir_ok frames es \<and> nframes s = frames \<and>
     heap_inv s (insert (q, word_of_nat (32 * length es)) H) \<and> entries_at (kmem s) q (length es) = es \<and>
     (\<forall>b \<in> set es. \<not> fin_entry b \<and> \<not> skip_entry b)"

lemma valid_entries_valid: "b \<in> set (valid_entries es) \<Longrightarrow> \<not> fin_entry b \<and> \<not> skip_entry b"
  by (auto simp: valid_entries_def dest: set_takeWhileD)

lemma dir_size: "length es < 2 ^ 31 \<Longrightarrow> unat (word_of_nat (32 * length es) :: u64) = 32 * length es"
  by (subst unat_of_nat) simp

lemma filter_dir_buf:
  assumes "heap_inv s (insert (p, np) H)" "p \<notin> fst ` H" "32 * unat n \<le> unat np"
    "es = valid_entries (entries_at (kmem s) p (unat n))" "dir_ok frames es" "nframes s = frames"
  shows "runs (filter_valid_directory_entries p n s) (\<lambda>(q, c, s'). dir_buf frames H es q c s' \<and> keeps H s s')"
proof -
  have del: "insert (p, np) H - {(p, np)} = H" using assms(2) by (metis Diff_insert_absorb fst_conv imageI)
  have v: "\<forall>b \<in> set es. \<not> fin_entry b \<and> \<not> skip_entry b" unfolding assms(4) using valid_entries_valid by blast
  show ?thesis
    using filter_valid_runs[OF assms(1) insertI1 assms(3,4)] assms(5,6) v unfolding del dir_ok_def dir_buf_def
    by (auto simp: keeps_def dir_ok_def elim!: runs_mono)
qed

text \<open>The root directory fits the volume and the memory.\<close>

definition root_ok :: "fat12_info \<Rightarrow> nat \<Rightarrow> nat \<Rightarrow> bool" where
  "root_ok info V frames \<longleftrightarrow> 0 < root_size info \<and> root_offset info + root_size info \<le> V \<and> root_size info + 64 \<le> 4096 * frames"

lemma fat_path_dir_ok: "fat_path img info V frames es acc p r \<Longrightarrow> dir_ok frames es"
  by (induction rule: fat_path.induct) auto

lemma root_dir_runs:
  assumes vol: "volume dev idle V img" and d: "idle d" and wf: "volume_wf info V" and inv: "heap_inv s H"
    and root: "root_ok info V (nframes s)" and ok: "dir_ok (nframes s) (root_entries img info)"
  shows "runs (get_root_directory_entries dev info (s, d)) (\<lambda>(q, n, s', d').
    dir_buf (nframes s) H (root_entries img info) q n s' \<and> keeps H s s' \<and> idle d')"
proof -
  note w = volume_wfD[OF wf] and r = root[unfolded root_ok_def]
  let ?S = "root_dir_sectors_size info * bytes_per_sector info" and ?O = "root_dir_sector_offset info * bytes_per_sector info"
  have S: "unat ?S = root_size info" using r w(5) by (subst unat_mult_u32) (simp_all add: root_size_def bps_def)
  have O: "unat ?O = root_offset info" using r w(5) by (subst unat_mult_u32) (simp_all add: root_offset_def bps_def)
  have le: "unat (ucast ?O :: u64) + unat (ucast ?S :: u64) \<le> V" using r S O by (simp add: ucast_u32)
  have S0: "(ucast ?S :: u64) \<noteq> 0" using r S ucast_u32[of ?S] by (metis not_less_iff_gr_or_eq unat_0)
  have fS: "heap_fits s (ucast ?S)" using r S by (simp add: heap_fits_def ucast_u32)
  have e: "get_root_directory_entries dev info (s, d) =
      kbind (kbind (kmalloc (ucast ?S) s) (\<lambda>(p, s). kbind (pread_device dev p (ucast ?S) (ucast ?O) (s, d)) (\<lambda>(s, d). Inr (p, s, d))))
      (\<lambda>(p, s, d). kbind (filter_valid_directory_entries p (?S div 32) s) (\<lambda>(q, n, s). Inr (q, n, s, d)))"
    unfolding get_root_directory_entries_def Let_def by (simp add: kbind_assoc split_def)
  show ?thesis unfolding e
  proof (rule runs_bind[OF kmalloc_pread_runs[OF vol d le inv S0 fS]], clarify, goal_cases)
    case p: (1 p s1 d1)
    have n: "unat (?S div 32) = root_size info div 32" using S by (simp add: unat_div_distrib)
    have le32: "32 * unat (?S div 32) \<le> unat (ucast ?S :: u64)" unfolding n ucast_u32 S by simp
    have "entries_at (kmem s1) p (root_size info div 32) = chunks (root_size info div 32) (dev_bytes img (root_offset info) (root_size info))"
      using p(5) unfolding ucast_u32 S O by (rule entries_chunks) simp
    then have es: "root_entries img info = valid_entries (entries_at (kmem s1) p (unat (?S div 32)))"
      unfolding n root_entries_def by (simp only:)
    have fr: "nframes s1 = nframes s" using p(3) by (simp add: keeps_def)
    note f = filter_dir_buf[OF p(2,1) le32 es ok fr]
    show ?case
    proof (rule runs_bind[OF f], clarify, goal_cases)
      case (1 q c s2)
      have "keeps H s s2" by (rule keeps_trans[OF p(3) 1(2)]) auto
      then show ?case using 1(1) p(4) by simp
    qed
  qed
qed

lemma dir_bufD:
  assumes "dir_buf frames H es q n s"
  shows "q \<notin> fst ` H" "unat n = length es" "dir_ok frames es" "nframes s = frames"
    "heap_inv s (insert (q, word_of_nat (32 * length es)) H)" "entries_at (kmem s) q (length es) = es"
    "\<forall>b \<in> set es. \<not> fin_entry b \<and> \<not> skip_entry b" "unat (word_of_nat (32 * length es) :: u64) = 32 * length es"
  using assms dir_size[of es] by (auto simp: dir_buf_def dir_ok_def)

lemma dir_buf_keeps:
  assumes b: "dir_buf frames H es q n s" and k: "keeps (insert (q, word_of_nat (32 * length es)) H) s s'"
    and inv: "heap_inv s' (insert (q, word_of_nat (32 * length es)) H)"
  shows "dir_buf frames H es q n s'"
proof -
  note d = dir_bufD[OF b]
  have "entries_at (kmem s') q (length es) = entries_at (kmem s) q (length es)"
    by (rule keeps_entries[OF k insertI1]) (simp only: d(8))
  then show ?thesis using b inv k by (simp add: dir_buf_def keeps_def)
qed

lemma element_runs:
  assumes b: "dir_buf frames H es q n s" and acc: "0 \<notin> set acc" "length acc < 2 ^ 64"
  shows "runs (get_path_element_dir_entry q (acc @ rest) (word_of_nat (length acc)) n s) (\<lambda>(r, s').
    dir_buf frames H es q n s' \<and> keeps (insert (q, word_of_nat (32 * length es)) H) s s' \<and>
    (if entry_index acc es < length es then r = q + word_of_nat (32 * entry_index acc es) \<and> r \<noteq> 0 else r = 0))"
proof -
  note d = dir_bufD[OF b]
  let ?L = "insert (q, word_of_nat (32 * length es)) H" and ?i = "entry_index acc es"
  have ok: "0 < length es" "length es < 2 ^ 31" "32 * length es + 64 \<le> 4096 * nframes s"
    using d(3,4) by (auto simp: dir_ok_def)
  have le: "32 * length es \<le> unat (word_of_nat (32 * length es) :: u64)" by (simp only: d(8))
  have nz: "q + word_of_nat (32 * ?i) \<noteq> 0" if "?i < length es"
  proof (rule buffer_no_null[OF d(5) insertI1])
    show "q + word_of_nat (32 * ?i) \<in> region q (unat (word_of_nat (32 * length es) :: u64))"
      unfolding d(8) using region_offset[of 0 32 "32 * ?i" "32 * length es" q] that ok by simp
  qed
  from path_element_runs[OF d(5) insertI1 le d(6) d(2) ok d(7) acc, of rest] show ?thesis
  proof (rule runs_mono, clarify, goal_cases)
    case (1 r s')
    then show ?case using dir_buf_keeps[OF b] nz by simp
  qed
qed

lemma sub_dir_runs:
  assumes vol: "volume dev idle V img" and d: "idle d" and wf: "volume_wf info V" and b: "dir_buf frames H es q n s"
    and tab: "table_size info + 64 \<le> 4096 * frames" and i: "i < length es"
    and chain: "chain_ok info V frames img (unat (first_cluster_id (directory_entry_of (es ! i)))) cs"
    and sz: "unat (entry_size info (es ! i) cs) \<le> length cs * cluster_size info"
    and ok: "dir_ok frames (sub_entries img info (es ! i) cs)"
  shows "runs (get_filtered_directory_entries dev (q + word_of_nat (32 * i)) info (s, d)) (\<lambda>(q', n', s', d').
    dir_buf frames (insert (q, word_of_nat (32 * length es)) H) (sub_entries img info (es ! i) cs) q' n' s' \<and>
    keeps (insert (q, word_of_nat (32 * length es)) H) s s' \<and> idle d')"
proof -
  note db = dir_bufD[OF b]
  let ?H = "insert (q, word_of_nat (32 * length es)) H" and ?len = "length cs * cluster_size info"
  have room: "32 * i + 32 \<le> unat (word_of_nat (32 * length es) :: u64)" unfolding db(8) using i by simp
  have "mem_bytes (kmem s) (q + word_of_nat (32 * i)) 32 = es ! i" using db(6) i by (metis nth_entries_at)
  then have e: "dir_entry_at (kmem s) (q + word_of_nat (32 * i)) = directory_entry_of (es ! i)" by (simp add: dir_entry_at_def)
  have tab': "table_size info + 64 \<le> 4096 * nframes s" using tab db(4) by simp
  have ch: "chain_ok info V (nframes s) img (unat (first_cluster_id (dir_entry_at (kmem s) (q + word_of_nat (32 * i))))) cs"
    unfolding e db(4) by (rule chain)
  have len: "unat (word_of_nat ?len :: u64) = ?len" using chain by (simp add: chain_ok_def unsigned_of_nat take_bit_nat_eq_self del: of_nat_mult)
  note gf = get_file_content_runs[OF vol d wf db(5) insertI1 room tab' ch, unfolded e, folded entry_size_def]
  show ?thesis unfolding get_filtered_directory_entries_def Let_def
  proof (rule runs_bind[OF gf], clarify, goal_cases)
    case p: (1 p sz' s1 d1)
    let ?n = "entry_size info (es ! i) cs div 32"
    have n: "32 * unat ?n \<le> ?len" using sz div_times_less_eq_dividend[of "unat (entry_size info (es ! i) cs)" 32] by (simp add: unat_div_distrib)
    have "entries_at (kmem s1) p (unat ?n) = chunks (unat ?n) (chain_bytes img info cs)"
      by (rule entries_chunks[OF p(5) n])
    then have es': "sub_entries img info (es ! i) cs = valid_entries (entries_at (kmem s1) p (unat ?n))"
      unfolding sub_entries_def by (simp only:)
    have fr: "nframes s1 = frames" using p(3) db(4) by (simp add: keeps_def)
    have n': "32 * unat ?n \<le> unat (word_of_nat ?len :: u64)" unfolding len by (rule n)
    note f = filter_dir_buf[OF p(2,1) n' es' ok fr]
    show ?case
    proof (rule runs_bind[OF f], clarify, goal_cases)
      case (1 q' c s2)
      have "keeps ?H s s2" by (rule keeps_trans[OF p(3) 1(2)]) auto
      then show ?case using 1(1) p(4) by simp
    qed
  qed
qed

section \<open>The walk\<close>

lemma fresh_delete: "p \<notin> fst ` H \<Longrightarrow> insert (p, k) H - {(p, k)} = H"
  by force

lemma free_dir_runs:
  assumes "dir_buf frames H es q n s"
  shows "runs (kfree q s) (\<lambda>s'. heap_inv s' H \<and> keeps H s s')"
  using kfree_runs[OF dir_bufD(5)[OF assms] insertI1] unfolding fresh_delete[OF dir_bufD(1)[OF assms]] .

lemma free_parent_runs:
  assumes b: "dir_buf frames (insert (q, k) H) es q' n' s" and q: "q \<notin> fst ` H"
  shows "runs (kfree q s) (\<lambda>s'. dir_buf frames H es q' n' s' \<and> keeps H s s')"
proof -
  note d = dir_bufD[OF b]
  let ?k = "word_of_nat (32 * length es) :: u64"
  have "q' \<noteq> q" "q' \<notin> fst ` H" using d(1) by auto
  then have del: "insert (q', ?k) (insert (q, k) H) - {(q, k)} = insert (q', ?k) H"
    using fresh_delete[of q "insert (q', ?k) H" k] q by (simp add: insert_commute del: of_nat_mult)
  have kf: "runs (kfree q s) (\<lambda>s'. heap_inv s' (insert (q', ?k) H) \<and> keeps (insert (q', ?k) H) s s')"
    using kfree_runs[OF d(5), of q k] unfolding del by simp
  show ?thesis
  proof (rule runs_mono[OF kf], clarify, goal_cases)
    case (1 s')
    have "entries_at (kmem s') q' (length es) = entries_at (kmem s) q' (length es)"
      by (rule keeps_entries[OF 1(2) insertI1]) (simp only: d(8))
    then have "dir_buf frames H es q' n' s'" using b 1 \<open>q' \<notin> fst ` H\<close> by (simp add: dir_buf_def keeps_def)
    moreover have "keeps H s s'" by (rule keeps_mono[OF 1(2)]) auto
    ultimately show ?case by simp
  qed
qed

lemma give_up_runs:
  assumes b: "dir_buf frames (insert (fv, 160) L) es q n s" and fv: "fv \<notin> fst ` L"
  shows "runs (kbind (kfree q s) (\<lambda>s. kbind (kfree fv s) (\<lambda>s. Inr (None, s, d)))) (\<lambda>(res, s', d').
    res = None \<and> d' = d \<and> heap_inv s' L \<and> keeps L s s')"
proof (rule runs_bind[OF free_dir_runs[OF b]], clarify, goal_cases)
  case s1: (1 s1)
  have kf: "runs (kfree fv s1) (\<lambda>s'. heap_inv s' L \<and> keeps L s1 s')"
    using kfree_runs[OF s1(1) insertI1] unfolding fresh_delete[OF fv] .
  show ?case
  proof (rule runs_bind[OF kf], clarify, goal_cases)
    case (1 s2)
    have "keeps L s s2" by (rule keeps_trans[OF s1(2) 1(2)]) auto
    then show ?case using 1(1) by simp
  qed
qed

definition walk_post ::
  "('d \<Rightarrow> bool) \<Rightarrow> nat \<Rightarrow> (u64 \<times> u64) set \<Rightarrow> u64 \<Rightarrow> 'a heap_state_scheme \<Rightarrow> (u8 list list \<times> u8 list) option \<Rightarrow>
   (u8 list \<times> u64 \<times> u64 \<times> u32) option \<times> 'a heap_state_scheme \<times> 'd \<Rightarrow> bool" where
  "walk_post idle frames L fv s r x \<longleftrightarrow> (case x of (res, s', d') \<Rightarrow> idle d' \<and> keeps L s s' \<and>
     (case r of None \<Rightarrow> res = None \<and> heap_inv s' L
      | Some (es, acc) \<Rightarrow> \<exists>rest q n. res = Some (acc @ rest, word_of_nat (length acc), q, n) \<and> 0 \<notin> set acc \<and> length acc < 2 ^ 64 \<and>
          dir_buf frames (insert (fv, 160) L) es q n s'))"

lemma walk_post_trans:
  assumes "keeps L s s1" "walk_post idle frames L fv s1 r x"
  shows "walk_post idle frames L fv s r x"
  using assms(2) keeps_trans[OF assms(1), of L] unfolding walk_post_def by (auto split: option.splits prod.splits)

lemma walk_runs:
  assumes vol: "volume (g_blk_dev g) idle V img" and wf: "volume_wf (g_fat12_info g) V"
    and tab: "table_size (g_fat12_info g) + 64 \<le> 4096 * frames" and fv: "fv \<notin> fst ` L"
  shows "fat_path img (g_fat12_info g) V frames es acc p r \<Longrightarrow> dir_buf frames (insert (fv, 160) L) es q n s \<Longrightarrow> idle d \<Longrightarrow>
    0 \<notin> set acc \<Longrightarrow> length acc + length p < 2 ^ 64 \<Longrightarrow>
    runs (fat12_walk g fv p (acc @ p) (word_of_nat (length acc)) q n (s, d)) (walk_post idle frames L fv s r)"
proof (induction es acc p r arbitrary: q n s d rule: fat_path.induct)
  case (last es acc rest)
  then show ?case by (auto simp: walk_post_def)
next
  case (char c es acc p r)
  have "word_of_nat (length acc) + 1 = (word_of_nat (length (acc @ [c])) :: u64)" by simp
  then show ?case using char.IH[OF char.prems(1,2)] char.hyps(1,2) char.prems(3,4) by (simp add: add.commute)
next
  case (missing es acc p)
  have l: "length acc < 2 ^ 64" using missing.prems(4) by simp
  note el = element_runs[OF missing.prems(1,3) l, of "0x2F # p"]
  have "runs (kbind (get_path_element_dir_entry q (acc @ 0x2F # p) (word_of_nat (length acc)) n s) (\<lambda>(dir_entry, s).
      if dir_entry = 0 then kbind (kfree q s) (\<lambda>s. kbind (kfree fv s) (\<lambda>s. Inr (None, s, d)))
      else kbind (get_filtered_directory_entries (g_blk_dev g) dir_entry (g_fat12_info g) (s, d)) (\<lambda>(new_entries, n, s, d).
           kbind (kfree q s) (\<lambda>s. fat12_walk g fv p p 0 new_entries n (s, d))))) (walk_post idle frames L fv s None)"
  proof (rule runs_bind[OF el], clarify, goal_cases)
    case (1 e s1)
    have e: "e = 0" using 1(3) missing.hyps(2) by simp
    have k1: "keeps L s s1" by (rule keeps_mono[OF 1(2)]) auto
    have "runs (kbind (kfree q s1) (\<lambda>s. kbind (kfree fv s) (\<lambda>s. Inr (None, s, d)))) (walk_post idle frames L fv s None)"
      by (rule runs_mono[OF give_up_runs[OF 1(1) fv]])
        (use missing.prems(2) keeps_trans[OF k1, of L] in \<open>auto simp: walk_post_def\<close>)
    then show ?case unfolding e by simp
  qed
  then show ?case by simp
next
  case (enter es acc b cs p r)
  have l: "length acc < 2 ^ 64" "length ([] :: u8 list) + length p < 2 ^ 64" using enter.prems(4) by simp_all
  note el = element_runs[OF enter.prems(1,3) l(1), of "0x2F # p"]
  let ?i = "entry_index acc es" and ?sub = "sub_entries img (g_fat12_info g) b cs"
  have ch: "chain_ok (g_fat12_info g) V frames img (unat (first_cluster_id (directory_entry_of (es ! ?i)))) cs"
    "unat (entry_size (g_fat12_info g) (es ! ?i) cs) \<le> length cs * cluster_size (g_fat12_info g)"
    "dir_ok frames (sub_entries img (g_fat12_info g) (es ! ?i) cs)"
    using enter.hyps(3,4,5) fat_path_dir_ok[OF enter.hyps(6)] by simp_all
  have "runs (kbind (get_path_element_dir_entry q (acc @ 0x2F # p) (word_of_nat (length acc)) n s) (\<lambda>(dir_entry, s).
      if dir_entry = 0 then kbind (kfree q s) (\<lambda>s. kbind (kfree fv s) (\<lambda>s. Inr (None, s, d)))
      else kbind (get_filtered_directory_entries (g_blk_dev g) dir_entry (g_fat12_info g) (s, d)) (\<lambda>(new_entries, n, s, d).
           kbind (kfree q s) (\<lambda>s. fat12_walk g fv p p 0 new_entries n (s, d))))) (walk_post idle frames L fv s r)"
  proof (rule runs_bind[OF el], clarify, goal_cases)
    case e: (1 e s1)
    have e': "e = q + word_of_nat (32 * ?i)" "e \<noteq> 0" using e(3) unfolding if_P[OF enter.hyps(2)] by blast+
    note sub = sub_dir_runs[OF vol enter.prems(2) wf e(1) tab enter.hyps(2) ch, folded enter.hyps(3) e'(1)]
    have "runs (kbind (get_filtered_directory_entries (g_blk_dev g) e (g_fat12_info g) (s1, d)) (\<lambda>(new_entries, n, s, d).
           kbind (kfree q s) (\<lambda>s. fat12_walk g fv p p 0 new_entries n (s, d)))) (walk_post idle frames L fv s r)"
    proof (rule runs_bind[OF sub], clarify, goal_cases)
      case n: (1 q' n' s2 d2)
      note fr = free_parent_runs[OF n(1) dir_bufD(1)[OF enter.prems(1)]]
      show ?case
      proof (rule runs_bind[OF fr], clarify, goal_cases)
        case (1 s3)
        have "keeps L s s1" by (rule keeps_mono[OF e(2)]) auto
        from keeps_trans[OF this n(2)] have "keeps L s s2" by (rule meta_mp) auto
        from keeps_trans[OF this 1(2)] have k: "keeps L s s3" by (rule meta_mp) auto
        show ?case using enter.IH[OF 1(1) n(3) _ l(2)] by (auto elim!: runs_mono intro: walk_post_trans[OF k])
      qed
    qed
    then show ?case using e'(2) by simp
  qed
  then show ?case by simp
qed

section \<open>Opening\<close>

definition open_post ::
  "('d \<Rightarrow> bool) \<Rightarrow> (nat \<Rightarrow> u8) \<Rightarrow> fat12_info \<Rightarrow> (u64 \<times> u64) set \<Rightarrow> 'a heap_state_scheme \<Rightarrow> (u8 list \<times> nat list) option \<Rightarrow>
   (u64 \<times> u64 \<times> u64) option \<times> 'a heap_state_scheme \<times> 'd \<Rightarrow> bool" where
  "open_post idle img info L s r x \<longleftrightarrow> (case x of (res, s', d') \<Rightarrow> idle d' \<and> keeps L s s' \<and>
     (case r of None \<Rightarrow> res = None \<and> heap_inv s' L
      | Some (b, cs) \<Rightarrow> \<exists>f c. res = Some (f, ucast (entry_size info b cs), c) \<and>
          heap_inv s' (insert (c, word_of_nat (length cs * cluster_size info)) (insert (f, 160) L)) \<and>
          mem_bytes (kmem s') c (length cs * cluster_size info) = chain_bytes img info cs))"

lemma open_entry_runs:
  assumes vol: "volume dev idle V img" and d: "idle d" and wf: "volume_wf info V"
    and b: "dir_buf frames (insert (fv, 160) L) es q n s" and tab: "table_size info + 64 \<le> 4096 * frames" and i: "i < length es"
    and chain: "chain_ok info V frames img (unat (first_cluster_id (directory_entry_of (es ! i)))) cs"
  shows "runs (kbind (get_file_content dev (q + word_of_nat (32 * i)) info (s, d)) (\<lambda>(content, sz, s, d).
      kbind (kfree q s) (\<lambda>s. Inr (Some (fv, ucast sz, content), s, d)))) (open_post idle img info L s (Some (es ! i, cs)))"
proof -
  note db = dir_bufD[OF b]
  let ?k = "word_of_nat (32 * length es) :: u64"
  let ?H = "insert (fv, 160) L" and ?n = "word_of_nat (length cs * cluster_size info) :: u64"
  have room: "32 * i + 32 \<le> unat ?k" unfolding db(8) using i by simp
  have "mem_bytes (kmem s) (q + word_of_nat (32 * i)) 32 = es ! i" using db(6) i by (metis nth_entries_at)
  then have e: "dir_entry_at (kmem s) (q + word_of_nat (32 * i)) = directory_entry_of (es ! i)" by (simp add: dir_entry_at_def)
  have tab': "table_size info + 64 \<le> 4096 * nframes s" using tab db(4) by simp
  have ch: "chain_ok info V (nframes s) img (unat (first_cluster_id (dir_entry_at (kmem s) (q + word_of_nat (32 * i))))) cs"
    unfolding e db(4) by (rule chain)
  have len: "unat ?n = length cs * cluster_size info"
    using chain by (simp add: chain_ok_def unsigned_of_nat take_bit_nat_eq_self del: of_nat_mult)
  note gf = get_file_content_runs[OF vol d wf db(5) insertI1 room tab' ch, unfolded e, folded entry_size_def]
  show ?thesis
  proof (rule runs_bind[OF gf], clarify, goal_cases)
    case c: (1 c sz s1 d1)
    have "c \<noteq> q" "c \<notin> fst ` ?H" using c(1) by auto
    then have del: "insert (c, ?n) (insert (q, ?k) ?H) - {(q, ?k)} = insert (c, ?n) ?H"
      using fresh_delete[of q "insert (c, ?n) ?H" ?k] db(1) by (simp add: insert_commute del: of_nat_mult)
    have kf: "runs (kfree q s1) (\<lambda>s'. heap_inv s' (insert (c, ?n) ?H) \<and> keeps (insert (c, ?n) ?H) s1 s')"
      using kfree_runs[OF c(2), of q ?k] unfolding del by simp
    show ?case
    proof (rule runs_bind[OF kf], clarify, goal_cases)
      case (1 s2)
      have "mem_bytes (kmem s2) c (length cs * cluster_size info) = chain_bytes img info cs"
        using keeps_buffer[OF 1(2) insertI1] c(5) unfolding len by simp
      moreover have "keeps L s s2" by (rule keeps_trans[OF c(3) 1(2)]) auto
      ultimately show ?case using 1(1) c(4) by (auto simp: open_post_def)
    qed
  qed
qed

lemma fat12_open_runs:
  assumes vol: "volume (g_blk_dev g) idle V img" and d: "idle d" and wf: "volume_wf (g_fat12_info g) V" and inv: "heap_inv s L"
    and tab: "table_size (g_fat12_info g) + 64 \<le> 4096 * nframes s" and root: "root_ok (g_fat12_info g) V (nframes s)"
    and finds: "fat_finds img (g_fat12_info g) V (nframes s) p r" and p: "length p < 2 ^ 64"
  shows "runs (fat12_open g (0x2F # p) (s, d)) (open_post idle img (g_fat12_info g) L s r)"
proof -
  let ?info = "g_fat12_info g" and ?frames = "nframes s"
  obtain r' where path: "fat_path img ?info V ?frames (root_entries img ?info) [] p r'"
    and r: "case r' of None \<Rightarrow> r = None | Some (es, acc) \<Rightarrow> if entry_index acc es = length es then r = None
       else entry_index acc es < length es \<and> (\<exists>cs. r = Some (es ! entry_index acc es, cs) \<and>
         chain_ok ?info V ?frames img (unat (first_cluster_id (directory_entry_of (es ! entry_index acc es)))) cs)"
    using finds by (cases rule: fat_finds.cases) fastforce+
  have "0 < ?frames" using tab by (cases ?frames) auto
  then have "heap_fits s 160" by (simp add: heap_fits_def)
  then have km: "runs (kmalloc 160 s) (\<lambda>(p, s'). p \<notin> fst ` L \<and> heap_inv s' (insert (p, 160) L) \<and> keeps L s s')"
    by (intro kmalloc_runs[OF inv]) simp_all
  show ?thesis unfolding fat12_open_def prod.case
  proof (rule runs_bind[OF km], clarify, goal_cases)
    case f: (1 fv s1)
    have fr: "nframes s1 = ?frames" using f(3) by (simp add: keeps_def)
    note rt = root_dir_runs[OF vol d wf f(2), unfolded fr, OF root fat_path_dir_ok[OF path]]
    show ?case
    proof (rule runs_bind[OF rt], clarify, goal_cases)
      case q: (1 q n s2 d2)
      have c0: "arr_get (0x2F # p) 0 = Inr 0x2F" by (simp add: arr_get_def)
      have l: "length ([] :: u8 list) + length p < 2 ^ 64" using p by simp
      have wk: "runs (fat12_walk g fv p p 0 q n (s2, d2)) (walk_post idle ?frames L fv s2 r')"
        using walk_runs[OF vol wf tab f(1) path q(1,3) _ l] by simp
      have "keeps L s s2" by (rule keeps_trans[OF f(3) q(2)]) auto
      from runs_mono[OF wk walk_post_trans[OF this]]
      have wk': "runs (fat12_walk g fv p p 0 q n (s2, d2)) (walk_post idle ?frames L fv s r')" .
      have e0: "(if (0x2F :: u8) = 0x2F then drop 1 (0x2F # p) else 0x2F # p) = p" by simp
      show ?case unfolding c0 kbind_simps Let_def e0
      proof (rule runs_bind[OF wk'], clarify, goal_cases)
        case w: (1 res s3 d3)
        show ?case
        proof (cases r')
          case None
          then show ?thesis using w r by (auto simp: walk_post_def open_post_def)
        next
          case (Some ea)
          obtain es acc where ea: "ea = (es, acc)" by (cases ea)
          obtain rest q' n' where x: "res = Some (acc @ rest, word_of_nat (length acc), q', n')" "0 \<notin> set acc" "length acc < 2 ^ 64"
            "dir_buf ?frames (insert (fv, 160) L) es q' n' s3" "idle d3" "keeps L s s3"
            using w Some ea by (auto simp: walk_post_def)
          note el = element_runs[OF x(4,2,3), of rest]
          show ?thesis unfolding x(1) option.case prod.case
          proof (rule runs_bind[OF el], clarify, goal_cases)
            case e: (1 e s4)
            have k4: "keeps L s s4" by (rule keeps_trans[OF x(6) e(2)]) auto
            show ?case
            proof (cases "entry_index acc es < length es")
              case False
              then have "e = 0" "r = None" using e(3) r Some ea unfolding entry_index_def
                by (auto split: if_splits simp: not_less intro: antisym[OF length_takeWhile_le])
              then show ?thesis
                using runs_mono[OF give_up_runs[OF e(1) f(1), of d3]] keeps_trans[OF k4, of L] x(5)
                by (auto simp: open_post_def intro!: runs_mono[OF give_up_runs[OF e(1) f(1), of d3]])
            next
              case True
              then have e': "e = q' + word_of_nat (32 * entry_index acc es)" "e \<noteq> 0" using e(3) unfolding if_P[OF True] by blast+
              obtain cs where cs: "r = Some (es ! entry_index acc es, cs)"
                "chain_ok ?info V ?frames img (unat (first_cluster_id (directory_entry_of (es ! entry_index acc es)))) cs"
                using r Some ea True by auto
              have "open_post idle img ?info L s r y" if "open_post idle img ?info L s4 r y" for y
                using that keeps_trans[OF k4, of L] unfolding open_post_def by (auto split: option.splits prod.splits)
              then show ?thesis
                using runs_mono[OF open_entry_runs[OF vol x(5) wf e(1) tab True cs(2), folded cs(1) e'(1)]] e'(2) by simp
            qed
          qed
        qed
      qed
    qed
  qed
qed

section \<open>Properties\<close>


text \<open>A volume of five sectors of 64 bytes with the file /bin/a.txt.\<close>

definition demo_bin :: "u8 list" where
  "demo_bin = [0x42, 0x49, 0x4E, 0x20, 0x20, 0x20, 0x20, 0x20, 0x20, 0x20, 0x20, 0x10,
    0, 0, 0, 0, 0, 0, 0, 0, 0, 0, 0, 0, 0, 0, 2, 0, 0, 0, 0, 0]"

definition demo_txt :: "u8 list" where
  "demo_txt = [0x41, 0x20, 0x20, 0x20, 0x20, 0x20, 0x20, 0x20, 0x54, 0x58, 0x54, 0,
    0, 0, 0, 0, 0, 0, 0, 0, 0, 0, 0, 0, 0, 0, 3, 0, 5, 0, 0, 0]"

definition demo_img :: "nat \<Rightarrow> u8" where
  "demo_img i = (if i = 67 \<or> i = 68 \<or> i = 69 then 0xFF else if 128 \<le> i \<and> i < 160 then demo_bin ! (i - 128)
     else if 192 \<le> i \<and> i < 224 then demo_txt ! (i - 192) else if 256 \<le> i then word_of_nat i else 0)"

definition demo_fat :: "unit fat12_state" where
  "demo_fat = \<lparr>g_blk_dev = \<lparr>bd_name = [], block_size = 64, blocks_count = 5, partition_offset = 0,
       read_block = (\<lambda>off lba d. Inr (64, dev_bytes demo_img (unat (lba + off) * 64) 64, d)),
       write_block = (\<lambda>_ _ _ _. Inl Fault)\<rparr>,
     g_fat12_header = fat12_header_of (replicate 62 0),
     g_fat12_info = \<lparr>bytes_per_sector = 64, sectors_per_cluster = 1, total_sectors = 5, fat_sector_size = 1,
       fat_section_sector_size = 1, root_dir_sectors_size = 1, data_sectors_size = 2, cluster_count = 2,
       data_section_sector_offset = 3, fat_section_sector_offset = 1, root_dir_sector_offset = 2\<rparr>\<rparr>"

lemma demo_volume:
  "volume (g_blk_dev demo_fat) (\<lambda>_. True) 320 demo_img" "volume_wf (g_fat12_info demo_fat) 320"
  "root_ok (g_fat12_info demo_fat) 320 8" "table_size (g_fat12_info demo_fat) = 64" "cluster_size (g_fat12_info demo_fat) = 64"
proof -
  have "block_reads (g_blk_dev demo_fat) (\<lambda>_. True) 5 demo_img"
    by (simp add: block_reads_def demo_fat_def)
  then show "volume (g_blk_dev demo_fat) (\<lambda>_. True) 320 demo_img"
    unfolding volume_def by (intro exI[of _ 5]) (simp add: demo_fat_def)
  show "volume_wf (g_fat12_info demo_fat) 320" "root_ok (g_fat12_info demo_fat) 320 8"
    "table_size (g_fat12_info demo_fat) = 64" "cluster_size (g_fat12_info demo_fat) = 64"
    by (simp_all add: demo_fat_def volume_wf_def cluster_size_def table_size_def table_offset_def bps_def
        root_ok_def root_size_def root_offset_def)
qed

lemma chunks_two: "chunks 2 (dev_bytes img off 64) = [dev_bytes img off 32, dev_bytes img (off + 32) 32]"
  by (simp add: chunks_def upt_rec take_dev_bytes drop_dev_bytes)

lemma demo_sectors:
  "dev_bytes demo_img 128 32 = demo_bin" "dev_bytes demo_img 192 32 = demo_txt"
  "dev_bytes demo_img 160 32 = replicate 32 0" "dev_bytes demo_img 224 32 = replicate 32 0"
     apply (simp_all add: dev_bytes_def demo_img_def demo_bin_def demo_txt_def upt_rec)[2]
   apply (rule nth_equalityI; simp add: demo_img_def)+
  done

lemma demo_entries:
  "first_cluster_id (directory_entry_of demo_bin) = 2" "first_cluster_id (directory_entry_of demo_txt) = 3"
  "file_size_in_bytes (directory_entry_of demo_txt) = 5"
  "attributes (directory_entry_of demo_bin) = 0x10" "attributes (directory_entry_of demo_txt) = 0"
  "file_name (directory_entry_of demo_bin) ! 0 = 0x42" "file_name (directory_entry_of demo_txt) ! 0 = 0x41"
  "entry_name demo_bin = [0x62, 0x69, 0x6E]" "entry_name demo_txt = [0x61, 0x2E, 0x74, 0x78, 0x74]"
  by (simp_all add: directory_entry_of_def entry_name_def name_chars_def demo_bin_def demo_txt_def tolower_def)

lemma demo_valid:
  "valid_entries [demo_bin, replicate 32 0] = [demo_bin]" "valid_entries [demo_txt, replicate 32 0] = [demo_txt]"
  by (simp_all add: valid_entries_def fin_entry_def skip_entry_def is_final_directory_entry_def is_deleted_entry_def
      is_volume_label_entry_def demo_entries) (simp_all add: directory_entry_of_def)

lemma demo_dirs:
  defines "info \<equiv> g_fat12_info demo_fat"
  shows "root_entries demo_img info = [demo_bin]" "entry_size info demo_bin [2] = 64" "entry_size info demo_txt [3] = 5"
    "sub_entries demo_img info demo_bin [2] = [demo_txt]"
    "chain_ok info 320 8 demo_img 2 [2]" "chain_ok info 320 8 demo_img 3 [3]" 
proof -
  show "root_entries demo_img info = [demo_bin]"
    using demo_valid(1) by (simp add: root_entries_def root_size_def root_offset_def bps_def info_def demo_fat_def chunks_two demo_sectors)
  show sz: "entry_size info demo_bin [2] = 64" "entry_size info demo_txt [3] = 5"
    by (simp_all add: entry_size_def content_size_def is_directory_entry_directory_def demo_entries info_def demo_fat_def)
  show "sub_entries demo_img info demo_bin [2] = [demo_txt]"
    using demo_valid(2) unfolding sub_entries_def sz
    by (simp add: chain_bytes_def cluster_bytes_def cluster_offset_def cluster_size_def bps_def info_def demo_fat_def chunks_two demo_sectors)
  have "fat_next demo_img info 2 = 0xFFF" "fat_next demo_img info 3 = 0xFFF"
    by (simp_all add: fat_next_def demo_img_def demo_fat_def table_offset_def bps_def info_def)
  then show "chain_ok info 320 8 demo_img 2 [2]" "chain_ok info 320 8 demo_img 3 [3]"
    by (simp_all add: chain_ok_def cluster_ok_def cluster_size_def cluster_offset_def table_size_def bps_def info_def demo_fat_def)
qed

abbreviation (input) "demo_path \<equiv> [0x62, 0x69, 0x6E, 0x2F, 0x61, 0x2E, 0x74, 0x78, 0x74, 0 :: u8]"

lemma demo_finds: "fat_finds demo_img (g_fat12_info demo_fat) 320 8 demo_path (Some (demo_txt, [3]))"
proof -
  have "fat_path demo_img (g_fat12_info demo_fat) 320 8 [demo_txt] [] [0x61, 0x2E, 0x74, 0x78, 0x74, 0] (Some ([demo_txt], entry_name demo_txt))"
    unfolding demo_entries by (rule fat_path.char, simp, simp)+ (simp add: fat_path.last dir_ok_def)
  then have "fat_path demo_img (g_fat12_info demo_fat) 320 8 [demo_bin] (entry_name demo_bin) [0x2F, 0x61, 0x2E, 0x74, 0x78, 0x74, 0] (Some ([demo_txt], entry_name demo_txt))"
    using demo_dirs demo_volume
    by (intro fat_path.enter[where b = demo_bin and cs = "[2]"]) (simp_all add: dir_ok_def entry_index_Cons demo_entries)
  then have "fat_path demo_img (g_fat12_info demo_fat) 320 8 [demo_bin] [] demo_path (Some ([demo_txt], entry_name demo_txt))"
    unfolding demo_entries by - ((rule fat_path.char, (simp; fail), (simp; fail))+, simp)
  then show ?thesis using demo_dirs
    by (intro fat_finds.found[of _ _ _ _ _ "[demo_txt]" "entry_name demo_txt"]) (simp_all add: entry_index_Cons demo_entries)
qed

end
