(* ===== verification/Task_Queue.thy ===== *)
theory Task_Queue
  imports Kernel_Heap Interrupts
begin

text \<open>
  Process control blocks and the queues of tasks of kernel/process\_manager/scheduler.c. A queue
  is linked through the next pointers of the control blocks, so its operations act on the queue
  and on the store of control blocks. \<open>linked_queue\<close> is the contract of such a queue: the list of
  tasks it stands for, and what enqueue and dequeue do to it.
\<close>

section \<open>Control blocks\<close>

abbreviation (input) "MAX_PROCESS_FDS \<equiv> (32 :: nat)"
abbreviation (input) "SIZEOF_process_control_block \<equiv> (328 :: u64)"

datatype process_state = PS_READY_STATE | PS_WAITING_STATE | PS_ZOMBIE_STATE

record process_control_block =
  pcb_pid :: u64
  pcb_ppid :: u64
  pcb_exit_status :: u32
  pcb_kill_signal :: bool
  pcb_process_state :: process_state
  pcb_parent_wait_queue :: u64
  pcb_pagemap_hhdm_ptr :: u64
  pcb_process_heap_ptr :: u64
  pcb_interrupt_info :: u64
  pcb_fds :: "u64 list"
  pcb_next :: u64

type_synonym pcb_store = "u64 \<Rightarrow> process_control_block"

record task_queue =
  queues_head :: u64
  queues_rear :: u64

definition pcb_update :: "u64 \<Rightarrow> (process_control_block \<Rightarrow> process_control_block) \<Rightarrow> pcb_store \<Rightarrow> pcb_store" where
  "pcb_update p f h = h(p := f (h p))"

section \<open>Operations\<close>

definition task_enqueue :: "task_queue \<Rightarrow> u64 \<Rightarrow> pcb_store \<Rightarrow> (task_queue \<times> pcb_store) kres" where
  "task_enqueue q task h =
     nonnull task
     (let h = pcb_update task (pcb_next_update (\<lambda>_. 0)) h
      in if queues_rear q = 0 then Inr (q\<lparr>queues_head := task, queues_rear := task\<rparr>, h)
         else Inr (q\<lparr>queues_rear := task\<rparr>, pcb_update (queues_rear q) (pcb_next_update (\<lambda>_. task)) h))"

definition task_dequeue :: "task_queue \<Rightarrow> pcb_store \<Rightarrow> (u64 \<times> task_queue \<times> pcb_store) kres" where
  "task_dequeue q h =
     (let next_task = queues_head q;
          q = (if queues_head q = queues_rear q then q\<lparr>queues_rear := 0\<rparr> else q)
      in nonnull (queues_head q)
         (let q = q\<lparr>queues_head := pcb_next (h (queues_head q))\<rparr>
          in Inr (next_task, q, pcb_update next_task (pcb_next_update (\<lambda>_. 0)) h)))"

definition task_queue_empty :: "task_queue \<Rightarrow> bool" where
  "task_queue_empty q \<longleftrightarrow> queues_head q = 0"

section \<open>The list of a queue\<close>

text \<open>The next pointers lead from p through xs to the end.\<close>

fun chained :: "pcb_store \<Rightarrow> u64 \<Rightarrow> u64 list \<Rightarrow> bool" where
  "chained h p [] \<longleftrightarrow> p = 0"
| "chained h p (x # xs) \<longleftrightarrow> p = x \<and> x \<noteq> 0 \<and> chained h (pcb_next (h x)) xs"

definition tasks :: "pcb_store \<Rightarrow> task_queue \<Rightarrow> u64 list \<Rightarrow> bool" where
  "tasks h q xs \<longleftrightarrow> chained h (queues_head q) xs \<and> distinct xs \<and> queues_rear q = (if xs = [] then 0 else last xs)"

text \<open>Two stores differ at most in the next pointers of the tasks in X.\<close>

definition relinked :: "u64 set \<Rightarrow> pcb_store \<Rightarrow> pcb_store \<Rightarrow> bool" where
  "relinked X h h' \<longleftrightarrow> (\<forall>p. h' p = (h p)\<lparr>pcb_next := pcb_next (h' p)\<rparr> \<and> (p \<notin> X \<longrightarrow> h' p = h p))"

lemma relinked_refl [simp]: "relinked X h h"
  by (simp add: relinked_def)

lemma relinked_trans: "relinked X h h' \<Longrightarrow> relinked X h' h'' \<Longrightarrow> relinked X h h''"
  unfolding relinked_def by (metis process_control_block.surjective process_control_block.update_convs(11))

lemma relinked_mono: "relinked X h h' \<Longrightarrow> X \<subseteq> Y \<Longrightarrow> relinked Y h h'"
  by (auto simp: relinked_def)

lemma relinked_next [simp]: "p \<in> X \<Longrightarrow> relinked X h (pcb_update p (pcb_next_update f) h)"
  by (simp add: relinked_def pcb_update_def)

lemma relinked_fields:
  assumes "relinked X h h'"
  shows "pcb_pid (h' p) = pcb_pid (h p)" "pcb_ppid (h' p) = pcb_ppid (h p)" "pcb_exit_status (h' p) = pcb_exit_status (h p)"
    "pcb_kill_signal (h' p) = pcb_kill_signal (h p)" "pcb_process_state (h' p) = pcb_process_state (h p)"
    "pcb_parent_wait_queue (h' p) = pcb_parent_wait_queue (h p)" "pcb_pagemap_hhdm_ptr (h' p) = pcb_pagemap_hhdm_ptr (h p)"
    "pcb_process_heap_ptr (h' p) = pcb_process_heap_ptr (h p)" "pcb_interrupt_info (h' p) = pcb_interrupt_info (h p)"
    "pcb_fds (h' p) = pcb_fds (h p)"
proof -
  have "h' p = (h p)\<lparr>pcb_next := pcb_next (h' p)\<rparr>" using assms by (simp add: relinked_def)
  then obtain n where n: "h' p = (h p)\<lparr>pcb_next := n\<rparr>" by blast
  show "pcb_pid (h' p) = pcb_pid (h p)" "pcb_ppid (h' p) = pcb_ppid (h p)" "pcb_exit_status (h' p) = pcb_exit_status (h p)"
    "pcb_kill_signal (h' p) = pcb_kill_signal (h p)" "pcb_process_state (h' p) = pcb_process_state (h p)"
    "pcb_parent_wait_queue (h' p) = pcb_parent_wait_queue (h p)" "pcb_pagemap_hhdm_ptr (h' p) = pcb_pagemap_hhdm_ptr (h p)"
    "pcb_process_heap_ptr (h' p) = pcb_process_heap_ptr (h p)" "pcb_interrupt_info (h' p) = pcb_interrupt_info (h p)"
    "pcb_fds (h' p) = pcb_fds (h p)" unfolding n by simp_all
qed

lemma chained_cong: "(\<And>x. x \<in> set xs \<Longrightarrow> pcb_next (h' x) = pcb_next (h x)) \<Longrightarrow> chained h' p xs = chained h p xs"
  by (induction xs arbitrary: p) auto

lemma chained_not_null: "chained h p xs \<Longrightarrow> 0 \<notin> set xs"
  by (induction xs arbitrary: p) auto

lemma tasks_cong: "(\<And>x. x \<in> set xs \<Longrightarrow> pcb_next (h' x) = pcb_next (h x)) \<Longrightarrow> tasks h' q xs = tasks h q xs"
  using chained_cong[of xs h' h] by (simp add: tasks_def)

lemma tasks_relinked: "relinked X h h' \<Longrightarrow> X \<inter> set xs = {} \<Longrightarrow> tasks h q xs \<Longrightarrow> tasks h' q xs"
  using tasks_cong[of xs h' h q] unfolding relinked_def by (metis disjoint_iff)

lemma tasks_empty_iff: "tasks h q xs \<Longrightarrow> task_queue_empty q \<longleftrightarrow> xs = []"
  by (cases xs) (auto simp: tasks_def task_queue_empty_def)

lemma chained_snoc:
  assumes "chained h p xs" "distinct xs" "t \<notin> set xs" "t \<noteq> 0" "xs \<noteq> []" "pcb_next (h t) = 0"
  shows "chained (pcb_update (last xs) (pcb_next_update (\<lambda>_. t)) h) p (xs @ [t])"
  using assms
proof (induction xs arbitrary: p)
  case (Cons x xs)
  show ?case
  proof (cases "xs = []")
    case True
    then show ?thesis using Cons by (auto simp: pcb_update_def)
  next
    case False
    then have "x \<noteq> last xs" using Cons.prems(2) last_in_set[OF False] by (auto simp del: last_in_set)
    then show ?thesis using Cons False by (auto simp: pcb_update_def)
  qed
qed simp

lemma task_enqueue_tasks:
  assumes "tasks h q xs" "t \<noteq> 0" "t \<notin> set xs"
  shows "\<exists>q' h'. task_enqueue q t h = Inr (q', h') \<and> tasks h' q' (xs @ [t]) \<and> relinked (insert t (set xs)) h h'"
proof (cases "xs = []")
  case True
  then show ?thesis using assms by (auto simp: task_enqueue_def tasks_def nonnull_def pcb_update_def relinked_def)
next
  case False
  let ?h = "pcb_update t (pcb_next_update (\<lambda>_. 0)) h"
  have l: "queues_rear q = last xs" "last xs \<noteq> 0"
    using assms(1) False chained_not_null[of h "queues_head q" xs] last_in_set[OF False] by (auto simp: tasks_def simp del: last_in_set)
  have "tasks ?h q xs"
    by (rule iffD2[OF tasks_cong assms(1)]) (use assms(3) in \<open>auto simp: pcb_update_def\<close>)
  then have "chained ?h (queues_head q) xs" "distinct xs" by (simp_all add: tasks_def)
  then have "chained (pcb_update (last xs) (pcb_next_update (\<lambda>_. t)) ?h) (queues_head q) (xs @ [t])"
    by (rule chained_snoc) (use assms False in \<open>simp_all add: pcb_update_def\<close>)
  moreover have "relinked (insert t (set xs)) h (pcb_update (last xs) (pcb_next_update (\<lambda>_. t)) ?h)"
    by (rule relinked_trans[of _ _ ?h]) (use False in simp_all)
  ultimately show ?thesis using assms l False by (simp add: task_enqueue_def tasks_def nonnull_def)
qed

lemma task_dequeue_tasks:
  assumes "tasks h q (x # xs)"
  shows "\<exists>q' h'. task_dequeue q h = Inr (x, q', h') \<and> tasks h' q' xs \<and> relinked {x} h h'"
proof -
  have x: "queues_head q = x" "x \<noteq> 0" "chained h (pcb_next (h x)) xs" "x \<notin> set xs" "distinct xs"
    "queues_rear q = (if xs = [] then x else last xs)" using assms by (auto simp: tasks_def)
  have "chained (pcb_update x (pcb_next_update (\<lambda>_. 0)) h) (pcb_next (h x)) xs"
    by (rule iffD2[OF chained_cong x(3)]) (use x(4) in \<open>auto simp: pcb_update_def\<close>)
  moreover have "x \<noteq> last xs" if "xs \<noteq> []" using last_in_set[OF that] x(4) by metis
  ultimately show ?thesis using x by (auto simp: task_dequeue_def nonnull_def tasks_def)
qed

section \<open>The contract of a linked queue\<close>

text \<open>
  Queues over one store: each stands for a list, an operation on one queue leaves the others as
  they are when they share no element.
\<close>

locale linked_queue =
  fixes rep :: "'h \<Rightarrow> 'q \<Rightarrow> u64 list \<Rightarrow> bool"
    and enq :: "'q \<Rightarrow> u64 \<Rightarrow> 'h \<Rightarrow> ('q \<times> 'h) kres"
    and deq :: "'q \<Rightarrow> 'h \<Rightarrow> (u64 \<times> 'q \<times> 'h) kres"
  assumes rep_distinct: "rep h q xs \<Longrightarrow> distinct xs \<and> 0 \<notin> set xs"
    and enq_appends: "rep h q xs \<Longrightarrow> t \<noteq> 0 \<Longrightarrow> t \<notin> set xs \<Longrightarrow> \<exists>q' h'. enq q t h = Inr (q', h') \<and> rep h' q' (xs @ [t])"
    and deq_takes: "rep h q (x # xs) \<Longrightarrow> \<exists>q' h'. deq q h = Inr (x, q', h') \<and> rep h' q' xs"
    and enq_frame: "rep h q xs \<Longrightarrow> rep h r ys \<Longrightarrow> t \<noteq> 0 \<Longrightarrow> t \<notin> set xs \<Longrightarrow> set ys \<inter> insert t (set xs) = {} \<Longrightarrow>
      enq q t h = Inr (q', h') \<Longrightarrow> rep h' r ys"
    and deq_frame: "rep h q (x # xs) \<Longrightarrow> rep h r ys \<Longrightarrow> x \<notin> set ys \<Longrightarrow> deq q h = Inr (y, q', h') \<Longrightarrow> rep h' r ys"
begin

text \<open>One turn of a round robin: the oldest element leaves and t joins at the end.\<close>

lemma turn:
  assumes "rep h q (x # xs)" "t \<noteq> 0" "t \<notin> set (x # xs)"
  shows "\<exists>q1 h1 q2 h2. enq q t h = Inr (q1, h1) \<and> deq q1 h1 = Inr (x, q2, h2) \<and> rep h2 q2 (xs @ [t])"
  using enq_appends[OF assms] deq_takes by fastforce

text \<open>Moving the oldest element of one queue to the end of another.\<close>

lemma move:
  assumes "rep h q (x # xs)" "rep h r ys" "set (x # xs) \<inter> set ys = {}"
  shows "\<exists>q1 h1 r1 h2. deq q h = Inr (x, q1, h1) \<and> enq r x h1 = Inr (r1, h2) \<and> rep h2 q1 xs \<and> rep h2 r1 (ys @ [x])"
proof -
  obtain q1 h1 where d: "deq q h = Inr (x, q1, h1)" "rep h1 q1 xs" using deq_takes[OF assms(1)] by blast
  have x: "x \<noteq> 0" "x \<notin> set ys" "x \<notin> set xs" using rep_distinct[OF assms(1)] assms(3) by auto
  have r: "rep h1 r ys" using deq_frame[OF assms(1,2) x(2) d(1)] .
  then obtain r1 h2 where e: "enq r x h1 = Inr (r1, h2)" "rep h2 r1 (ys @ [x])" using enq_appends x by blast
  have "rep h2 q1 xs" by (rule enq_frame[OF r d(2) x(1,2) _ e(1)]) (use x assms(3) in auto)
  then show ?thesis using d e by blast
qed

end

interpretation tq: linked_queue tasks task_enqueue task_dequeue
proof
  show "tasks h q xs \<Longrightarrow> distinct xs \<and> 0 \<notin> set xs" for h q xs
    using chained_not_null by (auto simp: tasks_def)
  show "tasks h q xs \<Longrightarrow> t \<noteq> 0 \<Longrightarrow> t \<notin> set xs \<Longrightarrow> \<exists>q' h'. task_enqueue q t h = Inr (q', h') \<and> tasks h' q' (xs @ [t])" for h q xs t
    using task_enqueue_tasks by blast
  show "tasks h q (x # xs) \<Longrightarrow> \<exists>q' h'. task_dequeue q h = Inr (x, q', h') \<and> tasks h' q' xs" for h q x xs
    using task_dequeue_tasks by blast
  show "tasks h' r ys" if "tasks h q xs" "tasks h r ys" "t \<noteq> 0" "t \<notin> set xs" "set ys \<inter> insert t (set xs) = {}"
    "task_enqueue q t h = Inr (q', h')" for h q xs r ys t q' h'
    using task_enqueue_tasks[OF that(1,3,4)] that(2,5,6) by (auto intro!: tasks_relinked[of "insert t (set xs)" h])
  show "tasks h' r ys" if "tasks h q (x # xs)" "tasks h r ys" "x \<notin> set ys" "task_dequeue q h = Inr (y, q', h')"
    for h q x xs r ys y q' h'
    using task_dequeue_tasks[OF that(1)] that(2-4) by (auto intro!: tasks_relinked[of "{x}" h])
qed

end
