(* ===== verification/Scheduler.thy ===== *)
theory Scheduler
  imports Task_Queue Apic
begin

text \<open>
  The scheduler, kernel/process\_manager/scheduler.c: the current task, the queue of runnable
  tasks, wait queues and the choice of the next task. Control blocks, saved register frames and
  wait queues are objects of the kernel heap and live in stores by their address; fresh objects
  hold what the store held before. What happens while the processor is halted, the handling of an
  interrupt, is an argument of the loop that waits for a runnable task. The switch on a timer tick
  also ends killed processes and is in the process manager's theory.
\<close>

record sched_state = heap_state +
  pcb_at :: pcb_store
  regs_at :: "u64 \<Rightarrow> interrupt_info"
  waitq_at :: "u64 \<Rightarrow> task_queue"
  g_runnable_tasks :: task_queue
  g_curr_task :: u64
  g_first_task_added :: bool
  g_cpu_is_idle :: bool

abbreviation (input) "SIZEOF_pm_wait_queue \<equiv> (16 :: u64)"

section \<open>Operations\<close>

definition init_scheduler :: "u64 \<Rightarrow> 'a apic_state_scheme \<Rightarrow> 'a apic_state_scheme" where
  "init_scheduler context_switch a = apic_setup_timer_handler context_switch a"

definition scheduler_add_task :: "u64 \<Rightarrow> 'a sched_state_scheme \<Rightarrow> 'a sched_state_scheme kres" where
  "scheduler_add_task pcb s =
     kbind (task_enqueue (g_runnable_tasks s) pcb (pcb_at s)) (\<lambda>(q, h).
     let s = s\<lparr>g_runnable_tasks := q, pcb_at := h\<rparr>
     in if g_first_task_added s
        then kbind (task_dequeue (g_runnable_tasks s) (pcb_at s)) (\<lambda>(task, q, h).
             Inr (s\<lparr>g_curr_task := task, g_runnable_tasks := q, pcb_at := h, g_first_task_added := False\<rparr>))
        else Inr s)"

definition pm_get_curr_pcb :: "'a sched_state_scheme \<Rightarrow> u64" where
  "pm_get_curr_pcb s = g_curr_task s"

definition pm_create_wait_queue :: "'a sched_state_scheme \<Rightarrow> (u64 \<times> 'a sched_state_scheme) kres" where
  "pm_create_wait_queue s = kmalloc SIZEOF_pm_wait_queue s"

definition pm_waitqueue_enqueue :: "u64 \<Rightarrow> 'a sched_state_scheme \<Rightarrow> 'a sched_state_scheme kres" where
  "pm_waitqueue_enqueue wait_queue s =
     nonnull (g_curr_task s) (nonnull wait_queue
     (let s = s\<lparr>pcb_at := pcb_update (g_curr_task s) (pcb_process_state_update (\<lambda>_. PS_WAITING_STATE)) (pcb_at s)\<rparr>
      in kbind (task_enqueue (waitq_at s wait_queue) (g_curr_task s) (pcb_at s)) (\<lambda>(q, h).
         Inr (s\<lparr>waitq_at := (waitq_at s)(wait_queue := q), pcb_at := h\<rparr>))))"

text \<open>One round of pm\_waitqueue\_dequeue\_all, and the loop; a corrupt queue may be circular.\<close>

definition wake_first :: "u64 \<Rightarrow> 'a sched_state_scheme \<Rightarrow> 'a sched_state_scheme kres" where
  "wake_first wait_queue s =
     kbind (task_dequeue (waitq_at s wait_queue) (pcb_at s)) (\<lambda>(task, q, h).
     let h = pcb_update task (pcb_process_state_update (\<lambda>_. PS_READY_STATE)) h;
         s = s\<lparr>waitq_at := (waitq_at s)(wait_queue := q), pcb_at := h\<rparr>
     in kbind (task_enqueue (g_runnable_tasks s) task (pcb_at s)) (\<lambda>(q, h).
        Inr (s\<lparr>g_runnable_tasks := q, pcb_at := h\<rparr>)))"

partial_function (option) wake_all :: "u64 \<Rightarrow> 'a sched_state_scheme \<Rightarrow> 'a sched_state_scheme kres option" where
  "wake_all wait_queue s =
     (if task_queue_empty (waitq_at s wait_queue) then Some (Inr s)
      else (case wake_first wait_queue s of Inl e \<Rightarrow> Some (Inl e) | Inr s \<Rightarrow> wake_all wait_queue s))"

declare wake_all.simps [code]

definition pm_waitqueue_dequeue_all :: "u64 \<Rightarrow> 'a sched_state_scheme \<Rightarrow> 'a sched_state_scheme kres" where
  "pm_waitqueue_dequeue_all wait_queue s =
     nonnull wait_queue (case wake_all wait_queue s of None \<Rightarrow> Inl Hang | Some r \<Rightarrow> r)"

text \<open>\<open>idle\<close> is what happens from sti and hlt to cli: an interrupt is handled.\<close>

partial_function (option) idle_loop ::
  "('a sched_state_scheme \<Rightarrow> 'a sched_state_scheme kres) \<Rightarrow> 'a sched_state_scheme \<Rightarrow> 'a sched_state_scheme kres option" where
  "idle_loop idle s =
     (if task_queue_empty (g_runnable_tasks s)
      then (case idle (s\<lparr>g_cpu_is_idle := True\<rparr>) of Inl e \<Rightarrow> Some (Inl e) | Inr s \<Rightarrow> idle_loop idle s)
      else Some (Inr s))"

declare idle_loop.simps [code]

definition pm_load_next_ready_process ::
  "('a sched_state_scheme \<Rightarrow> 'a sched_state_scheme kres) \<Rightarrow> 'a sched_state_scheme \<Rightarrow> (u64 \<times> 'a sched_state_scheme) kres" where
  "pm_load_next_ready_process idle s =
     kbind (case idle_loop idle s of None \<Rightarrow> Inl Hang | Some r \<Rightarrow> r) (\<lambda>s.
     let s = s\<lparr>g_cpu_is_idle := False\<rparr>
     in kbind (task_dequeue (g_runnable_tasks s) (pcb_at s)) (\<lambda>(task, q, h).
        let s = s\<lparr>g_curr_task := task, g_runnable_tasks := q, pcb_at := h\<rparr>;
            s = vmm_reload_cr3 (pcb_pagemap_hhdm_ptr (pcb_at s (g_curr_task s))) s
        in Inr (pcb_interrupt_info (pcb_at s (g_curr_task s)), s)))"

end
