(* ===== verification/User_Memory.thy ===== *)
theory User_Memory
  imports Scheduler Vmm_Walk
begin

text \<open>
  Memory as the kernel sees it while a process is current. Addresses of the upper half are the
  kernel's own, the direct map among them, and name bytes of the kernel's memory. Addresses of the
  lower half go through the page tables of the current process. An access to a page that is not
  mapped, or a store to a page that is not writable, is a page fault in the kernel.
\<close>

section \<open>Accesses\<close>

definition kernel_half :: "u64 \<Rightarrow> bool" where
  "kernel_half a \<longleftrightarrow> bit a 63"

definition load_addr :: "'a vmm_state_scheme \<Rightarrow> u64 \<Rightarrow> u64 kres" where
  "load_addr s a =
     (if kernel_half a then Inr a
      else case hw_translate s (vmm_get_curr_pagemap s) a of
             None \<Rightarrow> Inl Fault
           | Some (p, w, u) \<Rightarrow> Inr (p + vmm_hhdm_offset s))"

definition store_addr :: "'a vmm_state_scheme \<Rightarrow> u64 \<Rightarrow> u64 kres" where
  "store_addr s a =
     (if kernel_half a then Inr a
      else case hw_translate s (vmm_get_curr_pagemap s) a of
             None \<Rightarrow> Inl Fault
           | Some (p, w, u) \<Rightarrow> if w then Inr (p + vmm_hhdm_offset s) else Inl Fault)"

definition load_byte :: "u64 \<Rightarrow> 'a vmm_state_scheme \<Rightarrow> u8 kres" where
  "load_byte a s = kbind (load_addr s a) (\<lambda>k. Inr (kmem s k))"

definition store_byte :: "u64 \<Rightarrow> u8 \<Rightarrow> 'a vmm_state_scheme \<Rightarrow> 'a vmm_state_scheme kres" where
  "store_byte a b s = kbind (store_addr s a) (\<lambda>k. Inr (s\<lparr>kmem := (kmem s)(k := b)\<rparr>))"

text \<open>n bytes from an address on, stores of a sequence of bytes, and the loop of memcpy.\<close>

primrec load_bytes :: "nat \<Rightarrow> u64 \<Rightarrow> 'a vmm_state_scheme \<Rightarrow> u8 list kres" where
  "load_bytes 0 a s = Inr []"
| "load_bytes (Suc n) a s = kbind (load_byte a s) (\<lambda>b. kbind (load_bytes n (a + 1) s) (\<lambda>bs. Inr (b # bs)))"

fun store_bytes :: "u64 \<Rightarrow> u8 list \<Rightarrow> 'a vmm_state_scheme \<Rightarrow> 'a vmm_state_scheme kres" where
  "store_bytes a [] s = Inr s"
| "store_bytes a (b # bs) s = kbind (store_byte a b s) (store_bytes (a + 1) bs)"

primrec copy_bytes :: "nat \<Rightarrow> u64 \<Rightarrow> u64 \<Rightarrow> 'a vmm_state_scheme \<Rightarrow> 'a vmm_state_scheme kres" where
  "copy_bytes 0 dst src s = Inr s"
| "copy_bytes (Suc n) dst src s =
     kbind (load_byte src s) (\<lambda>b. kbind (store_byte dst b s) (copy_bytes n (dst + 1) (src + 1)))"

text \<open>
  The characters a string function can read from an address: up to the terminator, or up to the
  first byte it cannot read, where the string ends without a terminator.
\<close>

function load_string :: "u64 \<Rightarrow> 'a vmm_state_scheme \<Rightarrow> u8 list" where
  "load_string a s =
     (case load_byte a s of
        Inl e \<Rightarrow> []
      | Inr c \<Rightarrow> if c = 0 then [0] else if a = -1 then [c] else c # load_string (a + 1) s)"
  by pat_completeness auto
termination
proof (relation "measure (\<lambda>(a, s). 2 ^ 64 - unat a)", goal_cases)
  case (2 a s c)
  then have "unat a \<noteq> 2 ^ 64 - 1" using word_unat_eq_iff[of a "-1"] unat_uminus_u64[of 1] by simp
  then have "unat a + 1 < 2 ^ 64" using unat_u64_less[of a] by simp
  then have "unat (a + 1) = unat a + 1" by (simp add: unat_word_ariths)
  then show ?case using \<open>unat a + 1 < 2 ^ 64\<close> by simp
qed simp

declare load_string.simps [simp del]

section \<open>Facts\<close>

lemma load_kernel [simp]: "kernel_half a \<Longrightarrow> load_byte a s = Inr (kmem s a)"
  by (simp add: load_byte_def load_addr_def)

lemma store_kernel [simp]: "kernel_half a \<Longrightarrow> store_byte a b s = Inr (s\<lparr>kmem := (kmem s)(a := b)\<rparr>)"
  by (simp add: store_byte_def store_addr_def)

text \<open>A store changes memory only, at the byte the address stands for.\<close>

lemma store_byte_Inr:
  assumes "store_byte a b s = Inr s'"
  obtains k where "store_addr s a = Inr k" "s' = s\<lparr>kmem := (kmem s)(k := b)\<rparr>"
  using assms by (cases "store_addr s a") (auto simp: store_byte_def)

lemma copy_bytes_Inr:
  assumes "copy_bytes n dst src s = Inr s'"
  shows "\<exists>m. s' = s\<lparr>kmem := m\<rparr>"
  using assms
proof (induction n arbitrary: dst src s)
  case 0
  then have "s' = s\<lparr>kmem := kmem s\<rparr>" by simp
  then show ?case by (rule exI[where x = "kmem s"])
next
  case (Suc n)
  obtain b where b: "load_byte src s = Inr b" using Suc.prems by (cases "load_byte src s") auto
  obtain s1 where s1: "store_byte dst b s = Inr s1" using Suc.prems b by (cases "store_byte dst b s") auto
  obtain k where k: "s1 = s\<lparr>kmem := (kmem s)(k := b)\<rparr>" using store_byte_Inr[OF s1] by blast
  have "copy_bytes n (dst + 1) (src + 1) s1 = Inr s'" using Suc.prems b s1 by simp
  then obtain m where "s' = s1\<lparr>kmem := m\<rparr>" using Suc.IH by blast
  then have "s' = s\<lparr>kmem := m\<rparr>" using k by simp
  then show ?case by (rule exI[where x = m])
qed

end
