(* ===== verification/Kernel_State.thy ===== *)
theory Kernel_State
  imports User_Memory Fat12 Serial Vga_Text Framebuffer Ring_Buffer
begin

text \<open>
  The state of the kernel above the heap: open files (struct vfs\_file of kernel/include/vfs.h,
  objects of the heap kept in a store by their address), the registered devices, the drivers'
  variables, the table of processes and the devices behind the ports. Function pointers in a file
  are names of the functions they can point to. The keyboard driver,
  drivers/ps2\_keyboard/ps2\_keyboard.c, is here because it blocks and wakes processes.
\<close>

section \<open>Files\<close>

abbreviation (input) "VFS_FILE_NAME_LEN \<equiv> (100 :: u64)"

datatype vfs_read_fn = Fn_vfs_fat12_read | Fn_char_dev_read
datatype vfs_write_fn = Fn_vfs_fat12_write | Fn_char_dev_write
datatype vfs_close_fn = Fn_vfs_fat12_close

text \<open>fs\_private\_data points to the content of a FAT12 file or to a character device.\<close>

datatype vfs_private = Content u64 | Device char_device

record vfs_file =
  vf_name :: "u8 list"
  file_size :: u64
  file_position :: u64
  file_ref_count :: u64
  vf_read :: "vfs_read_fn option"
  vf_write :: "vfs_write_fn option"
  vf_close :: "vfs_close_fn option"
  fs_private_data :: vfs_private

record ps2_keyboard_data =
  ps2_is_initialized :: bool
  s_ps2keyboard_rb :: ring_buffer
  device_wait_queue :: u64

abbreviation (input) "MAX_PIDS \<equiv> (0x1000 :: u64)"
abbreviation (input) "DEVFS_MAX_DEVICES \<equiv> (256 :: u64)"

record 'd kernel_state = sched_state +
  file_at :: "u64 \<Rightarrow> vfs_file"
  g_process_list :: "u64 list"
  g_char_devices :: "char_device option list"
  g_block_devices :: "'d block_device option list"
  g_registered_char_devs :: u64
  ks_fat12 :: "'d fat12_state"
  ks_ata :: "'d ata_state"
  ks_serial :: serial_state
  ks_vga :: vga_state
  ks_fb :: fb_state
  ks_ps2 :: ps2_keyboard_data
  ks_handlers :: handler_state
  ks_dev :: 'd

section \<open>The PS/2 keyboard\<close>

definition SCAN_CODE_LOOKUP_TABLE :: "u8 list" where
  "SCAN_CODE_LOOKUP_TABLE =
     [0, 0, 0x31, 0x32, 0x33, 0x34, 0x35, 0x36, 0x37, 0x38, 0x39, 0x30, 0x2D, 0x3D, 0x08,
      0, 0x71, 0x77, 0x65, 0x72, 0x74, 0x79, 0x75, 0x69, 0x6F, 0x70, 0x5B, 0x5D, 0x0A, 0x0A,
      0x61, 0x73, 0x64, 0x66, 0x67, 0x68, 0x6A, 0x6B, 0x6C, 0x3B, 0x27, 0x60, 0, 0x5C, 0x7A,
      0x78, 0x63, 0x76, 0x62, 0x6E, 0x6D, 0x2C, 0x2E, 0x2F, 0, 0x2A, 0, 0x20]"

abbreviation (input) "RING_BUFFER_SIZE \<equiv> (2056 :: nat)"

text \<open>The string ps2\_keyboard, padded with zeros to the length of the name field.\<close>

definition keyboard_device :: char_device where
  "keyboard_device = Char_device
     ([0x70, 0x73, 0x32, 0x5F, 0x6B, 0x65, 0x79, 0x62, 0x6F, 0x61, 0x72, 0x64] @ replicate 88 0)
     CDC_READ_CAPABILITY (Leaf_dev Ps2_keyboard)"

text \<open>\<open>isr\<close> is the address of keyboard\_interrupt\_handler; the static buffer starts as zeros.\<close>

definition ps2_keyboard_init ::
  "'d hw \<Rightarrow> u64 \<Rightarrow> 'b apic_state_scheme \<Rightarrow> ('d, 'a) kernel_state_scheme \<Rightarrow>
   (char_device \<times> ('d, 'a) kernel_state_scheme) kres" where
  "ps2_keyboard_init hw isr a s =
     (if ps2_is_initialized (ks_ps2 s) then Inr (keyboard_device, s)
      else
        let rb = snd (ring_buffer_init (s_ps2keyboard_rb (ks_ps2 s)) (Some (replicate RING_BUFFER_SIZE 0)) (of_nat RING_BUFFER_SIZE))
        in kbind (pm_create_wait_queue s) (\<lambda>(q, s).
           let s = s\<lparr>ks_ps2 := \<lparr>ps2_is_initialized = True, s_ps2keyboard_rb = rb, device_wait_queue = q\<rparr>\<rparr>
           in kbind (get_free_interrupt_desc (ks_handlers s)) (\<lambda>keyboard_desc.
              kbind (apic_set_legacy_irq_desc_num hw LIRQ_KEYBOARD (ucast keyboard_desc) a (ks_dev s)) (\<lambda>d.
              kbind (set_hardware_interrupt_handler keyboard_desc isr (ks_handlers s)) (\<lambda>h.
              Inr (keyboard_device, s\<lparr>ks_dev := d, ks_handlers := h\<rparr>))))))"

text \<open>The loop of ps2\_read with the bytes read so far; an empty buffer at the start blocks.\<close>

primrec ps2_read_loop :: "nat \<Rightarrow> u8 list \<Rightarrow> ('d, 'a) kernel_state_scheme \<Rightarrow> (int \<times> u8 list \<times> ('d, 'a) kernel_state_scheme) kres" where
  "ps2_read_loop 0 acc s = Inr (int (length acc), acc, s)"
| "ps2_read_loop (Suc n) acc s =
     kbind (ring_buffer_pop (s_ps2keyboard_rb (ks_ps2 s)) 0) (\<lambda>(ok, input_char, rb).
     if \<not> ok
     then if acc = [] then kbind (pm_waitqueue_enqueue (device_wait_queue (ks_ps2 s)) s) (\<lambda>s. Inr (0, [], s))
          else Inr (int (length acc), acc, s)
     else ps2_read_loop n (acc @ [input_char]) (s\<lparr>ks_ps2 := (ks_ps2 s)\<lparr>s_ps2keyboard_rb := rb\<rparr>\<rparr>))"

definition ps2_read :: "u64 \<Rightarrow> ('d, 'a) kernel_state_scheme \<Rightarrow> (int \<times> u8 list \<times> ('d, 'a) kernel_state_scheme) kres" where
  "ps2_read sz s = ps2_read_loop (unat sz) [] s"

definition ps2_write :: "u8 list \<Rightarrow> 'b kres" where
  "ps2_write buffer = Inl (Kernel_panic ''PS/2 Keyboard driver does not support write operation.'')"

definition ps2_ioctl :: "u32 \<Rightarrow> u64 \<Rightarrow> 'b kres" where
  "ps2_ioctl command arg = Inl (Kernel_panic ''PS/2 Keyboard driver did not implement ioctl function yet'')"

definition keyboard_interrupt_handler ::
  "'d hw \<Rightarrow> 'b apic_state_scheme \<Rightarrow> ('d, 'a) kernel_state_scheme \<Rightarrow> ('d, 'a) kernel_state_scheme kres" where
  "keyboard_interrupt_handler hw a s =
     (let (scan_code, d) = inb hw (io_port IO_KEYBOARD_DATA_PORT) (ks_dev s);
          s = s\<lparr>ks_dev := d\<rparr>
      in if unat scan_code \<ge> length SCAN_CODE_LOOKUP_TABLE
         then Inr (s\<lparr>ks_dev := apic_send_eoi hw a (ks_dev s)\<rparr>)
         else let input_char = SCAN_CODE_LOOKUP_TABLE ! unat scan_code
              in kbind (ring_buffer_push (s_ps2keyboard_rb (ks_ps2 s)) input_char) (\<lambda>(_, rb).
                 let s = s\<lparr>ks_ps2 := (ks_ps2 s)\<lparr>s_ps2keyboard_rb := rb\<rparr>\<rparr>
                 in kbind (pm_waitqueue_dequeue_all (device_wait_queue (ks_ps2 s)) s) (\<lambda>s.
                    Inr (s\<lparr>ks_dev := apic_send_eoi hw a (ks_dev s)\<rparr>))))"

section \<open>Reading and writing the hardware devices\<close>

fun leaf_write :: "'d hw \<Rightarrow> leaf_device \<Rightarrow> u8 list \<Rightarrow> ('d, 'a) kernel_state_scheme \<Rightarrow> (int \<times> ('d, 'a) kernel_state_scheme) kres" where
  "leaf_write hw Com1 buffer s = kbind (com1_write hw buffer (ks_dev s)) (\<lambda>(r, d). Inr (r, s\<lparr>ks_dev := d\<rparr>))"
| "leaf_write hw Vga_text buffer s =
     kbind (vga_text_write hw buffer (ks_dev s, kmem s, ks_vga s)) (\<lambda>(r, d, m, v).
     Inr (r, s\<lparr>ks_dev := d, kmem := m, ks_vga := v\<rparr>))"
| "leaf_write hw Framebuffer_print buffer s =
     kbind (framebuffer_write buffer (ks_fb s, kmem s)) (\<lambda>(r, f, m). Inr (r, s\<lparr>ks_fb := f, kmem := m\<rparr>))"
| "leaf_write hw Ps2_keyboard buffer s = ps2_write buffer"

fun leaf_read :: "leaf_device \<Rightarrow> u64 \<Rightarrow> ('d, 'a) kernel_state_scheme \<Rightarrow> (int \<times> u8 list \<times> ('d, 'a) kernel_state_scheme) kres" where
  "leaf_read Com1 sz s = Inr (com1_read sz, [], s)"
| "leaf_read Vga_text sz s = Inr (vga_text_read sz, [], s)"
| "leaf_read Framebuffer_print sz s = Inr (framebuffer_read sz, [], s)"
| "leaf_read Ps2_keyboard sz s = ps2_read sz s"

section \<open>A small system\<close>

text \<open>
  Three processes at 0x1000, 0x2000 and 0x3000, the first running and the others runnable, with no
  open files, an empty heap and eight page frames, and a keyboard nobody waits for. Concrete
  instances of the properties below use it.
\<close>

definition demo_pcb :: "u64 \<Rightarrow> process_control_block" where
  "demo_pcb p = \<lparr>pcb_pid = p div 0x1000, pcb_ppid = 1, pcb_exit_status = 0, pcb_kill_signal = False, pcb_process_state = PS_READY_STATE,
     pcb_parent_wait_queue = p + 0x200, pcb_pagemap_hhdm_ptr = 0, pcb_process_heap_ptr = 0, pcb_interrupt_info = p + 0x100,
     pcb_fds = replicate 32 0, pcb_next = (if p = 0x2000 then 0x3000 else 0)\<rparr>"

definition demo_frame :: "u64 \<Rightarrow> interrupt_info" where
  "demo_frame v = \<lparr>ii_rax = v, ii_rbx = 0, ii_rcx = 0, ii_rdx = 0, ii_rsi = 0, ii_rdi = 0, ii_rbp = 0, ii_r8 = 0, ii_r9 = 0, ii_r10 = 0,
     ii_r11 = 0, ii_r12 = 0, ii_r13 = 0, ii_r14 = 0, ii_r15 = 0, ii_interrupt_index = 0, ii_potential_error_code = 0, ii_rip = 0x400000,
     ii_code_segment = 0x23, ii_rflags = 0x202, ii_original_rsp = 0, ii_stack_segment = 0x1B\<rparr>"

definition demo_device :: "unit block_device" where
  "demo_device = \<lparr>bd_name = replicate 100 0, block_size = 512, blocks_count = 0, partition_offset = 0,
     read_block = (\<lambda>_ _ d. Inr (512, replicate 512 0, d)), write_block = (\<lambda>_ _ _ d. Inr (512, d))\<rparr>"

definition demo_kernel :: "unit kernel_state" where
  "demo_kernel = \<lparr>g_bitmap = \<lparr>bit_count = 8, bitmap = [1]\<rparr>, pmm_hhdm_offset = 0xFFFF800000000000,
     kmem = (\<lambda>_. 0), vmm_hhdm_offset = 0xFFFF800000000000, cr3 = 0, g_super_blocks = 0, g_free_blocks = 0, g_free_block_tail = 0,
     pcb_at = demo_pcb, regs_at = (\<lambda>a. demo_frame (a div 0x1000)), waitq_at = (\<lambda>_. \<lparr>queues_head = 0, queues_rear = 0\<rparr>),
     g_runnable_tasks = \<lparr>queues_head = 0x2000, queues_rear = 0x3000\<rparr>, g_curr_task = 0x1000, g_first_task_added = False,
     g_cpu_is_idle = False,
     file_at = (\<lambda>_. \<lparr>vf_name = replicate 100 0, file_size = 0, file_position = 0, file_ref_count = 0, vf_read = None, vf_write = None,
       vf_close = None, fs_private_data = Content 0\<rparr>),
     g_process_list = [0, 0x1000, 0x2000, 0x3000] @ replicate 4092 0, g_char_devices = replicate 256 None,
     g_block_devices = replicate 256 None, g_registered_char_devs = 0,
     ks_fat12 = \<lparr>g_blk_dev = demo_device, g_fat12_header = fat12_header_of (replicate 62 0),
       g_fat12_info = \<lparr>bytes_per_sector = 0, sectors_per_cluster = 0, total_sectors = 0, fat_sector_size = 0, fat_section_sector_size = 0,
         root_dir_sectors_size = 0, data_sectors_size = 0, cluster_count = 0, data_section_sector_offset = 0,
         fat_section_sector_offset = 0, root_dir_sector_offset = 0\<rparr>\<rparr>,
     ks_ata = \<lparr>s_ctrl = \<lparr>ctrl_base = 0, ctrl_dev_ctl = 0\<rparr>, s_block_device = demo_device, driver_initlized = False\<rparr>,
     ks_serial = \<lparr>com1_is_initialized = False\<rparr>,
     ks_vga = \<lparr>vga_is_initialized = False, g_vga_data = \<lparr>vga_width = 0, vga_height = 0, starting_vga_memory_addr = 0,
       final_vga_memory_addr = 0, cursor_position = 0, max_cursor_position = 0\<rparr>, global_cursor_position = 0\<rparr>,
     ks_fb = \<lparr>fb_pitch = 0, g_framebuffer_addr = 0, g_framebuffer_height = 0, g_framebuffer_width = 0, g_curr_cursor_index = 0,
       g_device_initialized = False\<rparr>,
     ks_ps2 = \<lparr>ps2_is_initialized = True,
       s_ps2keyboard_rb = \<lparr>write_ptr = 0, read_ptr = 0, buffer_size = 2056, rb_buffer = replicate 2056 0\<rparr>, device_wait_queue = 0x4000\<rparr>,
     ks_handlers = \<lparr>s_cpu_exception_handlers = replicate 32 0, g_hardware_interrupt_handlers = replicate 224 0\<rparr>,
     ks_dev = ()\<rparr>"

end
