(* ===== verification/Vfs.thy ===== *)
theory Vfs
  imports Kernel_State
begin

text \<open>
  The file layer: the device file system of kernel/vfs/devfs.c and the operations on open files of
  kernel/vfs/vfs.c. Paths are strings in memory; an open file is the address of its vfs\_file.
  Buffers are addresses, of the process or of the kernel.
\<close>

section \<open>Device files\<close>

definition setup_vfs_node_name :: "u8 list \<Rightarrow> u8 list \<Rightarrow> u8 list kres" where
  "setup_vfs_node_name vfs_node_name name =
     kbind (strlen name) (\<lambda>name_len.
     let name_len = (if name_len \<ge> VFS_FILE_NAME_LEN then VFS_FILE_NAME_LEN - 1 else name_len)
     in arr_set (take (unat name_len) name @ drop (unat name_len) vfs_node_name) (unat name_len) 0)"

definition devfs_register_char_device ::
  "char_device option \<Rightarrow> ('d, 'a) kernel_state_scheme \<Rightarrow> ('d, 'a) kernel_state_scheme kres" where
  "devfs_register_char_device dev s =
     (if dev \<noteq> None \<and> g_registered_char_devs s < DEVFS_MAX_DEVICES
      then kbind (arr_set (g_char_devices s) (unat (g_registered_char_devs s)) dev) (\<lambda>ds.
           Inr (s\<lparr>g_char_devices := ds, g_registered_char_devs := g_registered_char_devs s + 1\<rparr>))
      else Inr s)"

text \<open>The strings write\_broadcast and tty; \<open>old\<close> is what the name fields of the new devices hold.\<close>

definition write_broadcast_name :: "u8 list" where
  "write_broadcast_name = [0x77, 0x72, 0x69, 0x74, 0x65, 0x5F, 0x62, 0x72, 0x6F, 0x61, 0x64, 0x63, 0x61, 0x73, 0x74, 0]"

definition tty_name :: "u8 list" where
  "tty_name = [0x74, 0x74, 0x79, 0]"

definition init_devfs ::
  "'d hw \<Rightarrow> u64 \<Rightarrow> u8 list \<Rightarrow> 'b apic_state_scheme \<Rightarrow> ('d, 'a) kernel_state_scheme \<Rightarrow> ('d, 'a) kernel_state_scheme kres" where
  "init_devfs hw isr old a s =
     (let s = s\<lparr>g_char_devices := replicate 256 None, g_block_devices := replicate 256 None\<rparr>;
          (serial_dev, d, ser) = serial_com1_init hw (ks_dev s) (ks_serial s);
          s = s\<lparr>ks_dev := d, ks_serial := ser\<rparr>
      in kbind (vga_text_init hw (ks_dev s, kmem s, ks_vga s)) (\<lambda>(vga_dev, d, m, v).
         let s = s\<lparr>ks_dev := d, kmem := m, ks_vga := v\<rparr>
         in kbind (ps2_keyboard_init hw isr a s) (\<lambda>(ps2_dev, s).
            kbind (get_framebuffer_print_driver (ks_fb s)) (\<lambda>framebuffer_dev.
            kbind (kmalloc 16 s) (\<lambda>(_, s).
            case serial_dev of
              None \<Rightarrow> Inl Fault
            | Some ser_dev \<Rightarrow>
                kbind (char_dev_create_multiwrite_dev old write_broadcast_name [ser_dev, framebuffer_dev] s) (\<lambda>(write_broadcast_dev, s).
                kbind (ps2_keyboard_init hw isr a s) (\<lambda>(kbd_dev, s).
                kbind (char_dev_create_duplex old tty_name (Some kbd_dev) write_broadcast_dev s) (\<lambda>(tty_dev, s).
                kbind (devfs_register_char_device serial_dev s) (\<lambda>s.
                kbind (devfs_register_char_device (Some vga_dev) s) (\<lambda>s.
                kbind (devfs_register_char_device (Some ps2_dev) s) (\<lambda>s.
                kbind (devfs_register_char_device (Some framebuffer_dev) s) (\<lambda>s.
                devfs_register_char_device tty_dev s))))))))))))"

text \<open>The two search loops of devfs\_open; the search among block devices never finds a file.\<close>

fun find_char_device :: "u8 list \<Rightarrow> char_device option list \<Rightarrow> char_device option kres" where
  "find_char_device filepath [] = Inr None"
| "find_char_device filepath (None # ds) = find_char_device filepath ds"
| "find_char_device filepath (Some dev # ds) =
     kbind (strcmp filepath (cd_name dev)) (\<lambda>r. if r = 0 then Inr (Some dev) else find_char_device filepath ds)"

fun find_block_device :: "u8 list \<Rightarrow> 'd block_device option list \<Rightarrow> unit kres" where
  "find_block_device filepath [] = Inr ()"
| "find_block_device filepath (None # ds) = find_block_device filepath ds"
| "find_block_device filepath (Some dev # ds) =
     kbind (strcmp filepath (bd_name dev)) (\<lambda>r. if r = 0 then Inr () else find_block_device filepath ds)"

definition devfs_open :: "u8 list \<Rightarrow> ('d, 'a) kernel_state_scheme \<Rightarrow> (u64 \<times> ('d, 'a) kernel_state_scheme) kres" where
  "devfs_open filepath s =
     kbind (find_char_device filepath (take (unat (g_registered_char_devs s)) (g_char_devices s))) (\<lambda>r.
     case r of
       Some dev \<Rightarrow>
         kbind (kmalloc SIZEOF_vfs_file s) (\<lambda>(vfs_node, s).
         kbind (setup_vfs_node_name (vf_name (file_at s vfs_node)) (cd_name dev)) (\<lambda>name.
         let f = (file_at s vfs_node)\<lparr>file_size := -1, fs_private_data := Device dev, vf_read := Some Fn_char_dev_read,
                   vf_write := Some Fn_char_dev_write, vf_close := None, vf_name := name\<rparr>
         in Inr (vfs_node, s\<lparr>file_at := (file_at s)(vfs_node := f)\<rparr>)))
     | None \<Rightarrow> kbind (find_block_device filepath (g_block_devices s)) (\<lambda>_. Inr (0, s)))"

text \<open>char\_dev\_read and char\_dev\_write of devfs.c.\<close>

definition devfs_char_dev_read ::
  "char_device \<Rightarrow> u64 \<Rightarrow> u64 \<Rightarrow> ('d, 'a) kernel_state_scheme \<Rightarrow> (int \<times> ('d, 'a) kernel_state_scheme) kres" where
  "devfs_char_dev_read char_dev buffer sz s =
     (if \<not> has_read char_dev then Inr (-1, s)
      else kbind (char_dev_read leaf_read char_dev sz s) (\<lambda>(r, bs, s).
           kbind (store_bytes buffer bs s) (\<lambda>s. Inr (r, s))))"

definition devfs_char_dev_write ::
  "'d hw \<Rightarrow> char_device \<Rightarrow> u64 \<Rightarrow> u64 \<Rightarrow> ('d, 'a) kernel_state_scheme \<Rightarrow> (int \<times> ('d, 'a) kernel_state_scheme) kres" where
  "devfs_char_dev_write hw char_dev buffer sz s =
     (if \<not> has_write char_dev then Inr (-1, s)
      else kbind (load_bytes (unat sz) buffer s) (\<lambda>bs. char_dev_write (leaf_write hw) char_dev bs s))"

section \<open>Files of the FAT12 volume\<close>

text \<open>fat12\_open as it fills the vfs\_file; the fields it does not set keep what memory held.\<close>

definition fat12_open_file ::
  "u8 list \<Rightarrow> ('d, 'a) kernel_state_scheme \<Rightarrow> (u64 \<times> ('d, 'a) kernel_state_scheme) kres" where
  "fat12_open_file filepath s =
     kbind (fat12_open (ks_fat12 s) filepath (s, ks_dev s)) (\<lambda>(r, s, d).
     let s = s\<lparr>ks_dev := d\<rparr>
     in case r of
          None \<Rightarrow> Inr (0, s)
        | Some (file_vfs, sz, content) \<Rightarrow>
            let f = (file_at s file_vfs)\<lparr>file_size := sz, fs_private_data := Content content, vf_read := Some Fn_vfs_fat12_read,
                      vf_write := Some Fn_vfs_fat12_write, vf_close := Some Fn_vfs_fat12_close\<rparr>
            in Inr (file_vfs, s\<lparr>file_at := (file_at s)(file_vfs := f)\<rparr>))"

definition vfs_fat12_read ::
  "u64 \<Rightarrow> u64 \<Rightarrow> u64 \<Rightarrow> u64 \<Rightarrow> ('d, 'a) kernel_state_scheme \<Rightarrow> (int \<times> ('d, 'a) kernel_state_scheme) kres" where
  "vfs_fat12_read content position buffer sz s =
     kbind (copy_bytes (unat sz) buffer (content + position) s) (\<lambda>s. Inr (sint sz, s))"

section \<open>Operations on files\<close>

abbreviation (input) "FIRST_PARTITION_MBR_OFFSET \<equiv> (2048 :: u64)"

definition sda1_name :: "u8 list" where
  "sda1_name = [0x2F, 0x64, 0x65, 0x76, 0x2F, 0x73, 0x64, 0x61, 0x31, 0]"

text \<open>
  The partition replaces the disk: both pointers are the address of the driver's one block device.
  \<open>buffer\<close> is the address of the static array the FAT12 header is read into.
\<close>

definition vfs_init ::
  "'d hw \<Rightarrow> u64 \<Rightarrow> u8 list \<Rightarrow> u64 \<Rightarrow> 'b apic_state_scheme \<Rightarrow> ('d, 'a) kernel_state_scheme \<Rightarrow> ('d, 'a) kernel_state_scheme kres" where
  "vfs_init hw isr old buffer a s =
     (let (_, ata) = ata_pio_init hw (ks_ata s);
          (disk, ata) = ata_pio_init hw ata
      in kbind (create_partition_wrapper disk FIRST_PARTITION_MBR_OFFSET sda1_name (-1)) (\<lambda>part.
         let s = s\<lparr>ks_ata := ata\<lparr>s_block_device := part\<rparr>\<rparr>
         in kbind (init_fat12 buffer part (s, ks_dev s)) (\<lambda>(fat, s, d).
            init_devfs hw isr old a (s\<lparr>ks_fat12 := fat, ks_dev := d\<rparr>))))"

definition dev_prefix :: "u8 list" where
  "dev_prefix = [0x2F, 0x64, 0x65, 0x76, 0x2F, 0]"

definition vfs_open :: "u8 list \<Rightarrow> ('d, 'a) kernel_state_scheme \<Rightarrow> (u64 \<times> ('d, 'a) kernel_state_scheme) kres" where
  "vfs_open filepath s =
     kbind (strncmp filepath dev_prefix 5) (\<lambda>r.
     kbind (if r = 0 then devfs_open (drop 5 filepath) s else fat12_open_file filepath s) (\<lambda>(file_vfs, s).
     if file_vfs = 0 then Inr (0, s)
     else Inr (file_vfs,
            s\<lparr>file_at := (file_at s)(file_vfs := (file_at s file_vfs)\<lparr>file_position := 0, file_ref_count := 1\<rparr>)\<rparr>)))"

text \<open>The call through the read, write and close pointers of a file.\<close>

definition call_read ::
  "vfs_read_fn \<Rightarrow> u64 \<Rightarrow> u64 \<Rightarrow> u64 \<Rightarrow> ('d, 'a) kernel_state_scheme \<Rightarrow> (int \<times> ('d, 'a) kernel_state_scheme) kres" where
  "call_read fn vfs_node buffer sz s =
     (case (fn, fs_private_data (file_at s vfs_node)) of
        (Fn_vfs_fat12_read, Content c) \<Rightarrow> vfs_fat12_read c (file_position (file_at s vfs_node)) buffer sz s
      | (Fn_char_dev_read, Device dev) \<Rightarrow> devfs_char_dev_read dev buffer sz s
      | _ \<Rightarrow> Inl Fault)"

definition call_write ::
  "'d hw \<Rightarrow> vfs_write_fn \<Rightarrow> u64 \<Rightarrow> u64 \<Rightarrow> u64 \<Rightarrow> ('d, 'a) kernel_state_scheme \<Rightarrow> (int \<times> ('d, 'a) kernel_state_scheme) kres" where
  "call_write hw fn vfs_node buffer sz s =
     (case (fn, fs_private_data (file_at s vfs_node)) of
        (Fn_vfs_fat12_write, _) \<Rightarrow> vfs_fat12_write buffer sz
      | (Fn_char_dev_write, Device dev) \<Rightarrow> devfs_char_dev_write hw dev buffer sz s
      | _ \<Rightarrow> Inl Fault)"

definition call_close :: "vfs_close_fn \<Rightarrow> u64 \<Rightarrow> ('d, 'a) kernel_state_scheme \<Rightarrow> ('d, 'a) kernel_state_scheme kres" where
  "call_close fn vfs_node s =
     (case fs_private_data (file_at s vfs_node) of
        Content c \<Rightarrow> kbind (vfs_fat12_close c s) (\<lambda>(_, s). Inr s)
      | Device dev \<Rightarrow> Inl Fault)"

definition vfs_update :: "u64 \<Rightarrow> (vfs_file \<Rightarrow> vfs_file) \<Rightarrow> ('d, 'a) kernel_state_scheme \<Rightarrow> ('d, 'a) kernel_state_scheme" where
  "vfs_update f g s = s\<lparr>file_at := (file_at s)(f := g (file_at s f))\<rparr>"

definition vfs_read ::
  "u64 \<Rightarrow> u64 \<Rightarrow> u64 \<Rightarrow> ('d, 'a) kernel_state_scheme \<Rightarrow> (int \<times> ('d, 'a) kernel_state_scheme) kres" where
  "vfs_read vfs_node buffer sz s =
     (if vfs_node = 0 then Inr (-1, s)
      else case vf_read (file_at s vfs_node) of
        None \<Rightarrow> Inr (-1, s)
      | Some fn \<Rightarrow>
          let f = file_at s vfs_node
          in if file_position f \<ge> file_size f then Inr (0, s)
             else
               let bytes_to_read = (if file_position f + sz > file_size f then file_size f - file_position f else sz)
               in kbind (call_read fn vfs_node buffer bytes_to_read s) (\<lambda>(bytes_read, s).
                  let s = (if bytes_read > 0
                           then vfs_update vfs_node (file_position_update (\<lambda>p. p + word_of_int bytes_read)) s else s)
                  in Inr (bytes_read, s)))"

definition vfs_write ::
  "'d hw \<Rightarrow> u64 \<Rightarrow> u64 \<Rightarrow> u64 \<Rightarrow> ('d, 'a) kernel_state_scheme \<Rightarrow> (int \<times> ('d, 'a) kernel_state_scheme) kres" where
  "vfs_write hw vfs_node buffer sz s =
     (if vfs_node = 0 then Inr (-1, s)
      else case vf_write (file_at s vfs_node) of
        None \<Rightarrow> Inr (-1, s)
      | Some fn \<Rightarrow>
          kbind (call_write hw fn vfs_node buffer sz s) (\<lambda>(bytes_written, s).
          let s = (if bytes_written > 0
                   then vfs_update vfs_node (file_position_update (\<lambda>p. p + word_of_int bytes_written)) s else s);
              f = file_at s vfs_node;
              s = (if file_position f > file_size f
                   then vfs_update vfs_node (file_size_update (\<lambda>_. file_position f)) s else s)
          in Inr (bytes_written, s)))"

definition vfs_close :: "u64 \<Rightarrow> ('d, 'a) kernel_state_scheme \<Rightarrow> (int \<times> ('d, 'a) kernel_state_scheme) kres" where
  "vfs_close vfs_node s =
     (if vfs_node = 0 then Inr (-1, s)
      else
        let s = (if file_ref_count (file_at s vfs_node) > 0
                 then vfs_update vfs_node (file_ref_count_update (\<lambda>n. n - 1)) s else s)
        in if file_ref_count (file_at s vfs_node) = 0
           then kbind (case vf_close (file_at s vfs_node) of
                         Some fn \<Rightarrow> call_close fn vfs_node s
                       | None \<Rightarrow> Inr s) (\<lambda>s.
                kbind (kfree vfs_node s) (\<lambda>s. Inr (0, s)))
           else Inr (0, s))"

abbreviation (input) "SKW_VFS_SEEK_SET \<equiv> (0 :: u32)"
abbreviation (input) "SKW_VFS_SEEK_CUR \<equiv> (1 :: u32)"
abbreviation (input) "SKW_VFS_SEEK_END \<equiv> (2 :: u32)"

text \<open>Positions are compared as signed 64-bit integers.\<close>

definition vfs_seek ::
  "u64 \<Rightarrow> u64 \<Rightarrow> u32 \<Rightarrow> ('d, 'a) kernel_state_scheme \<Rightarrow> int \<times> ('d, 'a) kernel_state_scheme" where
  "vfs_seek vfs_node offset whence s =
     (if vfs_node = 0 then (-1, s)
      else
        let f = file_at s vfs_node;
            new_pos = (if whence = SKW_VFS_SEEK_SET then Some offset
                       else if whence = SKW_VFS_SEEK_CUR then Some (file_position f + offset)
                       else if whence = SKW_VFS_SEEK_END then Some (file_size f + offset) else None)
        in case new_pos of
             None \<Rightarrow> (-1, s)
           | Some p \<Rightarrow>
               if sint p < 0 \<or> sint p > sint (file_size f) then (-1, s)
               else (sint p, vfs_update vfs_node (file_position_update (\<lambda>_. p)) s))"

end
