(* ===== verification/Elf_Format.thy ===== *)
theory Elf_Format
  imports Mem_Utils
begin

text \<open>
  The structures of 64-bit ELF files the loaders read, include/vendor/elf.h, as they lie in
  memory.
\<close>

record elf64_ehdr =
  e_ident :: "u8 list"
  e_type :: u16
  e_machine :: u16
  e_version :: u32
  e_entry :: u64
  e_phoff :: u64
  e_shoff :: u64
  e_flags :: u32
  e_ehsize :: u16
  e_phentsize :: u16
  e_phnum :: u16
  e_shentsize :: u16
  e_shnum :: u16
  e_shstrndx :: u16

record elf64_phdr =
  p_type :: u32
  p_flags :: u32
  p_offset :: u64
  p_vaddr :: u64
  p_paddr :: u64
  p_filesz :: u64
  p_memsz :: u64
  p_align :: u64

abbreviation (input) "SIZEOF_Elf64_Ehdr \<equiv> (64 :: u64)"
abbreviation (input) "SIZEOF_Elf64_Phdr \<equiv> (56 :: u64)"
abbreviation (input) "PT_LOAD \<equiv> (1 :: u32)"
abbreviation (input) "ELFMAG0 \<equiv> (0x7F :: u8)"
abbreviation (input) "ELFMAG1 \<equiv> (0x45 :: u8)"
abbreviation (input) "ELFMAG2 \<equiv> (0x4C :: u8)"
abbreviation (input) "ELFMAG3 \<equiv> (0x46 :: u8)"

definition ehdr_at :: "mem \<Rightarrow> u64 \<Rightarrow> elf64_ehdr" where
  "ehdr_at m a =
     \<lparr>e_ident = mem_bytes m a 16, e_type = read16 m (a + 16), e_machine = read16 m (a + 18), e_version = read32 m (a + 20),
      e_entry = read64 m (a + 24), e_phoff = read64 m (a + 32), e_shoff = read64 m (a + 40), e_flags = read32 m (a + 48),
      e_ehsize = read16 m (a + 52), e_phentsize = read16 m (a + 54), e_phnum = read16 m (a + 56),
      e_shentsize = read16 m (a + 58), e_shnum = read16 m (a + 60), e_shstrndx = read16 m (a + 62)\<rparr>"

definition phdr_at :: "mem \<Rightarrow> u64 \<Rightarrow> elf64_phdr" where
  "phdr_at m a =
     \<lparr>p_type = read32 m a, p_flags = read32 m (a + 4), p_offset = read64 m (a + 8), p_vaddr = read64 m (a + 16),
      p_paddr = read64 m (a + 24), p_filesz = read64 m (a + 32), p_memsz = read64 m (a + 40), p_align = read64 m (a + 48)\<rparr>"

end
