(* ===== verification/Elf_Loader.thy ===== *)
theory Elf_Loader
  imports Vfs Elf_Format
begin

text \<open>
  The loader of programs, kernel/elf\_loader/elf\_loader.c: it reads the headers of an ELF file
  into heap buffers, maps the pages of each loadable segment and fills them from the file.
\<close>

abbreviation (input) "SIZEOF_elf_file_info \<equiv> (16 :: u64)"

text \<open>The fields of the elf\_file\_info at an address.\<close>

definition info_entry_point :: "'a vmm_state_scheme \<Rightarrow> u64 \<Rightarrow> u64" where
  "info_entry_point s p = read64 (kmem s) p"

definition info_heap_start :: "'a vmm_state_scheme \<Rightarrow> u64 \<Rightarrow> u64" where
  "info_heap_start s p = read64 (kmem s) (p + 8)"

section \<open>Headers\<close>

definition is_elf_file :: "elf64_ehdr \<Rightarrow> bool" where
  "is_elf_file elf_header \<longleftrightarrow> e_ident elf_header ! 0 = ELFMAG0 \<or> e_ident elf_header ! 1 = ELFMAG1 \<or>
     e_ident elf_header ! 2 = ELFMAG2 \<or> e_ident elf_header ! 3 = ELFMAG3"

definition get_program_headers ::
  "elf64_ehdr \<Rightarrow> u64 \<Rightarrow> ('d, 'a) kernel_state_scheme \<Rightarrow> (u64 \<times> ('d, 'a) kernel_state_scheme) kres" where
  "get_program_headers elf_header elf_file s =
     kbind (kmalloc (SIZEOF_Elf64_Phdr * ucast (e_phnum elf_header)) s) (\<lambda>(program_headers, s).
     let (_, s) = vfs_seek elf_file (e_phoff elf_header) SKW_VFS_SEEK_SET s
     in kbind (vfs_read elf_file program_headers (SIZEOF_Elf64_Phdr * ucast (e_phnum elf_header)) s) (\<lambda>(_, s).
        Inr (program_headers, s)))"

text \<open>The address of program header i.\<close>

definition ph_addr :: "u64 \<Rightarrow> u64 \<Rightarrow> u64" where
  "ph_addr program_headers i = program_headers + SIZEOF_Elf64_Phdr * i"

definition heap_start_step :: "elf64_phdr \<Rightarrow> u64 \<Rightarrow> u64" where
  "heap_start_step curr_ph heap_start =
     (if p_type curr_ph \<noteq> PT_LOAD then heap_start
      else let segment_end_vaddr = p_vaddr curr_ph + p_memsz curr_ph
           in if segment_end_vaddr > heap_start then segment_end_vaddr else heap_start)"

definition find_heap_start :: "u64 \<Rightarrow> u64 \<Rightarrow> mem \<Rightarrow> u64 kres" where
  "find_heap_start program_headers ph_count m =
     kbind (for_loop 0 ph_count (\<lambda>i heap_start. Inr (heap_start_step (phdr_at m (ph_addr program_headers i)) heap_start)) 0)
       (\<lambda>heap_start.
     kassert (heap_start \<noteq> 0) ''Could not found where the process heap should start''
       (Inr (ALIGN_UP heap_start REGULAR_PAGE_SIZE)))"

section \<open>Segments\<close>

definition get_elf_segment_pages_count :: "elf64_phdr \<Rightarrow> u64" where
  "get_elf_segment_pages_count program_header =
     (let pages_block_start_vaddr = p_vaddr program_header AND NOT (REGULAR_PAGE_SIZE - 1);
          pages_block_end_vaddr =
            (p_vaddr program_header + p_memsz program_header + REGULAR_PAGE_SIZE - 1) AND NOT (REGULAR_PAGE_SIZE - 1)
      in (pages_block_end_vaddr - pages_block_start_vaddr) div REGULAR_PAGE_SIZE)"

definition map_segment_page ::
  "u64 \<Rightarrow> u64 \<Rightarrow> u64 \<Rightarrow> u64 \<Rightarrow> 'a vmm_state_scheme \<Rightarrow> 'a vmm_state_scheme kres" where
  "map_segment_page pagemap segment_vaddr phys_pages i s =
     kbind (vmm_map_page pagemap (segment_vaddr + i * REGULAR_PAGE_SIZE) (phys_pages + i * REGULAR_PAGE_SIZE)
       (MPF_WRITABLE_PAGE OR MPF_USER_ACCESSIBLE) s) (\<lambda>(map_status, s).
     kassert (map_status = 0) ''Trying to load an ELF segment which overlaps with another segment.'' (Inr s))"

definition load_segment ::
  "u64 \<Rightarrow> u64 \<Rightarrow> u64 \<Rightarrow> ('d, 'a) kernel_state_scheme \<Rightarrow> ('d, 'a) kernel_state_scheme kres" where
  "load_segment program_header elf_file pagemap_ptr s =
     (let ph = phdr_at (kmem s) program_header;
          segment_page_count = get_elf_segment_pages_count ph
      in kbind (pmm_alloc_pages segment_page_count s) (\<lambda>(phys_pages, s).
         kbind (for_loop 0 segment_page_count (map_segment_page pagemap_ptr (p_vaddr ph) phys_pages) s) (\<lambda>s.
         let ph = phdr_at (kmem s) program_header;
             segment_start_hhdm_location = vmm_phys_to_virt_hhdm s phys_pages + p_vaddr ph mod REGULAR_PAGE_SIZE;
             (_, s) = vfs_seek elf_file (p_offset ph) SKW_VFS_SEEK_SET s
         in kbind (vfs_read elf_file segment_start_hhdm_location (p_filesz ph) s) (\<lambda>(_, s).
            let ph = phdr_at (kmem s) program_header
            in if p_memsz ph > p_filesz ph
               then Inr (s\<lparr>kmem := memset (segment_start_hhdm_location + p_filesz ph) 0 (p_memsz ph - p_filesz ph) (kmem s)\<rparr>)
               else Inr s))))"

definition load_binary_segments ::
  "u64 \<Rightarrow> u64 \<Rightarrow> u64 \<Rightarrow> u64 \<Rightarrow> ('d, 'a) kernel_state_scheme \<Rightarrow> ('d, 'a) kernel_state_scheme kres" where
  "load_binary_segments program_headers ph_count elf_file pagemap_ptr s =
     for_loop 0 ph_count (\<lambda>i s.
       if p_type (phdr_at (kmem s) (ph_addr program_headers i)) = PT_LOAD
       then load_segment (ph_addr program_headers i) elf_file pagemap_ptr s else Inr s) s"

section \<open>Loading\<close>

definition load_elf_to_memory ::
  "u64 \<Rightarrow> u64 \<Rightarrow> ('d, 'a) kernel_state_scheme \<Rightarrow> (u64 \<times> ('d, 'a) kernel_state_scheme) kres" where
  "load_elf_to_memory elf_file pagemap_hhdm_ptr s =
     kbind (kmalloc SIZEOF_Elf64_Ehdr s) (\<lambda>(elf_header, s).
     kbind (vfs_read elf_file elf_header SIZEOF_Elf64_Ehdr s) (\<lambda>(_, s).
     if \<not> is_elf_file (ehdr_at (kmem s) elf_header) then kbind (kfree elf_header s) (\<lambda>s. Inr (0, s))
     else
       kbind (get_program_headers (ehdr_at (kmem s) elf_header) elf_file s) (\<lambda>(program_headers, s).
       kbind (load_binary_segments program_headers (ucast (e_phnum (ehdr_at (kmem s) elf_header))) elf_file pagemap_hhdm_ptr s) (\<lambda>s.
       kbind (kmalloc SIZEOF_elf_file_info s) (\<lambda>(file_info, s).
       let s = s\<lparr>kmem := write64 (kmem s) file_info (e_entry (ehdr_at (kmem s) elf_header))\<rparr>
       in kbind (find_heap_start program_headers (ucast (e_phnum (ehdr_at (kmem s) elf_header))) (kmem s)) (\<lambda>heap_start.
          let s = s\<lparr>kmem := write64 (kmem s) (file_info + 8) heap_start\<rparr>
          in kbind (kfree elf_header s) (\<lambda>s.
             kbind (kfree program_headers s) (\<lambda>s.
             if info_entry_point s file_info = 0 \<or> info_heap_start s file_info = 0
             then kbind (kfree file_info s) (\<lambda>s. Inr (0, s))
             else Inr (file_info, s)))))))))"

end
