(* ===== verification/Process_Manager.thy ===== *)
theory Process_Manager
  imports Elf_Loader Descriptor_Tables
begin

text \<open>
  The process manager, kernel/process\_manager/process\_manager.c, and the context switch of
  scheduler.c that uses it. A process is a control block at an address; the register frame an
  interrupt or a system call was entered with is passed and returned as a value.
\<close>

abbreviation (input) "RFLAGS_INTERRUPTS_ENABLED \<equiv> (0x202 :: u64)"
abbreviation (input) "USER_STACK_PTR \<equiv> (0x00007FFFFFFFF000 :: u64)"
abbreviation (input) "KILL_SINGLA_EXIT_CODE \<equiv> (139 :: u32)"
abbreviation (input) "SIZEOF_interrupt_info \<equiv> (176 :: u64)"

definition set_pcb ::
  "u64 \<Rightarrow> (process_control_block \<Rightarrow> process_control_block) \<Rightarrow> 'a sched_state_scheme \<Rightarrow> 'a sched_state_scheme" where
  "set_pcb p f s = s\<lparr>pcb_at := pcb_update p f (pcb_at s)\<rparr>"

definition set_fd :: "u64 \<Rightarrow> nat \<Rightarrow> u64 \<Rightarrow> 'a sched_state_scheme \<Rightarrow> 'a sched_state_scheme kres" where
  "set_fd pcb i f s = kbind (arr_set (pcb_fds (pcb_at s pcb)) i f) (\<lambda>fds. Inr (set_pcb pcb (pcb_fds_update (\<lambda>_. fds)) s))"

section \<open>Process identifiers\<close>

text \<open>The search for a NULL entry of a table of pointers, from index i on.\<close>

fun first_null :: "u64 list \<Rightarrow> nat \<Rightarrow> nat option" where
  "first_null [] i = None"
| "first_null (p # ps) i = (if p = 0 then Some i else first_null ps (i + 1))"

definition generate_pid :: "('d, 'a) kernel_state_scheme \<Rightarrow> u64 kres" where
  "generate_pid s =
     (case first_null (drop 1 (g_process_list s)) 1 of
        Some i \<Rightarrow> Inr (of_nat i)
      | None \<Rightarrow> Inl (Kernel_panic ''Too many processes running at once. MAX_PIDS limit reached''))"

definition pm_get_pcb_by_pid :: "u64 \<Rightarrow> ('d, 'a) kernel_state_scheme \<Rightarrow> u64 kres" where
  "pm_get_pcb_by_pid pid s = (if pid \<ge> MAX_PIDS then Inr 0 else arr_get (g_process_list s) (unat pid))"

definition pm_kill :: "u64 \<Rightarrow> ('d, 'a) kernel_state_scheme \<Rightarrow> (u64 \<times> ('d, 'a) kernel_state_scheme) kres" where
  "pm_kill pid s =
     (if pid \<ge> MAX_PIDS then Inr (-1, s)
      else kbind (arr_get (g_process_list s) (unat pid)) (\<lambda>p.
           if p = 0 then Inr (-1, s) else Inr (0, set_pcb p (pcb_kill_signal_update (\<lambda>_. True)) s)))"

section \<open>Program images\<close>

definition pm_execve ::
  "u64 \<Rightarrow> u64 \<Rightarrow> interrupt_info \<Rightarrow> ('d, 'a) kernel_state_scheme \<Rightarrow> (int \<times> interrupt_info \<times> ('d, 'a) kernel_state_scheme) kres" where
  "pm_execve pcb path process_regs s =
     kbind (vfs_open (load_string path s) s) (\<lambda>(fl, s).
     if fl = 0 then Inr (-1, process_regs, s)
     else
       kbind (vmm_create_new_pagemap s) (\<lambda>(pagemap_hhdm, s).
       kbind (load_elf_to_memory fl pagemap_hhdm s) (\<lambda>(elf_info, s).
       kbind (pmm_alloc_page s) (\<lambda>(stack_page, s).
       kbind (vmm_map_page pagemap_hhdm (USER_STACK_PTR - REGULAR_PAGE_SIZE) stack_page (MPF_WRITABLE_PAGE OR MPF_USER_ACCESSIBLE) s)
         (\<lambda>(mappage_result, s).
       if mappage_result \<noteq> 0 \<or> elf_info = 0
       then kbind (vmm_delete_pagemap pagemap_hhdm s) (\<lambda>s.
            kbind (vfs_close fl s) (\<lambda>(_, s).
            kbind (kfree elf_info s) (\<lambda>s. Inr (-1, process_regs, s))))
       else
         let s = vmm_reload_cr3 pagemap_hhdm s
         in kbind (vmm_delete_pagemap (pcb_pagemap_hhdm_ptr (pcb_at s pcb)) s) (\<lambda>s.
            let s = set_pcb pcb (\<lambda>p. p\<lparr>pcb_pagemap_hhdm_ptr := pagemap_hhdm, pcb_process_heap_ptr := info_heap_start s elf_info\<rparr>) s;
                regs = process_regs\<lparr>ii_rip := info_entry_point s elf_info, ii_rcx := info_entry_point s elf_info,
                         ii_original_rsp := USER_STACK_PTR, ii_r11 := RFLAGS_INTERRUPTS_ENABLED\<rparr>
            in kbind (vfs_close fl s) (\<lambda>(_, s).
               kbind (kfree elf_info s) (\<lambda>s. Inr (0, regs, s)))))))))"

section \<open>Fork\<close>

definition fork_fd :: "u64 \<Rightarrow> u64 \<Rightarrow> u64 \<Rightarrow> ('d, 'a) kernel_state_scheme \<Rightarrow> ('d, 'a) kernel_state_scheme kres" where
  "fork_fd child_pcb pcb i s =
     kbind (arr_get (pcb_fds (pcb_at s pcb)) (unat i)) (\<lambda>f.
     kbind (set_fd child_pcb (unat i) f s) (\<lambda>s.
     if f \<noteq> 0 then Inr (vfs_update f (file_ref_count_update (\<lambda>n. n + 1)) s) else Inr s))"

definition pm_fork ::
  "u64 \<Rightarrow> interrupt_info \<Rightarrow> ('d, 'a) kernel_state_scheme \<Rightarrow> (u32 \<times> ('d, 'a) kernel_state_scheme) kres" where
  "pm_fork pcb process_regs s =
     kbind (kmalloc SIZEOF_process_control_block s) (\<lambda>(child_pcb, s).
     kbind (generate_pid s) (\<lambda>pid.
     let s = set_pcb child_pcb (\<lambda>c. c\<lparr>pcb_pid := pid, pcb_ppid := pcb_pid (pcb_at s pcb), pcb_kill_signal := False,
               pcb_process_state := PS_READY_STATE\<rparr>) s
     in kbind (pm_create_wait_queue s) (\<lambda>(q, s).
        let s = set_pcb child_pcb (pcb_parent_wait_queue_update (\<lambda>_. q)) s
        in kbind (for_loop 0 (of_nat MAX_PROCESS_FDS :: u64) (fork_fd child_pcb pcb) s) (\<lambda>s.
           kbind (kmalloc SIZEOF_interrupt_info s) (\<lambda>(regs, s).
           let s = set_pcb child_pcb (pcb_interrupt_info_update (\<lambda>_. regs)) s;
               s = s\<lparr>regs_at := (regs_at s)(regs := process_regs)\<rparr>
           in kbind (vmm_clone_pagemap (pcb_pagemap_hhdm_ptr (pcb_at s pcb)) s) (\<lambda>(pagemap, s).
              let s = set_pcb child_pcb (\<lambda>c. c\<lparr>pcb_pagemap_hhdm_ptr := pagemap,
                        pcb_process_heap_ptr := pcb_process_heap_ptr (pcb_at s pcb)\<rparr>) s;
                  s = s\<lparr>regs_at := (regs_at s)(regs := (regs_at s regs)\<lparr>ii_rax := 0\<rparr>)\<rparr>
              in kbind (arr_set (g_process_list s) (unat (pcb_pid (pcb_at s child_pcb))) child_pcb) (\<lambda>ps.
                 kbind (scheduler_add_task child_pcb (s\<lparr>g_process_list := ps\<rparr>)) (\<lambda>s.
                 Inr (ucast (pcb_pid (pcb_at s child_pcb)), s)))))))))"

section \<open>Exit and wait\<close>

definition exit_fd :: "u64 \<Rightarrow> u64 \<Rightarrow> ('d, 'a) kernel_state_scheme \<Rightarrow> ('d, 'a) kernel_state_scheme kres" where
  "exit_fd pcb i s =
     kbind (arr_get (pcb_fds (pcb_at s pcb)) (unat i)) (\<lambda>f.
     if f = 0 then Inr s
     else kbind (vfs_close f s) (\<lambda>(_, s). set_fd pcb (unat i) 0 s))"

text \<open>The loop that gives the children of a process to process 1.\<close>

definition reparent :: "u64 \<Rightarrow> u64 list \<Rightarrow> pcb_store \<Rightarrow> pcb_store" where
  "reparent pcb ps h =
     fold (\<lambda>p h. if p = 0 \<or> pcb_ppid (h p) \<noteq> pcb_pid (h pcb) then h else pcb_update p (pcb_ppid_update (\<lambda>_. 1)) h) ps h"

definition pm_exit :: "u32 \<Rightarrow> u64 \<Rightarrow> ('d, 'a) kernel_state_scheme \<Rightarrow> ('d, 'a) kernel_state_scheme kres" where
  "pm_exit status pcb s =
     nonnull pcb
     (let s = set_pcb pcb (\<lambda>p. p\<lparr>pcb_exit_status := status, pcb_process_state := PS_ZOMBIE_STATE\<rparr>) s
      in kbind (for_loop 0 (of_nat MAX_PROCESS_FDS :: u64) (exit_fd pcb) s) (\<lambda>s.
         let s = s\<lparr>pcb_at := reparent pcb (g_process_list s) (pcb_at s)\<rparr>
         in kbind (arr_get (g_process_list s) (unat (pcb_ppid (pcb_at s pcb)))) (\<lambda>parent.
            kassert (parent \<noteq> 0) ''Process does not have a valid parent process''
              (pm_waitqueue_dequeue_all (pcb_parent_wait_queue (pcb_at s parent)) s))))"

text \<open>The search of pm\_wait from index i on: the first zombie child, and whether another child was seen.\<close>

fun find_zombie :: "pcb_store \<Rightarrow> u64 \<Rightarrow> u64 list \<Rightarrow> nat \<Rightarrow> bool \<Rightarrow> nat option \<times> bool" where
  "find_zombie h pid [] i has_children = (None, has_children)"
| "find_zombie h pid (p # ps) i has_children =
     (if p = 0 \<or> pcb_ppid (h p) \<noteq> pid then find_zombie h pid ps (i + 1) has_children
      else if pcb_process_state (h p) \<noteq> PS_ZOMBIE_STATE then find_zombie h pid ps (i + 1) True
      else (Some i, has_children))"

definition store_status :: "u64 \<Rightarrow> u32 \<Rightarrow> 'a vmm_state_scheme \<Rightarrow> 'a vmm_state_scheme kres" where
  "store_status status v s = (if status \<noteq> 0 then store_bytes status (le_bytes 4 v) s else Inr s)"

definition pm_wait :: "u64 \<Rightarrow> u64 \<Rightarrow> ('d, 'a) kernel_state_scheme \<Rightarrow> (u64 \<times> ('d, 'a) kernel_state_scheme) kres" where
  "pm_wait status pcb s =
     (case find_zombie (pcb_at s) (pcb_pid (pcb_at s pcb)) (g_process_list s) 0 False of
        (Some i, _) \<Rightarrow>
          let child = g_process_list s ! i
          in kbind (store_status status (pcb_exit_status (pcb_at s child)) s) (\<lambda>s.
             let repead_pid = pcb_pid (pcb_at s child)
             in kbind (vmm_delete_pagemap (pcb_pagemap_hhdm_ptr (pcb_at s child)) s) (\<lambda>s.
                kbind (kfree (pcb_interrupt_info (pcb_at s child)) s) (\<lambda>s.
                kbind (kfree (pcb_parent_wait_queue (pcb_at s child)) s) (\<lambda>s.
                kbind (kfree child s) (\<lambda>s.
                Inr (repead_pid, s\<lparr>g_process_list := (g_process_list s)[i := 0]\<rparr>))))))
      | (None, has_children) \<Rightarrow>
          if \<not> has_children then Inr (-1, s)
          else kbind (pm_waitqueue_enqueue (pcb_parent_wait_queue (pcb_at s pcb)) s) (\<lambda>s. Inr (0, s)))"

section \<open>Switching processes\<close>

definition pm_scheduler_context_switch ::
  "(('d, 'a) kernel_state_scheme \<Rightarrow> ('d, 'a) kernel_state_scheme kres) \<Rightarrow> interrupt_info \<Rightarrow> ('d, 'a) kernel_state_scheme \<Rightarrow>
   (interrupt_info \<times> ('d, 'a) kernel_state_scheme) kres" where
  "pm_scheduler_context_switch idle curr_task_state s =
     (if g_cpu_is_idle s then Inr (curr_task_state, s)
      else kassert (\<not> gdt_is_segment_ring0 (ucast (ii_code_segment curr_task_state)))
        ''Scheduler trying to context switch from ring0 process''
        (nonnull (g_curr_task s)
        (if task_queue_empty (g_runnable_tasks s) \<and> \<not> pcb_kill_signal (pcb_at s (g_curr_task s)) then Inr (curr_task_state, s)
         else
           kbind (if pcb_kill_signal (pcb_at s (g_curr_task s)) then pm_exit KILL_SINGLA_EXIT_CODE (g_curr_task s) s
                  else
                    let s = s\<lparr>regs_at := (regs_at s)(pcb_interrupt_info (pcb_at s (g_curr_task s)) := curr_task_state)\<rparr>
                    in kbind (task_enqueue (g_runnable_tasks s) (g_curr_task s) (pcb_at s)) (\<lambda>(q, h).
                       Inr (s\<lparr>g_runnable_tasks := q, pcb_at := h\<rparr>))) (\<lambda>s.
           kbind (pm_load_next_ready_process idle s) (\<lambda>(regs, s).
           Inr (regs_at s regs, s))))))"

definition process_exception_handler ::
  "(('d, 'a) kernel_state_scheme \<Rightarrow> ('d, 'a) kernel_state_scheme kres) \<Rightarrow> interrupt_info \<Rightarrow> ('d, 'a) kernel_state_scheme \<Rightarrow>
   (interrupt_info \<times> ('d, 'a) kernel_state_scheme) kres" where
  "process_exception_handler idle info s =
     (if gdt_is_segment_ring0 (ucast (ii_code_segment info))
      then Inl (Kernel_panic ''Kernel space process crushed with exception'')
      else nonnull (pm_get_curr_pcb s)
        (pm_scheduler_context_switch idle info (set_pcb (pm_get_curr_pcb s) (pcb_kill_signal_update (\<lambda>_. True)) s)))"

section \<open>The first process\<close>

definition dev_tty_path :: "u8 list" where
  "dev_tty_path = [0x2F, 0x64, 0x65, 0x76, 0x2F, 0x74, 0x74, 0x79, 0]"

definition sbin_init_path :: "u8 list" where
  "sbin_init_path = [0x2F, 0x73, 0x62, 0x69, 0x6E, 0x2F, 0x69, 0x6E, 0x69, 0x74, 0]"

definition exception_handlers :: "cpu_exceptions_indexes list" where
  "exception_handlers = [CEI_DIVIDE_ERROR, CEI_INVALID_OPCODE, CEI_GENERAL_PROTECTION, CEI_STACK_SEGMENT_FAULT,
     CEI_STACK_SEGMENT_FAULT, CEI_X87_FLOATING_POINT_ERROR, CEI_ALIGNMENT_CHECK, CEI_PAGE_FAULT, CEI_DEBUG_EXCEPTION, CEI_BREAKPOINT]"

text \<open>
  \<open>handler\<close> and \<open>switch\<close> are the addresses of process\_exception\_handler and of the context
  switch. The result is the entry point and stack the processor jumps to in user mode.
\<close>

definition init_process_manager ::
  "u64 \<Rightarrow> u64 \<Rightarrow> 'b apic_state_scheme \<times> ('d, 'a) kernel_state_scheme \<Rightarrow>
   ((u64 \<times> u64) \<times> 'b apic_state_scheme \<times> ('d, 'a) kernel_state_scheme) kres" where
  "init_process_manager handler switch = (\<lambda>(a, s).
     kbind (kmalloc SIZEOF_process_control_block s) (\<lambda>(pcb, s).
     kbind (generate_pid s) (\<lambda>pid.
     let s = set_pcb pcb (\<lambda>p. p\<lparr>pcb_pid := pid, pcb_ppid := 0, pcb_kill_signal := False, pcb_process_state := PS_READY_STATE\<rparr>) s
     in kbind (pm_create_wait_queue s) (\<lambda>(q, s).
        let s = set_pcb pcb (pcb_parent_wait_queue_update (\<lambda>_. q)) s
        in kbind (vfs_open dev_tty_path s) (\<lambda>(tty_dev, s).
           kassert (tty_dev \<noteq> 0) ''Failed to open /dev/tty for init process file descriptors''
           (let s = set_pcb pcb (pcb_fds_update (\<lambda>_. [tty_dev, tty_dev, tty_dev] @ replicate 29 0)) s
            in kbind (vfs_open sbin_init_path s) (\<lambda>(init_file, s).
               kassert (init_file \<noteq> 0) ''Failed to open init process file /sbin/init''
               (kbind (vmm_create_new_pagemap s) (\<lambda>(pagemap, s).
                kbind (load_elf_to_memory init_file pagemap s) (\<lambda>(elf_info, s).
                kassert (elf_info \<noteq> 0) ''Failed to load init process into memory''
                (kbind (pmm_alloc_page s) (\<lambda>(stack_page, s).
                 kbind (vmm_map_page pagemap (USER_STACK_PTR - REGULAR_PAGE_SIZE) stack_page
                   (MPF_OVERRIDE_CURRENT_PAGING OR MPF_WRITABLE_PAGE OR MPF_USER_ACCESSIBLE) s) (\<lambda>(mappage_result, s).
                 kassert (mappage_result = 0) ''Failed to map init process stack into memory''
                 (let s = vmm_reload_cr3 pagemap s;
                      s = set_pcb pcb (\<lambda>p. p\<lparr>pcb_pagemap_hhdm_ptr := pagemap, pcb_process_heap_ptr := info_heap_start s elf_info\<rparr>) s
                  in kbind (kmalloc SIZEOF_interrupt_info s) (\<lambda>(regs, s).
                     let s = set_pcb pcb (pcb_interrupt_info_update (\<lambda>_. regs)) s
                     in kbind (arr_set (g_process_list s) (unat (pcb_pid (pcb_at s pcb))) pcb) (\<lambda>ps.
                        kbind (scheduler_add_task pcb (s\<lparr>g_process_list := ps\<rparr>)) (\<lambda>s.
                        kbind (fold (\<lambda>e r. kbind r (set_cpu_exception_handler e handler)) exception_handlers (Inr (ks_handlers s))) (\<lambda>h.
                        let s = s\<lparr>ks_handlers := h\<rparr>; entry_point = info_entry_point s elf_info
                        in kbind (kfree elf_info s) (\<lambda>s.
                           Inr ((entry_point, USER_STACK_PTR), init_scheduler switch a, s))))))))))))))))))))"

end
