(* ===== verification/Scheduling.thy ===== *)
theory Scheduling
  imports Process_Manager
begin

text \<open>
  What the scheduler does to processes: the timer switches round robin and every process resumes
  with the registers it was interrupted with; waking a wait queue makes all its processes
  runnable, in order.
\<close>

section \<open>Round robin\<close>

text \<open>
  \<open>cur\<close> runs and \<open>ready\<close> waits for the processor, in this order. Each process has its own saved
  frame; \<open>frame\<close> is what that frame holds.
\<close>

definition frames_apart :: "pcb_store \<Rightarrow> u64 set \<Rightarrow> bool" where
  "frames_apart h X \<longleftrightarrow> inj_on (\<lambda>p. pcb_interrupt_info (h p)) X"

definition sched_rel :: "'a sched_state_scheme \<Rightarrow> u64 \<Rightarrow> u64 list \<Rightarrow> bool" where
  "sched_rel s cur ready \<longleftrightarrow> g_curr_task s = cur \<and> tasks (pcb_at s) (g_runnable_tasks s) ready \<and> cur \<noteq> 0 \<and> cur \<notin> set ready \<and>
     \<not> g_cpu_is_idle s \<and> frames_apart (pcb_at s) (insert cur (set ready)) \<and>
     (\<forall>p \<in> insert cur (set ready). \<not> pcb_kill_signal (pcb_at s p))"

definition frame :: "'a sched_state_scheme \<Rightarrow> u64 \<Rightarrow> interrupt_info" where
  "frame s p = regs_at s (pcb_interrupt_info (pcb_at s p))"

definition user_frame :: "interrupt_info \<Rightarrow> bool" where
  "user_frame f \<longleftrightarrow> \<not> gdt_is_segment_ring0 (ucast (ii_code_segment f))"

lemma load_next_ready:
  assumes "tasks (pcb_at s) (g_runnable_tasks s) (x # xs)"
  shows "\<exists>q h. pm_load_next_ready_process idle s = Inr (pcb_interrupt_info (pcb_at s x),
      vmm_reload_cr3 (pcb_pagemap_hhdm_ptr (pcb_at s x)) (s\<lparr>g_cpu_is_idle := False, g_curr_task := x, g_runnable_tasks := q, pcb_at := h\<rparr>)) \<and>
    tasks h q xs \<and> relinked {x} (pcb_at s) h"
proof -
  obtain q h where d: "task_dequeue (g_runnable_tasks s) (pcb_at s) = Inr (x, q, h)" "tasks h q xs" "relinked {x} (pcb_at s) h"
    using task_dequeue_tasks[OF assms] by blast
  have "idle_loop idle s = Some (Inr s)"
    using tasks_empty_iff[OF assms] by (subst idle_loop.simps) simp
  then show ?thesis
    using d relinked_fields[OF d(3), of x] by (auto simp: pm_load_next_ready_process_def Let_def vmm_reload_cr3_def)
qed

text \<open>One timer switch.\<close>

lemma switch_round_robin:
  assumes rel: "sched_rel s cur ready" and f: "user_frame f"
  shows "\<exists>s'. pm_scheduler_context_switch idle f s = Inr (hd (map (frame s) ready @ [f]), s') \<and>
    sched_rel s' (hd (ready @ [cur])) (tl (ready @ [cur])) \<and>
    (\<forall>p \<in> set ready. frame s' p = frame s p) \<and> (ready \<noteq> [] \<longrightarrow> frame s' cur = f)"
proof (cases ready)
  case Nil
  then show ?thesis using rel f tasks_empty_iff[of "pcb_at s" "g_runnable_tasks s" ready]
    by (auto simp: sched_rel_def pm_scheduler_context_switch_def nonnull_def user_frame_def)
next
  case (Cons x xs)
  let ?a = "pcb_interrupt_info (pcb_at s cur)"
  let ?s1 = "s\<lparr>regs_at := (regs_at s)(?a := f)\<rparr>"
  have r: "g_curr_task s = cur" "tasks (pcb_at s) (g_runnable_tasks s) ready" "cur \<noteq> 0" "cur \<notin> set ready" "\<not> g_cpu_is_idle s"
    "frames_apart (pcb_at s) (insert cur (set ready))" "\<forall>p \<in> insert cur (set ready). \<not> pcb_kill_signal (pcb_at s p)"
    using rel by (simp_all add: sched_rel_def)
  obtain q h where e: "task_enqueue (g_runnable_tasks s) cur (pcb_at s) = Inr (q, h)" "tasks h q (ready @ [cur])"
    "relinked (insert cur (set ready)) (pcb_at s) h"
    using task_enqueue_tasks[OF r(2,3,4)] by blast
  let ?s2 = "?s1\<lparr>g_runnable_tasks := q, pcb_at := h\<rparr>"
  obtain q' h' where l: "pm_load_next_ready_process idle ?s2 = Inr (pcb_interrupt_info (h x),
      vmm_reload_cr3 (pcb_pagemap_hhdm_ptr (h x)) (?s2\<lparr>g_cpu_is_idle := False, g_curr_task := x, g_runnable_tasks := q', pcb_at := h'\<rparr>))"
    "tasks h' q' (xs @ [cur])" "relinked {x} h h'"
    using load_next_ready[of ?s2 x "xs @ [cur]" idle] e(2) Cons by auto
  have rl: "relinked (insert cur (set ready)) (pcb_at s) h'"
    using relinked_trans[OF e(3) relinked_mono[OF l(3)]] Cons by auto
  note fld = relinked_fields[OF rl] relinked_fields[OF e(3)]
  let ?s' = "vmm_reload_cr3 (pcb_pagemap_hhdm_ptr (h x)) (?s2\<lparr>g_cpu_is_idle := False, g_curr_task := x, g_runnable_tasks := q', pcb_at := h'\<rparr>)"
  have ia: "pcb_interrupt_info (pcb_at s p) \<noteq> ?a" if "p \<in> set ready" for p
    using r(6) that r(4) unfolding frames_apart_def inj_on_def by (metis insertCI)
  have "\<not> task_queue_empty (g_runnable_tasks s)" using tasks_empty_iff[OF r(2)] Cons by simp
  then have sw: "pm_scheduler_context_switch idle f s = Inr (frame s x, ?s')"
    using r e(1) l(1) f ia[of x] fld Cons
    by (simp add: pm_scheduler_context_switch_def nonnull_def user_frame_def frame_def vmm_reload_cr3_def)
  have "sched_rel ?s' x (xs @ [cur])"
    using r l(2) Cons fld tq.rep_distinct[OF r(2)]
    by (auto simp: sched_rel_def vmm_reload_cr3_def frames_apart_def inj_on_def)
  moreover have "frame ?s' p = frame s p" if "p \<in> set ready" for p
    using ia[OF that] fld by (simp add: frame_def vmm_reload_cr3_def)
  moreover have "frame ?s' cur = f" using fld by (simp add: frame_def vmm_reload_cr3_def)
  ultimately show ?thesis using sw Cons by (intro exI[of _ ?s']) simp
qed

text \<open>The switches at a sequence of timer ticks; \<open>fs\<close> are the frames of the interrupted processes.\<close>

fun timer_switches ::
  "(('d, 'a) kernel_state_scheme \<Rightarrow> ('d, 'a) kernel_state_scheme kres) \<Rightarrow> interrupt_info list \<Rightarrow> ('d, 'a) kernel_state_scheme \<Rightarrow>
   (interrupt_info list \<times> ('d, 'a) kernel_state_scheme) kres" where
  "timer_switches idle [] s = Inr ([], s)"
| "timer_switches idle (f # fs) s =
     kbind (pm_scheduler_context_switch idle f s) (\<lambda>(g, s). kbind (timer_switches idle fs s) (\<lambda>(gs, s). Inr (g # gs, s)))"

lemma timer_switches_round_robin:
  assumes "sched_rel s cur ready" "list_all user_frame fs"
  shows "\<exists>s'. timer_switches idle fs s = Inr (take (length fs) (map (frame s) ready @ fs), s') \<and>
    sched_rel s' (hd (rotate (length fs) (cur # ready))) (tl (rotate (length fs) (cur # ready)))"
  using assms
proof (induction fs arbitrary: s cur ready)
  case (Cons f fs)
  obtain s1 where s1: "pm_scheduler_context_switch idle f s = Inr (hd (map (frame s) ready @ [f]), s1)"
    "sched_rel s1 (hd (ready @ [cur])) (tl (ready @ [cur]))" "\<forall>p \<in> set ready. frame s1 p = frame s p"
    "ready \<noteq> [] \<longrightarrow> frame s1 cur = f"
    using switch_round_robin[of s cur ready f idle] Cons.prems by auto
  have rot: "hd (ready @ [cur]) # tl (ready @ [cur]) = rotate1 (cur # ready)" by simp
  obtain s2 where s2: "timer_switches idle fs s1 = Inr (take (length fs) (map (frame s1) (tl (ready @ [cur])) @ fs), s2)"
    "sched_rel s2 (hd (rotate (length fs) (rotate1 (cur # ready)))) (tl (rotate (length fs) (rotate1 (cur # ready))))"
    using Cons.IH[OF s1(2)] Cons.prems(2) unfolding rot by auto
  have "hd (map (frame s) ready @ [f]) # take (length fs) (map (frame s1) (tl (ready @ [cur])) @ fs) =
      take (length (f # fs)) (map (frame s) ready @ f # fs)"
  proof (cases ready)
    case (Cons x xs)
    then have "map (frame s1) xs = map (frame s) xs" using s1(3) by simp
    then show ?thesis using s1(4) Cons by (simp del: map_eq_conv)
  qed simp
  moreover have "rotate (length fs) (rotate1 (cur # ready)) = rotate (length (f # fs)) (cur # ready)"
    by (simp add: rotate_def funpow_swap1 del: rotate1.simps)
  ultimately show ?case using s1(1) s2 by auto
qed simp

section \<open>Waking processes\<close>

text \<open>The wait queue w stands for \<open>waiting\<close>, the run queue for \<open>ready\<close>.\<close>

definition wait_rel :: "'a sched_state_scheme \<Rightarrow> u64 \<Rightarrow> u64 list \<Rightarrow> u64 list \<Rightarrow> bool" where
  "wait_rel s w waiting ready \<longleftrightarrow> w \<noteq> 0 \<and> tasks (pcb_at s) (waitq_at s w) waiting \<and>
     tasks (pcb_at s) (g_runnable_tasks s) ready \<and> set waiting \<inter> set ready = {}"

text \<open>Stores that differ in the state of the tasks in X and in next pointers.\<close>

lemma tasks_state: "tasks (pcb_update p (pcb_process_state_update f) h) q xs = tasks h q xs"
  by (rule tasks_cong) (simp add: pcb_update_def)

lemma wake_first_rel:
  assumes "wait_rel s w (x # waiting) ready"
  shows "\<exists>q r h. wake_first w s = Inr (s\<lparr>waitq_at := (waitq_at s)(w := q), g_runnable_tasks := r, pcb_at := h\<rparr>) \<and>
    wait_rel (s\<lparr>waitq_at := (waitq_at s)(w := q), g_runnable_tasks := r, pcb_at := h\<rparr>) w waiting (ready @ [x]) \<and>
    (\<forall>p. pcb_process_state (h p) = (if p = x then PS_READY_STATE else pcb_process_state (pcb_at s p)))"
proof -
  have r: "w \<noteq> 0" "tasks (pcb_at s) (waitq_at s w) (x # waiting)" "tasks (pcb_at s) (g_runnable_tasks s) ready"
    "set (x # waiting) \<inter> set ready = {}" using assms by (simp_all add: wait_rel_def)
  have x: "x \<noteq> 0" "x \<notin> set waiting" "x \<notin> set ready" using tq.rep_distinct[OF r(2)] r(4) by auto
  obtain q h where d: "task_dequeue (waitq_at s w) (pcb_at s) = Inr (x, q, h)" "tasks h q waiting" "relinked {x} (pcb_at s) h"
    using task_dequeue_tasks[OF r(2)] by blast
  let ?h = "pcb_update x (pcb_process_state_update (\<lambda>_. PS_READY_STATE)) h"
  have "tasks h (g_runnable_tasks s) ready" by (rule tasks_relinked[OF d(3) _ r(3)]) (use x in auto)
  then have t: "tasks ?h (g_runnable_tasks s) ready" "tasks ?h q waiting" using d(2) by (simp_all add: tasks_state)
  obtain r' h' where e: "task_enqueue (g_runnable_tasks s) x ?h = Inr (r', h')" "tasks h' r' (ready @ [x])"
    "relinked (insert x (set ready)) ?h h'" using task_enqueue_tasks[OF t(1) x(1,3)] by blast
  have "tasks h' q waiting" by (rule tasks_relinked[OF e(3) _ t(2)]) (use x r(4) in auto)
  moreover have "pcb_process_state (h' p) = (if p = x then PS_READY_STATE else pcb_process_state (pcb_at s p))" for p
    using relinked_fields(5)[OF e(3), of p] relinked_fields(5)[OF d(3), of p] by (simp add: pcb_update_def)
  ultimately show ?thesis using d(1) e(1,2) r x
    by (intro exI[of _ q] exI[of _ r'] exI[of _ h']) (auto simp: wake_first_def wait_rel_def)
qed

lemma dequeue_all_rel:
  assumes "wait_rel s w waiting ready"
  shows "\<exists>q r h. pm_waitqueue_dequeue_all w s = Inr (s\<lparr>waitq_at := (waitq_at s)(w := q), g_runnable_tasks := r, pcb_at := h\<rparr>) \<and>
    tasks h q [] \<and> tasks h r (ready @ waiting) \<and>
    (\<forall>p. pcb_process_state (h p) = (if p \<in> set waiting then PS_READY_STATE else pcb_process_state (pcb_at s p)))"
proof -
  have e: "\<exists>q r h. wake_all w s = Some (Inr (s\<lparr>waitq_at := (waitq_at s)(w := q), g_runnable_tasks := r, pcb_at := h\<rparr>)) \<and>
    tasks h q [] \<and> tasks h r (ready @ waiting) \<and>
    (\<forall>p. pcb_process_state (h p) = (if p \<in> set waiting then PS_READY_STATE else pcb_process_state (pcb_at s p)))"
    using assms
  proof (induction waiting arbitrary: s ready)
    case Nil
    then have "task_queue_empty (waitq_at s w)" using tasks_empty_iff[of "pcb_at s" "waitq_at s w" "[]"] by (simp add: wait_rel_def)
    then have "wake_all w s = Some (Inr s)" by (subst wake_all.simps) simp
    moreover have "s = s\<lparr>waitq_at := (waitq_at s)(w := waitq_at s w), g_runnable_tasks := g_runnable_tasks s, pcb_at := pcb_at s\<rparr>" by simp
    ultimately show ?case using Nil by (metis append_Nil2 empty_iff list.set(1) wait_rel_def)
  next
    case (Cons x waiting)
    obtain q r h where k: "wake_first w s = Inr (s\<lparr>waitq_at := (waitq_at s)(w := q), g_runnable_tasks := r, pcb_at := h\<rparr>)"
      "wait_rel (s\<lparr>waitq_at := (waitq_at s)(w := q), g_runnable_tasks := r, pcb_at := h\<rparr>) w waiting (ready @ [x])"
      "\<forall>p. pcb_process_state (h p) = (if p = x then PS_READY_STATE else pcb_process_state (pcb_at s p))"
      using wake_first_rel[OF Cons.prems] by blast
    have "\<not> task_queue_empty (waitq_at s w)" using tasks_empty_iff Cons.prems by (fastforce simp: wait_rel_def)
    then have st: "wake_all w s = wake_all w (s\<lparr>waitq_at := (waitq_at s)(w := q), g_runnable_tasks := r, pcb_at := h\<rparr>)"
      using k(1) by (subst wake_all.simps) simp
    let ?t = "s\<lparr>waitq_at := (waitq_at s)(w := q), g_runnable_tasks := r, pcb_at := h\<rparr>"
    obtain q' r' h' where ih: "wake_all w ?t = Some (Inr (?t\<lparr>waitq_at := (waitq_at ?t)(w := q'), g_runnable_tasks := r', pcb_at := h'\<rparr>))"
      "tasks h' q' []" "tasks h' r' ((ready @ [x]) @ waiting)"
      "\<forall>p. pcb_process_state (h' p) = (if p \<in> set waiting then PS_READY_STATE else pcb_process_state (pcb_at ?t p))"
      using Cons.IH[OF k(2)] by blast
    moreover have "?t\<lparr>waitq_at := (waitq_at ?t)(w := q'), g_runnable_tasks := r', pcb_at := h'\<rparr> =
      s\<lparr>waitq_at := (waitq_at s)(w := q'), g_runnable_tasks := r', pcb_at := h'\<rparr>" by simp
    ultimately show ?case using k(3) unfolding st
      by - (rule exI[of _ q'], rule exI[of _ r'], rule exI[of _ h'], simp add: fun_upd_def)
  qed
  have "pm_waitqueue_dequeue_all w s = r" if "wake_all w s = Some r" for r
    using that assms by (simp add: pm_waitqueue_dequeue_all_def nonnull_def wait_rel_def)
  then show ?thesis using e by blast
qed

section \<open>Property\<close>

text \<open>
  C4: the timer schedules round robin and keeps the processes' registers. While no process is
  killed, the frames loaded at a sequence of timer ticks in user mode are first the saved frames of
  the runnable processes, in the order of the run queue, and then the frames of the processes
  interrupted at the ticks before, in that order: every process resumes exactly where it was
  interrupted, once per round. The queue is rotated by the number of ticks.
\<close>

theorem timer_round_robin:
  assumes "sched_rel s cur ready" "list_all user_frame fs"
  shows "\<exists>s'. timer_switches idle fs s = Inr (take (length fs) (map (frame s) ready @ fs), s') \<and>
    sched_rel s' (hd (rotate (length fs) (cur # ready))) (tl (rotate (length fs) (cur # ready)))"
  by (rule timer_switches_round_robin[OF assms])

lemma demo_rel: "sched_rel demo_kernel 0x1000 [0x2000, 0x3000]" "user_frame (demo_frame v)"
  by (auto simp: sched_rel_def demo_kernel_def tasks_def demo_pcb_def frames_apart_def user_frame_def demo_frame_def
      gdt_is_segment_ring0_def selector_privilege_level_def)

theorem timer_round_robin_witness:
  "\<exists>s'. timer_switches Inr [demo_frame 5, demo_frame 6, demo_frame 7] demo_kernel = Inr ([demo_frame 2, demo_frame 3, demo_frame 5], s') \<and>
     sched_rel s' 0x1000 [0x2000, 0x3000]"
proof -
  have "map (frame demo_kernel) [0x2000, 0x3000] = [demo_frame 2, demo_frame 3]"
    by (simp add: frame_def demo_kernel_def demo_pcb_def)
  then show ?thesis
    using timer_round_robin[OF demo_rel(1), of "[demo_frame 5, demo_frame 6, demo_frame 7]" Inr] demo_rel(2)
    by (simp add: rotate_def)
qed

end
