(* ===== verification/Keyboard_Wait.thy ===== *)
theory Keyboard_Wait
  imports Scheduling
begin

text \<open>
  A process that reads the keyboard before a key is pressed: it blocks, the keyboard interrupt
  makes it runnable again, and the read it repeats returns the character.
\<close>

lemma ps2_read_empty:
  assumes "rb_wf (s_ps2keyboard_rb (ks_ps2 s))" "rb_contents (s_ps2keyboard_rb (ks_ps2 s)) = []" "sz \<noteq> 0"
  shows "ps2_read sz s = kbind (pm_waitqueue_enqueue (device_wait_queue (ks_ps2 s)) s) (\<lambda>s. Inr (0, [], s))"
proof -
  obtain n where "unat sz = Suc n" using assms(3) by (metis not0_implies_Suc unat_eq_zero)
  then show ?thesis using rb_pop_empty[OF assms(2,1)] by (simp add: ps2_read_def)
qed

lemma ps2_read_loop_one:
  assumes "rb_wf (s_ps2keyboard_rb (ks_ps2 s))" "rb_contents (s_ps2keyboard_rb (ks_ps2 s)) = []" "acc \<noteq> []"
  shows "ps2_read_loop n acc s = Inr (int (length acc), acc, s)"
  using rb_pop_empty[OF assms(2,1)] assms(3) by (cases n) simp_all

lemma ps2_read_one:
  assumes "rb_wf (s_ps2keyboard_rb (ks_ps2 s))" "rb_contents (s_ps2keyboard_rb (ks_ps2 s)) = [c]" "sz \<noteq> 0"
  shows "\<exists>s'. ps2_read sz s = Inr (1, [c], s')"
proof -
  obtain n where n: "unat sz = Suc n" using assms(3) by (metis not0_implies_Suc unat_eq_zero)
  obtain rb where rb: "ring_buffer_pop (s_ps2keyboard_rb (ks_ps2 s)) 0 = Inr (True, c, rb)" "rb_wf rb" "rb_contents rb = []"
    using rb_pop_nonempty[OF assms(1,2)] by blast
  then show ?thesis using n ps2_read_loop_one[of "s\<lparr>ks_ps2 := (ks_ps2 s)\<lparr>s_ps2keyboard_rb := rb\<rparr>\<rparr>" "[c]" n]
    by (simp add: ps2_read_def)
qed

text \<open>The current process joins a wait queue.\<close>

lemma waitqueue_enqueue_rel:
  assumes "wait_rel s w waiting ready" "g_curr_task s = cur" "cur \<noteq> 0" "cur \<notin> set waiting" "cur \<notin> set ready"
  shows "\<exists>q h. pm_waitqueue_enqueue w s = Inr (s\<lparr>pcb_at := h, waitq_at := (waitq_at s)(w := q)\<rparr>) \<and>
    tasks h q (waiting @ [cur]) \<and> tasks h (g_runnable_tasks s) ready \<and> pcb_process_state (h cur) = PS_WAITING_STATE"
proof -
  let ?h = "pcb_update cur (pcb_process_state_update (\<lambda>_. PS_WAITING_STATE)) (pcb_at s)"
  have r: "w \<noteq> 0" "tasks ?h (waitq_at s w) waiting" "tasks ?h (g_runnable_tasks s) ready" "set waiting \<inter> set ready = {}"
    using assms(1) by (simp_all add: wait_rel_def tasks_state)
  obtain q h where e: "task_enqueue (waitq_at s w) cur ?h = Inr (q, h)" "tasks h q (waiting @ [cur])" "relinked (insert cur (set waiting)) ?h h"
    using task_enqueue_tasks[OF r(2) assms(3,4)] by blast
  have "tasks h (g_runnable_tasks s) ready" by (rule tasks_relinked[OF e(3) _ r(3)]) (use assms r(4) in auto)
  moreover have "pcb_process_state (h cur) = PS_WAITING_STATE"
    using relinked_fields(5)[OF e(3), of cur] by (simp add: pcb_update_def)
  ultimately show ?thesis using e(1,2) assms(2,3) r(1)
    by (intro exI[of _ q] exI[of _ h]) (simp add: pm_waitqueue_enqueue_def nonnull_def)
qed

lemma keyboard_interrupt_rel:
  assumes w: "wait_rel s (device_wait_queue (ks_ps2 s)) waiting ready"
    and rb: "rb_wf (s_ps2keyboard_rb (ks_ps2 s))" "length (rb_contents (s_ps2keyboard_rb (ks_ps2 s))) < rb_room (s_ps2keyboard_rb (ks_ps2 s))"
    and key: "fst (inb hw (io_port IO_KEYBOARD_DATA_PORT) (ks_dev s)) = code" "unat code < 58"
  shows "\<exists>s'. keyboard_interrupt_handler hw a s = Inr s' \<and> wait_rel s' (device_wait_queue (ks_ps2 s)) [] (ready @ waiting) \<and>
    (\<forall>p \<in> set waiting. pcb_process_state (pcb_at s' p) = PS_READY_STATE) \<and> device_wait_queue (ks_ps2 s') = device_wait_queue (ks_ps2 s) \<and>
    rb_wf (s_ps2keyboard_rb (ks_ps2 s')) \<and>
    rb_contents (s_ps2keyboard_rb (ks_ps2 s')) = rb_contents (s_ps2keyboard_rb (ks_ps2 s)) @ [SCAN_CODE_LOOKUP_TABLE ! unat code]"
proof -
  let ?c = "SCAN_CODE_LOOKUP_TABLE ! unat code" and ?w = "device_wait_queue (ks_ps2 s)"
  have len: "length SCAN_CODE_LOOKUP_TABLE = 58" by (simp add: SCAN_CODE_LOOKUP_TABLE_def)
  obtain d where d: "inb hw (io_port IO_KEYBOARD_DATA_PORT) (ks_dev s) = (code, d)" using key(1) by (metis prod.collapse)
  obtain rb' where p: "ring_buffer_push (s_ps2keyboard_rb (ks_ps2 s)) ?c = Inr (True, rb')" "rb_wf rb'"
    "rb_contents rb' = rb_contents (s_ps2keyboard_rb (ks_ps2 s)) @ [?c]"
    using rb_fifo.push_accepts[OF rb] by blast
  let ?s = "s\<lparr>ks_dev := d, ks_ps2 := (ks_ps2 s)\<lparr>s_ps2keyboard_rb := rb'\<rparr>\<rparr>"
  have "wait_rel ?s ?w waiting ready" using w by (simp add: wait_rel_def)
  from dequeue_all_rel[OF this] obtain q r h where
    k: "pm_waitqueue_dequeue_all ?w ?s = Inr (?s\<lparr>waitq_at := (waitq_at ?s)(?w := q), g_runnable_tasks := r, pcb_at := h\<rparr>)"
    "tasks h q []" "tasks h r (ready @ waiting)" "\<forall>p. pcb_process_state (h p) = (if p \<in> set waiting then PS_READY_STATE else pcb_process_state (pcb_at ?s p))"
    by blast
  then show ?thesis using d key(2) len p w by (auto simp: keyboard_interrupt_handler_def wait_rel_def)
qed

section \<open>Property\<close>

text \<open>
  C10: a read of the keyboard waits for a key. With no input, ps2\_read puts the current process to
  sleep in the keyboard's wait queue and returns 0; a key press then wakes every waiting process
  in order, the reader last, and its repeated read returns the one character of the key.
\<close>

theorem keyboard_read_waits_for_key:
  assumes "wait_rel s (device_wait_queue (ks_ps2 s)) waiting ready"
    "g_curr_task s = cur" "cur \<noteq> 0" "cur \<notin> set waiting" "cur \<notin> set ready"
    "rb_wf (s_ps2keyboard_rb (ks_ps2 s))" "rb_contents (s_ps2keyboard_rb (ks_ps2 s)) = []" "2 \<le> buffer_size (s_ps2keyboard_rb (ks_ps2 s))"
    "sz \<noteq> 0" "fst (inb hw (io_port IO_KEYBOARD_DATA_PORT) (ks_dev s)) = code" "unat code < 58"
  shows "\<exists>s1 s2 s3. ps2_read sz s = Inr (0, [], s1) \<and> pcb_process_state (pcb_at s1 cur) = PS_WAITING_STATE \<and>
    keyboard_interrupt_handler hw a s1 = Inr s2 \<and> wait_rel s2 (device_wait_queue (ks_ps2 s)) [] (ready @ waiting @ [cur]) \<and>
    pcb_process_state (pcb_at s2 cur) = PS_READY_STATE \<and> ps2_read sz s2 = Inr (1, [SCAN_CODE_LOOKUP_TABLE ! unat code], s3)"
proof -
  let ?w = "device_wait_queue (ks_ps2 s)"
  obtain q h where e: "pm_waitqueue_enqueue ?w s = Inr (s\<lparr>pcb_at := h, waitq_at := (waitq_at s)(?w := q)\<rparr>)"
    "tasks h q (waiting @ [cur])" "tasks h (g_runnable_tasks s) ready" "pcb_process_state (h cur) = PS_WAITING_STATE"
    using waitqueue_enqueue_rel[OF assms(1-5)] by blast
  let ?s1 = "s\<lparr>pcb_at := h, waitq_at := (waitq_at s)(?w := q)\<rparr>"
  have r1: "ps2_read sz s = Inr (0, [], ?s1)" using ps2_read_empty[OF assms(6,7,9)] e(1) by simp
  have w1: "wait_rel ?s1 (device_wait_queue (ks_ps2 ?s1)) (waiting @ [cur]) ready"
    using assms(1,5) e by (auto simp: wait_rel_def)
  have room: "length (rb_contents (s_ps2keyboard_rb (ks_ps2 ?s1))) < rb_room (s_ps2keyboard_rb (ks_ps2 ?s1))"
    using assms(7,8) by (simp add: rb_room_def word_le_nat_alt)
  obtain s2 where k: "keyboard_interrupt_handler hw a ?s1 = Inr s2" "wait_rel s2 ?w [] (ready @ waiting @ [cur])"
    "pcb_process_state (pcb_at s2 cur) = PS_READY_STATE" "rb_wf (s_ps2keyboard_rb (ks_ps2 s2))"
    "rb_contents (s_ps2keyboard_rb (ks_ps2 s2)) = [SCAN_CODE_LOOKUP_TABLE ! unat code]"
    using keyboard_interrupt_rel[OF w1 _ room, of hw code a] assms by auto
  obtain s3 where "ps2_read sz s2 = Inr (1, [SCAN_CODE_LOOKUP_TABLE ! unat code], s3)"
    using ps2_read_one[OF k(4,5) assms(9)] by blast
  then show ?thesis using r1 k e(4) by - (rule exI[of _ ?s1], rule exI[of _ s2], rule exI[of _ s3], simp)
qed

definition demo_keyboard :: "unit hw" where
  "demo_keyboard = \<lparr>hw_inb = (\<lambda>_ d. (0x1E, d)), hw_outb = (\<lambda>_ _ d. d), hw_inw = (\<lambda>_ d. (0, d)), hw_outw = (\<lambda>_ _ d. d),
     hw_read32 = (\<lambda>_ d. (0, d)), hw_write32 = (\<lambda>_ _ d. d)\<rparr>"

theorem keyboard_read_waits_for_key_witness:
  "\<exists>s1 s2 s3. ps2_read 10 demo_kernel = Inr (0, [], s1) \<and> keyboard_interrupt_handler demo_keyboard apic_demo s1 = Inr s2 \<and>
     ps2_read 10 s2 = Inr (1, [0x61], s3)"
proof -
  have "wait_rel demo_kernel (device_wait_queue (ks_ps2 demo_kernel)) [] [0x2000, 0x3000]"
    by (simp add: wait_rel_def tasks_def demo_kernel_def demo_pcb_def)
  moreover have "rb_wf (s_ps2keyboard_rb (ks_ps2 demo_kernel))" "rb_contents (s_ps2keyboard_rb (ks_ps2 demo_kernel)) = []"
    "2 \<le> buffer_size (s_ps2keyboard_rb (ks_ps2 demo_kernel))" "g_curr_task demo_kernel = 0x1000"
    by (simp_all add: demo_kernel_def rb_wf_def rb_contents_def rb_count_def)
  moreover have "fst (inb demo_keyboard (io_port IO_KEYBOARD_DATA_PORT) (ks_dev demo_kernel)) = 0x1E"
    by (simp add: demo_keyboard_def inb_def)
  moreover have "SCAN_CODE_LOOKUP_TABLE ! 30 = 0x61" by (simp add: SCAN_CODE_LOOKUP_TABLE_def)
  ultimately show ?thesis
    using keyboard_read_waits_for_key[of demo_kernel "[]" "[0x2000, 0x3000]" "0x1000" 10 demo_keyboard "0x1E" apic_demo] by auto
qed

end
