(* ===== verification/Syscalls.thy ===== *)
theory Syscalls
  imports Process_Manager
begin

text \<open>
  The system calls, kernel/syscall: the handlers of files, memory and processes, the dispatcher
  with the blocking protocol, and the set-up of the syscall instruction. A handler gets the
  control block of the current process and the register frame, and returns the frame with the
  result in rax.
\<close>

type_synonym ('d, 'a) handler_result = "(interrupt_info \<times> ('d, 'a) kernel_state_scheme) kres"

definition set_rax :: "u64 \<Rightarrow> interrupt_info \<Rightarrow> interrupt_info" where
  "set_rax v regs = regs\<lparr>ii_rax := v\<rparr>"

section \<open>Files: syscall\_fileops.c\<close>

definition is_fd_valid :: "u64 \<Rightarrow> u64 list \<Rightarrow> bool" where
  "is_fd_valid file_desc fd_table \<longleftrightarrow> \<not> (sint file_desc < 0 \<or> sint file_desc \<ge> 32) \<and> fd_table ! unat file_desc \<noteq> 0"

definition pcb_fd :: "u64 \<Rightarrow> u64 \<Rightarrow> 'a sched_state_scheme \<Rightarrow> u64" where
  "pcb_fd pcb fd s = pcb_fds (pcb_at s pcb) ! unat fd"

definition syscall_write_handler ::
  "'d hw \<Rightarrow> u64 \<Rightarrow> interrupt_info \<Rightarrow> ('d, 'a) kernel_state_scheme \<Rightarrow> ('d, 'a) handler_result" where
  "syscall_write_handler hw pcb regs s =
     (let file_desc = ii_rdi regs
      in if \<not> is_fd_valid file_desc (pcb_fds (pcb_at s pcb)) then Inr (set_rax (-1) regs, s)
         else kbind (vfs_write hw (pcb_fd pcb file_desc s) (ii_rsi regs) (ii_rdx regs) s) (\<lambda>(bytes_wrote, s).
              Inr (set_rax (word_of_int bytes_wrote) regs, s)))"

definition syscall_read_handler :: "u64 \<Rightarrow> interrupt_info \<Rightarrow> ('d, 'a) kernel_state_scheme \<Rightarrow> ('d, 'a) handler_result" where
  "syscall_read_handler pcb regs s =
     (let file_desc = ii_rdi regs
      in if \<not> is_fd_valid file_desc (pcb_fds (pcb_at s pcb)) then Inr (set_rax (-1) regs, s)
         else kbind (vfs_read (pcb_fd pcb file_desc s) (ii_rsi regs) (ii_rdx regs) s) (\<lambda>(bytes_read, s).
              Inr (set_rax (word_of_int bytes_read) regs, s)))"

definition syscall_open_handler :: "u64 \<Rightarrow> interrupt_info \<Rightarrow> ('d, 'a) kernel_state_scheme \<Rightarrow> ('d, 'a) handler_result" where
  "syscall_open_handler pcb regs s =
     kbind (vfs_open (load_string (ii_rdi regs) s) s) (\<lambda>(fl, s).
     if fl = 0 then Inr (set_rax (-1) regs, s)
     else case first_null (pcb_fds (pcb_at s pcb)) 0 of
            Some i \<Rightarrow> kbind (set_fd pcb i fl s) (\<lambda>s. Inr (set_rax (of_nat i) regs, s))
          | None \<Rightarrow> Inr (set_rax (-1) regs, s))"

definition syscall_close_handler :: "u64 \<Rightarrow> interrupt_info \<Rightarrow> ('d, 'a) kernel_state_scheme \<Rightarrow> ('d, 'a) handler_result" where
  "syscall_close_handler pcb regs s =
     (let file_desc = ii_rdi regs
      in if \<not> is_fd_valid file_desc (pcb_fds (pcb_at s pcb)) then Inr (set_rax (-1) regs, s)
         else kbind (vfs_close (pcb_fd pcb file_desc s) s) (\<lambda>(r, s).
              kbind (set_fd pcb (unat file_desc) 0 s) (\<lambda>s. Inr (set_rax (word_of_int r) regs, s))))"

definition syscall_dup_handler :: "u64 \<Rightarrow> interrupt_info \<Rightarrow> ('d, 'a) kernel_state_scheme \<Rightarrow> ('d, 'a) handler_result" where
  "syscall_dup_handler pcb regs s =
     (let file_desc = ii_rdi regs
      in if \<not> is_fd_valid file_desc (pcb_fds (pcb_at s pcb)) then Inr (set_rax (-1) regs, s)
         else let fl = pcb_fd pcb file_desc s
              in case first_null (pcb_fds (pcb_at s pcb)) 0 of
                   Some i \<Rightarrow> kbind (set_fd pcb i fl (vfs_update fl (file_ref_count_update (\<lambda>n. n + 1)) s)) (\<lambda>s.
                             Inr (set_rax (of_nat i) regs, s))
                 | None \<Rightarrow> Inr (set_rax (-1) regs, s))"

definition syscall_dup2_handler :: "u64 \<Rightarrow> interrupt_info \<Rightarrow> ('d, 'a) kernel_state_scheme \<Rightarrow> ('d, 'a) handler_result" where
  "syscall_dup2_handler pcb regs s =
     (let oldfd = ii_rdi regs; newfd = ii_rsi regs
      in if \<not> is_fd_valid oldfd (pcb_fds (pcb_at s pcb)) \<or> sint newfd < 0 \<or> sint newfd \<ge> 32 then Inr (set_rax (-1) regs, s)
         else if oldfd = newfd then Inr (set_rax newfd regs, s)
         else kbind (if is_fd_valid newfd (pcb_fds (pcb_at s pcb)) then vfs_close (pcb_fd pcb newfd s) s else Inr (0, s)) (\<lambda>(_, s).
              let fl = pcb_fd pcb oldfd s
              in kbind (set_fd pcb (unat newfd) fl (vfs_update fl (file_ref_count_update (\<lambda>n. n + 1)) s)) (\<lambda>s.
                 Inr (set_rax newfd regs, s))))"

definition syscall_lseek_handler :: "u64 \<Rightarrow> interrupt_info \<Rightarrow> ('d, 'a) kernel_state_scheme \<Rightarrow> ('d, 'a) handler_result" where
  "syscall_lseek_handler pcb regs s =
     (let file_desc = ii_rdi regs
      in if \<not> is_fd_valid file_desc (pcb_fds (pcb_at s pcb)) then Inr (set_rax (-1) regs, s)
         else let (r, s) = vfs_seek (pcb_fd pcb file_desc s) (ii_rsi regs) (ucast (ii_rdx regs)) s
              in Inr (set_rax (word_of_int r) regs, s))"

section \<open>Memory: syscall\_memops.c\<close>

text \<open>
  The loop of the brk handler. Both ends are multiples of the page size, so it runs once for each
  page between them. The result says whether every page was mapped.
\<close>

primrec brk_loop :: "nat \<Rightarrow> u64 \<Rightarrow> u64 \<Rightarrow> 'a vmm_state_scheme \<Rightarrow> (bool \<times> 'a vmm_state_scheme) kres" where
  "brk_loop 0 pagemap curr_page s = Inr (True, s)"
| "brk_loop (Suc n) pagemap curr_page s =
     kbind (pmm_alloc_page s) (\<lambda>(phys_page, s).
     if phys_page = 0 then Inr (False, s)
     else kbind (vmm_map_page pagemap curr_page phys_page
                  (MPF_WRITABLE_PAGE OR MPF_USER_ACCESSIBLE OR MPF_OVERRIDE_CURRENT_PAGING) s) (\<lambda>(mappage_ret, s).
          if mappage_ret \<noteq> 0 then Inr (False, s) else brk_loop n pagemap (curr_page + REGULAR_PAGE_SIZE) s))"

definition syscall_brk_handler :: "u64 \<Rightarrow> interrupt_info \<Rightarrow> ('d, 'a) kernel_state_scheme \<Rightarrow> ('d, 'a) handler_result" where
  "syscall_brk_handler pcb regs s =
     (let prev_heap_addr = pcb_process_heap_ptr (pcb_at s pcb); new_heap_addr = ii_rdi regs
      in if new_heap_addr = 0 \<or> new_heap_addr < prev_heap_addr then Inr (set_rax prev_heap_addr regs, s)
         else
           let start_page = ALIGN_UP prev_heap_addr REGULAR_PAGE_SIZE;
               end_page = ALIGN_UP new_heap_addr REGULAR_PAGE_SIZE;
               pages = (if start_page < end_page then unat ((end_page - start_page) div REGULAR_PAGE_SIZE) else 0)
           in kbind (brk_loop pages (pcb_pagemap_hhdm_ptr (pcb_at s pcb)) start_page s) (\<lambda>(ok, s).
              if ok then Inr (set_rax new_heap_addr regs, set_pcb pcb (pcb_process_heap_ptr_update (\<lambda>_. new_heap_addr)) s)
              else Inr (set_rax prev_heap_addr regs, s)))"

section \<open>Processes: syscall\_process.c\<close>

definition syscall_execve_handler :: "u64 \<Rightarrow> interrupt_info \<Rightarrow> ('d, 'a) kernel_state_scheme \<Rightarrow> ('d, 'a) handler_result" where
  "syscall_execve_handler pcb regs s =
     kbind (pm_execve pcb (ii_rdi regs) regs s) (\<lambda>(r, regs, s). Inr (set_rax (word_of_int r) regs, s))"

definition syscall_fork_handler :: "u64 \<Rightarrow> interrupt_info \<Rightarrow> ('d, 'a) kernel_state_scheme \<Rightarrow> ('d, 'a) handler_result" where
  "syscall_fork_handler pcb regs s = kbind (pm_fork pcb regs s) (\<lambda>(pid, s). Inr (set_rax (scast pid) regs, s))"

definition syscall_getpid_handler :: "u64 \<Rightarrow> interrupt_info \<Rightarrow> ('d, 'a) kernel_state_scheme \<Rightarrow> ('d, 'a) handler_result" where
  "syscall_getpid_handler pcb regs s = Inr (set_rax (pcb_pid (pcb_at s pcb)) regs, s)"

definition syscall_getppid_handler :: "u64 \<Rightarrow> interrupt_info \<Rightarrow> ('d, 'a) kernel_state_scheme \<Rightarrow> ('d, 'a) handler_result" where
  "syscall_getppid_handler pcb regs s = Inr (set_rax (pcb_ppid (pcb_at s pcb)) regs, s)"

definition syscall_exit_handler :: "u64 \<Rightarrow> interrupt_info \<Rightarrow> ('d, 'a) kernel_state_scheme \<Rightarrow> ('d, 'a) handler_result" where
  "syscall_exit_handler pcb regs s = kbind (pm_exit (ucast (ii_rdi regs)) pcb s) (\<lambda>s. Inr (regs, s))"

definition syscall_wait_handler :: "u64 \<Rightarrow> interrupt_info \<Rightarrow> ('d, 'a) kernel_state_scheme \<Rightarrow> ('d, 'a) handler_result" where
  "syscall_wait_handler pcb regs s = kbind (pm_wait (ii_rdi regs) pcb s) (\<lambda>(r, s). Inr (set_rax r regs, s))"

definition syscall_kill_handler :: "u64 \<Rightarrow> interrupt_info \<Rightarrow> ('d, 'a) kernel_state_scheme \<Rightarrow> ('d, 'a) handler_result" where
  "syscall_kill_handler pcb regs s =
     (if ii_rsi regs \<noteq> 9 then Inr (set_rax (-1) regs, s)
      else kbind (pm_kill (scast (ucast (ii_rdi regs) :: u32)) s) (\<lambda>(r, s). Inr (set_rax r regs, s)))"

section \<open>Dispatch: syscall\_entry.c\<close>

text \<open>gettimeofday stores the two fields of the timeval at the address in rdi.\<close>

definition syscall_gettimeofday ::
  "'c cmos_state_scheme \<Rightarrow> 'b apic_state_scheme \<Rightarrow> interrupt_info \<Rightarrow> ('d, 'a) kernel_state_scheme \<Rightarrow> ('d, 'a) handler_result" where
  "syscall_gettimeofday c a regs s =
     (let (r, tv) = gettimeofday \<lparr>tv_sec = 0, tv_usec = 0\<rparr> c a
      in kbind (store_bytes (ii_rdi regs) (le_bytes 8 (tv_sec tv) @ le_bytes 8 (tv_usec tv)) s) (\<lambda>s.
         Inr (set_rax (word_of_int r) regs, s)))"

definition syscall_dispatch ::
  "'d hw \<Rightarrow> 'c cmos_state_scheme \<Rightarrow> 'b apic_state_scheme \<Rightarrow> u64 \<Rightarrow> u64 \<Rightarrow> interrupt_info \<Rightarrow> ('d, 'a) kernel_state_scheme \<Rightarrow>
   ('d, 'a) handler_result" where
  "syscall_dispatch hw c a syscall_num pcb regs s =
     (if syscall_num = 0 then syscall_read_handler pcb regs s
      else if syscall_num = 1 then syscall_write_handler hw pcb regs s
      else if syscall_num = 2 then syscall_open_handler pcb regs s
      else if syscall_num = 3 then syscall_close_handler pcb regs s
      else if syscall_num = 8 then syscall_lseek_handler pcb regs s
      else if syscall_num = 12 then syscall_brk_handler pcb regs s
      else if syscall_num = 32 then syscall_dup_handler pcb regs s
      else if syscall_num = 33 then syscall_dup2_handler pcb regs s
      else if syscall_num = 39 then syscall_getpid_handler pcb regs s
      else if syscall_num = 57 then syscall_fork_handler pcb regs s
      else if syscall_num = 59 then syscall_execve_handler pcb regs s
      else if syscall_num = 60 then syscall_exit_handler pcb regs s
      else if syscall_num = 61 then syscall_wait_handler pcb regs s
      else if syscall_num = 62 then syscall_kill_handler pcb regs s
      else if syscall_num = 96 then syscall_gettimeofday c a regs s
      else if syscall_num = 110 then syscall_getppid_handler pcb regs s
      else Inl (Kernel_panic ''Syscall: unknown syscall number:''))"

text \<open>After the switch: a process that blocked or ended gives up the processor; its call is restarted when it runs again.\<close>

definition syscall_return ::
  "(('d, 'a) kernel_state_scheme \<Rightarrow> ('d, 'a) kernel_state_scheme kres) \<Rightarrow> u64 \<Rightarrow> u64 \<Rightarrow> interrupt_info \<Rightarrow>
   ('d, 'a) kernel_state_scheme \<Rightarrow> ('d, 'a) handler_result" where
  "syscall_return idle syscall_num pcb info s =
     (if pcb_process_state (pcb_at s pcb) \<noteq> PS_WAITING_STATE \<and> pcb_process_state (pcb_at s pcb) \<noteq> PS_ZOMBIE_STATE then Inr (info, s)
      else
        let info = info\<lparr>ii_rax := syscall_num, ii_rip := ii_rip info - 2\<rparr>;
            s = s\<lparr>regs_at := (regs_at s)(pcb_interrupt_info (pcb_at s pcb) := info)\<rparr>
        in kbind (pm_load_next_ready_process idle s) (\<lambda>(regs, s). Inr (regs_at s regs, s)))"

definition syscall_kernel_handler ::
  "'d hw \<Rightarrow> 'c cmos_state_scheme \<Rightarrow> 'b apic_state_scheme \<Rightarrow> (('d, 'a) kernel_state_scheme \<Rightarrow> ('d, 'a) kernel_state_scheme kres) \<Rightarrow>
   interrupt_info \<Rightarrow> ('d, 'a) kernel_state_scheme \<Rightarrow> ('d, 'a) handler_result" where
  "syscall_kernel_handler hw c a idle syscall_info s =
     (let code_segment_ring3 = make_selector 3 False (ucast (gdt_get_segment_index GS_RING3_CODE_SEGMENT));
          data_segment_ring3 = make_selector 3 False (ucast (gdt_get_segment_index GS_RING3_DATA_SEGMENT));
          info = syscall_info\<lparr>ii_code_segment := ucast code_segment_ring3, ii_stack_segment := ucast data_segment_ring3\<rparr>;
          pcb = pm_get_curr_pcb s;
          syscall_num = ii_rax info
      in nonnull pcb (kbind (syscall_dispatch hw c a syscall_num pcb info s) (\<lambda>(info, s).
         syscall_return idle syscall_num pcb info s)))"

section \<open>Entering the kernel: init\_usermode\<close>

record usermode_state = msr_state +
  g_kernel_ptr :: "u64 list"

definition enable_system_call_extension :: "'a msr_state_scheme \<Rightarrow> 'a msr_state_scheme kres" where
  "enable_system_call_extension s =
     kbind (msr_get_register (msr_register MR_EFER_MSR) s) (\<lambda>efer.
     msr_set_register (msr_register MR_EFER_MSR) (efer_set_sce efer) s)"

definition setup_star_registers :: "u64 \<Rightarrow> 'a msr_state_scheme \<Rightarrow> 'a msr_state_scheme kres" where
  "setup_star_registers kernel_entry_addr s =
     (let ring0_cs_index = gdt_get_segment_index GS_RING0_CODE_SEGMENT;
          ring3_ss_index = gdt_get_segment_index GS_RING3_DATA_SEGMENT
      in kassert (uint (gdt_get_segment_index GS_RING0_CODE_SEGMENT) + 1 = uint (gdt_get_segment_index GS_RING0_DATA_SEGMENT))
           ''for ring0 gdt segments: ss_index in gdt must be equal to cs_index+1''
         (kassert (uint (gdt_get_segment_index GS_RING3_DATA_SEGMENT) + 1 = uint (gdt_get_segment_index GS_RING3_CODE_SEGMENT))
           ''for ring3 gdt segments: cs_index in gdt must be equal to ss_index+1''
          (let syscall_cs_ss = make_selector 0 False (ucast ring0_cs_index);
               sysret_cs_ss = make_selector 3 False (ucast (ring3_ss_index - 1))
           in kbind (msr_set_register (msr_register MR_STAR_MSR) (star_make 0 syscall_cs_ss sysret_cs_ss) s) (\<lambda>s.
              msr_set_register (msr_register MR_LSTAR_MSR) kernel_entry_addr s))))"

definition setup_rflags_registers :: "'a msr_state_scheme \<Rightarrow> 'a msr_state_scheme kres" where
  "setup_rflags_registers s =
     msr_set_register (msr_register MR_FSMASK_MSR) (rflags_set Direction_flag (rflags_set Interrupt_enable_flag 0)) s"

text \<open>\<open>g_kernel_stack\<close> and \<open>ptr_addr\<close> are the addresses of the stack and of g\_kernel\_ptr.\<close>

definition setup_gs_kernel_gs_base :: "u64 \<Rightarrow> u64 \<Rightarrow> 'a usermode_state_scheme \<Rightarrow> 'a usermode_state_scheme kres" where
  "setup_gs_kernel_gs_base g_kernel_stack ptr_addr s =
     kbind (arr_set (g_kernel_ptr s) 0 (g_kernel_stack + KERNEL_STACK_SIZE)) (\<lambda>ptr.
     msr_set_register (msr_register MR_KERNEL_GS_BAS_MSR) ptr_addr (s\<lparr>g_kernel_ptr := ptr\<rparr>))"

definition init_usermode :: "u64 \<Rightarrow> u64 \<Rightarrow> u64 \<Rightarrow> 'a usermode_state_scheme \<Rightarrow> 'a usermode_state_scheme kres" where
  "init_usermode entrypoint g_kernel_stack ptr_addr s =
     kbind (enable_system_call_extension s) (\<lambda>s.
     kbind (setup_star_registers entrypoint s) (\<lambda>s.
     kbind (setup_rflags_registers s) (\<lambda>s.
     setup_gs_kernel_gs_base g_kernel_stack ptr_addr s)))"

end
