(* ===== verification/Heap_Frame.thy ===== *)
theory Heap_Frame
  imports Heap_Client
begin

text \<open>
  What the heap leaves alone: kmalloc and kfree change page frames, memory and the block lists and
  nothing above them, so the state of the components that use the heap is as before.
\<close>

definition heap_only :: "'a heap_state_scheme \<Rightarrow> 'a heap_state_scheme \<Rightarrow> bool" where
  "heap_only s s' \<longleftrightarrow> heap_state.more s' = heap_state.more s \<and> vmm_hhdm_offset s' = vmm_hhdm_offset s \<and> cr3 s' = cr3 s"

text \<open>The invariant of the heap depends on the memory, the bitmap and the list heads only.\<close>

lemma heap_inv_cong:
  assumes "kmem t = kmem s" "g_bitmap t = g_bitmap s" "pmm_hhdm_offset t = pmm_hhdm_offset s" "vmm_hhdm_offset t = vmm_hhdm_offset s"
    "g_free_blocks t = g_free_blocks s" "g_free_block_tail t = g_free_block_tail s" "g_super_blocks t = g_super_blocks s"
  shows "heap_inv t L \<longleftrightarrow> heap_inv s L"
proof -
  have "mb_next t = mb_next s" "mb_prev t = mb_prev s" "mb_block_size t = mb_block_size s" "heap_frame t = heap_frame s"
    by (rule ext, simp add: assms mb_next_def mb_prev_def mb_block_size_def heap_frame_def frame_taken_def frame_used_def nframes_def)+
  then show ?thesis
    using assms by (simp add: heap_inv_def heap_rep_def list_inv_def vmm_wf_def pmm_inv_def pmm_wf_def live_ok_def
      frame_taken_def frame_used_def nframes_def)
qed

lemma heap_only_refl [simp]: "heap_only s s"
  by (simp add: heap_only_def)

lemma heap_only_trans: "heap_only s s1 \<Longrightarrow> heap_only s1 s2 \<Longrightarrow> heap_only s s2"
  by (simp add: heap_only_def)

lemma heap_only_eq:
  assumes "heap_only s s'"
  shows "s' = s\<lparr>g_bitmap := g_bitmap s', pmm_hhdm_offset := pmm_hhdm_offset s', kmem := kmem s', g_super_blocks := g_super_blocks s',
    g_free_blocks := g_free_blocks s', g_free_block_tail := g_free_block_tail s'\<rparr>"
  using assms by (intro heap_state.equality) (simp_all add: heap_only_def)

lemma heap_only_updates [simp]:
  "heap_only s (t\<lparr>kmem := m\<rparr>) \<longleftrightarrow> heap_only s t" "heap_only s (t\<lparr>g_super_blocks := b\<rparr>) \<longleftrightarrow> heap_only s t"
  "heap_only s (t\<lparr>g_free_blocks := b\<rparr>) \<longleftrightarrow> heap_only s t" "heap_only s (t\<lparr>g_free_block_tail := b\<rparr>) \<longleftrightarrow> heap_only s t"
  "heap_only s (t\<lparr>g_bitmap := bm\<rparr>) \<longleftrightarrow> heap_only s t"
  by (simp_all add: heap_only_def)

lemma heap_only_blocks [simp]:
  "heap_only s (mb_set_block_size b v t) \<longleftrightarrow> heap_only s t" "heap_only s (mb_set_next b v t) \<longleftrightarrow> heap_only s t"
  "heap_only s (mb_set_prev b v t) \<longleftrightarrow> heap_only s t" "heap_only s (mb_set_padding b v t) \<longleftrightarrow> heap_only s t"
  by (simp_all add: mb_set_block_size_def mb_set_next_def mb_set_prev_def mb_set_padding_def)

lemma kbind_Inr: "kbind r f = Inr y \<longleftrightarrow> (\<exists>x. r = Inr x \<and> f x = Inr y)"
  by (cases r) auto

lemma for_loop_keeps:
  assumes "for_loop i n f s = Inr s'" "I s" "\<And>j t t'. f j t = Inr t' \<Longrightarrow> I t \<Longrightarrow> I t'"
  shows "I s'"
  using assms
proof (induction i n f s rule: for_loop.induct)
  case (1 i n f s)
  show ?case
  proof (cases "i < n")
    case True
    then obtain t where "f i s = Inr t" "for_loop (i + 1) n f t = Inr s'"
      using "1.prems"(1) for_loop.simps[of i n f s] by (auto simp: kbind_Inr)
    then show ?thesis using "1.IH"[OF True, of t] "1.prems" by blast
  next
    case False
    then show ?thesis using "1.prems"(1,2) for_loop.simps[of i n f s] by simp
  qed
qed

section \<open>Page frames\<close>

lemma set_page_frame:
  "set_page_as_used a t = Inr t' \<Longrightarrow> heap_only s t \<Longrightarrow> heap_only s t'"
  "set_page_as_unused a t = Inr t' \<Longrightarrow> heap_only s t \<Longrightarrow> heap_only s t'"
  by (auto simp: set_page_as_used_def set_page_as_unused_def kbind_Inr kassert_def split: if_splits)

lemma pmm_alloc_pages_loop_frame:
  "pmm_alloc_pages_loop count i t = Inr (p, t') \<Longrightarrow> heap_only s t \<Longrightarrow> heap_only s t'"
proof (induction count i t rule: pmm_alloc_pages_loop.induct)
  case (1 count i t)
  show ?case using "1.prems"
    by (subst (asm) pmm_alloc_pages_loop.simps)
      (auto split: if_splits option.splits sum.splits simp: kbind_Inr
        intro: "1.IH" for_loop_keeps[where I = "heap_only s"] set_page_frame)
qed

lemma pmm_frame:
  "pmm_alloc_pages n t = Inr (p, t') \<Longrightarrow> heap_only s t \<Longrightarrow> heap_only s t'"
  "pmm_alloc_pages_hhdm n t = Inr (p, t') \<Longrightarrow> heap_only s t \<Longrightarrow> heap_only s t'"
  "pmm_free_pages a k t = Inr t' \<Longrightarrow> heap_only s t \<Longrightarrow> heap_only s t'"
    apply (auto simp: pmm_alloc_pages_def kassert_def split: if_splits intro: pmm_alloc_pages_loop_frame)[1]
   apply (auto simp: pmm_alloc_pages_hhdm_def pmm_alloc_pages_def kbind_Inr kassert_def split: if_splits intro: pmm_alloc_pages_loop_frame)[1]
  unfolding pmm_free_pages_def
  by (erule for_loop_keeps) (auto intro: set_page_frame)

section \<open>Blocks\<close>

lemma remove_block_frame: "remove_memory_block_from_list b t = Inr t' \<Longrightarrow> heap_only s t \<Longrightarrow> heap_only s t'"
  by (auto simp: remove_memory_block_from_list_def Let_def split: if_splits)

lemma replace_block_frame: "replace_memory_block_in_list b c t = Inr t' \<Longrightarrow> heap_only s t \<Longrightarrow> heap_only s t'"
  by (auto simp: replace_memory_block_in_list_def Let_def kbind_Inr split: if_splits)

lemma malloc_from_block_frame: "malloc_from_block b n t = Inr (p, t') \<Longrightarrow> heap_only s t \<Longrightarrow> heap_only s t'"
  by (auto simp: malloc_from_block_def Let_def kbind_Inr kassert_def split: if_splits
      dest!: remove_block_frame[of _ _ _ s] replace_block_frame[of _ _ _ _ s])

lemma malloc_largeblock_frame: "malloc_largeblock n t = Inr (p, t') \<Longrightarrow> heap_only s t \<Longrightarrow> heap_only s t'"
  by (auto simp: malloc_largeblock_def Let_def kbind_Inr kassert_def split: if_splits dest!: pmm_frame(2)[of _ _ _ _ s])

lemma kmalloc_frame:
  assumes "kmalloc n s = Inr (p, s')"
  shows "heap_only s s'"
proof -
  have "heap_only s t'" if "pmm_alloc_pages_hhdm k s = Inr (b, t)"
    "malloc_from_block c m (t1\<lparr>g_super_blocks := b\<rparr>) = Inr (q, t')" "heap_only t t1" for k b t c m q t' t1
    using pmm_frame(2)[OF that(1)] malloc_from_block_frame[OF that(2)] heap_only_trans[of s t t1] that(3) by auto
  then show ?thesis using assms
    by (auto simp: kmalloc_def Let_def kbind_Inr kassert_def split: if_splits
      intro: malloc_from_block_frame malloc_largeblock_frame)
qed

lemma kfree_frame:
  assumes "kfree p s = Inr s'"
  shows "heap_only s s'"
  using assms by (auto simp: kfree_def free_largeblock_def Let_def nonnull_def split: if_splits intro: pmm_frame(3))

end
