(* ===== verification/File_Reads.thy ===== *)
theory File_Reads
  imports Syscalls Heap_Frame
begin

text \<open>
  Reading open files of the FAT12 volume into kernel buffers: the bytes read are the next bytes of
  the file's content, and reads one after another stream the file.
\<close>

section \<open>Buffers of the kernel heap\<close>

lemma kernel_half_unat: "kernel_half a \<longleftrightarrow> 2 ^ 63 \<le> unat a"
proof -
  have "bit a 63 \<longleftrightarrow> bit (unat a) 63" by (simp add: bit_unsigned_iff)
  then have "bit a 63 \<longleftrightarrow> odd (unat a div 2 ^ 63)" by (simp add: bit_iff_odd)
  moreover have "unat a div 2 ^ 63 < 2" using unat_u64_less[of a] by (intro less_mult_imp_div_less) simp
  then have "unat a div 2 ^ 63 = 0 \<or> unat a div 2 ^ 63 = 1" by linarith
  then have "odd (unat a div 2 ^ 63) \<longleftrightarrow> 2 ^ 63 \<le> unat a" by (auto simp: div_eq_0_iff)
  ultimately show ?thesis by (simp add: kernel_half_def)
qed

lemma buffer_upper_half:
  assumes "heap_inv s L" "(p, n) \<in> L" "x \<in> region p (unat n)" "2 ^ 63 \<le> unat (vmm_hhdm_offset s)"
  shows "kernel_half x"
proof -
  obtain fs ss where h: "vmm_wf s" "heap_rep s fs ss (live L)" "p - 32 \<in> live L" using heap_invD[OF assms(1)] assms(2) by metis
  have "heap_frame s (byte_frame (pmm_hhdm_offset s) x)"
    using blocks_okD(6)[OF heap_repD(2)[OF h(2)]] h(3) live_buffer_in_block(1)[OF assms(1-3)] by blast
  then have "unat (x - vmm_hhdm_offset s) div 4096 < nframes s"
    using h(1) by (simp add: heap_frame_def frame_taken_def byte_frame_def vmm_wf_def)
  then have "unat (x - vmm_hhdm_offset s) + unat (vmm_hhdm_offset s) < 2 ^ 64"
    using h(1) by (simp add: vmm_wf_def div_less_iff_less_mult mult.commute)
  then have "unat (x - vmm_hhdm_offset s + vmm_hhdm_offset s) = unat (x - vmm_hhdm_offset s) + unat (vmm_hhdm_offset s)"
    using unat_add_if_fits[of "x - vmm_hhdm_offset s" "vmm_hhdm_offset s"] by simp
  then show ?thesis using assms(4) by (simp add: kernel_half_unat)
qed

lemma copy_bytes_kernel:
  "\<forall>i < n. kernel_half (dst + word_of_nat i) \<and> kernel_half (src + word_of_nat i) \<Longrightarrow>
   copy_bytes n dst src s = Inr (s\<lparr>kmem := memcpy_loop n dst src (kmem s)\<rparr>)"
proof (induction n arbitrary: dst src s)
  case (Suc n)
  have k: "kernel_half dst" "kernel_half src" using Suc.prems[rule_format, of 0] by auto
  have "\<forall>i < n. kernel_half (dst + 1 + word_of_nat i) \<and> kernel_half (src + 1 + word_of_nat i)"
    using Suc.prems by (metis Suc_less_eq add.assoc of_nat_Suc)
  then show ?case using Suc.IH k by (simp add: fun_upd_def)
qed simp

lemma copy_buffers:
  fixes c :: u64
  assumes inv: "heap_inv s L" and up: "2 ^ 63 \<le> unat (vmm_hhdm_offset s)"
    and b: "(p, n) \<in> L" "(q, k) \<in> L" "(p, n) \<noteq> (q, k)" "i + unat c \<le> unat n" "j + unat c \<le> unat k"
  shows "copy_bytes (unat c) (p + word_of_nat i) (q + word_of_nat j) s =
    Inr (s\<lparr>kmem := mem_store (kmem s) (p + word_of_nat i) (mem_bytes (kmem s) (q + word_of_nat j) (unat c))\<rparr>)"
proof -
  have "kernel_half (p + word_of_nat i + word_of_nat l)" "kernel_half (q + word_of_nat j + word_of_nat l)" if "l < unat c" for l
    using buffer_upper_half[OF inv b(1) region_offset[OF that b(4)] up] buffer_upper_half[OF inv b(2) region_offset[OF that b(5)] up]
      unat_u64_less[of n] unat_u64_less[of k] by simp_all
  then show ?thesis
    using copy_bytes_kernel[of "unat c" "p + word_of_nat i" "q + word_of_nat j" s] memcpy_buffers[OF inv b, of "kmem s"]
    by (simp add: memcpy_def)
qed

section \<open>Open files\<close>

text \<open>The file at f has its content in the buffer c of the heap.\<close>

definition fat_file :: "('d, 'a) kernel_state_scheme \<Rightarrow> (u64 \<times> u64) set \<Rightarrow> u64 \<Rightarrow> u64 \<Rightarrow> bool" where
  "fat_file s L f c \<longleftrightarrow> f \<noteq> 0 \<and> vf_read (file_at s f) = Some Fn_vfs_fat12_read \<and> fs_private_data (file_at s f) = Content c \<and>
     unat (file_size (file_at s f)) < 2 ^ 63 \<and> (\<exists>n. (c, n) \<in> L \<and> file_size (file_at s f) \<le> n)"

definition content :: "('d, 'a) kernel_state_scheme \<Rightarrow> u64 \<Rightarrow> u8 list" where
  "content s f = (case fs_private_data (file_at s f) of
     Content c \<Rightarrow> mem_bytes (kmem s) c (unat (file_size (file_at s f))) | Device d \<Rightarrow> [])"

text \<open>A client that reads a file piece by piece; every piece is a buffer and a size.\<close>

fun read_pieces ::
  "u64 \<Rightarrow> (u64 \<times> u64) list \<Rightarrow> ('d, 'a) kernel_state_scheme \<Rightarrow> (u8 list \<times> ('d, 'a) kernel_state_scheme) kres" where
  "read_pieces f [] s = Inr ([], s)"
| "read_pieces f ((b, sz) # rs) s =
     kbind (vfs_read f b sz s) (\<lambda>(r, s).
     kbind (read_pieces f rs s) (\<lambda>(bs, s'). Inr (mem_bytes (kmem s) b (nat r) @ bs, s')))"

text \<open>The piece is read into a buffer of L other than the content c.\<close>

definition piece_ok :: "(u64 \<times> u64) set \<Rightarrow> u64 \<Rightarrow> u64 \<times> u64 \<Rightarrow> bool" where
  "piece_ok L c r \<longleftrightarrow> fst r \<noteq> c \<and> unat (snd r) < 2 ^ 63 \<and> (\<exists>k. (fst r, k) \<in> L \<and> snd r \<le> k)"

lemma heap_inv_file_at [simp]: "heap_inv (s\<lparr>file_at := fa\<rparr>) L \<longleftrightarrow> heap_inv s L"
  by (rule heap_inv_cong) simp_all

lemma keeps_file_at [simp]: "keeps L s (s'\<lparr>file_at := fa\<rparr>) \<longleftrightarrow> keeps L s s'"
  by (simp add: keeps_def nframes_def)

lemma vfs_read_content:
  assumes inv: "heap_inv s L" and up: "2 ^ 63 \<le> unat (vmm_hhdm_offset s)" and f: "fat_file s L f c"
    and b: "(b, k) \<in> L" "b \<noteq> c" "sz \<le> k" "unat sz < 2 ^ 63" and pos: "file_position (file_at s f) \<le> file_size (file_at s f)"
  defines "p \<equiv> unat (file_position (file_at s f))" and "m \<equiv> min (unat sz) (unat (file_size (file_at s f)) - unat (file_position (file_at s f)))"
  shows "\<exists>s'. vfs_read f b sz s = Inr (int m, s') \<and> heap_inv s' L \<and> keeps (L - {(b, k)}) s s' \<and>
    mem_bytes (kmem s') b m = take m (drop p (content s f)) \<and> vmm_hhdm_offset s' = vmm_hhdm_offset s \<and>
    file_at s' = (file_at s)(f := (file_at s f)\<lparr>file_position := word_of_nat (p + m)\<rparr>)"
proof -
  let ?F = "file_at s f" and ?P = "file_position (file_at s f)" and ?S = "file_size (file_at s f)"
  obtain n where n: "(c, n) \<in> L" "?S \<le> n" using f by (auto simp: fat_file_def)
  have ff: "f \<noteq> 0" "vf_read ?F = Some Fn_vfs_fat12_read" "fs_private_data ?F = Content c" "unat ?S < 2 ^ 63"
    using f by (auto simp: fat_file_def)
  have PS: "unat ?P \<le> unat ?S" "unat ?S \<le> unat n" "unat sz \<le> unat k" using pos n b by (simp_all add: word_le_nat_alt)
  have cont: "take m (drop p (content s f)) = mem_bytes (kmem s) (c + word_of_nat p) m"
    using PS by (intro nth_equalityI) (auto simp: content_def ff p_def m_def add.assoc)
  show ?thesis
  proof (cases "?P = ?S")
    case True
    have "?F\<lparr>file_position := ?S\<rparr> = ?F" unfolding True[symmetric] by simp
    then have "file_at s = (file_at s)(f := ?F\<lparr>file_position := ?S\<rparr>)" by simp
    then show ?thesis using True inv ff b by - (rule exI[of _ s], simp add: vfs_read_def m_def p_def mem_bytes_def)
  next
    case False
    then have lt: "unat ?P < unat ?S" using PS(1) by (simp add: word_unat_eq_iff)
    define w where "w = (if ?P + sz > ?S then ?S - ?P else sz)"
    have "unat (?P + sz) = unat ?P + unat sz" using b(4) ff(4) PS(1) by (intro unat_add_if_fits) simp
    then have w: "unat w = m" unfolding w_def m_def using PS(1) pos
      by (auto simp: word_less_nat_alt unat_sub word_le_nat_alt)
    have bc: "(b, k) \<noteq> (c, n)" using b(2) by simp
    have le: "0 + unat w \<le> unat k" "p + unat w \<le> unat n" unfolding w using PS by (auto simp: m_def p_def)
    have cp: "copy_bytes (unat w) b (c + ?P) s = Inr (s\<lparr>kmem := mem_store (kmem s) b (mem_bytes (kmem s) (c + word_of_nat p) m)\<rparr>)"
      using copy_buffers[OF inv up b(1) n(1) bc le] by (simp add: p_def w)
    let ?bs = "mem_bytes (kmem s) (c + word_of_nat p) m" and ?t = "s\<lparr>kmem := mem_store (kmem s) b (mem_bytes (kmem s) (c + word_of_nat p) m)\<rparr>"
    have l: "0 + length ?bs \<le> unat k" using le(1) w by simp
    note st = heap_store_buffer[OF inv b(1) l]
    have mb: "mem_bytes (kmem ?t) b m = ?bs"
      using mem_bytes_mem_store[of ?bs "kmem s" b] l unat_u64_less[of k] by simp
    have "uint w = int m" using w by (simp add: uint_nat)
    then have sw: "sint w = int m" using ff(4) by (simp add: sint_u64 m_def)
    have rd: "vfs_read f b sz s = Inr (int m, if 0 < m then vfs_update f (file_position_update (\<lambda>x. x + word_of_nat m)) ?t else ?t)"
      using ff lt cp w sw by (simp add: vfs_read_def call_read_def vfs_fat12_read_def word_le_nat_alt flip: w_def)
    let ?s' = "vfs_update f (file_position_update (\<lambda>x. x + word_of_nat m)) ?t"
    have upd: "file_position_update (\<lambda>x. x + word_of_nat m) ?F = ?F\<lparr>file_position := ?P + word_of_nat m\<rparr>" by simp
    let ?G = "(file_at s)(f := ?F\<lparr>file_position := word_of_nat (p + m)\<rparr>)"
    have eq: "(if 0 < m then ?s' else ?t) = ?t\<lparr>file_at := ?G\<rparr>"
    proof (cases "m = 0")
      case True
      have "?G = file_at s" using True by (simp add: p_def)
      then show ?thesis using True by simp
    qed (simp add: vfs_update_def p_def upd)
    have "vfs_read f b sz s = Inr (int m, ?t\<lparr>file_at := ?G\<rparr>)" using rd unfolding eq .
    moreover have "heap_inv (?t\<lparr>file_at := ?G\<rparr>) L" "keeps (L - {(b, k)}) s (?t\<lparr>file_at := ?G\<rparr>)"
      using st(1,2) by simp_all
    ultimately show ?thesis using mb cont by - (rule exI[of _ "?t\<lparr>file_at := ?G\<rparr>"], simp)
  qed
qed

lemma sint_unat:
  assumes "unat (v :: u64) < 2 ^ 63"
  shows "sint v = int (unat v)"
proof -
  have "int (unat v) < int (2 ^ 63)" using assms by (simp only: of_nat_less_iff)
  then have "uint v < 2 ^ 63" by (simp only: uint_nat) simp
  then show ?thesis by (simp add: sint_u64)
qed

lemma take_next_piece:
  assumes "m = min k (length xs - p)"
  shows "take m (drop p xs) @ take r (drop (p + m) xs) = take (k + r) (drop p xs)"
proof (cases "k \<le> length xs - p")
  case True
  then show ?thesis using assms take_add[of k r "drop p xs"] by (simp add: add.commute)
qed (use assms in simp)

lemma read_pieces_stream:
  assumes "heap_inv s L" "2 ^ 63 \<le> unat (vmm_hhdm_offset s)" "fat_file s L f c" "\<forall>r \<in> set rs. piece_ok L c r"
    "file_position (file_at s f) \<le> file_size (file_at s f)"
  shows "\<exists>s'. read_pieces f rs s =
    Inr (take (\<Sum>r \<leftarrow> rs. unat (snd r)) (drop (unat (file_position (file_at s f))) (content s f)), s')"
  using assms
proof (induction rs arbitrary: s)
  case (Cons r rs)
  obtain b sz where r: "r = (b, sz)" by force
  obtain k where k: "(b, k) \<in> L" "b \<noteq> c" "sz \<le> k" "unat sz < 2 ^ 63" using Cons.prems(4) by (auto simp: r piece_ok_def)
  let ?p = "unat (file_position (file_at s f))" and ?S = "unat (file_size (file_at s f))"
  define m where "m = min (unat sz) (?S - ?p)"
  define w where "w = (word_of_nat (?p + m) :: u64)"
  obtain t where t: "vfs_read f b sz s = Inr (int m, t)" "heap_inv t L" "keeps (L - {(b, k)}) s t"
      "mem_bytes (kmem t) b m = take m (drop ?p (content s f))" "vmm_hhdm_offset t = vmm_hhdm_offset s"
      "file_at t = (file_at s)(f := (file_at s f)\<lparr>file_position := w\<rparr>)"
    using vfs_read_content[OF Cons.prems(1-3) k Cons.prems(5)] unfolding m_def w_def by blast
  have le: "?p \<le> ?S" using Cons.prems(5) by (simp add: word_le_nat_alt)
  have pm: "unat w = ?p + m"
    unfolding w_def m_def using le unat_u64_less[of "file_size (file_at s f)"] by (subst unat_of_nat) (simp add: take_bit_nat_eq_self del: of_nat_add)
  obtain n where n: "(c, n) \<in> L" "file_size (file_at s f) \<le> n" "fs_private_data (file_at s f) = Content c"
    using Cons.prems(3) by (auto simp: fat_file_def)
  have "?S \<le> unat n" using n(2) by (simp add: word_le_nat_alt)
  then have "mem_bytes (kmem t) c ?S = mem_bytes (kmem s) c ?S"
    using keeps_bytes[OF t(3), of c n 0 ?S] n(1) k(2) by simp
  then have ct: "content t f = content s f" by (simp add: content_def t(6) n(3))
  have ff: "fat_file t L f c" using Cons.prems(3) by (simp add: fat_file_def t(6))
  have ps: "file_position (file_at t f) \<le> file_size (file_at t f)" using le by (simp add: t(6) word_le_nat_alt pm m_def)
  obtain s' where s': "read_pieces f rs t =
      Inr (take (\<Sum>r \<leftarrow> rs. unat (snd r)) (drop (?p + m) (content s f)), s')"
    using Cons.IH[OF t(2) _ ff _ ps] Cons.prems(2,4) by (auto simp: t(5,6) pm ct)
  have "m = min (unat sz) (length (content s f) - ?p)" by (simp add: m_def content_def n(3))
  from take_next_piece[OF this] show ?case using t(1,4) s' unfolding r by simp
qed simp

section \<open>A heap with an open file\<close>

text \<open>
  The content of a file, its vfs\_file and a buffer to read into, as three blocks of frame 1; the
  first two descriptors of the process at 0x1000 and the first one of 0x2000 refer to the file.
\<close>

definition demo_buffers :: "(u64 \<times> u64) set" where
  "demo_buffers = {(0xFFFF800000001020, 128), (0xFFFF800000001420, 160), (0xFFFF800000001820, 96)}"

definition demo_files :: "unit kernel_state" where
  "demo_files = demo_kernel\<lparr>g_bitmap := \<lparr>bit_count = 8, bitmap = [3]\<rparr>,
     kmem := write64 (write64 (write64 (\<lambda>x. ucast x) 0xFFFF800000001000 128) 0xFFFF800000001400 160) 0xFFFF800000001800 96,
     pcb_at := (\<lambda>p. (demo_pcb p)\<lparr>pcb_fds := (if p = 0x1000 then [0xFFFF800000001420, 0xFFFF800000001420] @ replicate 30 0
       else if p = 0x2000 then 0xFFFF800000001420 # replicate 31 0 else replicate 32 0)\<rparr>),
     file_at := (\<lambda>_. \<lparr>vf_name = replicate 100 0, file_size = 100, file_position = 0, file_ref_count = 3, vf_read = Some Fn_vfs_fat12_read,
       vf_write = Some Fn_vfs_fat12_write, vf_close = Some Fn_vfs_fat12_close, fs_private_data = Content 0xFFFF800000001020\<rparr>)\<rparr>"

lemma byte_offset:
  fixes x b off :: u64
  assumes "x \<in> region b n" "unat (b - off) + n \<le> 2 ^ 64"
  shows "unat (x - off) = unat (b - off) + unat (x - b)" "unat (x - b) < n"
proof -
  show n: "unat (x - b) < n" using assms(1) by (simp add: region_def)
  have "unat ((b - off) + (x - b)) = unat (b - off) + unat (x - b)" using assms(2) n by (intro unat_add_if_fits) simp
  then show "unat (x - off) = unat (b - off) + unat (x - b)" by simp
qed

lemma demo_blocks:
  "mb_block_size demo_files 0xFFFF800000001000 = 128" "mb_block_size demo_files 0xFFFF800000001400 = 160"
  "mb_block_size demo_files 0xFFFF800000001800 = 96"
  by (simp_all add: mb_block_size_def demo_files_def)

lemma demo_block_bytes:
  assumes "x \<in> blk (mb_block_size demo_files) b"
  shows "b = 0xFFFF800000001000 \<Longrightarrow> 0x1000 \<le> unat (x - 0xFFFF800000000000) \<and> unat (x - 0xFFFF800000000000) < 0x1400"
    "b = 0xFFFF800000001400 \<Longrightarrow> 0x1400 \<le> unat (x - 0xFFFF800000000000) \<and> unat (x - 0xFFFF800000000000) < 0x1800"
    "b = 0xFFFF800000001800 \<Longrightarrow> 0x1800 \<le> unat (x - 0xFFFF800000000000) \<and> unat (x - 0xFFFF800000000000) < 0x1C00"
  using assms byte_offset[of x b "32 + unat (mb_block_size demo_files b)" "0xFFFF800000000000"]
  by (auto simp: blk_def demo_blocks)

lemma demo_heap_inv: "heap_inv demo_files demo_buffers"
proof -
  let ?H = "{0xFFFF800000001000, 0xFFFF800000001400, 0xFFFF800000001800} :: u64 set"
  have taken: "heap_frame demo_files (byte_frame 0xFFFF800000000000 x)"
    if "b \<in> ?H" "x \<in> blk (mb_block_size demo_files) b" for b x
  proof -
    have "0x1000 \<le> unat (x - 0xFFFF800000000000)" "unat (x - 0xFFFF800000000000) < 0x1C00"
      using that(1) demo_block_bytes[OF that(2)] by auto
    then have "unat (x - 0xFFFF800000000000) div 4096 = 1" by simp
    then show ?thesis
      by (simp add: byte_frame_def heap_frame_def frame_taken_def frame_used_def nframes_def bm_bit_def demo_files_def)
  qed
  have apart: "blk (mb_block_size demo_files) b \<inter> blk (mb_block_size demo_files) c = {}" if "b \<in> ?H" "c \<in> ?H" "b \<noteq> c" for b c
    using that demo_block_bytes by fastforce
  have "blocks_ok (heap_frame demo_files) 0xFFFF800000000000 (mb_block_size demo_files) ?H"
    using taken apart by (auto simp: blocks_ok_def hdr_aligned_def demo_blocks blk_def region_no_null)
  moreover have "live demo_buffers = ?H" by (simp add: live_def demo_buffers_def)
  moreover have "list_inv demo_files [] []" "pmm_hhdm_offset demo_files = 0xFFFF800000000000"
    by (simp_all add: list_inv_def demo_files_def demo_kernel_def)
  ultimately have "heap_rep demo_files [] [] (live demo_buffers)" by (simp add: heap_rep_def)
  moreover have "vmm_wf demo_files"
    by (simp add: demo_files_def demo_kernel_def vmm_wf_def pmm_inv_def pmm_wf_def nframes_def frame_taken_def frame_used_def
        bitmap_wf_def bm_bit_def page_aligned_def)
  moreover have "inj_on fst demo_buffers" "\<forall>(p, n) \<in> demo_buffers. live_ok demo_files p n"
    by (simp_all add: demo_buffers_def live_ok_def demo_blocks)
  ultimately show ?thesis unfolding heap_inv_def by blast
qed

text \<open>
  C6: a file of the FAT12 volume is a stream: after a seek to an offset inside the file, reads of
  any sizes into heap buffers return, one after another, the bytes of the file from the offset on,
  neither more than was asked for nor more than the file has.
\<close>

theorem file_seek_read_stream:
  assumes "heap_inv s L" "2 ^ 63 \<le> unat (vmm_hhdm_offset s)" "fat_file s L f c" "\<forall>r \<in> set rs. piece_ok L c r"
    "off \<le> file_size (file_at s f)"
  shows "\<exists>s1 s2. vfs_seek f off 0 s = (int (unat off), s1) \<and>
    read_pieces f rs s1 = Inr (take (\<Sum>r \<leftarrow> rs. unat (snd r)) (drop (unat off) (content s f)), s2)"
proof -
  let ?t = "vfs_update f (file_position_update (\<lambda>_. off)) s"
  have sz: "f \<noteq> 0" "unat (file_size (file_at s f)) < 2 ^ 63" using assms(3) by (simp_all add: fat_file_def)
  have le: "unat off \<le> unat (file_size (file_at s f))" using assms(5) by (simp add: word_le_nat_alt)
  have "sint off = int (unat off)" "sint (file_size (file_at s f)) = int (unat (file_size (file_at s f)))"
    using sz(2) le by (intro sint_unat; simp)+
  then have seek: "vfs_seek f off 0 s = (int (unat off), ?t)" using sz(1) assms(5) by (simp add: vfs_seek_def word_le_def)
  have t: "fat_file ?t L f c" "content ?t f = content s f" "heap_inv ?t L" "2 ^ 63 \<le> unat (vmm_hhdm_offset ?t)"
    "file_position (file_at ?t f) = off" "file_position (file_at ?t f) \<le> file_size (file_at ?t f)"
    using assms(1,2,3,5) by (simp_all add: fat_file_def content_def vfs_update_def)
  have "\<exists>s2. read_pieces f rs ?t = Inr (take (\<Sum>r \<leftarrow> rs. unat (snd r)) (drop (unat off) (content s f)), s2)"
    using read_pieces_stream[OF t(3,4,1) assms(4) t(6)] unfolding t(2,5) .
  then obtain s2 where s2: "read_pieces f rs ?t = Inr (take (\<Sum>r \<leftarrow> rs. unat (snd r)) (drop (unat off) (content s f)), s2)" ..
  show ?thesis by (rule exI[of _ ?t], rule exI[of _ s2], rule conjI[OF seek s2])
qed

theorem file_seek_read_stream_witness:
  "\<exists>s1 s2. vfs_seek 0xFFFF800000001420 3 0 demo_files = (3, s1) \<and>
    read_pieces 0xFFFF800000001420 [(0xFFFF800000001820, 4), (0xFFFF800000001820, 96)] s1 =
      Inr (take 100 (drop 3 (content demo_files 0xFFFF800000001420)), s2)"
proof -
  have "fat_file demo_files demo_buffers 0xFFFF800000001420 0xFFFF800000001020"
    by (auto simp: fat_file_def demo_files_def demo_buffers_def)
  then show ?thesis
    using file_seek_read_stream[OF demo_heap_inv, where f = "0xFFFF800000001420" and c = "0xFFFF800000001020"
      and rs = "[(0xFFFF800000001820, 4), (0xFFFF800000001820, 96)]" and off = 3]
    by (simp add: piece_ok_def demo_buffers_def) (simp add: demo_files_def demo_kernel_def)
qed

end
