(* ===== verification/Open_Files.thy ===== *)
theory Open_Files
  imports File_Reads
begin

text \<open>
  Open files and the descriptors that refer to them. The invariant types the descriptor tables:
  every descriptor in use holds the address of a live vfs\_file of the kernel heap whose reference
  count is the number of descriptors of all processes that hold it, and whose content is a live
  buffer no other file has. The system calls on descriptors keep it, so they never touch a file
  that was freed.
\<close>

section \<open>Files and their references\<close>

text \<open>How many descriptors of the processes ps hold f.\<close>

definition refs :: "'a sched_state_scheme \<Rightarrow> u64 list \<Rightarrow> u64 \<Rightarrow> nat" where
  "refs s ps f = (\<Sum>p \<leftarrow> ps. count_list (pcb_fds (pcb_at s p)) f)"

text \<open>The buffer that closing the file frees besides the file itself.\<close>

definition owned :: "vfs_file \<Rightarrow> u64 option" where
  "owned v = (case (vf_close v, fs_private_data v) of (Some _, Content c) \<Rightarrow> Some c | _ \<Rightarrow> None)"

definition file_typed :: "('d, 'a) kernel_state_scheme \<Rightarrow> (u64 \<times> u64) set \<Rightarrow> u64 \<Rightarrow> bool" where
  "file_typed s L f \<longleftrightarrow> (f, SIZEOF_vfs_file) \<in> L \<and> (vf_close (file_at s f) \<noteq> None \<longrightarrow> owned (file_at s f) \<noteq> None) \<and>
     (\<forall>c. owned (file_at s f) = Some c \<longrightarrow> (\<exists>n. (c, n) \<in> L))"

definition is_open :: "(u64 \<Rightarrow> nat) \<Rightarrow> u64 \<Rightarrow> bool" where
  "is_open R f \<longleftrightarrow> f \<noteq> 0 \<and> 0 < R f"

definition files_inv :: "('d, 'a) kernel_state_scheme \<Rightarrow> (u64 \<times> u64) set \<Rightarrow> (u64 \<Rightarrow> nat) \<Rightarrow> bool" where
  "files_inv s L R \<longleftrightarrow> heap_inv s L \<and>
     (\<forall>f. is_open R f \<longrightarrow> file_typed s L f \<and> file_ref_count (file_at s f) = word_of_nat (R f)) \<and>
     (\<forall>f g c. is_open R f \<longrightarrow> is_open R g \<longrightarrow> owned (file_at s f) = Some c \<longrightarrow> c \<noteq> g \<and> (owned (file_at s g) = Some c \<longrightarrow> f = g))"

definition fds_inv :: "('d, 'a) kernel_state_scheme \<Rightarrow> (u64 \<times> u64) set \<Rightarrow> u64 list \<Rightarrow> bool" where
  "fds_inv s L ps \<longleftrightarrow> distinct ps \<and> length ps \<le> 4096 \<and> (\<forall>p \<in> set ps. length (pcb_fds (pcb_at s p)) = 32) \<and> files_inv s L (refs s ps)"

lemma files_invD:
  assumes "files_inv s L R"
  shows "heap_inv s L" "is_open R f \<Longrightarrow> file_typed s L f" "is_open R f \<Longrightarrow> file_ref_count (file_at s f) = word_of_nat (R f)"
    "is_open R f \<Longrightarrow> is_open R g \<Longrightarrow> owned (file_at s f) = Some c \<Longrightarrow> c \<noteq> g"
    "is_open R f \<Longrightarrow> is_open R g \<Longrightarrow> owned (file_at s f) = Some c \<Longrightarrow> owned (file_at s g) = Some c \<Longrightarrow> f = g"
  using assms unfolding files_inv_def by blast+

lemma owned_updates [simp]:
  "owned (file_ref_count_update h v) = owned v" "owned (file_position_update h v) = owned v"
  by (simp_all add: owned_def)

text \<open>Updates of the count and of the position of a file keep what the invariant says of the others.\<close>

lemma files_inv_update:
  assumes "files_inv s L R" "is_open R f" "owned (g (file_at s f)) = owned (file_at s f)" "vf_close (g (file_at s f)) = vf_close (file_at s f)"
    "file_ref_count (g (file_at s f)) = word_of_nat k"
  shows "files_inv (vfs_update f g s) L (R(f := k))"
proof -
  let ?t = "vfs_update f g s"
  have same: "owned (file_at ?t h) = owned (file_at s h)" "vf_close (file_at ?t h) = vf_close (file_at s h)" for h
    using assms(3,4) by (simp_all add: vfs_update_def)
  have op: "is_open R h" if "is_open (R(f := k)) h" for h using that assms(2) by (cases "h = f") (simp_all add: is_open_def)
  have "file_typed ?t L h \<longleftrightarrow> file_typed s L h" for h by (simp add: file_typed_def same)
  moreover have "file_ref_count (file_at ?t h) = word_of_nat ((R(f := k)) h)" if "is_open (R(f := k)) h" for h
    using files_invD(3)[OF assms(1) op[OF that]] assms(5) by (simp add: vfs_update_def)
  moreover have "heap_inv ?t L" using files_invD(1)[OF assms(1)] by (simp add: vfs_update_def)
  ultimately show ?thesis
    using files_invD(2,4,5)[OF assms(1)] op unfolding files_inv_def same by metis
qed

lemma files_inv_dup:
  assumes "files_inv s L R" "is_open R f"
  shows "files_inv (vfs_update f (file_ref_count_update (\<lambda>n. n + 1)) s) L (R(f := R f + 1))"
  using files_invD(3)[OF assms] by (intro files_inv_update[OF assms]) simp_all

lemma files_inv_seek:
  assumes "files_inv s L R" "is_open R f"
  shows "files_inv (snd (vfs_seek f off whence s)) L R"
proof -
  have "files_inv (vfs_update f (file_position_update (\<lambda>_. p)) s) L (R(f := R f))" for p
    using files_invD(3)[OF assms] by (intro files_inv_update[OF assms]) simp_all
  then show ?thesis using assms(1) by (auto simp: vfs_seek_def Let_def split: option.split)
qed

lemma vfs_seek_pcb_at [simp]: "pcb_at (snd (vfs_seek f off whence s)) = pcb_at s"
  by (auto simp: vfs_seek_def Let_def vfs_update_def split: option.split)

section \<open>Closing a file\<close>

lemma heap_only_more:
  "heap_only (s :: ('d, 'a) kernel_state_scheme) s' \<Longrightarrow> file_at s' = file_at s \<and> pcb_at s' = pcb_at s"
  by (subst (1 2) heap_only_eq) simp_all

lemma kfree_files:
  fixes s :: "('d, 'a) kernel_state_scheme"
  assumes "heap_inv s L" "(p, n) \<in> L"
  obtains s' where "kfree p s = Inr s'" "heap_inv s' (L - {(p, n)})" "file_at s' = file_at s" "pcb_at s' = pcb_at s"
  using kfree_ok[OF assms] kfree_frame heap_only_more by metis

lemma close_content:
  fixes s :: "('d, 'a) kernel_state_scheme"
  assumes inv: "heap_inv s L" and f: "file_typed s L f"
  shows "\<exists>t M. (case vf_close (file_at s f) of Some fn \<Rightarrow> call_close fn f s | None \<Rightarrow> Inr s) = Inr t \<and> heap_inv t M \<and>
    file_at t = file_at s \<and> pcb_at t = pcb_at s \<and> L - (case owned (file_at s f) of Some c \<Rightarrow> {c} \<times> UNIV | None \<Rightarrow> {}) \<subseteq> M"
proof (cases "vf_close (file_at s f)")
  case None
  then show ?thesis using inv by (intro exI[of _ s] exI[of _ L]) auto
next
  case (Some fn)
  then obtain c n where c: "owned (file_at s f) = Some c" "(c, n) \<in> L" using f by (auto simp: file_typed_def)
  have "fs_private_data (file_at s f) = Content c" using Some c(1) by (simp add: owned_def split: vfs_private.splits)
  moreover obtain t where t: "kfree c s = Inr t" "heap_inv t (L - {(c, n)})" "file_at t = file_at s" "pcb_at t = pcb_at s"
    by (rule kfree_files[OF inv c(2)])
  ultimately have "call_close fn f s = Inr t" by (simp add: call_close_def vfs_fat12_close_def)
  then show ?thesis using t Some c(1) by (intro exI[of _ t] exI[of _ "L - {(c, n)}"]) auto
qed

text \<open>The last reference goes: the content and the file are freed.\<close>

lemma free_file:
  fixes s :: "('d, 'a) kernel_state_scheme"
  assumes inv: "files_inv s L R" and f: "is_open R f"
  shows "\<exists>u L'. kbind (case vf_close (file_at s f) of Some fn \<Rightarrow> call_close fn f s | None \<Rightarrow> Inr s) (\<lambda>s. kfree f s) = Inr u \<and>
    files_inv u L' (R(f := 0)) \<and> pcb_at u = pcb_at s"
proof -
  note I = files_invD[OF inv]
  obtain t M where t: "(case vf_close (file_at s f) of Some fn \<Rightarrow> call_close fn f s | None \<Rightarrow> Inr s) = Inr t" "heap_inv t M"
    "file_at t = file_at s" "pcb_at t = pcb_at s" "L - (case owned (file_at s f) of Some c \<Rightarrow> {c} \<times> UNIV | None \<Rightarrow> {}) \<subseteq> M"
    using close_content[OF I(1) I(2)[OF f]] by (elim exE conjE)
  have M: "(q, n) \<in> M" if "(q, n) \<in> L" "owned (file_at s f) \<noteq> Some q" for q n
    using that t(5) by (auto split: option.splits)
  have "(f, 160) \<in> M" using I(2)[OF f] I(4)[OF f f] by (intro M) (auto simp: file_typed_def)
  then obtain u where u: "kfree f t = Inr u" "heap_inv u (M - {(f, 160)})" "file_at u = file_at t" "pcb_at u = pcb_at t"
    by (rule kfree_files[OF t(2)])
  have keep: "file_typed u (M - {(f, 160)}) g" if g: "is_open R g" "g \<noteq> f" for g
  proof -
    have gM: "(g, 160) \<in> M" using I(2)[OF g(1)] I(4)[OF f g(1)] by (intro M) (auto simp: file_typed_def)
    have "\<exists>n. (c, n) \<in> M - {(f, 160)}" if c: "owned (file_at s g) = Some c" for c
    proof -
      obtain n where "(c, n) \<in> L" using I(2)[OF g(1)] c by (auto simp: file_typed_def)
      moreover have "owned (file_at s f) \<noteq> Some c" "c \<noteq> f" using I(5)[OF f g(1) _ c] I(4)[OF g(1) f c] g(2) by blast+
      ultimately show ?thesis using M by auto
    qed
    then show ?thesis using I(2)[OF g(1)] g(2) gM by (simp add: file_typed_def u(3) t(3))
  qed
  have op: "is_open R g \<and> g \<noteq> f" if "is_open (R(f := 0)) g" for g using that by (simp add: is_open_def split: if_splits)
  have "files_inv u (M - {(f, 160)}) (R(f := 0))"
    unfolding files_inv_def u(3) t(3) using u(2) keep op I(3-5) by (metis fun_upd_other)
  then show ?thesis using t(1,4) u(1,4) by (intro exI[of _ u] exI[of _ "M - {(f, 160)}"]) simp
qed

lemma vfs_close_file:
  fixes s :: "('d, 'a) kernel_state_scheme"
  assumes inv: "files_inv s L R" and f: "is_open R f" and R: "R f < 2 ^ 64"
  shows "\<exists>u L'. vfs_close f s = Inr (0, u) \<and> files_inv u L' (R(f := R f - 1)) \<and> pcb_at u = pcb_at s"
proof -
  let ?t = "vfs_update f (file_ref_count_update (\<lambda>n. n - 1)) s"
  have c: "file_ref_count (file_at s f) = word_of_nat (R f)" by (rule files_invD(3)[OF inv f])
  have u: "unat (word_of_nat (R f) :: u64) = R f" using R by (simp add: unat_of_nat take_bit_nat_eq_self)
  have pos: "file_ref_count (file_at s f) > 0" using f u by (simp add: c word_less_nat_alt is_open_def)
  have dec: "file_ref_count (file_at ?t f) = word_of_nat (R f - 1)" using f by (simp add: vfs_update_def c is_open_def of_nat_diff)
  have "unat (word_of_nat (R f - 1) :: u64) = R f - 1" using R by (subst unat_of_nat) (simp add: take_bit_nat_eq_self)
  then have zero: "file_ref_count (file_at ?t f) = 0 \<longleftrightarrow> R f = 1"
    unfolding dec unat_eq_0[symmetric] using f by (auto simp only: is_open_def)
  have f0: "f \<noteq> 0" using f by (simp add: is_open_def)
  show ?thesis
  proof (cases "R f = 1")
    case True
    have one: "files_inv ?t L (R(f := 2 ^ 64))"
      using dec True by (intro files_inv_update[OF inv f]) (simp_all add: vfs_update_def)
    have op: "is_open (R(f := 2 ^ 64)) f" using f0 by (simp add: is_open_def)
    obtain u L' where u: "kbind (case vf_close (file_at ?t f) of Some fn \<Rightarrow> call_close fn f ?t | None \<Rightarrow> Inr ?t) (\<lambda>s. kfree f s) = Inr u"
      "files_inv u L' ((R(f := 2 ^ 64))(f := 0))" "pcb_at u = pcb_at ?t" using free_file[OF one op] by (elim exE conjE)
    have "vfs_close f s = kbind (kbind (case vf_close (file_at ?t f) of Some fn \<Rightarrow> call_close fn f ?t | None \<Rightarrow> Inr ?t)
        (\<lambda>s. kfree f s)) (\<lambda>s. Inr (0, s))"
      using pos zero True f0 by (simp add: vfs_close_def Let_def kbind_assoc)
    then have "vfs_close f s = Inr (0, u)" by (simp add: u(1))
    then show ?thesis using u(2,3) True by (intro exI[of _ u] exI[of _ L']) (simp add: vfs_update_def)
  next
    case False
    have "files_inv ?t L (R(f := R f - 1))"
      using dec by (intro files_inv_update[OF inv f]) (simp_all add: vfs_update_def)
    moreover have "vfs_close f s = Inr (0, ?t)" using pos zero False f0 by (simp add: vfs_close_def Let_def)
    ultimately show ?thesis by (intro exI[of _ ?t] exI[of _ L]) (simp add: vfs_update_def)
  qed
qed

section \<open>Descriptor tables\<close>

lemma count_list_update: "i < length xs \<Longrightarrow> count_list (xs[i := y]) x + of_bool (xs ! i = x) = count_list xs x + of_bool (y = x)"
proof (induction xs arbitrary: i)
  case (Cons a xs)
  then show ?case using Cons.IH[of "i - 1"] by (cases i) simp_all
qed simp

lemma count_list_le: "count_list xs x \<le> length xs"
  by (induction xs) auto

lemma refs_simps [simp]: "refs s [] f = 0" "refs s (p # ps) f = count_list (pcb_fds (pcb_at s p)) f + refs s ps f"
  by (simp_all add: refs_def)

lemma refs_cong: "(\<And>p. p \<in> set ps \<Longrightarrow> pcb_fds (pcb_at t p) = pcb_fds (pcb_at s p)) \<Longrightarrow> refs t ps = refs s ps"
  by (simp add: refs_def fun_eq_iff cong: map_cong)

lemma refs_bound: "\<forall>p \<in> set ps. length (pcb_fds (pcb_at s p)) = 32 \<Longrightarrow> refs s ps f \<le> 32 * length ps"
proof (induction ps)
  case (Cons p ps)
  then show ?case using count_list_le[of "pcb_fds (pcb_at s p)" f] by simp
qed simp

lemma refs_set:
  assumes "distinct ps" "p \<in> set ps" "i < length (pcb_fds (pcb_at s p))"
    and t: "pcb_fds (pcb_at t p) = (pcb_fds (pcb_at s p))[i := y]" "\<And>q. q \<noteq> p \<Longrightarrow> pcb_fds (pcb_at t q) = pcb_fds (pcb_at s q)"
  shows "refs t ps f + of_bool (pcb_fds (pcb_at s p) ! i = f) = refs s ps f + of_bool (y = f)"
  using assms(1,2)
proof (induction ps)
  case (Cons q ps)
  show ?case
  proof (cases "q = p")
    case True
    have "refs t ps = refs s ps" by (rule refs_cong, rule t(2)) (use Cons.prems True in auto)
    then show ?thesis unfolding True using count_list_update[OF assms(3), of y f] by (simp only: refs_simps t(1))
  next
    case False
    then show ?thesis using Cons t(2)[OF False] by simp
  qed
qed simp

lemma set_fd_ok:
  fixes s :: "('d, 'a) kernel_state_scheme"
  assumes "distinct ps" "length ps \<le> 4096" "\<forall>p \<in> set ps. length (pcb_fds (pcb_at s p)) = 32" "p \<in> set ps" "i < 32" "files_inv s L R"
    "\<And>f. f \<noteq> 0 \<Longrightarrow> R f + of_bool (pcb_fds (pcb_at s p) ! i = f) = refs s ps f + of_bool (y = f)"
  shows "\<exists>t. set_fd p i y s = Inr t \<and> fds_inv t L ps"
proof -
  let ?t = "set_pcb p (pcb_fds_update (\<lambda>_. (pcb_fds (pcb_at s p))[i := y])) s"
  have len: "i < length (pcb_fds (pcb_at s p))" using assms(3-5) by simp
  have fds: "pcb_fds (pcb_at ?t p) = (pcb_fds (pcb_at s p))[i := y]" "\<And>q. q \<noteq> p \<Longrightarrow> pcb_fds (pcb_at ?t q) = pcb_fds (pcb_at s q)"
    by (simp_all add: set_pcb_def pcb_update_def)
  have R: "refs ?t ps f = R f" if "f \<noteq> 0" for f
    using refs_set[OF assms(1,4) len fds, of f] assms(7)[OF that] by simp
  have op: "is_open (refs ?t ps) = is_open R" using R by (auto simp: is_open_def fun_eq_iff)
  have st: "file_at ?t = file_at s" "file_typed ?t L = file_typed s L" by (simp_all add: file_typed_def set_pcb_def fun_eq_iff)
  have "heap_inv ?t L" using files_invD(1)[OF assms(6)] heap_inv_cong[of ?t s L] by (simp add: set_pcb_def)
  moreover have "word_of_nat (refs ?t ps f) = (word_of_nat (R f) :: u64)" if "is_open R f" for f
    using R[of f] that unfolding is_open_def by simp
  ultimately have "files_inv ?t L (refs ?t ps)"
    using assms(6) unfolding files_inv_def op st by simp
  moreover have "length (pcb_fds (pcb_at ?t q)) = 32" if "q \<in> set ps" for q
    using that assms(3) fds by (cases "q = p") simp_all
  moreover have "set_fd p i y s = Inr ?t" using len by (simp add: set_fd_def arr_set_def)
  ultimately show ?thesis using assms(1,2) by (simp add: fds_inv_def)
qed

section \<open>The system calls on descriptors\<close>

lemma sint_range:
  assumes "0 \<le> sint (v :: u64)" "sint v < 32"
  shows "unat v < 32"
proof -
  have "uint v < 32" using assms uint_range_size[of v] by (simp add: sint_u64 word_size split: if_splits)
  then have "int (unat v) < int 32" by (simp only: uint_nat of_nat_numeral)
  then show ?thesis by (simp only: of_nat_less_iff)
qed

lemma first_null_Some: "first_null xs k = Some i \<Longrightarrow> k \<le> i \<and> i - k < length xs \<and> xs ! (i - k) = 0"
  by (induction xs k rule: first_null.induct) (auto simp: nth_Cons' Suc_diff_Suc split: if_splits)

lemma refs_pos:
  assumes "p \<in> set ps" "i < length (pcb_fds (pcb_at s p))" "pcb_fds (pcb_at s p) ! i = f"
  shows "0 < refs s ps f"
proof -
  have "0 < count_list (pcb_fds (pcb_at s p)) f" using assms(2,3) by (metis count_list_0_iff gr0I nth_mem)
  then show ?thesis using assms(1) by (induction ps) auto
qed

lemma fds_invD:
  assumes "fds_inv s L ps"
  shows "distinct ps" "length ps \<le> 4096" "\<forall>p \<in> set ps. length (pcb_fds (pcb_at s p)) = 32" "files_inv s L (refs s ps)"
    "refs s ps f < 2 ^ 64"
  using assms refs_bound[of ps s f] by (auto simp: fds_inv_def)

lemma valid_fd:
  assumes "fds_inv s L ps" "p \<in> set ps" "is_fd_valid fd (pcb_fds (pcb_at s p))"
  shows "unat fd < 32" "is_open (refs s ps) (pcb_fd p fd s)"
proof -
  show n: "unat fd < 32" using assms(3) by (intro sint_range) (auto simp: is_fd_valid_def)
  then show "is_open (refs s ps) (pcb_fd p fd s)"
    using assms refs_pos[OF assms(2), of "unat fd" s] fds_invD(3)[OF assms(1)] by (simp add: is_open_def is_fd_valid_def pcb_fd_def)
qed

lemma close_fd:
  fixes s :: "('d, 'a) kernel_state_scheme"
  assumes inv: "fds_inv s L ps" and p: "p \<in> set ps" and fd: "is_fd_valid fd (pcb_fds (pcb_at s p))"
  defines "f \<equiv> pcb_fd p fd s"
  shows "\<exists>u L'. vfs_close f s = Inr (0, u) \<and> files_inv u L' ((refs s ps)(f := refs s ps f - 1)) \<and> pcb_at u = pcb_at s \<and> 0 < refs s ps f"
  using vfs_close_file[OF fds_invD(4)[OF inv] valid_fd(2)[OF inv p fd] fds_invD(5)[OF inv]] valid_fd(2)[OF inv p fd]
  unfolding f_def is_open_def by blast

lemma close_handler_ok:
  fixes s :: "('d, 'a) kernel_state_scheme"
  assumes inv: "fds_inv s L ps" and p: "p \<in> set ps"
  shows "\<exists>r t L'. syscall_close_handler p regs s = Inr (r, t) \<and> fds_inv t L' ps"
proof (cases "is_fd_valid (ii_rdi regs) (pcb_fds (pcb_at s p))")
  case True
  let ?f = "pcb_fd p (ii_rdi regs) s"
  obtain u L' where u: "vfs_close ?f s = Inr (0, u)" "files_inv u L' ((refs s ps)(?f := refs s ps ?f - 1))" "pcb_at u = pcb_at s"
    "0 < refs s ps ?f" using close_fd[OF inv p True] by (elim exE conjE)
  have len: "\<forall>q \<in> set ps. length (pcb_fds (pcb_at u q)) = 32" unfolding u(3) by (rule fds_invD(3)[OF inv])
  have "\<exists>t. set_fd p (unat (ii_rdi regs)) 0 u = Inr t \<and> fds_inv t L' ps"
    by (rule set_fd_ok[OF fds_invD(1,2)[OF inv] len p valid_fd(1)[OF inv p True] u(2)])
      (use u(4) in \<open>auto simp: refs_cong[of ps u s] u(3) pcb_fd_def\<close>)
  then obtain t where "set_fd p (unat (ii_rdi regs)) 0 u = Inr t" "fds_inv t L' ps" by (elim exE conjE)
  then show ?thesis using True u(1) by (simp add: syscall_close_handler_def) blast
qed (use inv in \<open>auto simp: syscall_close_handler_def\<close>)

lemma dup_handler_ok:
  fixes s :: "('d, 'a) kernel_state_scheme"
  assumes inv: "fds_inv s L ps" and p: "p \<in> set ps"
  shows "\<exists>r t L'. syscall_dup_handler p regs s = Inr (r, t) \<and> fds_inv t L' ps"
proof (cases "is_fd_valid (ii_rdi regs) (pcb_fds (pcb_at s p)) \<and> first_null (pcb_fds (pcb_at s p)) 0 \<noteq> None")
  case True
  let ?f = "pcb_fd p (ii_rdi regs) s" and ?u = "vfs_update (pcb_fd p (ii_rdi regs) s) (file_ref_count_update (\<lambda>n. n + 1)) s"
  obtain i where i: "first_null (pcb_fds (pcb_at s p)) 0 = Some i" using True by blast
  have n: "i < 32" "pcb_fds (pcb_at s p) ! i = 0" using first_null_Some[OF i] fds_invD(3)[OF inv] p by auto
  have pcb: "pcb_at ?u = pcb_at s" by (simp add: vfs_update_def)
  have len: "\<forall>q \<in> set ps. length (pcb_fds (pcb_at ?u q)) = 32" unfolding pcb by (rule fds_invD(3)[OF inv])
  have fi: "files_inv ?u L ((refs s ps)(?f := refs s ps ?f + 1))"
    using True by (intro files_inv_dup fds_invD(4)[OF inv] valid_fd(2)[OF inv p]) simp
  have "\<exists>t. set_fd p i ?f ?u = Inr t \<and> fds_inv t L ps"
    by (rule set_fd_ok[OF fds_invD(1,2)[OF inv] len p n(1) fi]) (auto simp: refs_cong[of ps ?u s] pcb n(2))
  then obtain t where "set_fd p i ?f ?u = Inr t" "fds_inv t L ps" by (elim exE conjE)
  then show ?thesis using True i by (simp add: syscall_dup_handler_def) blast
qed (use inv in \<open>auto simp: syscall_dup_handler_def Let_def\<close>)

lemma seek_handler_ok:
  fixes s :: "('d, 'a) kernel_state_scheme"
  assumes inv: "fds_inv s L ps" and p: "p \<in> set ps"
  shows "\<exists>r t L'. syscall_lseek_handler p regs s = Inr (r, t) \<and> fds_inv t L' ps"
proof (cases "is_fd_valid (ii_rdi regs) (pcb_fds (pcb_at s p))")
  case True
  let ?t = "snd (vfs_seek (pcb_fd p (ii_rdi regs) s) (ii_rsi regs) (ucast (ii_rdx regs)) s)"
  have "files_inv ?t L (refs s ps)" by (rule files_inv_seek[OF fds_invD(4)[OF inv] valid_fd(2)[OF inv p True]])
  then have "fds_inv ?t L ps" using fds_invD(1-3)[OF inv] refs_cong[of ps ?t s] by (simp add: fds_inv_def)
  then show ?thesis using True by (auto simp: syscall_lseek_handler_def split_def Let_def)
qed (use inv in \<open>auto simp: syscall_lseek_handler_def\<close>)

text \<open>dup2 first closes the descriptor it will reuse.\<close>

lemma release_fd:
  fixes s :: "('d, 'a) kernel_state_scheme"
  assumes inv: "fds_inv s L ps" and p: "p \<in> set ps" and fd: "0 \<le> sint fd" "sint fd < 32"
  shows "\<exists>u L' R. (if is_fd_valid fd (pcb_fds (pcb_at s p)) then vfs_close (pcb_fd p fd s) s else Inr (0, s)) = Inr (0, u) \<and>
    files_inv u L' R \<and> pcb_at u = pcb_at s \<and> (\<forall>h. h \<noteq> 0 \<longrightarrow> R h + of_bool (pcb_fd p fd s = h) = refs s ps h)"
proof (cases "is_fd_valid fd (pcb_fds (pcb_at s p))")
  case True
  let ?g = "pcb_fd p fd s"
  obtain u L' where u: "vfs_close ?g s = Inr (0, u)" "files_inv u L' ((refs s ps)(?g := refs s ps ?g - 1))" "pcb_at u = pcb_at s"
    "0 < refs s ps ?g" using close_fd[OF inv p True] by (elim exE conjE)
  then show ?thesis using True by (intro exI[of _ u] exI[of _ L'] exI[of _ "(refs s ps)(?g := refs s ps ?g - 1)"]) simp
next
  case False
  then have "pcb_fd p fd s = 0" using fd by (simp add: is_fd_valid_def pcb_fd_def)
  then show ?thesis using False fds_invD(4)[OF inv] by (intro exI[of _ s] exI[of _ L] exI[of _ "refs s ps"]) simp
qed

lemma refs_two:
  assumes "p \<in> set ps" "i < length (pcb_fds (pcb_at s p))" "j < length (pcb_fds (pcb_at s p))" "i \<noteq> j"
    "pcb_fds (pcb_at s p) ! i = f" "pcb_fds (pcb_at s p) ! j = f"
  shows "1 < refs s ps f"
proof -
  let ?xs = "pcb_fds (pcb_at s p)"
  have "(?xs[j := f + 1]) ! i = f" using assms by simp
  then have "0 < count_list (?xs[j := f + 1]) f" using assms(2) by (metis count_list_0_iff gr0I nth_mem length_list_update)
  then have "1 < count_list ?xs f" using count_list_update[OF assms(3), of "f + 1" f] assms(6) by simp
  then show ?thesis using assms(1) by (induction ps) auto
qed

lemma dup2_handler_ok:
  fixes s :: "('d, 'a) kernel_state_scheme"
  assumes inv: "fds_inv s L ps" and p: "p \<in> set ps"
  shows "\<exists>r t L'. syscall_dup2_handler p regs s = Inr (r, t) \<and> fds_inv t L' ps"
proof -
  let ?old = "ii_rdi regs" and ?new = "ii_rsi regs" and ?R = "refs s ps"
  let ?bad = "\<not> is_fd_valid ?old (pcb_fds (pcb_at s p)) \<or> sint ?new < 0 \<or> sint ?new \<ge> 32"
  show ?thesis
  proof (cases "?bad \<or> ?old = ?new")
    case True
    then have "\<exists>r. syscall_dup2_handler p regs s = Inr (r, s)" by (auto simp: syscall_dup2_handler_def Let_def)
    then show ?thesis using inv by blast
  next
    case False
    then have v: "is_fd_valid ?old (pcb_fds (pcb_at s p))" and ne: "?old \<noteq> ?new" and n: "unat ?new < 32"
      using sint_range[of ?new] by auto
    let ?f = "pcb_fd p ?old s" and ?g = "pcb_fd p ?new s"
    obtain u L' R' where u: "(if is_fd_valid ?new (pcb_fds (pcb_at s p)) then vfs_close ?g s else Inr (0, s)) = Inr (0, u)"
      "files_inv u L' R'" "pcb_at u = pcb_at s" "\<forall>h. h \<noteq> 0 \<longrightarrow> R' h + of_bool (?g = h) = ?R h"
      using release_fd[OF inv p, of ?new] False by (auto simp only: not_less not_le de_Morgan_disj)
    have f0: "?f \<noteq> 0" "0 < ?R ?f" using valid_fd(2)[OF inv p v] by (simp_all add: is_open_def)
    have "1 < ?R ?f" if "?g = ?f"
      using refs_two[OF p _ _ _ _ _ , of "unat ?old" s "unat ?new" ?f] that n ne valid_fd(1)[OF inv p v] fds_invD(3)[OF inv] p
      by (simp add: pcb_fd_def word_unat_eq_iff)
    then have "0 < R' ?f" using u(4)[rule_format, OF f0(1)] f0(2) by (cases "?g = ?f") simp_all
    then have f: "is_open R' ?f" using v by (simp add: is_open_def is_fd_valid_def pcb_fd_def)
    let ?w = "vfs_update ?f (file_ref_count_update (\<lambda>n. n + 1)) u"
    have pcb: "pcb_at ?w = pcb_at s" by (simp add: vfs_update_def u(3))
    have len: "\<forall>q \<in> set ps. length (pcb_fds (pcb_at ?w q)) = 32" unfolding pcb by (rule fds_invD(3)[OF inv])
    have "pcb_fds (pcb_at ?w p) ! unat ?new = ?g" "refs ?w ps = ?R"
      unfolding pcb by (simp add: pcb_fd_def) (rule refs_cong, simp only: pcb)
    then have "\<exists>t. set_fd p (unat ?new) ?f ?w = Inr t \<and> fds_inv t L' ps"
      using u(4) by (intro set_fd_ok[OF fds_invD(1,2)[OF inv] len p n files_inv_dup[OF u(2) f]]) auto
    then obtain t where "set_fd p (unat ?new) ?f ?w = Inr t" "fds_inv t L' ps" by (elim exE conjE)
    moreover have "pcb_fd p ?old u = ?f" by (simp add: pcb_fd_def u(3))
    ultimately show ?thesis using False u(1) by (simp add: syscall_dup2_handler_def Let_def) blast
  qed
qed

text \<open>System calls of processes, one after another: the caller and its registers.\<close>

fun system_calls ::
  "'d hw \<Rightarrow> 'c cmos_state_scheme \<Rightarrow> 'b apic_state_scheme \<Rightarrow> (u64 \<times> interrupt_info) list \<Rightarrow> ('d, 'a) kernel_state_scheme \<Rightarrow>
   ('d, 'a) kernel_state_scheme kres" where
  "system_calls hw c a [] s = Inr s"
| "system_calls hw c a ((pcb, regs) # calls) s =
     kbind (syscall_dispatch hw c a (ii_rax regs) pcb regs s) (\<lambda>(_, s). system_calls hw c a calls s)"

text \<open>close, lseek, dup, dup2, getpid and getppid.\<close>

definition descriptor_calls :: "u64 set" where
  "descriptor_calls = {3, 8, 32, 33, 39, 110}"

lemma dispatch_ok:
  fixes s :: "('d, 'a) kernel_state_scheme"
  assumes "fds_inv s L ps" "p \<in> set ps" "n \<in> descriptor_calls"
  shows "\<exists>r t L'. syscall_dispatch hw c a n p regs s = Inr (r, t) \<and> fds_inv t L' ps"
proof -
  have "n = 3 \<or> n = 8 \<or> n = 32 \<or> n = 33 \<or> n = 39 \<or> n = 110" using assms(3) by (simp add: descriptor_calls_def)
  then consider "syscall_dispatch hw c a n p regs s = syscall_close_handler p regs s"
    | "syscall_dispatch hw c a n p regs s = syscall_lseek_handler p regs s"
    | "syscall_dispatch hw c a n p regs s = syscall_dup_handler p regs s"
    | "syscall_dispatch hw c a n p regs s = syscall_dup2_handler p regs s"
    | r where "syscall_dispatch hw c a n p regs s = Inr (r, s)"
    unfolding syscall_dispatch_def syscall_getpid_handler_def syscall_getppid_handler_def by fastforce
  then show ?thesis
    using close_handler_ok[OF assms(1,2), of regs] seek_handler_ok[OF assms(1,2), of regs] dup_handler_ok[OF assms(1,2), of regs]
      dup2_handler_ok[OF assms(1,2), of regs] assms(1) by cases (simp_all, blast)
qed


lemma count_list_replicate: "count_list (replicate n x) y = (if x = y then n else 0)"
  by (induction n) auto

lemma demo_refs: "f \<noteq> 0 \<Longrightarrow> refs demo_files [0x1000, 0x2000] f = (if f = 0xFFFF800000001420 then 3 else 0)"
  by (simp add: demo_files_def count_list_replicate)

lemma demo_fds_inv: "fds_inv demo_files demo_buffers [0x1000, 0x2000]"
proof -
  have op: "is_open (refs demo_files [0x1000, 0x2000]) f \<longleftrightarrow> f = 0xFFFF800000001420" for f
    by (cases "f = 0") (simp_all add: is_open_def demo_refs del: refs_simps)
  have own: "owned (file_at demo_files f) = Some 0xFFFF800000001020" for f by (simp add: owned_def demo_files_def)
  have "file_typed demo_files demo_buffers 0xFFFF800000001420"
    unfolding file_typed_def own by (auto simp: demo_buffers_def)
  moreover have "file_ref_count (file_at demo_files f) = 3" for f by (simp add: demo_files_def)
  ultimately have "files_inv demo_files demo_buffers (refs demo_files [0x1000, 0x2000])"
    unfolding files_inv_def op own using demo_heap_inv by (simp add: demo_refs del: refs_simps)
  moreover have "\<forall>p \<in> set [0x1000, 0x2000]. length (pcb_fds (pcb_at demo_files p)) = 32" by (simp add: demo_files_def)
  ultimately show ?thesis by (simp add: fds_inv_def)
qed


end
