(* ===== verification/Heap_Queue.thy ===== *)
theory Heap_Queue
  imports Heap_Client
begin

text \<open>
  The queue of kernel/data\_structures/queue.c: a linked list of nodes that live in the kernel
  heap. A run of enqueues and dequeues answers as a list does, and leaves the buffers of everybody
  else as they are.
\<close>

section \<open>The queue\<close>

text \<open>A queue\_node is a next pointer and a data pointer.\<close>

abbreviation (input) "SIZEOF_queue_node \<equiv> (16 :: u64)"

definition node_next :: "'a vmm_state_scheme \<Rightarrow> u64 \<Rightarrow> u64" where
  "node_next s n = read64 (kmem s) n"

definition node_data :: "'a vmm_state_scheme \<Rightarrow> u64 \<Rightarrow> u64" where
  "node_data s n = read64 (kmem s) (n + 8)"

definition node_set_next :: "u64 \<Rightarrow> u64 \<Rightarrow> 'a vmm_state_scheme \<Rightarrow> 'a vmm_state_scheme" where
  "node_set_next n v s = s\<lparr>kmem := write64 (kmem s) n v\<rparr>"

definition node_set_data :: "u64 \<Rightarrow> u64 \<Rightarrow> 'a vmm_state_scheme \<Rightarrow> 'a vmm_state_scheme" where
  "node_set_data n v s = s\<lparr>kmem := write64 (kmem s) (n + 8) v\<rparr>"

record queue =
  q_front :: u64
  q_rear :: u64

definition init_queue :: "queue" where
  "init_queue = \<lparr>q_front = 0, q_rear = 0\<rparr>"

definition queue_is_empty :: "queue \<Rightarrow> bool" where
  "queue_is_empty q \<longleftrightarrow> q_front q = 0"

definition queue_enqueue :: "queue \<Rightarrow> u64 \<Rightarrow> 'a heap_state_scheme \<Rightarrow> (queue \<times> 'a heap_state_scheme) kres" where
  "queue_enqueue q data s =
     kbind (kmalloc SIZEOF_queue_node s) (\<lambda>(new_node, s).
     let s = node_set_data new_node data s;
         s = node_set_next new_node 0 s
     in if q_rear q = 0 then Inr (\<lparr>q_front = new_node, q_rear = new_node\<rparr>, s)
        else Inr (q\<lparr>q_rear := new_node\<rparr>, node_set_next (q_rear q) new_node s))"

definition queue_dequeue :: "queue \<Rightarrow> 'a heap_state_scheme \<Rightarrow> (u64 \<times> queue \<times> 'a heap_state_scheme) kres" where
  "queue_dequeue q s =
     (if queue_is_empty q then Inr (0, q, s)
      else
        let front_ptr = q_front q;
            data = node_data s (q_front q);
            q = (if q_front q = q_rear q then q\<lparr>q_rear := 0\<rparr> else q);
            q = q\<lparr>q_front := node_next s (q_front q)\<rparr>
        in kbind (kfree front_ptr s) (\<lambda>s. Inr (data, q, s)))"

definition queue_peek :: "queue \<Rightarrow> 'a heap_state_scheme \<Rightarrow> u64" where
  "queue_peek q s = (if queue_is_empty q then 0 else node_data s (q_front q))"

text \<open>A client: enqueues, dequeues and peeks with their answers, and the same on a list.\<close>

datatype queue_op = Enqueue u64 | Dequeue | Peek

fun queue_run :: "queue_op list \<Rightarrow> queue \<Rightarrow> 'a heap_state_scheme \<Rightarrow> (u64 list \<times> queue \<times> 'a heap_state_scheme) kres" where
  "queue_run [] q s = Inr ([], q, s)"
| "queue_run (Enqueue x # ops) q s = kbind (queue_enqueue q x s) (\<lambda>(q, s). queue_run ops q s)"
| "queue_run (Dequeue # ops) q s =
     kbind (queue_dequeue q s) (\<lambda>(x, q, s). kbind (queue_run ops q s) (\<lambda>(xs, r). Inr (x # xs, r)))"
| "queue_run (Peek # ops) q s = kbind (queue_run ops q s) (\<lambda>(xs, r). Inr (queue_peek q s # xs, r))"

definition front_of :: "u64 list \<Rightarrow> u64" where
  "front_of xs = (case xs of [] \<Rightarrow> 0 | x # _ \<Rightarrow> x)"

fun list_answers :: "queue_op list \<Rightarrow> u64 list \<Rightarrow> u64 list" where
  "list_answers [] xs = []"
| "list_answers (Enqueue x # ops) xs = list_answers ops (xs @ [x])"
| "list_answers (Dequeue # ops) xs = front_of xs # list_answers ops (tl xs)"
| "list_answers (Peek # ops) xs = front_of xs # list_answers ops xs"

section \<open>Nodes in the heap\<close>

lemma buffer_aligned:
  assumes "heap_inv s L" "(p, n) \<in> L"
  shows "8 dvd unat p"
proof -
  obtain fs ss where "heap_rep s fs ss (live L)" "p - 32 \<in> live L" using heap_invD[OF assms(1)] assms(2) by metis
  then have "hdr_aligned (p - 32)" using blocks_okD(1)[OF heap_repD(2)] by blast
  then have "hdr_aligned (p - 32 + 32)" by (rule hdr_aligned_add) simp
  then have "32 dvd unat p" by (simp add: hdr_aligned_def)
  then show ?thesis by (rule dvd_trans[rotated]) simp
qed

lemma aligned_second: "8 dvd unat (p :: u64) \<Longrightarrow> 8 dvd unat (p + 8)"
  by (simp add: unat_word_ariths dvd_mod)

lemma node_fields:
  assumes "8 dvd unat n" "8 dvd unat m"
  shows "node_next (node_set_next n v s) m = (if m = n then v else node_next s m)"
    "node_data (node_set_data n v s) m = (if m = n then v else node_data s m)"
    "node_data (node_set_next n v s) n = node_data s n" "node_next (node_set_data n v s) n = node_next s n"
  using assms aligned_second[OF assms(1)] aligned_second[OF assms(2)]
  by (auto simp: node_next_def node_data_def node_set_next_def node_set_data_def)

lemma heap_set_node:
  assumes "heap_inv s L" "(n, 16) \<in> L"
  shows "heap_inv (node_set_next n v s) L" "keeps (L - {(n, 16)}) s (node_set_next n v s)"
    "heap_inv (node_set_data n v s) L" "keeps (L - {(n, 16)}) s (node_set_data n v s)"
  using heap_store_buffer(1,2)[OF assms, of 0 "le_bytes 8 v"] heap_store_buffer(1,2)[OF assms, of 8 "le_bytes 8 v"]
  by (simp_all add: node_set_next_def node_set_data_def write64_def)

lemma keeps_node:
  assumes "keeps L s s'" "(n, 16) \<in> L"
  shows "node_next s' n = node_next s n" "node_data s' n = node_data s n"
  using keeps_bytes[OF assms, of 0 8] keeps_bytes[OF assms, of 8 8]
  by (simp_all add: node_next_def node_data_def read64_def)

section \<open>The list of a queue\<close>

fun qchain :: "'a vmm_state_scheme \<Rightarrow> u64 \<Rightarrow> (u64 \<times> u64) list \<Rightarrow> bool" where
  "qchain s p [] \<longleftrightarrow> p = 0"
| "qchain s p ((n, x) # ns) \<longleftrightarrow> p = n \<and> n \<noteq> 0 \<and> node_data s n = x \<and> qchain s (node_next s n) ns"

definition node_buffers :: "(u64 \<times> u64) list \<Rightarrow> (u64 \<times> u64) set" where
  "node_buffers ns = (\<lambda>n. (n, 16)) ` set (map fst ns)"

text \<open>The queue holds the data of the nodes ns; B are the buffers of everybody else.\<close>

definition queue_rep :: "'a heap_state_scheme \<Rightarrow> (u64 \<times> u64) set \<Rightarrow> queue \<Rightarrow> (u64 \<times> u64) list \<Rightarrow> bool" where
  "queue_rep s B q ns \<longleftrightarrow> heap_inv s (B \<union> node_buffers ns) \<and> qchain s (q_front q) ns \<and>
     distinct (map fst ns) \<and> fst ` B \<inter> set (map fst ns) = {} \<and> q_rear q = (if ns = [] then 0 else fst (last ns))"

lemma qchain_cong:
  "(\<And>n. n \<in> set (map fst ns) \<Longrightarrow> node_next s' n = node_next s n \<and> node_data s' n = node_data s n) \<Longrightarrow> qchain s' p ns = qchain s p ns"
  by (induction ns arbitrary: p) auto

lemma qchain_snoc:
  assumes "qchain s p ns" "distinct (map fst ns)" "t \<notin> set (map fst ns)" "t \<noteq> 0" "ns \<noteq> []"
    "node_next s' t = 0" "node_data s' t = x"
    "\<And>n. n \<in> set (map fst ns) \<Longrightarrow> node_data s' n = node_data s n \<and> node_next s' n = (if n = fst (last ns) then t else node_next s n)"
  shows "qchain s' p (ns @ [(t, x)])"
  using assms
proof (induction ns arbitrary: p)
  case (Cons a ns)
  show ?case
  proof (cases "ns = []")
    case True
    then show ?thesis using Cons.prems by (cases a) auto
  next
    case False
    then have "fst a \<noteq> fst (last ns)" using Cons.prems(2) last_in_set[OF False] by (cases a) force
    then show ?thesis using Cons False by (cases a) auto
  qed
qed simp

lemma qchain_not_null: "qchain s p ns \<Longrightarrow> 0 \<notin> fst ` set ns"
proof (induction ns arbitrary: p)
  case (Cons a ns)
  then show ?case using Cons.IH[of "node_next s (fst a)"] by (cases a) auto
qed simp

lemma fst_node_buffers [simp]: "fst ` node_buffers ns = set (map fst ns)"
  by (simp add: node_buffers_def image_image)

lemma queue_repD:
  assumes "queue_rep s B q ns"
  shows "heap_inv s (B \<union> node_buffers ns)" "qchain s (q_front q) ns" "distinct (map fst ns)" "fst ` B \<inter> set (map fst ns) = {}"
    "q_rear q = (if ns = [] then 0 else fst (last ns))" "(n, x) \<in> set ns \<Longrightarrow> (n, 16) \<in> B \<union> node_buffers ns"
  using assms by (force simp: queue_rep_def node_buffers_def)+

text \<open>A fresh node, filled in.\<close>

lemma new_node:
  fixes s :: "'a heap_state_scheme" and x :: u64
  assumes "heap_inv s (insert (t, 16) L)" "t \<notin> fst ` L"
  defines "s' \<equiv> node_set_next t 0 (node_set_data t x s)"
  shows "heap_inv s' (insert (t, 16) L)" "keeps L s s'" "node_next s' t = 0" "node_data s' t = x"
proof -
  have d: "insert (t, 16) L - {(t, 16)} = L" using assms(2) by force
  have t: "(t, 16) \<in> insert (t, 16) L" by simp
  note a = heap_set_node(3,4)[OF assms(1) t, of x, unfolded d]
  note b = heap_set_node(1,2)[OF a(1) t, of 0, unfolded d]
  show "heap_inv s' (insert (t, 16) L)" "keeps L s s'"
    unfolding s'_def using b(1) keeps_trans[OF a(2) b(2)] by simp_all
  have "8 dvd unat t" by (rule buffer_aligned[OF assms(1) t])
  then show "node_next s' t = 0" "node_data s' t = x" by (simp_all add: s'_def node_fields)
qed

text \<open>Linking a fresh node at the end.\<close>

lemma link_node:
  fixes s s1 :: "'a heap_state_scheme"
  assumes rep: "queue_rep s B q ns" and t: "t \<notin> fst ` (B \<union> node_buffers ns)" "heap_inv s3 (insert (t, 16) (B \<union> node_buffers ns))"
    and k: "keeps (B \<union> node_buffers ns) s s3" and n: "node_next s3 t = 0" "node_data s3 t = x"
  shows "q_rear q = 0 \<Longrightarrow> queue_rep s3 B \<lparr>q_front = t, q_rear = t\<rparr> (ns @ [(t, x)])" (is "_ \<Longrightarrow> ?first")
    "q_rear q \<noteq> 0 \<Longrightarrow> queue_rep (node_set_next (q_rear q) t s3) B (q\<lparr>q_rear := t\<rparr>) (ns @ [(t, x)])" (is "_ \<Longrightarrow> ?more")
    "q_rear q \<noteq> 0 \<Longrightarrow> keeps B s (node_set_next (q_rear q) t s3)"
proof -
  note R = queue_repD[OF rep]
  let ?L = "B \<union> node_buffers ns" and ?r = "q_rear q"
  let ?s4 = "node_set_next ?r t s3"
  have t0: "t \<noteq> 0" using buffer_no_null[OF t(2), of t 16 t] by (simp add: region_def)
  have tn: "t \<notin> set (map fst ns)" "t \<notin> fst ` B" using t(1) by (simp_all add: image_Un)
  have L': "B \<union> node_buffers (ns @ [(t, x)]) = insert (t, 16) ?L" by (auto simp: node_buffers_def)
  show ?first if "?r = 0"
  proof -
    have "ns = []" using that R(5) qchain_not_null[OF R(2)] by (cases "ns = []") (auto simp: image_iff)
    then show ?thesis using t(2) n t0 tn L' by (simp add: queue_rep_def)
  qed
  assume r0: "?r \<noteq> 0"
  then have ne: "ns \<noteq> []" "?r = fst (last ns)" using R(5) by (auto split: if_splits)
  have r: "?r \<in> set (map fst ns)" using ne by simp
  then have rL: "(?r, 16) \<in> insert (t, 16) ?L" "?r \<notin> fst ` B" using R(4) by (auto simp: node_buffers_def image_iff)
  note w = heap_set_node(1,2)[OF t(2) rL(1), of t]
  have keep: "keeps B s ?s4"
    by (rule keeps_trans[OF k w(2)]) (use rL(2) in \<open>force+\<close>)
  then show "keeps B s ?s4" .
  have al: "8 dvd unat m" if "m = t \<or> m \<in> set (map fst ns)" for m
    using that buffer_aligned[OF t(2), of m 16] by (auto simp: node_buffers_def)
  have "node_data ?s4 m = node_data s m \<and> node_next ?s4 m = (if m = fst (last ns) then t else node_next s m)" if "m \<in> set (map fst ns)" for m
  proof -
    have "(m, 16) \<in> ?L" using that by (auto simp: node_buffers_def)
    note km = keeps_node[OF k this]
    have "node_data ?s4 m = node_data s3 m"
    proof (cases "m = ?r")
      case False
      then show ?thesis using keeps_node(2)[OF w(2), of m] \<open>(m, 16) \<in> ?L\<close> by simp
    qed (use node_fields(3)[of ?r t] al r in simp)
    then show ?thesis using km node_fields(1)[OF al al, of ?r m t s3] that r ne(2) by simp
  qed
  moreover have "node_next ?s4 t = 0" "node_data ?s4 t = x"
    using keeps_node[OF w(2), of t] n r tn(1) by auto
  ultimately have "qchain ?s4 (q_front q) (ns @ [(t, x)])" using qchain_snoc[OF R(2,3) tn(1) t0 ne(1)] by blast
  then show ?more using w(1) R(3,4) tn L' by (simp add: queue_rep_def)
qed

lemma queue_enqueue_runs:
  fixes s :: "'a heap_state_scheme"
  assumes rep: "queue_rep s B q ns" and fits: "heap_fits s 16"
  shows "runs (queue_enqueue q x s) (\<lambda>(q', s'). (\<exists>t. queue_rep s' B q' (ns @ [(t, x)])) \<and> keeps B s s')"
proof -
  let ?L = "B \<union> node_buffers ns"
  have "runs (kmalloc 16 s) (\<lambda>(t, s1). t \<notin> fst ` ?L \<and> heap_inv s1 (insert (t, 16) ?L) \<and> keeps ?L s s1)"
    by (rule kmalloc_runs[OF queue_repD(1)[OF rep] _ fits]) simp
  then show ?thesis unfolding queue_enqueue_def
  proof (rule runs_bind, clarify)
    fix t and s1 :: "'a heap_state_scheme" assume t: "t \<notin> fst ` ?L" "heap_inv s1 (insert (t, 16) ?L)" "keeps ?L s s1"
    define s3 where "s3 = node_set_next t 0 (node_set_data t x s1)"
    note n = new_node[OF t(2,1), of x, folded s3_def]
    have k3: "keeps ?L s s3" by (rule keeps_trans[OF t(3) n(2)]) simp_all
    note l = link_node[OF rep t(1) n(1) k3 n(3,4)]
    show "runs (let s = node_set_data t x s1; s = node_set_next t 0 s
        in if q_rear q = 0 then Inr (\<lparr>q_front = t, q_rear = t\<rparr>, s) else Inr (q\<lparr>q_rear := t\<rparr>, node_set_next (q_rear q) t s))
      (\<lambda>(q', s'). (\<exists>t. queue_rep s' B q' (ns @ [(t, x)])) \<and> keeps B s s')"
      unfolding Let_def s3_def[symmetric] using l keeps_mono[OF k3, of B] by (cases "q_rear q = 0") auto
  qed
qed

lemma queue_dequeue_runs:
  fixes s :: "'a heap_state_scheme"
  assumes rep: "queue_rep s B q ns"
  shows "runs (queue_dequeue q s) (\<lambda>(x, q', s'). x = front_of (map snd ns) \<and> queue_rep s' B q' (tl ns) \<and> keeps B s s')"
proof (cases ns)
  case Nil
  then show ?thesis using rep by (auto simp: queue_dequeue_def queue_is_empty_def queue_rep_def front_of_def)
next
  case (Cons a ms)
  obtain n x where a: "a = (n, x)" by force
  note R = queue_repD[OF rep]
  have f: "q_front q = n" "n \<noteq> 0" "node_data s n = x" "qchain s (node_next s n) ms" "n \<notin> set (map fst ms)" "distinct (map fst ms)"
    using R(2,3) by (auto simp: Cons a)
  have d: "B \<union> node_buffers ns - {(n, 16)} = B \<union> node_buffers ms"
    using R(4) f(5) by (force simp: Cons a node_buffers_def)
  have "(n, 16) \<in> B \<union> node_buffers ns" by (simp add: Cons a node_buffers_def)
  then have fr: "runs (kfree n s) (\<lambda>s'. heap_inv s' (B \<union> node_buffers ms) \<and> keeps (B \<union> node_buffers ms) s s')"
    using kfree_runs[OF R(1), of n 16] unfolding d by blast
  let ?q = "(if n = q_rear q then q\<lparr>q_rear := 0\<rparr> else q)\<lparr>q_front := node_next s n\<rparr>"
  have rear: "q_rear ?q = (if ms = [] then 0 else fst (last ms))"
    using R(5) f(5) last_in_set[of ms] by (auto simp: Cons a image_iff) 
  have rep': "queue_rep s' B ?q ms" if "heap_inv s' (B \<union> node_buffers ms)" "keeps (B \<union> node_buffers ms) s s'" for s'
  proof -
    have "qchain s' (node_next s n) ms"
      by (rule iffD2[OF qchain_cong f(4)]) (use keeps_node[OF that(2)] in \<open>auto simp: node_buffers_def\<close>)
    then show ?thesis using that(1) R(4) f(6) rear by (simp add: queue_rep_def Cons a)
  qed
  have eq: "queue_dequeue q s = kbind (kfree n s) (\<lambda>s. Inr (x, ?q, s))"
    using f(1-3) by (auto simp: queue_dequeue_def queue_is_empty_def Let_def)
  have "tl ns = ms" "front_of (map snd ns) = x" by (simp_all add: Cons a front_of_def)
  then show ?thesis unfolding eq
    using rep' keeps_mono[of "B \<union> node_buffers ms" s _ B] by (intro runs_bind[OF fr]) (simp split del: if_split)
qed

lemma queue_peek_rep: "queue_rep s B q ns \<Longrightarrow> queue_peek q s = front_of (map snd ns)"
  by (cases ns) (auto simp: queue_rep_def queue_peek_def queue_is_empty_def front_of_def)

lemma queue_run_answers:
  fixes s :: "'a heap_state_scheme"
  assumes "queue_rep s B q ns" "heap_fits s 16"
  shows "runs (queue_run ops q s) (\<lambda>(as, q', s'). as = list_answers ops (map snd ns) \<and> (\<exists>ms. queue_rep s' B q' ms) \<and> keeps B s s')"
  using assms
proof (induction ops arbitrary: q s ns)
  case (Cons op ops)
  have next': "runs (queue_run ops q' s') (\<lambda>(as, r, t). as = list_answers ops (map snd ms) \<and> (\<exists>ls. queue_rep t B r ls) \<and> keeps B s t)"
    if "queue_rep s' B q' ms" "keeps B s s'" for q' s' ms
    using runs_mono[OF Cons.IH[OF that(1)]] keeps_fits[OF that(2)] Cons.prems(2) keeps_trans[OF that(2), of B _ B] by fastforce
  show ?case
  proof (cases op)
    case (Enqueue x)
    show ?thesis unfolding Enqueue queue_run.simps
      by (rule runs_bind[OF queue_enqueue_runs[OF Cons.prems]]) (use next' in fastforce)
  next
    case Dequeue
    show ?thesis unfolding Dequeue queue_run.simps
    proof (rule runs_bind[OF queue_dequeue_runs[OF Cons.prems(1)]], clarify)
      fix q' and s' :: "'a heap_state_scheme" assume "queue_rep s' B q' (tl ns)" "keeps B s s'"
      then show "runs (kbind (queue_run ops q' s') (\<lambda>(xs, r). Inr (front_of (map snd ns) # xs, r)))
        (\<lambda>(as, q', s'). as = list_answers (Dequeue # ops) (map snd ns) \<and> (\<exists>ms. queue_rep s' B q' ms) \<and> keeps B s s')"
        by (intro runs_bind[OF next']) (auto simp: map_tl)
    qed
  next
    case Peek
    show ?thesis unfolding Peek queue_run.simps queue_peek_rep[OF Cons.prems(1)]
      by (rule runs_bind[OF next'[OF Cons.prems(1) keeps_refl]]) auto
  qed
qed auto

text \<open>
  C40: the queue in the kernel heap is first-in first-out. Starting from an empty queue, any
  sequence of enqueues, dequeues and peeks either stops because the heap has no memory for a new
  node, or gives the answers of a list (NULL when the queue is empty), keeps the heap well formed
  and leaves the bytes of all other buffers unchanged.
\<close>

theorem heap_queue_fifo:
  assumes "heap_inv s B" "heap_fits s 16"
  shows "runs (queue_run ops init_queue s)
    (\<lambda>(as, q, s'). as = list_answers ops [] \<and> (\<exists>ns. queue_rep s' B q ns) \<and> keeps B s s')"
proof -
  have "queue_rep s B init_queue []" using assms(1) by (simp add: queue_rep_def init_queue_def node_buffers_def)
  from queue_run_answers[OF this assms(2)] show ?thesis by simp
qed

theorem heap_queue_fifo_witness:
  "\<exists>s0. init_kernel_heap heap_boot = Inr s0 \<and>
    runs (queue_run [Enqueue 5, Enqueue 6, Dequeue, Enqueue 7, Peek, Dequeue, Dequeue, Dequeue] init_queue s0)
      (\<lambda>(as, q, s'). as = [5, 6, 6, 7, 0] \<and> (\<exists>ns. queue_rep s' {} q ns) \<and> keeps {} s0 s')"
proof -
  obtain s0 k where s0: "init_kernel_heap heap_boot = Inr s0" "heap_inv s0 {}" "nframes s0 = 8"
    "free_run s0 k (heap_pages 100)" by (rule heap_demo_run)
  have "heap_fits s0 16" using s0(3) by (simp add: heap_fits_def)
  from heap_queue_fifo[OF s0(2) this, of "[Enqueue 5, Enqueue 6, Dequeue, Enqueue 7, Peek, Dequeue, Dequeue, Dequeue]"]
  show ?thesis using s0(1) by (simp add: front_of_def)
qed

end
