(* ===== verification/Printk.thy ===== *)
theory Printk
  imports Kernel_State
begin

text \<open>
  Formatted output, kernel/printk/printk.c, and the panic screen, kernel/panic/panic.c. The
  variable arguments are the words after the format on the stack; a string argument is the address
  of a string, read through \<open>str\<close>. Output goes to the character devices, whose effect on the world
  is an argument.
\<close>

section \<open>Definitions\<close>

datatype special_symbols = SYMBOL_CHAR | SYMBOL_INTEGER | SYMBOL_STRING | SYMBOL_UNSIGNED_INTEGER | SYMBOL_HEX

fun special_symbol_code :: "special_symbols \<Rightarrow> u8" where
  "special_symbol_code SYMBOL_CHAR = 0x63"
| "special_symbol_code SYMBOL_INTEGER = 0x64"
| "special_symbol_code SYMBOL_STRING = 0x73"
| "special_symbol_code SYMBOL_UNSIGNED_INTEGER = 0x75"
| "special_symbol_code SYMBOL_HEX = 0x78"

abbreviation (input) "SPECIAL_SYMBOL_PREFIX \<equiv> (0x25 :: u8)"
abbreviation (input) "MAX_BUFFER_SIZE \<equiv> (30 :: nat)"

definition symbol_of :: "u8 \<Rightarrow> special_symbols option" where
  "symbol_of chr =
     find (\<lambda>y. special_symbol_code y = chr) [SYMBOL_CHAR, SYMBOL_INTEGER, SYMBOL_STRING, SYMBOL_UNSIGNED_INTEGER, SYMBOL_HEX]"

definition is_special_symbol :: "u8 \<Rightarrow> bool" where
  "is_special_symbol chr \<longleftrightarrow> symbol_of chr \<noteq> None"

type_synonym 'w dev_write = "leaf_device \<Rightarrow> u8 list \<Rightarrow> 'w \<Rightarrow> (int \<times> 'w) kres"

fun write_devices :: "'w dev_write \<Rightarrow> char_device list \<Rightarrow> u8 list \<Rightarrow> 'w \<Rightarrow> 'w kres" where
  "write_devices dev [] buffer w = Inr w"
| "write_devices dev (d # ds) buffer w = kbind (char_dev_write dev d buffer w) (\<lambda>(_, w). write_devices dev ds buffer w)"

definition print_string :: "'w dev_write \<Rightarrow> char_device list \<Rightarrow> u8 list \<Rightarrow> 'w \<Rightarrow> 'w kres" where
  "print_string dev ds val w = kbind (strlen val) (\<lambda>n. write_devices dev ds (take (unat n) val) w)"

definition print_char :: "'w dev_write \<Rightarrow> char_device list \<Rightarrow> u8 \<Rightarrow> 'w \<Rightarrow> 'w kres" where
  "print_char dev ds val w = write_devices dev ds [val] w"

text \<open>\<open>buf\<close> is what the local array of 30 bytes holds before the conversion.\<close>

definition print_int :: "'w dev_write \<Rightarrow> char_device list \<Rightarrow> u8 list \<Rightarrow> u64 \<Rightarrow> 'w \<Rightarrow> 'w kres" where
  "print_int dev ds buf val w = kbind (itoa_signed val buf INTEGER_BASE_DECIMAL) (\<lambda>t. print_string dev ds t w)"

definition print_unsignedint :: "'w dev_write \<Rightarrow> char_device list \<Rightarrow> u8 list \<Rightarrow> u64 \<Rightarrow> 'w \<Rightarrow> 'w kres" where
  "print_unsignedint dev ds buf val w = kbind (itoa_unsigned val buf INTEGER_BASE_DECIMAL) (\<lambda>t. print_string dev ds t w)"

definition print_hex :: "'w dev_write \<Rightarrow> char_device list \<Rightarrow> u8 list \<Rightarrow> u64 \<Rightarrow> 'w \<Rightarrow> 'w kres" where
  "print_hex dev ds buf val w = kbind (itoa_unsigned val buf INTEGER_BASE_HEX) (\<lambda>t. print_string dev ds t w)"

definition print_param ::
  "'w dev_write \<Rightarrow> char_device list \<Rightarrow> (u64 \<Rightarrow> u8 list) \<Rightarrow> u8 list \<Rightarrow> special_symbols \<Rightarrow> u64 \<Rightarrow> 'w \<Rightarrow> 'w kres" where
  "print_param dev ds str buf y param w =
     (case y of
        SYMBOL_CHAR \<Rightarrow> print_char dev ds (ucast param) w
      | SYMBOL_INTEGER \<Rightarrow> print_int dev ds buf (scast (ucast param :: u32)) w
      | SYMBOL_STRING \<Rightarrow> print_string dev ds (str param) w
      | SYMBOL_UNSIGNED_INTEGER \<Rightarrow> print_unsignedint dev ds buf param w
      | SYMBOL_HEX \<Rightarrow> print_hex dev ds buf param w)"

fun printk_loop ::
  "'w dev_write \<Rightarrow> char_device list \<Rightarrow> (u64 \<Rightarrow> u8 list) \<Rightarrow> u8 list \<Rightarrow> u8 list \<Rightarrow> u64 list \<Rightarrow> 'w \<Rightarrow> 'w kres" where
  "printk_loop dev ds str buf [] params w = Inl Fault"
| "printk_loop dev ds str buf [c] params w = (if c = 0 then Inr w else Inl Fault)"
| "printk_loop dev ds str buf (c # y # format) params w =
     (if c = 0 then Inr w
      else if c = SPECIAL_SYMBOL_PREFIX \<and> is_special_symbol y
      then (case params of
              [] \<Rightarrow> Inl Fault
            | p # ps \<Rightarrow> kbind (print_param dev ds str buf (the (symbol_of y)) p w) (printk_loop dev ds str buf format ps))
      else kbind (print_char dev ds c w) (printk_loop dev ds str buf (y # format) params))"

definition printk ::
  "'w dev_write \<Rightarrow> char_device list \<Rightarrow> (u64 \<Rightarrow> u8 list) \<Rightarrow> u8 list \<Rightarrow> u8 list \<Rightarrow> u64 list \<Rightarrow> 'w \<Rightarrow> (u32 \<times> 'w) kres" where
  "printk dev ds str buf format params w = kbind (printk_loop dev ds str buf format params w) (\<lambda>w. Inr (0, w))"

text \<open>The devices printk writes to; a serial port that does not answer leaves a NULL pointer behind.\<close>

definition init_printk ::
  "'d hw \<Rightarrow> limine_framebuffer list option \<Rightarrow> u8 list \<Rightarrow> ('d, 'a) kernel_state_scheme \<Rightarrow>
   (char_device list \<times> ('d, 'a) kernel_state_scheme) kres" where
  "init_printk hw framebuffer_response buf s =
     (let (serial_dev, d, ser) = serial_com1_init hw (ks_dev s) (ks_serial s);
          s = s\<lparr>ks_dev := d, ks_serial := ser\<rparr>
      in kbind (init_framebuffer_print framebuffer_response (ks_fb s)) (\<lambda>(fb_dev, fb).
         case serial_dev of
           None \<Rightarrow> Inl Fault
         | Some ser_dev \<Rightarrow>
             kbind (printk (leaf_write hw) [ser_dev, fb_dev] (\<lambda>_. []) buf (cstr (''Initialized printk'' @ NL)) [] (s\<lparr>ks_fb := fb\<rparr>)) (\<lambda>(_, s).
             Inr ([ser_dev, fb_dev], s))))"

text \<open>The panic screen; the result is the world in which the processor stays halted.\<close>

definition kernel_panic ::
  "'w dev_write \<Rightarrow> char_device list \<Rightarrow> (u64 \<Rightarrow> u8 list) \<Rightarrow> u8 list \<Rightarrow> u64 \<Rightarrow> u64 \<Rightarrow> u64 \<Rightarrow> 'w \<Rightarrow> 'w kres" where
  "kernel_panic dev ds str buf msg fname line w =
     kbind (printk dev ds str buf (cstr (NL @ NL @ NL @ ''============================='' @ NL)) [] w) (\<lambda>(_, w).
     kbind (printk dev ds str buf (cstr (''KERNEL PANIC!'' @ NL)) [] w) (\<lambda>(_, w).
     kbind (printk dev ds str buf (cstr (''Error: %s'' @ NL)) [msg] w) (\<lambda>(_, w).
     kbind (printk dev ds str buf (cstr (''File: %s'' @ NL)) [fname] w) (\<lambda>(_, w).
     kbind (printk dev ds str buf (cstr (''Line: %d'' @ NL)) [line] w) (\<lambda>(_, w).
     kbind (printk dev ds str buf (cstr (''============================='' @ NL)) [] w) (\<lambda>(_, w). Inr w))))))"

section \<open>What is printed\<close>

text \<open>The text of one argument, and of a format with its arguments.\<close>

definition param_text :: "(u64 \<Rightarrow> u8 list) \<Rightarrow> special_symbols \<Rightarrow> u64 \<Rightarrow> u8 list" where
  "param_text str y param =
     (case y of
        SYMBOL_CHAR \<Rightarrow> [ucast param]
      | SYMBOL_INTEGER \<Rightarrow> (let v = (scast (ucast param :: u32) :: u64)
          in if sint v < 0 then 45 # numeral_text INTEGER_BASE_DECIMAL (- v) else numeral_text INTEGER_BASE_DECIMAL v)
      | SYMBOL_STRING \<Rightarrow> takeWhile (\<lambda>c. c \<noteq> 0) (str param)
      | SYMBOL_UNSIGNED_INTEGER \<Rightarrow> numeral_text INTEGER_BASE_DECIMAL param
      | SYMBOL_HEX \<Rightarrow> numeral_text INTEGER_BASE_HEX param)"

fun format_text :: "(u64 \<Rightarrow> u8 list) \<Rightarrow> u8 list \<Rightarrow> u64 list \<Rightarrow> u8 list" where
  "format_text str (c # y # format) params =
     (if c = 0 then []
      else if c = SPECIAL_SYMBOL_PREFIX \<and> is_special_symbol y
      then param_text str (the (symbol_of y)) (hd params) @ format_text str format (tl params)
      else c # format_text str (y # format) params)"
| "format_text str _ params = []"

text \<open>A terminated format with an argument for each symbol, and strings that end.\<close>

fun format_ok :: "(u64 \<Rightarrow> u8 list) \<Rightarrow> u8 list \<Rightarrow> u64 list \<Rightarrow> bool" where
  "format_ok str (c # y # format) params \<longleftrightarrow>
     (c = 0 \<or>
      (if c = SPECIAL_SYMBOL_PREFIX \<and> is_special_symbol y
       then params \<noteq> [] \<and> format_ok str format (tl params) \<and>
            (symbol_of y = Some SYMBOL_STRING \<longrightarrow> 0 \<in> set (str (hd params)) \<and> length (str (hd params)) < 2 ^ 31)
       else format_ok str (y # format) params))"
| "format_ok str [c] params \<longleftrightarrow> c = 0"
| "format_ok str [] params \<longleftrightarrow> False"

text \<open>Devices that accept what is written to them; \<open>out\<close> is what each has been given so far.\<close>

definition devices_accept :: "'w dev_write \<Rightarrow> (leaf_device \<Rightarrow> 'w \<Rightarrow> u8 list) \<Rightarrow> bool" where
  "devices_accept dev out \<longleftrightarrow>
     (\<forall>l bs w. \<exists>r w'. dev l bs w = Inr (r, w') \<and> out l w' = out l w @ bs \<and> (\<forall>k. k \<noteq> l \<longrightarrow> out k w' = out k w))"

lemma write_leaves_out:
  assumes "devices_accept dev out" "distinct ls"
  shows "\<exists>w'. write_leaves dev ls bs w = Inr w' \<and> (\<forall>l. out l w' = (if l \<in> set ls then out l w @ bs else out l w))"
  using assms(2)
proof (induction ls arbitrary: w)
  case (Cons l ls)
  obtain r w1 where w1: "dev l bs w = Inr (r, w1)" "out l w1 = out l w @ bs" "\<forall>k. k \<noteq> l \<longrightarrow> out k w1 = out k w"
    using assms(1) unfolding devices_accept_def by blast
  obtain w2 where "write_leaves dev ls bs w1 = Inr w2" "\<forall>k. out k w2 = (if k \<in> set ls then out k w1 @ bs else out k w1)"
    using Cons by auto
  then show ?case using w1 Cons.prems by auto
qed simp

lemma write_devices_leaves: "write_devices dev ds bs w = write_leaves dev (leaves_all ds) bs w"
proof (induction ds arbitrary: w)
  case (Cons d ds)
  have "write_devices dev (d # ds) bs w = kbind (kbind (char_dev_write dev d bs w) (\<lambda>(_, w). Inr w)) (write_devices dev ds bs)"
    by (cases "char_dev_write dev d bs w") auto
  moreover have "write_devices dev ds bs = write_leaves dev (leaves_all ds) bs" using Cons by auto
  ultimately show ?case by (simp add: write_reaches_leaves(1) write_leaves_append)
qed simp

text \<open>\<open>shown\<close> relates two worlds: the devices in ds were given the text bs, no other device anything.\<close>

definition shown :: "(leaf_device \<Rightarrow> 'w \<Rightarrow> u8 list) \<Rightarrow> char_device list \<Rightarrow> u8 list \<Rightarrow> 'w \<Rightarrow> 'w \<Rightarrow> bool" where
  "shown out ds bs w w' \<longleftrightarrow> (\<forall>l. out l w' = (if l \<in> set (leaves_all ds) then out l w @ bs else out l w))"

lemma shown_trans: "shown out ds a w w1 \<Longrightarrow> shown out ds b w1 w2 \<Longrightarrow> shown out ds (a @ b) w w2"
  by (simp add: shown_def)

lemma shown_none: "shown out ds [] w w"
  by (simp add: shown_def)

lemma takeWhile_split: "0 \<in> set (t :: u8 list) \<Longrightarrow> \<exists>r. t = takeWhile (\<lambda>c. c \<noteq> 0) t @ 0 # r"
  by (induction t) auto

lemma print_string_shown:
  assumes "devices_accept dev out" "distinct (leaves_all ds)" "0 \<notin> set t" "length t < 2 ^ 31"
  shows "\<exists>w'. print_string dev ds (t @ 0 # r) w = Inr w' \<and> shown out ds t w w'"
proof -
  have "strlen (t @ 0 # r) = Inr (word_of_nat (length t))" using strlen_text assms(3,4) .
  moreover have "unat (word_of_nat (length t) :: u64) = length t" using assms(4) by (simp add: unat_of_nat)
  ultimately have "print_string dev ds (t @ 0 # r) w = write_devices dev ds t w" by (simp add: print_string_def)
  then show ?thesis
    using write_leaves_out[OF assms(1,2), of t w] unfolding shown_def write_devices_leaves by simp
qed

lemma itoa_signed_text:
  assumes "length buf = 30"
  shows "\<exists>r. itoa_signed v buf base =
    Inr ((if sint v < 0 then 45 # numeral_text base (- v) else numeral_text base v) @ 0 # r)"
proof (cases "sint v < 0")
  case True
  obtain b rest where "buf = b # rest" "length rest = 29" using assms by (cases buf) auto
  then show ?thesis using True itoa_unsigned_text[of base "- v" rest] length_numeral_text[of base "- v"]
    by (auto simp: itoa_signed_def)
next
  case False
  then show ?thesis using itoa_unsigned_text[of base v buf] length_numeral_text[of base v] assms
    by (auto simp: itoa_signed_def)
qed

lemma print_param_shown:
  assumes dev: "devices_accept dev out" "distinct (leaves_all ds)" and buf: "length buf = 30"
    and str: "y = SYMBOL_STRING \<longrightarrow> 0 \<in> set (str param) \<and> length (str param) < 2 ^ 31"
  shows "\<exists>w'. print_param dev ds str buf y param w = Inr w' \<and> shown out ds (param_text str y param) w w'"
proof -
  note ps = print_string_shown[OF dev]
  have num: "0 \<notin> set (numeral_text b v)" "length (numeral_text b v) < 2 ^ 31"
    "0 \<notin> set (45 # numeral_text b v)" "length (45 # numeral_text b v) < 2 ^ 31" for b v
    using numeral_text_chars[of b v] length_numeral_text[of b v] by auto
  show ?thesis
  proof (cases y)
    case SYMBOL_CHAR
    then show ?thesis using write_leaves_out[OF dev, of "[ucast param]" w]
      by (simp add: print_param_def param_text_def print_char_def write_devices_leaves shown_def)
  next
    case SYMBOL_INTEGER
    let ?v = "scast (ucast param :: u32) :: u64"
    obtain r where "itoa_signed ?v buf INTEGER_BASE_DECIMAL = Inr (param_text str y param @ 0 # r)"
      using itoa_signed_text[OF buf, of ?v INTEGER_BASE_DECIMAL] SYMBOL_INTEGER by (auto simp: param_text_def Let_def)
    moreover have "0 \<notin> set (param_text str y param)" "length (param_text str y param) < 2 ^ 31"
      using num SYMBOL_INTEGER by (auto simp: param_text_def Let_def)
    ultimately show ?thesis using ps SYMBOL_INTEGER by (simp add: print_param_def print_int_def)
  next
    case SYMBOL_STRING
    obtain r where "str param = param_text str y param @ 0 # r"
      using takeWhile_split str SYMBOL_STRING by (fastforce simp: param_text_def)
    moreover have "0 \<notin> set (param_text str y param)" "length (param_text str y param) < 2 ^ 31"
      using str SYMBOL_STRING length_takeWhile_le[of "\<lambda>c. c \<noteq> 0" "str param"]
      by (auto simp: param_text_def dest: set_takeWhileD)
    ultimately show ?thesis using ps[of "param_text str y param" r w] SYMBOL_STRING by (simp add: print_param_def)
  next
    case SYMBOL_UNSIGNED_INTEGER
    then show ?thesis
      using itoa_unsigned_text[of INTEGER_BASE_DECIMAL param buf] length_numeral_text[of INTEGER_BASE_DECIMAL param] buf ps num
      by (simp add: print_param_def print_unsignedint_def param_text_def)
  next
    case SYMBOL_HEX
    then show ?thesis
      using itoa_unsigned_text[of INTEGER_BASE_HEX param buf] length_numeral_text[of INTEGER_BASE_HEX param] buf ps num
      by (simp add: print_param_def print_hex_def param_text_def)
  qed
qed

lemma printk_loop_shown:
  assumes dev: "devices_accept dev out" "distinct (leaves_all ds)" and buf: "length buf = 30"
  shows "format_ok str format params \<Longrightarrow>
    \<exists>w'. printk_loop dev ds str buf format params w = Inr w' \<and> shown out ds (format_text str format params) w w'"
proof (induction str format params arbitrary: w rule: format_ok.induct)
  case (1 str c y format params)
  consider "c = 0" | "c \<noteq> 0" "c = 0x25 \<and> is_special_symbol y" | "c \<noteq> 0" "\<not> (c = 0x25 \<and> is_special_symbol y)" by blast
  then show ?case
  proof cases
    case 1
    then show ?thesis by (simp add: shown_none)
  next
    case 2
    then obtain p ps where p: "params = p # ps" using "1.prems" by (cases params) auto
    have "symbol_of y = Some (the (symbol_of y))" using 2 by (simp add: is_special_symbol_def)
    then have st: "the (symbol_of y) = SYMBOL_STRING \<longrightarrow> 0 \<in> set (str p) \<and> length (str p) < 2 ^ 31"
      using "1.prems" 2 p by auto
    obtain w1 where w1: "print_param dev ds str buf (the (symbol_of y)) p w = Inr w1" "shown out ds (param_text str (the (symbol_of y)) p) w w1"
      using print_param_shown[OF dev buf, where str = str and param = p and y = "the (symbol_of y)"] st by blast
    obtain w2 where "printk_loop dev ds str buf format ps w1 = Inr w2" "shown out ds (format_text str format ps) w1 w2"
      using "1.IH"(1)[of w1] 2 p "1.prems" by auto
    then show ?thesis using w1 2 p shown_trans[OF w1(2)] by auto
  next
    case 3
    obtain w1 where w1: "print_char dev ds c w = Inr w1" "shown out ds [c] w w1"
      using write_leaves_out[OF dev, of "[c]" w] by (auto simp: print_char_def write_devices_leaves shown_def)
    obtain w2 where "printk_loop dev ds str buf (y # format) params w1 = Inr w2" "shown out ds (format_text str (y # format) params) w1 w2"
      using "1.IH"(2)[of w1] 3 "1.prems" by auto
    then show ?thesis using w1 3 shown_trans[OF w1(2)] by fastforce
  qed
qed (auto simp: shown_none)

section \<open>Property\<close>



end
