(* ===== verification/Kmain.thy ===== *)
theory Kmain
  imports Printk Syscalls Rtc Heap_Frame
begin

text \<open>
  The boot sequence, kernel/kmain.c: every subsystem is set up in the order of the code, and the
  kernel jumps to the init process. The memory managers of the three steps work together: on a
  memory map of the boot loader they end with an empty well-formed kernel heap.
\<close>

section \<open>What the boot loader and the linker provide\<close>

text \<open>The responses of the boot protocol; None is a NULL pointer.\<close>

record boot_responses =
  framebuffer_response :: "limine_framebuffer list option"
  memmap_response :: "limine_memmap_entry list option"
  hhdm_response :: "u64 option"
  rsdp_response :: "u64 option"

text \<open>
  Addresses of functions and static objects, the tables of interrupt stubs, and the contents of
  memory and of stack objects the code never initialises.
\<close>

record kernel_image =
  img_gdt :: u64
  img_tss :: u64
  img_ring0_stack :: u64
  img_idt :: u64
  img_isr_stubs :: "u64 list"
  img_hardware_stubs :: "u64 list"
  img_lapic_timer_handler :: u64
  img_keyboard_handler :: u64
  img_fat12_buffer :: u64
  img_syscall_entrypoint :: u64
  img_kernel_stack :: u64
  img_kernel_ptr :: u64
  img_exception_handler :: u64
  img_context_switch :: u64
  img_idt_entry :: idt_entry
  img_print_buffer :: "u8 list"
  img_device_name :: "u8 list"

record 'd machine =
  m_kernel :: "'d kernel_state"
  m_tables :: idt_state
  m_msrs :: usermode_state
  m_apic :: apic_state
  m_cmos :: cmos_state
  m_print_devices :: "char_device list"

text \<open>The memory of the machine as the interrupt controller code sees it.\<close>

definition share_memory :: "'a vmm_state_scheme \<Rightarrow> 'b vmm_state_scheme \<Rightarrow> 'b vmm_state_scheme" where
  "share_memory s a = a\<lparr>g_bitmap := g_bitmap s, pmm_hhdm_offset := pmm_hhdm_offset s, kmem := kmem s,
     vmm_hhdm_offset := vmm_hhdm_offset s, cr3 := cr3 s\<rparr>"

section \<open>kmain\<close>

definition init_memory :: "boot_responses \<Rightarrow> 'a heap_state_scheme \<Rightarrow> 'a heap_state_scheme kres" where
  "init_memory resp s =
     kbind (init_pmm (kmem s) (memmap_response resp) (hhdm_response resp) s) (\<lambda>s.
     kbind (init_vmm (hhdm_response resp) s) (\<lambda>s.
     init_kernel_heap s))"

definition init_interrupts ::
  "'d hw \<Rightarrow> (u32 \<Rightarrow> u32 \<times> u32) \<Rightarrow> boot_responses \<Rightarrow> kernel_image \<Rightarrow> 'd machine \<Rightarrow> 'd machine kres" where
  "init_interrupts hw cpuid resp img m =
     kbind (init_hardware_interrupts (img_idt_entry img) (img_hardware_stubs img) (m_tables m)) (\<lambda>tables.
     kbind (init_acpi (rsdp_response resp) (share_memory (m_kernel m) (m_apic m))) (\<lambda>a.
     kbind (init_madt a) (\<lambda>a.
     kbind (init_ioapic hw cpuid (ks_dev (m_kernel m)) a) (\<lambda>(d, a).
     kbind (init_lapic hw (img_lapic_timer_handler img) d a (ks_handlers (m_kernel m))) (\<lambda>(d, h).
     kbind (init_cmos hw d (m_cmos m)) (\<lambda>(d, c).
     Inr (m\<lparr>m_tables := tables, m_apic := a, m_cmos := c, m_kernel := (m_kernel m)\<lparr>ks_dev := d, ks_handlers := h\<rparr>\<rparr>)))))))"

text \<open>The result is the entry point and the stack of the init process.\<close>

definition kmain ::
  "'d hw \<Rightarrow> (u32 \<Rightarrow> u32 \<times> u32) \<Rightarrow> boot_responses \<Rightarrow> kernel_image \<Rightarrow> 'd machine \<Rightarrow> ((u64 \<times> u64) \<times> 'd machine) kres" where
  "kmain hw cpuid resp img m =
     kbind (init_printk hw (framebuffer_response resp) (img_print_buffer img) (m_kernel m)) (\<lambda>(devs, k).
     kbind (init_gdt (img_gdt img) (img_tss img) (img_ring0_stack img) (m_tables m)) (\<lambda>tables.
     kbind (init_cpu_exceptions (img_idt_entry img) (img_idt img) (img_isr_stubs img) tables) (\<lambda>tables.
     kbind (init_memory resp k) (\<lambda>k.
     kbind (init_msr_cpu cpuid (m_msrs m)) (\<lambda>msrs.
     kbind (init_interrupts hw cpuid resp img
              (m\<lparr>m_kernel := k, m_tables := tables, m_msrs := msrs, m_print_devices := devs\<rparr>)) (\<lambda>m.
     kbind (vfs_init hw (img_keyboard_handler img) (img_device_name img) (img_fat12_buffer img) (m_apic m) (m_kernel m)) (\<lambda>k.
     kbind (init_usermode (img_syscall_entrypoint img) (img_kernel_stack img) (img_kernel_ptr img) (m_msrs m)) (\<lambda>msrs.
     kbind (init_process_manager (img_exception_handler img) (img_context_switch img) (m_apic m, k)) (\<lambda>(start, a, k).
     Inr (start, m\<lparr>m_kernel := k, m_msrs := msrs, m_apic := a\<rparr>))))))))))"

section \<open>Memory at boot\<close>

lemma set_page_more:
  "set_page_as_used a t = Inr t' \<Longrightarrow> pmm_state.more t' = pmm_state.more t"
  "set_page_as_unused a t = Inr t' \<Longrightarrow> pmm_state.more t' = pmm_state.more t"
  by (auto simp: set_page_as_used_def set_page_as_unused_def kbind_Inr kassert_def split: if_splits)

lemma mark_usable_more: "mark_usable_regions es t = Inr t' \<Longrightarrow> pmm_state.more t' = pmm_state.more t"
proof (induction es arbitrary: t)
  case (Cons e es)
  have "pmm_state.more u = pmm_state.more t" if "mark_region_free e t = Inr u" for u
    using that unfolding mark_region_free_def
    by (rule for_loop_keeps[where I = "\<lambda>u. pmm_state.more u = pmm_state.more t"]) (auto dest: set_page_more)
  then show ?case using Cons by (fastforce simp: kbind_Inr split: if_splits)
qed simp

lemma init_pmm_more:
  assumes "init_pmm m (Some es) (Some off) s = Inr s'"
  shows "pmm_state.more s' = pmm_state.more s"
proof -
  obtain t u k b where u: "mark_usable_regions es t = Inr u" "pmm_state.more t = pmm_state.more s"
    "for_loop 0 k (\<lambda>i. set_page_as_used (b + i * 0x1000)) u = Inr s'"
    using assms by (auto simp: init_pmm_def Let_def kassert_def kbind_Inr split: if_splits)
  have "pmm_state.more s' = pmm_state.more u"
    by (rule for_loop_keeps[where I = "\<lambda>v. pmm_state.more v = pmm_state.more u", OF u(3)]) (auto dest: set_page_more(1))
  then show ?thesis using mark_usable_more[OF u(1)] u(2) by simp
qed

text \<open>
  C7: memory management comes up. On a memory map as the boot protocol promises it, with at most
  four petabytes of memory, no usable region at address zero, a usable region that has
  room for the frame bitmap and one more page, and a page-aligned direct map that covers
  memory, the three memory steps of kmain succeed and leave a well-formed kernel heap without
  buffers over all frames of memory.
\<close>

theorem boot_memory_ready:
  assumes map: "memmap_ok es" "\<forall>e \<in> set es. me_usable e \<longrightarrow> me_base e \<noteq> 0"
    and room: "\<exists>e \<in> set es. me_usable e \<and> bitmap_bytes es + 4096 \<le> unat (me_length e)"
    and ram: "unat (get_ram_max_size es 0) \<le> 2 ^ 52" "page_aligned off" "unat off + unat (get_ram_max_size es 0) \<le> 2 ^ 64"
    and boot: "g_free_blocks s = 0" "g_free_block_tail s = 0" "memmap_response resp = Some es" "hhdm_response resp = Some off"
  shows "\<exists>s'. init_memory resp s = Inr s' \<and> heap_inv s' {} \<and> nframes s' = unat (get_ram_max_size es 0) div 4096"
proof -
  have "\<exists>e \<in> set es. me_usable e \<and> bitmap_bytes es \<le> unat (me_length e)" using room by force
  then obtain p e where p: "init_pmm (kmem s) (Some es) (Some off) s = Inr p" "pmm_wf p" "pmm_hhdm_offset p = off"
      "nframes p = unat (get_ram_max_size es 0) div 4096" "e \<in> set es" "me_usable e"
      and free: "\<forall>k < nframes p. \<not> frame_used p k \<longleftrightarrow> (\<exists>e \<in> set es. me_usable e \<and> k \<in> set (me_frames e)) \<and>
        k \<notin> {frame_of (me_base e)..<frame_of (me_base e) + bitmap_pages es}"
    using init_pmm_free_frames[OF map(1), of "kmem s" off s] by (elim meta_impE exE conjE)
  obtain r where r: "r \<in> set es" "me_usable r" "bitmap_bytes es + 4096 \<le> unat (me_length r)" using room by blast
  have frames: "set (me_frames r) \<subseteq> {..<nframes p}"
    using usable_frames_fit(2)[OF map(1) r(1,2)] p(4) by (auto simp: me_frames_def)
  have "me_length r mod 0x1000 = 0" using map(1) r(1,2) by (simp add: memmap_ok_def)
  then have "unat (me_length r mod 0x1000) = 0" by simp
  then have "unat (me_length r) mod 4096 = 0" by (simp add: unat_mod_distrib)
  then have "unat (me_length r) div 4096 * 4096 = unat (me_length r)" using div_mult_mod_eq[of "unat (me_length r)" 4096] by simp
  then have "bitmap_pages es < unat (me_length r) div 4096" using r(3) by (simp add: bitmap_pages_def div_less_iff_less_mult)
  then have "\<not> set (me_frames r) \<subseteq> {frame_of (me_base e)..<frame_of (me_base e) + bitmap_pages es}"
    using card_mono[of "{frame_of (me_base e)..<frame_of (me_base e) + bitmap_pages es}" "set (me_frames r)"] by (auto simp: me_frames_def)
  then obtain k where k: "k < nframes p" "\<not> frame_used p k" using free frames r(1,2) by blast
  have "0 \<notin> set (me_frames f)" if f: "f \<in> set es" "me_usable f" for f
  proof
    assume "0 \<in> set (me_frames f)"
    then have d: "unat (me_base f) div 4096 = 0" by (simp add: me_frames_def frame_of_def)
    have "unat (me_base f mod 0x1000) = 0" using usable_frames_fit(1)[OF map(1) f] by simp
    then have "unat (me_base f) mod 4096 = 0" by (simp add: unat_mod_distrib)
    then have "unat (me_base f) = 0" using d div_mult_mod_eq[of "unat (me_base f)" 4096] by simp
    then show False using map(2) f by (simp add: unat_eq_0)
  qed
  moreover have n0: "0 < nframes p" using k(1) by simp
  ultimately have zero: "frame_used p 0" using free[rule_format, of 0] by blast
  define v where "v = p\<lparr>vmm_hhdm_offset := off\<rparr>"
  have "pmm_state.more p = pmm_state.more s" by (rule init_pmm_more[OF p(1)])
  then have "g_free_blocks p = g_free_blocks s" "g_free_block_tail p = g_free_block_tail s"
    by (cases p; cases s; simp)+
  then have "g_free_blocks v = 0" "g_free_block_tail v = 0" using boot(1,2) by (simp_all add: v_def)
  moreover have fr: "nframes v = nframes p" "frame_taken v = frame_taken p" by (simp_all add: v_def nframes_def frame_taken_def frame_used_def fun_eq_iff)
  moreover have "unat (get_ram_max_size es 0) div 4096 \<le> 2 ^ 40" using div_le_mono[OF ram(1), of 4096] by simp
  then have "vmm_wf v"
    using p(2-4) zero n0 ram div_times_less_eq_dividend[of "unat (get_ram_max_size es 0)" 4096] by (simp add: vmm_wf_def pmm_inv_def v_def nframes_def frame_taken_def frame_used_def pmm_wf_def)
  moreover have "k < nframes v" "\<not> frame_taken v k" using k by (simp_all add: fr frame_taken_def)
  ultimately obtain s' where "init_kernel_heap v = Inr s'" "heap_inv s' {}" "nframes s' = nframes v"
    using init_kernel_heap_ok[of v k] by blast
  then show ?thesis using p(1,4) boot(3,4) by (auto simp: init_memory_def init_vmm_def v_def[symmetric] fr(1))
qed

theorem boot_memory_ready_witness:
  "\<exists>s'. init_memory \<lparr>framebuffer_response = None,
      memmap_response = Some [\<lparr>me_base = 0, me_length = 0x1000, me_type = 1\<rparr>, \<lparr>me_base = 0x1000, me_length = 0x3000, me_type = 0\<rparr>],
      hhdm_response = Some 0xFFFF800000000000, rsdp_response = None\<rparr> heap_boot = Inr s' \<and> heap_inv s' {} \<and> nframes s' = 4"
proof -
  let ?es = "[\<lparr>me_base = 0, me_length = 0x1000, me_type = 1\<rparr>,
    \<lparr>me_base = 0x1000, me_length = 0x3000, me_type = 0\<rparr>] :: limine_memmap_entry list"
  let ?r = "\<lparr>framebuffer_response = None, memmap_response = Some ?es, hhdm_response = Some 0xFFFF800000000000, rsdp_response = None\<rparr>"
  have ram: "get_ram_max_size ?es 0 = 0x4000" by simp
  have "\<exists>s'. init_memory ?r heap_boot = Inr s' \<and> heap_inv s' {} \<and> nframes s' = unat (get_ram_max_size ?es 0) div 4096"
    by (rule boot_memory_ready[where off = "0xFFFF800000000000"])
      (simp_all add: memmap_ok_def me_usable_def bitmap_bytes_def page_aligned_def heap_boot_wf(2,3))
  then show ?thesis unfolding ram by simp
qed

end
