(* ===== verification/Boot_Alloc.thy ===== *)
theory Boot_Alloc
  imports Vga_Text C_Strings
begin

text \<open>
  The state of the second stage of the boot loader, its console (boot/bootloader/bootloader\_print.c)
  and its allocator (bootloader\_alloc.c), which hands out consecutive pieces of one buffer and never
  takes one back. The memory is the one the identity mapping of the loader shows.
\<close>

record 'd boot_state =
  bmem :: mem
  bdev :: 'd
  bvga :: vga_state
  s_buffer :: u64
  s_buffer_offset :: u64
  s_buffer_size :: u64
  bcr3 :: u64

section \<open>The console\<close>

definition boot_print :: "'d hw \<Rightarrow> u8 list \<Rightarrow> ('d, 'a) boot_state_scheme \<Rightarrow> ('d, 'a) boot_state_scheme kres" where
  "boot_print hw str s =
     kbind (strlen str) (\<lambda>n.
     kbind (vga_text_write hw (take (unat n) str) (bdev s, bmem s, bvga s)) (\<lambda>(_, d, m, v).
     Inr (s\<lparr>bdev := d, bmem := m, bvga := v\<rparr>)))"

definition boot_init_print :: "'d hw \<Rightarrow> ('d, 'a) boot_state_scheme \<Rightarrow> ('d, 'a) boot_state_scheme kres" where
  "boot_init_print hw s =
     kbind (vga_text_init hw (bdev s, bmem s, bvga s)) (\<lambda>(_, d, m, v). Inr (s\<lparr>bdev := d, bmem := m, bvga := v\<rparr>))"

text \<open>print\_string of itoa\_unsigned; \<open>buf\<close> is the local array the digits go to.\<close>

definition boot_print_number ::
  "'d hw \<Rightarrow> u8 list \<Rightarrow> u64 \<Rightarrow> integer_base \<Rightarrow> ('d, 'a) boot_state_scheme \<Rightarrow> ('d, 'a) boot_state_scheme kres" where
  "boot_print_number hw buf v base s = kbind (itoa_unsigned v buf base) (\<lambda>digits. boot_print hw digits s)"

section \<open>The allocator\<close>

definition init_alloc :: "u64 \<Rightarrow> u64 \<Rightarrow> ('d, 'a) boot_state_scheme \<Rightarrow> ('d, 'a) boot_state_scheme" where
  "init_alloc heap_start heap_end s = s\<lparr>s_buffer := heap_start, s_buffer_size := heap_end - heap_start\<rparr>"

text \<open>A request that does not fit is reported on the console and stops the machine.\<close>

definition boot_malloc :: "u64 \<Rightarrow> ('d, 'a) boot_state_scheme \<Rightarrow> (u64 \<times> ('d, 'a) boot_state_scheme) kres" where
  "boot_malloc alloc_size s =
     (if s_buffer_offset s + alloc_size > s_buffer_size s then Inl Hang
      else Inr (s_buffer s + s_buffer_offset s, s\<lparr>s_buffer_offset := s_buffer_offset s + alloc_size\<rparr>))"

definition boot_malloc_aligned :: "u64 \<Rightarrow> u64 \<Rightarrow> ('d, 'a) boot_state_scheme \<Rightarrow> (u64 \<times> ('d, 'a) boot_state_scheme) kres" where
  "boot_malloc_aligned sz alignment s =
     (if alignment = 0 then Inl Fault
      else
        let current_absolute_addr = s_buffer s + s_buffer_offset s;
            remainder = current_absolute_addr mod alignment;
            s = (if remainder \<noteq> 0 then s\<lparr>s_buffer_offset := s_buffer_offset s + (alignment - remainder)\<rparr> else s)
        in boot_malloc sz s)"

definition free_allocator :: "('d, 'a) boot_state_scheme \<Rightarrow> u64" where
  "free_allocator s = s_buffer s"

definition get_blk_dev_allocator :: "('d, 'a) boot_state_scheme \<Rightarrow> ('d, 'a) boot_state_scheme" where
  "get_blk_dev_allocator s = init_alloc 0x180000 0x200000 s"

end
