(* ===== verification/Boot_Fat12.thy ===== *)
theory Boot_Fat12
  imports Boot_Alloc Fat12
begin

text \<open>
  The FAT12 reader of the boot loader, boot/bootloader/fat12.c and fat12.h. It is an older copy of
  the kernel driver over the allocator of the boot loader: nothing is freed, and a device that
  cannot be read is reported and ignored. The packed structures have the layout of the kernel's.
\<close>

section \<open>fat12.h\<close>

type_synonym FAT12Header = fat12_header
type_synonym FAT12DirectoryEntry = fat12_directory_entry
type_synonym FAT12Info = fat12_info

definition boot_is_final_directory_entry :: "FAT12DirectoryEntry \<Rightarrow> bool" where
  "boot_is_final_directory_entry entry \<longleftrightarrow> file_name entry ! 0 = FINAL_ENTRY"

definition boot_is_volume_label_entry :: "FAT12DirectoryEntry \<Rightarrow> bool" where
  "boot_is_volume_label_entry entry \<longleftrightarrow> attributes entry AND VOLUME_LABEL_ATTRIBUTE \<noteq> 0"

definition boot_is_deleted_entry :: "FAT12DirectoryEntry \<Rightarrow> bool" where
  "boot_is_deleted_entry entry \<longleftrightarrow> file_name entry ! 0 = DELETED_ENTRY"

definition boot_is_directory_entry_directory :: "FAT12DirectoryEntry \<Rightarrow> bool" where
  "boot_is_directory_entry_directory entry \<longleftrightarrow> attributes entry AND FAT12_ATTR_DIRECTORY \<noteq> 0"

definition boot_cluster_id_to_cluster_num :: "u16 \<Rightarrow> u32" where
  "boot_cluster_id_to_cluster_num cluster_id = ucast cluster_id - 2"

definition boot_bytes_to_sectors_round_up :: "u32 \<Rightarrow> u16 \<Rightarrow> u32 kres" where
  "boot_bytes_to_sectors_round_up bytes bps =
     (if bps = 0 then Inl Fault else Inr ((bytes + ucast bps - 1) div ucast bps))"

section \<open>Reading the volume\<close>

definition boot_pread_device ::
  "'d hw \<Rightarrow> 'd block_device \<Rightarrow> u64 \<Rightarrow> u64 \<Rightarrow> u64 \<Rightarrow> ('d, 'a) boot_state_scheme \<Rightarrow> ('d, 'a) boot_state_scheme kres" where
  "boot_pread_device hw dev buffer read_bytes offset s =
     kbind (read_blk_device_bytes dev offset buffer read_bytes (bmem s, bdev s)) (\<lambda>(r, m, d).
     let s = s\<lparr>bmem := m, bdev := d\<rparr>
     in if r = 0 then boot_print hw (cstr (NL @ ''Failed to read from the device'' @ NL)) s else Inr s)"

definition boot_load_fat12_header ::
  "'d hw \<Rightarrow> u64 \<Rightarrow> 'd block_device \<Rightarrow> ('d, 'a) boot_state_scheme \<Rightarrow> (FAT12Header \<times> ('d, 'a) boot_state_scheme) kres" where
  "boot_load_fat12_header hw buffer dev s =
     kbind (boot_pread_device hw dev buffer 62 0 s) (\<lambda>s. Inr (fat12_header_of (mem_bytes (bmem s) buffer 62), s))"

definition boot_load_fat12_info :: "FAT12Header \<Rightarrow> FAT12Info kres" where
  "boot_load_fat12_info h =
     (let root_dir_bytes = (ucast (h_root_entry_count h) * 32 :: u32);
          total = (if h_total_sectors16 h \<noteq> 0 then ucast (h_total_sectors16 h) else h_total_sectors32 h);
          fat_size = (ucast (h_table_size16 h) :: u32);
          fat_section = ucast (h_table_count h) * fat_size
      in kbind (boot_bytes_to_sectors_round_up root_dir_bytes (h_bytes_per_sector h)) (\<lambda>root_dir.
         let data_sectors = total - ucast (h_reserved_sector_count h) - fat_section - root_dir
         in if h_sectors_per_cluster h = 0 then Inl Fault
            else
              let data_offset = ucast (h_reserved_sector_count h) + fat_section + root_dir
              in Inr \<lparr>bytes_per_sector = ucast (h_bytes_per_sector h),
                      sectors_per_cluster = ucast (h_sectors_per_cluster h), total_sectors = total,
                      fat_sector_size = fat_size, fat_section_sector_size = fat_section,
                      root_dir_sectors_size = root_dir, data_sectors_size = data_sectors,
                      cluster_count = data_sectors div ucast (h_sectors_per_cluster h),
                      data_section_sector_offset = data_offset,
                      fat_section_sector_offset = ucast (h_reserved_sector_count h),
                      root_dir_sector_offset = data_offset - root_dir\<rparr>))"

section \<open>Clusters and files\<close>

definition boot_get_fat ::
  "'d hw \<Rightarrow> 'd block_device \<Rightarrow> FAT12Info \<Rightarrow> ('d, 'a) boot_state_scheme \<Rightarrow> (u64 \<times> ('d, 'a) boot_state_scheme) kres" where
  "boot_get_fat hw dev info s =
     (let FAT12_TABLE_SIZE = fat_sector_size info * bytes_per_sector info;
          FAT_BYTE_OFFSET = bytes_per_sector info * fat_section_sector_offset info
      in kbind (boot_malloc (ucast FAT12_TABLE_SIZE) s) (\<lambda>(fat, s).
         kbind (boot_pread_device hw dev fat (ucast FAT12_TABLE_SIZE) (ucast FAT_BYTE_OFFSET) s) (\<lambda>s. Inr (fat, s))))"

definition boot_get_next_cluster_id :: "u16 \<Rightarrow> u64 \<Rightarrow> mem \<Rightarrow> u16" where
  "boot_get_next_cluster_id cluster_id fat m =
     (let offset = (ucast cluster_id + ucast (cluster_id div 2) :: u32);
          packed = (ucast (m (fat + ucast offset)) OR push_bit 8 (ucast (m (fat + ucast (offset + 1)))) :: u32)
      in if cluster_id mod 2 \<noteq> 0 then ucast (drop_bit 4 packed) else ucast (packed AND 0x0FFF))"

partial_function (option) boot_count_clusters_loop :: "u64 \<Rightarrow> mem \<Rightarrow> u16 \<Rightarrow> u32 \<Rightarrow> u32 option" where
  "boot_count_clusters_loop fat m curr_cluster_id count =
     (if curr_cluster_id \<noteq> FAT_LAST_CLUSTER_NUM
      then boot_count_clusters_loop fat m (boot_get_next_cluster_id curr_cluster_id fat m) (count + 1)
      else Some count)"

definition boot_count_file_clusters :: "u16 \<Rightarrow> u64 \<Rightarrow> mem \<Rightarrow> u32 kres" where
  "boot_count_file_clusters initial_cluster_id fat m =
     (case boot_count_clusters_loop fat m initial_cluster_id 0 of None \<Rightarrow> Inl Hang | Some n \<Rightarrow> Inr n)"

definition boot_read_cluster ::
  "'d hw \<Rightarrow> 'd block_device \<Rightarrow> u16 \<Rightarrow> FAT12Info \<Rightarrow> ('d, 'a) boot_state_scheme \<Rightarrow> (u64 \<times> u32 \<times> ('d, 'a) boot_state_scheme) kres" where
  "boot_read_cluster hw dev cluster_id info s =
     (let cluster_num = boot_cluster_id_to_cluster_num cluster_id;
          bytes_per_cluster = sectors_per_cluster info * bytes_per_sector info;
          data_section_offset = cluster_num * sectors_per_cluster info;
          device_sector_offset = data_section_sector_offset info + data_section_offset;
          device_bytes_offset = device_sector_offset * bytes_per_sector info
      in kbind (boot_malloc (ucast bytes_per_cluster) s) (\<lambda>(data, s).
         kbind (boot_pread_device hw dev data (ucast bytes_per_cluster) (ucast device_bytes_offset) s) (\<lambda>s.
         Inr (data, bytes_per_cluster, s))))"

definition boot_file_content_step ::
  "'d hw \<Rightarrow> 'd block_device \<Rightarrow> FAT12Info \<Rightarrow> u64 \<Rightarrow> u32 \<Rightarrow> u64 \<times> u32 \<times> ('d, 'a) boot_state_scheme \<Rightarrow>
   (u64 \<times> u32 \<times> ('d, 'a) boot_state_scheme) kres" where
  "boot_file_content_step hw dev info fat BYTES_PER_CLUSTER x =
     (case x of (curr_file_content_ptr, curr_cluster_id, s) \<Rightarrow>
       kbind (boot_read_cluster hw dev (ucast curr_cluster_id) info s) (\<lambda>(cluster_data, _, s).
       let s = s\<lparr>bmem := memcpy curr_file_content_ptr cluster_data (ucast BYTES_PER_CLUSTER) (bmem s)\<rparr>
       in Inr (curr_file_content_ptr + ucast BYTES_PER_CLUSTER,
               ucast (boot_get_next_cluster_id (ucast curr_cluster_id) fat (bmem s)), s)))"

definition boot_get_file_content ::
  "'d hw \<Rightarrow> 'd block_device \<Rightarrow> u64 \<Rightarrow> FAT12Info \<Rightarrow> ('d, 'a) boot_state_scheme \<Rightarrow> (u64 \<times> u32 \<times> ('d, 'a) boot_state_scheme) kres" where
  "boot_get_file_content hw dev file_directory_entry info s =
     (let BYTES_PER_CLUSTER = bytes_per_sector info * sectors_per_cluster info
      in kbind (boot_get_fat hw dev info s) (\<lambda>(fat, s).
         kbind (boot_count_file_clusters (first_cluster_id (dir_entry_at (bmem s) file_directory_entry)) fat (bmem s))
           (\<lambda>file_cluster_count.
         kbind (boot_malloc (ucast file_cluster_count * ucast BYTES_PER_CLUSTER) s) (\<lambda>(file_content, s).
         let curr_cluster_id = ucast (first_cluster_id (dir_entry_at (bmem s) file_directory_entry))
         in kbind (for_loop 0 file_cluster_count (\<lambda>i. boot_file_content_step hw dev info fat BYTES_PER_CLUSTER)
                     (file_content, curr_cluster_id, s)) (\<lambda>(_, _, s).
            if boot_is_directory_entry_directory (dir_entry_at (bmem s) file_directory_entry)
            then Inr (file_content, BYTES_PER_CLUSTER * file_cluster_count, s)
            else Inr (file_content, file_size_in_bytes (dir_entry_at (bmem s) file_directory_entry), s))))))"

definition boot_get_directory_entries ::
  "'d hw \<Rightarrow> 'd block_device \<Rightarrow> u64 \<Rightarrow> FAT12Info \<Rightarrow> ('d, 'a) boot_state_scheme \<Rightarrow> (u64 \<times> u32 \<times> ('d, 'a) boot_state_scheme) kres" where
  "boot_get_directory_entries hw dev dir_entry info s = boot_get_file_content hw dev dir_entry info s"

section \<open>Directories and names\<close>

function boot_count_valid_loop :: "mem \<Rightarrow> u64 \<Rightarrow> u32 \<Rightarrow> bool \<Rightarrow> u32 \<Rightarrow> u32 \<Rightarrow> u32" where
  "boot_count_valid_loop m dir_entries max_entries include_all i count =
     (if i < max_entries
      then let e = dir_entry_at m (dir_entries + ucast i * SIZEOF_directory_entry)
           in if boot_is_final_directory_entry e then count
              else if include_all
              then boot_count_valid_loop m dir_entries max_entries include_all (i + 1) (count + 1)
              else boot_count_valid_loop m dir_entries max_entries include_all (i + 1)
                     (if \<not> boot_is_deleted_entry e \<and> \<not> boot_is_volume_label_entry e then count + 1 else count)
      else count)"
  by pat_completeness auto
termination
  by (relation "measure (\<lambda>(m, d, n, a, i, c). unat n - unat i)") (auto simp: unat_Suc_less word_less_nat_alt)

declare boot_count_valid_loop.simps [simp del]

definition boot_count_valid_entries :: "mem \<Rightarrow> u64 \<Rightarrow> u32 \<Rightarrow> bool \<Rightarrow> u32" where
  "boot_count_valid_entries m dir_entries max_entries include_none_file_or_dir_entries =
     boot_count_valid_loop m dir_entries max_entries include_none_file_or_dir_entries 0 0"

function boot_filter_loop :: "u64 \<Rightarrow> u64 \<Rightarrow> u32 \<Rightarrow> u32 \<Rightarrow> u32 \<Rightarrow> mem \<Rightarrow> mem" where
  "boot_filter_loop filtered_entries dir_entries entries_count i valid_index m =
     (if i < entries_count
      then let a = dir_entries + ucast i * SIZEOF_directory_entry; e = dir_entry_at m a
           in if boot_is_final_directory_entry e then m
              else if boot_is_deleted_entry e \<or> boot_is_volume_label_entry e
              then boot_filter_loop filtered_entries dir_entries entries_count (i + 1) valid_index m
              else boot_filter_loop filtered_entries dir_entries entries_count (i + 1) (valid_index + 1)
                     (memcpy (filtered_entries + scast valid_index * SIZEOF_directory_entry) a SIZEOF_directory_entry m)
      else m)"
  by pat_completeness auto
termination
  by (relation "measure (\<lambda>(f, d, n, i, c, m). unat n - unat i)") (auto simp: unat_Suc_less word_less_nat_alt)

declare boot_filter_loop.simps [simp del]

definition boot_filter_valid_directory_entries ::
  "u64 \<Rightarrow> u32 \<Rightarrow> ('d, 'a) boot_state_scheme \<Rightarrow> (u64 \<times> u32 \<times> ('d, 'a) boot_state_scheme) kres" where
  "boot_filter_valid_directory_entries dir_entries entries_count s =
     (let file_type_entries_count = boot_count_valid_entries (bmem s) dir_entries entries_count False
      in kbind (boot_malloc (ucast file_type_entries_count * SIZEOF_directory_entry) s) (\<lambda>(filtered_entries, s).
         Inr (filtered_entries, file_type_entries_count,
              s\<lparr>bmem := boot_filter_loop filtered_entries dir_entries entries_count 0 0 (bmem s)\<rparr>)))"

definition boot_get_root_directory_entries ::
  "'d hw \<Rightarrow> 'd block_device \<Rightarrow> FAT12Info \<Rightarrow> ('d, 'a) boot_state_scheme \<Rightarrow> (u64 \<times> u32 \<times> ('d, 'a) boot_state_scheme) kres" where
  "boot_get_root_directory_entries hw dev info s =
     (let DIRECTORY_BYTES_SIZE = root_dir_sectors_size info * bytes_per_sector info;
          BYTES_OFFSET = root_dir_sector_offset info * bytes_per_sector info;
          MAX_ENTRIES = DIRECTORY_BYTES_SIZE div 32
      in kbind (boot_malloc (ucast DIRECTORY_BYTES_SIZE) s) (\<lambda>(dir_entries, s).
         kbind (boot_pread_device hw dev dir_entries (ucast DIRECTORY_BYTES_SIZE) (ucast BYTES_OFFSET) s) (\<lambda>s.
         boot_filter_valid_directory_entries dir_entries MAX_ENTRIES s)))"

primrec boot_squeeze_loop :: "u64 \<Rightarrow> nat \<Rightarrow> u64 \<Rightarrow> u64 \<Rightarrow> mem \<Rightarrow> u64 \<times> mem" where
  "boot_squeeze_loop name 0 i j m = (j, m)"
| "boot_squeeze_loop name (Suc k) i j m =
     (if m (name + i) \<noteq> 0x20
      then boot_squeeze_loop name k (i + 1) (j + 1) (m(name + j := tolower (m (name + i))))
      else boot_squeeze_loop name k (i + 1) j m)"

definition boot_fat_file_name_to_str :: "u64 \<Rightarrow> ('d, 'a) boot_state_scheme \<Rightarrow> (u64 \<times> ('d, 'a) boot_state_scheme) kres" where
  "boot_fat_file_name_to_str filename_fat_format s =
     kbind (boot_malloc 13 s) (\<lambda>(name, s).
     let m = memcpy name filename_fat_format 8 (bmem s);
         m = m(name + 8 := (if m (filename_fat_format + 8) \<noteq> 0x20 then 0x2E else 0x20));
         m = memcpy (name + 9) (filename_fat_format + 8) 3 m;
         (j, m) = boot_squeeze_loop name 12 0 0 m
     in Inr (name, s\<lparr>bmem := m(name + j := 0)\<rparr>))"

function boot_names_loop ::
  "u64 \<Rightarrow> u64 \<Rightarrow> u32 \<Rightarrow> u32 \<Rightarrow> u32 \<Rightarrow> ('d, 'a) boot_state_scheme \<Rightarrow> ('d, 'a) boot_state_scheme kres" where
  "boot_names_loop file_names dir_entries n i name_index s =
     (if i < n
      then let a = dir_entries + ucast i * SIZEOF_directory_entry; e = dir_entry_at (bmem s) a
           in if boot_is_final_directory_entry e then Inr s
              else if boot_is_deleted_entry e \<or> boot_is_volume_label_entry e
              then boot_names_loop file_names dir_entries n (i + 1) name_index s
              else kbind (boot_fat_file_name_to_str a s) (\<lambda>(val, s).
                   boot_names_loop file_names dir_entries n (i + 1) (name_index + 1)
                     (s\<lparr>bmem := write64 (bmem s) (file_names + scast name_index * 8) val\<rparr>))
      else Inr s)"
  by pat_completeness auto
termination
  by (relation "measure (\<lambda>(f, d, n, i, c, s). unat n - unat i)") (auto simp: unat_Suc_less word_less_nat_alt)

declare boot_names_loop.simps [simp del]

definition boot_get_entries_file_names ::
  "u64 \<Rightarrow> u32 \<Rightarrow> ('d, 'a) boot_state_scheme \<Rightarrow> (u64 \<times> u32 \<times> ('d, 'a) boot_state_scheme) kres" where
  "boot_get_entries_file_names dir_entries dir_entries_count s =
     (let file_type_entries_count = boot_count_valid_entries (bmem s) dir_entries dir_entries_count False
      in kbind (boot_malloc (ucast file_type_entries_count * 8) s) (\<lambda>(file_names, s).
         kbind (boot_names_loop file_names dir_entries dir_entries_count 0 0 s) (\<lambda>s.
         Inr (file_names, file_type_entries_count, s))))"

definition boot_get_root_file_names ::
  "'d hw \<Rightarrow> 'd block_device \<Rightarrow> FAT12Info \<Rightarrow> ('d, 'a) boot_state_scheme \<Rightarrow> (u64 \<times> u32 \<times> ('d, 'a) boot_state_scheme) kres" where
  "boot_get_root_file_names hw dev info s =
     kbind (boot_get_root_directory_entries hw dev info s) (\<lambda>(dir_entries, entries_count, s).
     boot_get_entries_file_names dir_entries entries_count s)"

end
