(* ===== verification/Boot_Loader.thy ===== *)
theory Boot_Loader
  imports Boot_Fat12 Elf_Format Vmm
begin

text \<open>
  The second stage of the boot loader, boot/bootloader: it finds the bootable partition
  (partition\_table.c), reads the first file of its root directory (fat12.c), maps the kernel's half
  of the address space (bootloader\_paging.c), copies the segments of the kernel to where they run
  (kernel\_elf\_loader.c) and jumps to its entry point (bootloader.c).
\<close>

section \<open>partition\_table.c\<close>

record chs_address =
  chs_head :: u8
  chs_sector :: u16
  chs_cylinder :: u16

record mbr_partition_table_entry =
  drive_attributes :: u8
  start_addr :: chs_address
  system_id :: u8
  end_addr :: chs_address
  relative_sectors_lba_start :: u32
  mbr_total_sectors :: u32

abbreviation (input) "MBR_MAX_PARTITION_TABLE_COUNT \<equiv> (4 :: nat)"

definition chs_address_of :: "u8 list \<Rightarrow> chs_address" where
  "chs_address_of b = (let w = (le_word (take 2 (drop 1 b)) :: u16)
     in \<lparr>chs_head = b ! 0, chs_sector = w AND 0x3F, chs_cylinder = drop_bit 6 w\<rparr>)"

definition mbr_entry_of :: "u8 list \<Rightarrow> mbr_partition_table_entry" where
  "mbr_entry_of b =
     \<lparr>drive_attributes = b ! 0, start_addr = chs_address_of (take 3 (drop 1 b)), system_id = b ! 4,
      end_addr = chs_address_of (take 3 (drop 5 b)), relative_sectors_lba_start = le_word (take 4 (drop 8 b)),
      mbr_total_sectors = le_word (take 4 (drop 12 b))\<rparr>"

definition is_partition_bootable :: "mbr_partition_table_entry \<Rightarrow> bool" where
  "is_partition_bootable entry \<longleftrightarrow> drive_attributes entry AND 0x80 \<noteq> 0"

text \<open>\<open>buf\<close> is what the local sector buffer holds before the read.\<close>

definition get_drive_mbr_partition_table :: "u8 list \<Rightarrow> 'd block_device \<Rightarrow> 'd \<Rightarrow> (mbr_partition_table_entry list \<times> 'd) kres" where
  "get_drive_mbr_partition_table buf blk_device d =
     kbind (read_block blk_device (partition_offset blk_device) 0 d) (\<lambda>(_, bytes, d).
     let mbr_sector_buf = bytes @ drop (length bytes) buf
     in Inr (map (\<lambda>i. mbr_entry_of (take 16 (drop (0x1BE + 16 * i) mbr_sector_buf))) [0..<MBR_MAX_PARTITION_TABLE_COUNT], d))"

fun print_mbr_entries ::
  "'d hw \<Rightarrow> u8 list \<Rightarrow> u64 \<Rightarrow> mbr_partition_table_entry list \<Rightarrow> ('d, 'a) boot_state_scheme \<Rightarrow> ('d, 'a) boot_state_scheme kres" where
  "print_mbr_entries hw tempbuf i [] s = Inr s"
| "print_mbr_entries hw tempbuf i (e # es) s =
     (if system_id e = 0 then print_mbr_entries hw tempbuf (i + 1) es s
      else
        let bootflag = drive_attributes e AND 0x80 \<noteq> 0;
            start_sector = (ucast (relative_sectors_lba_start e) :: u64);
            total_sectors = (ucast (mbr_total_sectors e) :: u64);
            end_sector = start_sector + total_sectors - 1;
            sysid = (ucast (system_id e) :: u64)
        in kbind (boot_print_number hw tempbuf i INTEGER_BASE_DECIMAL s) (\<lambda>s.
           kbind (boot_print hw (cstr ''           |'') s) (\<lambda>s.
           kbind (boot_print hw (if bootflag then cstr '' *'' else cstr ''  '') s) (\<lambda>s.
           kbind (boot_print hw (cstr ''    | '') s) (\<lambda>s.
           kbind (boot_print_number hw tempbuf start_sector INTEGER_BASE_DECIMAL s) (\<lambda>s.
           kbind (boot_print hw (cstr ''     | '') s) (\<lambda>s.
           kbind (boot_print_number hw tempbuf end_sector INTEGER_BASE_DECIMAL s) (\<lambda>s.
           kbind (boot_print hw (cstr ''  | '') s) (\<lambda>s.
           kbind (boot_print_number hw tempbuf total_sectors INTEGER_BASE_DECIMAL s) (\<lambda>s.
           kbind (boot_print hw (cstr ''      | '') s) (\<lambda>s.
           kbind (boot_print_number hw tempbuf sysid INTEGER_BASE_HEX s) (\<lambda>s.
           kbind (boot_print hw (cstr NL) s) (\<lambda>s.
           print_mbr_entries hw tempbuf (i + 1) es s)))))))))))))"

definition print_mbr_partition_table ::
  "'d hw \<Rightarrow> u8 list \<Rightarrow> mbr_partition_table_entry list \<Rightarrow> ('d, 'a) boot_state_scheme \<Rightarrow> ('d, 'a) boot_state_scheme kres" where
  "print_mbr_partition_table hw tempbuf mbr_table s =
     kbind (boot_print hw (cstr (''partition num | boot | start | end | sectors | ID'' @ NL)) s) (\<lambda>s.
     print_mbr_entries hw tempbuf 0 mbr_table s)"

section \<open>bootloader\_paging.c\<close>

text \<open>A table entry with present, writable and write-through set; index is 40 bits wide.\<close>

definition boot_table_entry :: "bool \<Rightarrow> u64 \<Rightarrow> u64" where
  "boot_table_entry huge_page index = 1 OR 2 OR 8 OR (if huge_page then 0x80 else 0) OR push_bit 12 (index AND mask 40)"

definition init_higher_half_kernel :: "('d, 'a) boot_state_scheme \<Rightarrow> ('d, 'a) boot_state_scheme kres" where
  "init_higher_half_kernel s =
     kbind (boot_malloc_aligned 0x1000 0x1000 s) (\<lambda>(pdp_table, s).
     let s = s\<lparr>bmem := memset pdp_table 0 0x1000 (bmem s)\<rparr>
     in kbind (boot_malloc_aligned 0x1000 0x1000 s) (\<lambda>(page_directory, s).
        let m = memset page_directory 0 0x1000 (bmem s);
            m = write64 m (pdp_table + 511 * 8) (boot_table_entry False (drop_bit 12 page_directory));
            m = write64 m page_directory (boot_table_entry True 0);
            pml4_table = bcr3 s AND NOT 0xFFF;
            m = write64 m (pml4_table + 511 * 8) (boot_table_entry False (drop_bit 12 pdp_table))
        in Inr (s\<lparr>bmem := m\<rparr>)))"

section \<open>kernel\_elf\_loader.c\<close>

text \<open>
  The loader runs with the tables of init\_higher\_half\_kernel: \<open>va\<close> maps the addresses it uses to
  the memory behind them.
\<close>

primrec boot_copy :: "(u64 \<Rightarrow> u64) \<Rightarrow> nat \<Rightarrow> u64 \<Rightarrow> u64 \<Rightarrow> mem \<Rightarrow> mem" where
  "boot_copy va 0 dst src m = m"
| "boot_copy va (Suc n) dst src m = boot_copy va n (dst + 1) (src + 1) (m(va dst := m (va src)))"

primrec boot_clear :: "(u64 \<Rightarrow> u64) \<Rightarrow> nat \<Rightarrow> u64 \<Rightarrow> mem \<Rightarrow> mem" where
  "boot_clear va 0 dst m = m"
| "boot_clear va (Suc n) dst m = boot_clear va n (dst + 1) (m(va dst := 0))"

definition boot_load_segment :: "(u64 \<Rightarrow> u64) \<Rightarrow> elf64_phdr \<Rightarrow> u64 \<Rightarrow> mem \<Rightarrow> mem" where
  "boot_load_segment va program_header kernel_elf_data m =
     (let segment_vma = p_vaddr program_header;
          segment_location = kernel_elf_data + p_offset program_header;
          file_size = p_filesz program_header;
          memory_size = p_memsz program_header;
          m = boot_copy va (unat file_size) segment_vma segment_location m
      in if memory_size > file_size then boot_clear va (unat (memory_size - file_size)) (segment_vma + file_size) m else m)"

text \<open>The memory as the addresses of the loader show it.\<close>

definition boot_view :: "(u64 \<Rightarrow> u64) \<Rightarrow> mem \<Rightarrow> mem" where
  "boot_view va m = (\<lambda>a. m (va a))"

text \<open>The loop reads the number of headers from the image on every round.\<close>

function boot_segments_loop :: "(u64 \<Rightarrow> u64) \<Rightarrow> u64 \<Rightarrow> u64 \<Rightarrow> u32 \<Rightarrow> mem \<Rightarrow> mem" where
  "boot_segments_loop va elf_header program_headers i m =
     (if i < ucast (e_phnum (ehdr_at (boot_view va m) elf_header)) then
        let curr_ph = phdr_at (boot_view va m) (program_headers + ucast i * SIZEOF_Elf64_Phdr);
            m = (if p_type curr_ph = PT_LOAD then boot_load_segment va curr_ph elf_header m else m)
        in boot_segments_loop va elf_header program_headers (i + 1) m
      else m)"
  by pat_completeness auto
termination
proof (relation "measure (\<lambda>(va, e, p, i, m). 2 ^ 32 - unat i)")
  fix va :: "u64 \<Rightarrow> u64" and e p :: u64 and i :: u32 and m m' :: mem
  assume i: "i < ucast (e_phnum (ehdr_at (boot_view va m) e))"
  have "unat (i + 1) = Suc (unat i)" by (rule unat_Suc_less[OF i])
  then show "((va, e, p, i + 1, m'), va, e, p, i, m) \<in> measure (\<lambda>(va, e, p, i, m). 2 ^ 32 - unat i)"
    using unat_u32_less[of i] by simp
qed simp

declare boot_segments_loop.simps [simp del]

definition boot_load_binary_segments :: "(u64 \<Rightarrow> u64) \<Rightarrow> u64 \<Rightarrow> u64 \<Rightarrow> mem \<Rightarrow> mem" where
  "boot_load_binary_segments va elf_header program_headers m = boot_segments_loop va elf_header program_headers 0 m"

text \<open>The result is the address the loader calls.\<close>

definition load_and_jump_kernel :: "(u64 \<Rightarrow> u64) \<Rightarrow> u64 \<Rightarrow> mem \<Rightarrow> u64 \<times> mem" where
  "load_and_jump_kernel va kernel_elf_data m =
     (let program_header = kernel_elf_data + e_phoff (ehdr_at (boot_view va m) kernel_elf_data);
          m = boot_load_binary_segments va kernel_elf_data program_header m
      in (e_entry (ehdr_at (boot_view va m) kernel_elf_data), m))"

text \<open>The headers on the console; \<open>buf\<close> is the local array the digits go to.\<close>

definition boot_print_field ::
  "'d hw \<Rightarrow> u8 list \<Rightarrow> u8 list \<Rightarrow> u64 \<Rightarrow> integer_base \<Rightarrow> u8 list \<Rightarrow> ('d, 'a) boot_state_scheme \<Rightarrow> ('d, 'a) boot_state_scheme kres" where
  "boot_print_field hw buf label v base rest s =
     kbind (boot_print hw label s) (\<lambda>s.
     kbind (boot_print_number hw buf v base s) (\<lambda>s.
     boot_print hw rest s))"

definition print_elf64_header :: "'d hw \<Rightarrow> u8 list \<Rightarrow> elf64_ehdr \<Rightarrow> ('d, 'a) boot_state_scheme \<Rightarrow> ('d, 'a) boot_state_scheme kres" where
  "print_elf64_header hw buf ehdr s =
     kbind (boot_print hw (cstr (''--- ELF64 Header ---'' @ NL)) s) (\<lambda>s.
     kbind (boot_print hw (cstr ''Magic: '') s) (\<lambda>s.
     kbind (for_loop (0 :: u32) 4 (\<lambda>i s.
              kbind (boot_print_number hw buf (ucast (e_ident ehdr ! unat i)) INTEGER_BASE_HEX s) (\<lambda>s.
              boot_print hw (cstr '' '') s)) s) (\<lambda>s.
     kbind (boot_print hw (cstr NL) s) (\<lambda>s.
     kbind (boot_print_field hw buf (cstr ''Class: '') (ucast (e_ident ehdr ! 4)) INTEGER_BASE_DECIMAL (cstr NL) s) (\<lambda>s.
     kbind (boot_print_field hw buf (cstr ''Type: 0x'') (ucast (e_type ehdr)) INTEGER_BASE_HEX (cstr NL) s) (\<lambda>s.
     kbind (boot_print_field hw buf (cstr ''Machine: 0x'') (ucast (e_machine ehdr)) INTEGER_BASE_HEX (cstr NL) s) (\<lambda>s.
     kbind (boot_print_field hw buf (cstr ''Entry Point: 0x'') (e_entry ehdr) INTEGER_BASE_HEX (cstr NL) s) (\<lambda>s.
     kbind (boot_print_field hw buf (cstr ''Program Header Offset: 0x'') (e_phoff ehdr) INTEGER_BASE_HEX (cstr NL) s) (\<lambda>s.
     kbind (boot_print_field hw buf (cstr ''Section Header Offset: 0x'') (e_shoff ehdr) INTEGER_BASE_HEX (cstr NL) s) (\<lambda>s.
     kbind (boot_print_field hw buf (cstr ''ELF Header Size: '') (ucast (e_ehsize ehdr)) INTEGER_BASE_DECIMAL (cstr ('' bytes'' @ NL)) s) (\<lambda>s.
     kbind (boot_print_field hw buf (cstr ''Program Header Entry Size: '') (ucast (e_phentsize ehdr)) INTEGER_BASE_DECIMAL (cstr ('' bytes'' @ NL)) s) (\<lambda>s.
     kbind (boot_print_field hw buf (cstr ''Program Header Count: '') (ucast (e_phnum ehdr)) INTEGER_BASE_DECIMAL (cstr NL) s) (\<lambda>s.
     kbind (boot_print_field hw buf (cstr ''Section Header Entry Size: '') (ucast (e_shentsize ehdr)) INTEGER_BASE_DECIMAL (cstr ('' bytes'' @ NL)) s) (\<lambda>s.
     kbind (boot_print_field hw buf (cstr ''Section Header Count: '') (ucast (e_shnum ehdr)) INTEGER_BASE_DECIMAL (cstr NL) s) (\<lambda>s.
     boot_print_field hw buf (cstr ''String Table Index: '') (ucast (e_shstrndx ehdr)) INTEGER_BASE_DECIMAL (cstr (NL @ ''--------------------'' @ NL)) s)))))))))))))))"

definition print_elf64_program_header :: "'d hw \<Rightarrow> u8 list \<Rightarrow> elf64_phdr \<Rightarrow> u32 \<Rightarrow> ('d, 'a) boot_state_scheme \<Rightarrow> ('d, 'a) boot_state_scheme kres" where
  "print_elf64_program_header hw buf phdr index s =
     kbind (boot_print_field hw buf (cstr ''--- Program Header ['') (ucast index) INTEGER_BASE_DECIMAL (cstr (''] ---'' @ NL)) s) (\<lambda>s.
     kbind (boot_print hw (cstr ''Type: 0x'') s) (\<lambda>s.
     kbind (boot_print_number hw buf (ucast (p_type phdr)) INTEGER_BASE_HEX s) (\<lambda>s.
     kbind (if p_type phdr = PT_LOAD then boot_print hw (cstr '' (PT_LOAD)'') s else Inr s) (\<lambda>s.
     kbind (boot_print hw (cstr NL) s) (\<lambda>s.
     kbind (boot_print_field hw buf (cstr ''VMA (Exec Addr): 0x'') (p_vaddr phdr) INTEGER_BASE_HEX (cstr NL) s) (\<lambda>s.
     kbind (boot_print_field hw buf (cstr ''LMA (Load Addr): 0x'') (p_paddr phdr) INTEGER_BASE_HEX (cstr NL) s) (\<lambda>s.
     kbind (boot_print_field hw buf (cstr ''Offset in File: 0x'') (p_offset phdr) INTEGER_BASE_HEX (cstr NL) s) (\<lambda>s.
     kbind (boot_print_field hw buf (cstr ''Size in File: '') (p_filesz phdr) INTEGER_BASE_DECIMAL (cstr ('' bytes'' @ NL)) s) (\<lambda>s.
     kbind (boot_print_field hw buf (cstr ''Size in RAM:  '') (p_memsz phdr) INTEGER_BASE_DECIMAL (cstr ('' bytes'' @ NL)) s) (\<lambda>s.
     kbind (boot_print_field hw buf (cstr ''Flags: 0x'') (ucast (p_flags phdr)) INTEGER_BASE_HEX (cstr NL) s) (\<lambda>s.
     boot_print_field hw buf (cstr ''Alignment: 0x'') (p_align phdr) INTEGER_BASE_HEX (cstr (NL @ ''------------------------'' @ NL)) s)))))))))))"

section \<open>bootloader.c\<close>

text \<open>A drive without a bootable partition leaves the start and the size of the partition unset.\<close>

definition get_bootable_partition_blk_device ::
  "'d hw \<Rightarrow> u8 list \<Rightarrow> u8 list \<Rightarrow> 'd ata_state \<Rightarrow> ('d, 'a) boot_state_scheme \<Rightarrow> ('d block_device \<times> ('d, 'a) boot_state_scheme) kres" where
  "get_bootable_partition_blk_device hw sector_buf tempbuf ata s =
     (let (blk_device, _) = ata_pio_init hw ata
      in kbind (get_drive_mbr_partition_table sector_buf blk_device (bdev s)) (\<lambda>(mbr_table, d).
         kbind (print_mbr_partition_table hw tempbuf mbr_table (s\<lparr>bdev := d\<rparr>)) (\<lambda>s.
         case filter is_partition_bootable mbr_table of
           [] \<Rightarrow> Inl Fault
         | e # _ \<Rightarrow> kbind (create_partition_wrapper blk_device (ucast (relative_sectors_lba_start e)) (cstr ''t'')
                             (ucast (mbr_total_sectors e))) (\<lambda>part. Inr (part, s)))))"

text \<open>Printing the names: the string at the address \<open>names\<close> points to, up to the end of memory.\<close>

definition string_at :: "mem \<Rightarrow> u64 \<Rightarrow> u8 list" where
  "string_at m a = mem_bytes m a (2 ^ 64 - unat a)"

definition bootloader_entry ::
  "'d hw \<Rightarrow> (u64 \<Rightarrow> u64) \<Rightarrow> u64 \<Rightarrow> u8 list \<Rightarrow> u8 list \<Rightarrow> 'd ata_state \<Rightarrow> ('d, 'a) boot_state_scheme \<Rightarrow>
   (u64 \<times> ('d, 'a) boot_state_scheme) kres" where
  "bootloader_entry hw va header_buffer sector_buf tempbuf ata s =
     kbind (boot_init_print hw s) (\<lambda>s.
     kbind (boot_print hw (cstr (''Bootloader stage 2'' @ NL)) s) (\<lambda>s.
     kbind (get_bootable_partition_blk_device hw sector_buf tempbuf ata s) (\<lambda>(prt_blk_dev, s).
     let s = get_blk_dev_allocator s
     in kbind (boot_load_fat12_header hw header_buffer prt_blk_dev s) (\<lambda>(fat12_header, s).
        kbind (boot_load_fat12_info fat12_header) (\<lambda>info.
        kbind (boot_get_root_file_names hw prt_blk_dev info s) (\<lambda>(names, name_count, s).
        kbind (for_loop (0 :: u64) (ucast name_count) (\<lambda>i s.
                 kbind (boot_print hw (string_at (bmem s) (read64 (bmem s) (names + i * 8))) s) (\<lambda>s.
                 boot_print hw (cstr NL) s)) s) (\<lambda>s.
        kbind (boot_get_root_directory_entries hw prt_blk_dev info s) (\<lambda>(dir_entries, _, s).
        kbind (init_higher_half_kernel s) (\<lambda>s.
        kbind (boot_get_file_content hw prt_blk_dev dir_entries info s) (\<lambda>(file_content, file_size, s).
        let (entry, m) = load_and_jump_kernel va file_content (bmem s)
        in Inr (entry, s\<lparr>bmem := m\<rparr>)))))))))))"

end
