(* ===== verification/Boot_Kernel.thy ===== *)
theory Boot_Kernel
  imports Boot_Loader Heap_Client
begin

text \<open>
  The boot loader puts the kernel where it runs: after load\_and\_jump\_kernel every loadable segment
  holds its bytes of the image followed by zeros.
\<close>

section \<open>Copies through the tables\<close>

lemma view_upd: "inj_on va D \<Longrightarrow> a \<in> D \<Longrightarrow> x \<in> D \<Longrightarrow> boot_view va (m(va a := v)) x = ((boot_view va m)(a := v)) x"
  by (auto simp: boot_view_def inj_on_def)

lemma boot_copy_view:
  assumes "inj_on va D" "\<forall>i < n. dst + word_of_nat i \<in> D \<and> src + word_of_nat i \<in> D" "\<forall>x \<in> D. boot_view va m x = w x"
  shows "\<forall>x \<in> D. boot_view va (boot_copy va n dst src m) x = memcpy_loop n dst src w x"
  using assms(2,3)
proof (induction n arbitrary: dst src m w)
  case (Suc n)
  have d: "dst \<in> D" "src \<in> D" using Suc.prems(1)[rule_format, of 0] by auto
  have a: "\<forall>i < n. dst + 1 + word_of_nat i \<in> D \<and> src + 1 + word_of_nat i \<in> D"
    using Suc.prems(1) by (metis Suc_less_eq add.assoc of_nat_Suc)
  have b: "\<forall>x \<in> D. boot_view va (m(va dst := m (va src))) x = (w(dst := w src)) x"
    using view_upd[OF assms(1) d(1)] Suc.prems(2) d(2) by (auto simp: boot_view_def)
  show ?case using Suc.IH[OF a b] by (simp only: boot_copy.simps memcpy_loop.simps)
qed simp

lemma boot_clear_view:
  assumes "inj_on va D" "\<forall>i < n. dst + word_of_nat i \<in> D" "\<forall>x \<in> D. boot_view va m x = w x"
  shows "\<forall>x \<in> D. boot_view va (boot_clear va n dst m) x = memset_loop n dst 0 w x"
  using assms(2,3)
proof (induction n arbitrary: dst m w)
  case (Suc n)
  have d: "dst \<in> D" using Suc.prems(1)[rule_format, of 0] by auto
  have a: "\<forall>i < n. dst + 1 + word_of_nat i \<in> D"
    using Suc.prems(1) by (metis Suc_less_eq add.assoc of_nat_Suc)
  have b: "\<forall>x \<in> D. boot_view va (m(va dst := 0)) x = (w(dst := 0)) x"
    using view_upd[OF assms(1) d(1)] Suc.prems(2) by (auto simp: boot_view_def)
  show ?case using Suc.IH[OF a b] by (simp only: boot_clear.simps memset_loop.simps)
qed simp

section \<open>Segments\<close>

definition seg_size :: "elf64_phdr \<Rightarrow> nat" where
  "seg_size p = max (unat (p_filesz p)) (unat (p_memsz p))"

text \<open>Memory with the segment p of the image at k in place.\<close>

definition seg_view :: "mem \<Rightarrow> elf64_phdr \<Rightarrow> u64 \<Rightarrow> mem" where
  "seg_view w p k x =
     (if unat (x - p_vaddr p) < unat (p_filesz p) then w (k + p_offset p + (x - p_vaddr p))
      else if unat (x - p_vaddr p) < unat (p_memsz p) then 0 else w x)"

lemma region_word: "n \<le> 2 ^ 64 \<Longrightarrow> i < n \<Longrightarrow> p + word_of_nat i \<in> region p n"
  using region_offset[of i n 0 n p] by simp

lemma region_tail:
  fixes x v f :: u64
  assumes "unat f < n" "n < 2 ^ 64"
  shows "unat (x - (v + f)) < n - unat f \<longleftrightarrow> \<not> unat (x - v) < unat f \<and> unat (x - v) < n"
proof -
  have e: "x - (v + f) = (x - v) - f" by simp
  show ?thesis
  proof (cases "f \<le> x - v")
    case True
    then show ?thesis using assms by (simp add: e unat_sub word_le_nat_alt) linarith
  next
    case False
    then have "unat ((x - v) - f) = 2 ^ 64 + unat (x - v) - unat f"
      by (simp add: unat_sub_if_size word_size word_le_nat_alt)
    then show ?thesis using False assms by (simp add: e word_le_nat_alt)
  qed
qed

lemma load_segment_view:
  assumes inj: "inj_on va D" and d: "region (p_vaddr p) (seg_size p) \<subseteq> D" "region (k + p_offset p) (unat (p_filesz p)) \<subseteq> D"
    and dis: "region (p_vaddr p) (seg_size p) \<inter> region (k + p_offset p) (unat (p_filesz p)) = {}" and x: "x \<in> D"
  shows "boot_view va (boot_load_segment va p k m) x = seg_view (boot_view va m) p k x"
proof -
  let ?v = "p_vaddr p" and ?f = "unat (p_filesz p)" and ?s = "unat (p_memsz p)" and ?w = "boot_view va m"
  let ?m1 = "boot_copy va ?f ?v (k + p_offset p) m"
  have size: "?f \<le> seg_size p" "?s \<le> seg_size p" "seg_size p \<le> 2 ^ 64" "?f \<le> 2 ^ 64"
    using unat_u64_less[of "p_filesz p"] unat_u64_less[of "p_memsz p"] by (auto simp: seg_size_def)
  have away: "?f \<le> unat (?v - (k + p_offset p))"
  proof (cases "?f = 0")
    case False
    then have "?v \<in> region ?v (seg_size p)" using size(1) by (simp add: region_def)
    then show ?thesis using dis by (fastforce simp: region_def)
  qed simp
  have "\<forall>x \<in> D. boot_view va ?m1 x = memcpy_loop ?f ?v (k + p_offset p) ?w x"
    using d region_word[of "seg_size p"] region_word[of ?f] size
    by (intro boot_copy_view[OF inj]) (auto simp: subset_iff)
  then have one: "\<forall>x \<in> D. boot_view va ?m1 x = (if unat (x - ?v) < ?f then ?w (k + p_offset p + (x - ?v)) else ?w x)"
    using memcpy_loop_closed[of ?f ?v "k + p_offset p" ?w] size(4) away by simp
  show ?thesis
  proof (cases "p_memsz p > p_filesz p")
    case False
    then show ?thesis using one x by (simp add: boot_load_segment_def Let_def seg_view_def word_less_nat_alt)
  next
    case True
    have n: "unat (p_memsz p - p_filesz p) = ?s - ?f" "?f < ?s" using True by (simp_all add: unat_sub word_less_nat_alt word_le_nat_alt)
    have "?v + p_filesz p + word_of_nat i \<in> D" if "i < ?s - ?f" for i
      using region_word[of "seg_size p" "?f + i" ?v] that size d(1) by (auto simp: add.assoc)
    then have "\<forall>x \<in> D. boot_view va (boot_clear va (?s - ?f) (?v + p_filesz p) ?m1) x =
        memset_loop (?s - ?f) (?v + p_filesz p) 0 (boot_view va ?m1) x"
      by (intro boot_clear_view[OF inj]) auto
    moreover have "unat (x - (?v + p_filesz p)) < ?s - ?f \<longleftrightarrow> \<not> unat (x - ?v) < ?f \<and> unat (x - ?v) < ?s"
      using region_tail[of "p_filesz p" ?s x ?v] n(2) unat_u64_less[of "p_memsz p"] by simp
    ultimately show ?thesis using one x True n memset_loop_closed[of "?s - ?f" "?v + p_filesz p" 0 "boot_view va ?m1"] size
      by (simp add: boot_load_segment_def Let_def seg_view_def)
  qed
qed

section \<open>Images\<close>

definition kernel_phdr :: "mem \<Rightarrow> u64 \<Rightarrow> nat \<Rightarrow> elf64_phdr" where
  "kernel_phdr w k i = phdr_at w (k + e_phoff (ehdr_at w k) + word_of_nat i * SIZEOF_Elf64_Phdr)"

definition kernel_phnum :: "mem \<Rightarrow> u64 \<Rightarrow> nat" where
  "kernel_phnum w k = unat (e_phnum (ehdr_at w k))"

definition loaded_region :: "mem \<Rightarrow> u64 \<Rightarrow> nat \<Rightarrow> u64 set" where
  "loaded_region w k i =
     (let p = kernel_phdr w k i in if p_type p = PT_LOAD then region (p_vaddr p) (seg_size p) else {})"

text \<open>
  The image of len bytes at k: its headers and the bytes of its loadable segments lie in it, and the
  segments go to mapped memory, away from the image and from each other. D is the memory that is
  mapped, each address to a place of its own.
\<close>

definition kernel_image_ok :: "(u64 \<Rightarrow> u64) \<Rightarrow> u64 set \<Rightarrow> u64 \<Rightarrow> nat \<Rightarrow> mem \<Rightarrow> bool" where
  "kernel_image_ok va D k len w \<longleftrightarrow>
     inj_on va D \<and> region k len \<subseteq> D \<and> 64 \<le> len \<and> len < 2 ^ 64 \<and>
     unat (e_phoff (ehdr_at w k)) + 56 * kernel_phnum w k \<le> len \<and>
     (\<forall>i < kernel_phnum w k.
        loaded_region w k i \<subseteq> D - region k len \<and>
        (p_type (kernel_phdr w k i) = PT_LOAD \<longrightarrow>
           unat (p_offset (kernel_phdr w k i)) + unat (p_filesz (kernel_phdr w k i)) \<le> len) \<and>
        (\<forall>j < i. loaded_region w k i \<inter> loaded_region w k j = {}))"

lemma mem_bytes_within:
  assumes "\<forall>x \<in> region a n. w x = w' x" "j + c \<le> n" "n \<le> 2 ^ 64"
  shows "mem_bytes w (a + word_of_nat j) c = mem_bytes w' (a + word_of_nat j) c"
  using assms region_offset[of _ c j n a] by (intro mem_bytes_cong) blast

lemma ehdr_at_within:
  assumes "\<forall>x \<in> region a 64. w x = w' x"
  shows "ehdr_at w a = ehdr_at w' a"
  using mem_bytes_within[OF assms, of 0 16] mem_bytes_within[OF assms, of 16 2] mem_bytes_within[OF assms, of 18 2]
    mem_bytes_within[OF assms, of 20 4] mem_bytes_within[OF assms, of 24 8] mem_bytes_within[OF assms, of 32 8]
    mem_bytes_within[OF assms, of 40 8] mem_bytes_within[OF assms, of 48 4] mem_bytes_within[OF assms, of 52 2]
    mem_bytes_within[OF assms, of 54 2] mem_bytes_within[OF assms, of 56 2] mem_bytes_within[OF assms, of 58 2]
    mem_bytes_within[OF assms, of 60 2] mem_bytes_within[OF assms, of 62 2]
  by (simp add: ehdr_at_def read16_def read32_def read64_def)

lemma phdr_at_within:
  assumes "\<forall>x \<in> region a 56. w x = w' x"
  shows "phdr_at w a = phdr_at w' a"
  using mem_bytes_within[OF assms, of 0 4] mem_bytes_within[OF assms, of 4 4] mem_bytes_within[OF assms, of 8 8]
    mem_bytes_within[OF assms, of 16 8] mem_bytes_within[OF assms, of 24 8] mem_bytes_within[OF assms, of 32 8]
    mem_bytes_within[OF assms, of 40 8] mem_bytes_within[OF assms, of 48 8]
  by (simp add: phdr_at_def read32_def read64_def)

text \<open>The headers of the image read alike from every memory that agrees with it on the image.\<close>

lemma kernel_phdr_within:
  assumes ok: "kernel_image_ok va D k len w" and eq: "\<forall>x \<in> region k len. w' x = w x" and i: "i < kernel_phnum w k"
  shows "phdr_at w' (k + e_phoff (ehdr_at w k) + word_of_nat i * SIZEOF_Elf64_Phdr) = kernel_phdr w k i"
proof -
  have len: "unat (e_phoff (ehdr_at w k)) + 56 * kernel_phnum w k \<le> len" "len < 2 ^ 64"
    using ok by (simp_all add: kernel_image_ok_def)
  have n: "unat (word_of_nat (i * 56) :: u64) = i * 56" using i len by (subst unat_of_nat) simp
  have "unat (e_phoff (ehdr_at w k) + word_of_nat (i * 56)) = unat (e_phoff (ehdr_at w k)) + i * 56"
    using i len n unat_add_lem[of "e_phoff (ehdr_at w k)" "word_of_nat (i * 56)"] by simp
  then have "region (k + (e_phoff (ehdr_at w k) + word_of_nat (i * 56))) 56 \<subseteq> region k len"
    using i len by (intro region_offset_subset) simp_all
  then show ?thesis unfolding kernel_phdr_def using eq
    by (intro phdr_at_within) (auto simp: add.assoc)
qed

section \<open>The loop over the segments\<close>

text \<open>After the first j headers: their segments are in place and nothing else has changed.\<close>

definition segments_loaded :: "u64 set \<Rightarrow> mem \<Rightarrow> u64 \<Rightarrow> nat \<Rightarrow> mem \<Rightarrow> bool" where
  "segments_loaded D w k j w' \<longleftrightarrow>
     (\<forall>i < j. \<forall>x \<in> loaded_region w k i. w' x = seg_view w (kernel_phdr w k i) k x) \<and>
     (\<forall>x \<in> D. (\<forall>i < j. x \<notin> loaded_region w k i) \<longrightarrow> w' x = w x)"

lemma segments_loaded_image:
  assumes "kernel_image_ok va D k len w" "segments_loaded D w k j w'" "j \<le> kernel_phnum w k" "x \<in> region k len"
  shows "w' x = w x"
  using assms unfolding kernel_image_ok_def segments_loaded_def by (meson DiffE le_trans less_le_trans subsetD)

lemma seg_view_outside: "x \<notin> region (p_vaddr p) (seg_size p) \<Longrightarrow> seg_view w p k x = w x"
  by (auto simp: seg_view_def region_def seg_size_def)

lemma seg_view_inside:
  assumes "x \<in> region (p_vaddr p) (seg_size p)" "\<forall>x \<in> region (k + p_offset p) (unat (p_filesz p)). w' x = w x"
  shows "seg_view w' p k x = seg_view w p k x"
  using assms by (auto simp: seg_view_def region_def seg_size_def)

lemma segment_step:
  assumes ok: "kernel_image_ok va D k len w" and I: "segments_loaded D w k j (boot_view va t)" and j: "j < kernel_phnum w k"
    and load: "p_type (kernel_phdr w k j) = PT_LOAD"
  shows "segments_loaded D w k (Suc j) (boot_view va (boot_load_segment va (kernel_phdr w k j) k t))"
proof -
  let ?p = "kernel_phdr w k j" and ?w = "boot_view va t"
  let ?t = "boot_view va (boot_load_segment va ?p k t)"
  have reg: "loaded_region w k j = region (p_vaddr ?p) (seg_size ?p)" using load by (simp add: loaded_region_def Let_def)
  have len: "len < 2 ^ 64" "inj_on va D" "region k len \<subseteq> D" "unat (p_offset ?p) + unat (p_filesz ?p) \<le> len"
    and away: "loaded_region w k j \<subseteq> D" "loaded_region w k j \<inter> region k len = {}"
    and dis: "\<And>i. i < j \<Longrightarrow> loaded_region w k j \<inter> loaded_region w k i = {}"
    using ok j load unfolding kernel_image_ok_def by auto
  have D: "loaded_region w k i \<subseteq> D" if "i < j" for i
    using ok j that unfolding kernel_image_ok_def by (meson Diff_subset less_trans subset_trans)
  have src: "region (k + p_offset ?p) (unat (p_filesz ?p)) \<subseteq> region k len" by (rule region_offset_subset) (use len in auto)
  have eq: "\<forall>x \<in> region (k + p_offset ?p) (unat (p_filesz ?p)). ?w x = w x"
    using src segments_loaded_image[OF ok I] j by auto
  have t: "?t x = seg_view ?w ?p k x" if "x \<in> D" for x
    by (rule load_segment_view[OF len(2) _ _ _ that]) (use away src reg len(3) in auto)
  have "?t x = seg_view w (kernel_phdr w k i) k x" if i: "i < Suc j" "x \<in> loaded_region w k i" for i x
  proof (cases "i = j")
    case True
    then show ?thesis using i t[of x] away(1) seg_view_inside[OF _ eq] reg by auto
  next
    case False
    then have "i < j" using i by simp
    then show ?thesis using i t[of x] D[of i] dis[of i] reg seg_view_outside[of x ?p ?w k] I
      unfolding segments_loaded_def by (metis disjoint_iff subsetD)
  qed
  moreover have "?t x = w x" if x: "x \<in> D" "\<forall>i < Suc j. x \<notin> loaded_region w k i" for x
    using t[OF x(1)] x reg seg_view_outside[of x ?p ?w k] I unfolding segments_loaded_def by (metis lessI less_SucI)
  ultimately show ?thesis unfolding segments_loaded_def by blast
qed

lemma segments_loaded_ehdr:
  assumes ok: "kernel_image_ok va D k len w" and "segments_loaded D w k j w'" "j \<le> kernel_phnum w k"
  shows "ehdr_at w' k = ehdr_at w k"
proof -
  have "region k 64 \<subseteq> region k len" using ok by (auto simp: kernel_image_ok_def region_def)
  then show ?thesis using segments_loaded_image[OF assms] by (intro ehdr_at_within) auto
qed

lemma segments_loaded_skip:
  assumes "segments_loaded D w k j w'" "p_type (kernel_phdr w k j) \<noteq> PT_LOAD"
  shows "segments_loaded D w k (Suc j) w'"
proof -
  have "loaded_region w k j = {}" using assms(2) by (simp add: loaded_region_def Let_def)
  then show ?thesis using assms(1) by (simp add: segments_loaded_def less_Suc_eq all_conj_distrib imp_conjL)
qed

lemma segments_loop_loaded:
  assumes ok: "kernel_image_ok va D k len w" and "i \<le> ucast (e_phnum (ehdr_at w k))"
    and "segments_loaded D w k (unat i) (boot_view va t)"
  shows "segments_loaded D w k (kernel_phnum w k)
    (boot_view va (boot_segments_loop va k (k + e_phoff (ehdr_at w k)) i t))"
  using assms(2,3)
proof (induction "2 ^ 32 - unat i" arbitrary: i t rule: less_induct)
  case less
  let ?n = "ucast (e_phnum (ehdr_at w k)) :: u32" and ?a = "k + e_phoff (ehdr_at w k)"
  have n: "unat ?n = kernel_phnum w k"
    using unsigned_less[of "e_phnum (ehdr_at w k)", where ?'a = nat]
    by (simp add: kernel_phnum_def unsigned_ucast_eq take_bit_nat_eq_self)
  have le: "unat i \<le> kernel_phnum w k" using less.prems(1) n by (simp add: word_le_nat_alt)
  have bound: "ehdr_at (boot_view va t) k = ehdr_at w k" by (rule segments_loaded_ehdr[OF ok less.prems(2) le])
  show ?case
  proof (cases "i < ?n")
    case False
    then show ?thesis using less.prems n bound by (simp add: boot_segments_loop.simps word_le_less_eq)
  next
    case True
    have lt: "unat i < kernel_phnum w k" using True n by (simp add: word_less_nat_alt)
    have suc: "unat (i + 1) = Suc (unat i)" using unat_Suc_less[OF True] by simp
    have "\<forall>x \<in> region k len. boot_view va t x = w x" using segments_loaded_image[OF ok less.prems(2) le] by simp
    then have h: "phdr_at (boot_view va t) (?a + ucast i * SIZEOF_Elf64_Phdr) = kernel_phdr w k (unat i)"
      using kernel_phdr_within[OF ok _ lt, of "boot_view va t"] by simp
    let ?t = "if p_type (kernel_phdr w k (unat i)) = PT_LOAD then boot_load_segment va (kernel_phdr w k (unat i)) k t else t"
    have "segments_loaded D w k (Suc (unat i)) (boot_view va ?t)"
      using segment_step[OF ok less.prems(2) lt] segments_loaded_skip[OF less.prems(2)] by simp
    moreover have "boot_segments_loop va k ?a i t = boot_segments_loop va k ?a (i + 1) ?t"
      using True bound h by (subst boot_segments_loop.simps) (simp add: Let_def)
    moreover have "i + 1 \<le> ?n" "2 ^ 32 - unat (i + 1) < (2 :: nat) ^ 32 - unat i"
      using suc lt n unat_u32_less[of i] by (simp_all add: word_le_nat_alt)
    ultimately show ?thesis using less.hyps[of "i + 1" ?t] suc by simp
  qed
qed

lemma load_binary_segments_loaded:
  assumes ok: "kernel_image_ok va D k len (boot_view va m)"
  shows "segments_loaded D (boot_view va m) k (kernel_phnum (boot_view va m) k)
    (boot_view va (boot_load_binary_segments va k (k + e_phoff (ehdr_at (boot_view va m) k)) m))"
  unfolding boot_load_binary_segments_def
  by (rule segments_loop_loaded[OF ok]) (simp_all add: segments_loaded_def)

lemma seg_view_bytes:
  assumes "\<forall>x \<in> region (p_vaddr p) (seg_size p). w' x = seg_view w p k x"
  shows "mem_bytes w' (p_vaddr p) (seg_size p) =
    mem_bytes w (k + p_offset p) (unat (p_filesz p)) @ replicate (unat (p_memsz p) - unat (p_filesz p)) 0"
proof (rule nth_equalityI)
  fix i assume "i < length (mem_bytes w' (p_vaddr p) (seg_size p))"
  then have i: "i < seg_size p" by simp
  have le: "seg_size p < 2 ^ 64" using unat_u64_less[of "p_filesz p"] unat_u64_less[of "p_memsz p"] by (auto simp: seg_size_def)
  have u: "unat (word_of_nat i :: u64) = i" using i le by (subst unat_of_nat) simp
  have "w' (p_vaddr p + word_of_nat i) = seg_view w p k (p_vaddr p + word_of_nat i)"
    using assms region_word[OF _ i, of "p_vaddr p"] le by simp
  then show "mem_bytes w' (p_vaddr p) (seg_size p) ! i =
      (mem_bytes w (k + p_offset p) (unat (p_filesz p)) @ replicate (unat (p_memsz p) - unat (p_filesz p)) 0) ! i"
    using i u by (auto simp: seg_view_def nth_append mem_bytes_def seg_size_def)
qed (auto simp: seg_size_def)

section \<open>A kernel of two segments\<close>

definition demo_phdr :: "u64 \<Rightarrow> u64 \<Rightarrow> u64 \<Rightarrow> u64 \<Rightarrow> u8 list" where
  "demo_phdr offset vaddr filesz memsz =
     le_bytes 4 (1 :: u32) @ le_bytes 4 (0 :: u32) @ le_bytes 8 offset @ le_bytes 8 vaddr @ le_bytes 8 vaddr @
     le_bytes 8 filesz @ le_bytes 8 memsz @ le_bytes 8 (0x1000 :: u64)"

definition demo_kernel :: "u8 list" where
  "demo_kernel = replicate 24 0 @ le_bytes 8 (0xFFFFFFFFC0100000 :: u64) @ le_bytes 8 (64 :: u64) @ replicate 16 0 @
     le_bytes 2 (2 :: u16) @ replicate 6 0 @
     demo_phdr 176 0xFFFFFFFFC0100000 3 3 @ demo_phdr 179 0xFFFFFFFFC0101000 2 4 @ [1, 2, 3, 4, 5]"

text \<open>The translation init\_higher\_half\_kernel sets up: the upper half onto the first frames.\<close>

definition demo_va :: "u64 \<Rightarrow> u64" where
  "demo_va a = (if 0xFFFFFFFFC0000000 \<le> a then a - 0xFFFFFFFFC0000000 else a)"

definition demo_kernel_mem :: mem where
  "demo_kernel_mem = mem_store (\<lambda>_. 7) 0x10000 demo_kernel"

lemma demo_kernel_headers:
  "kernel_phnum (boot_view demo_va demo_kernel_mem) 0x10000 = 2"
  "e_entry (ehdr_at (boot_view demo_va demo_kernel_mem) 0x10000) = 0xFFFFFFFFC0100000"
  "unat (e_phoff (ehdr_at (boot_view demo_va demo_kernel_mem) 0x10000)) = 64"
  "kernel_phdr (boot_view demo_va demo_kernel_mem) 0x10000 0 = \<lparr>p_type = 1, p_flags = 0, p_offset = 176,
     p_vaddr = 0xFFFFFFFFC0100000, p_paddr = 0xFFFFFFFFC0100000, p_filesz = 3, p_memsz = 3, p_align = 0x1000\<rparr>"
  "kernel_phdr (boot_view demo_va demo_kernel_mem) 0x10000 1 = \<lparr>p_type = 1, p_flags = 0, p_offset = 179,
     p_vaddr = 0xFFFFFFFFC0101000, p_paddr = 0xFFFFFFFFC0101000, p_filesz = 2, p_memsz = 4, p_align = 0x1000\<rparr>"
  "mem_bytes (boot_view demo_va demo_kernel_mem) (0x10000 + 176) 3 = [1, 2, 3]"
  "mem_bytes (boot_view demo_va demo_kernel_mem) (0x10000 + 179) 2 = [4, 5]"
  by code_simp+

lemma region_interval:
  assumes "unat k + n \<le> 2 ^ 64"
  shows "x \<in> region k n \<longleftrightarrow> unat k \<le> unat x \<and> unat x < unat k + n"
proof (cases "k \<le> x")
  case True
  then have "unat (x - k) = unat x - unat k" by (rule unat_sub)
  then show ?thesis using True by (auto simp: region_def word_le_nat_alt)
next
  case False
  then have "unat (x - k) = 2 ^ 64 + unat x - unat k" by (simp add: unat_sub_if_size word_size word_le_nat_alt)
  then show ?thesis using False assms by (auto simp: region_def word_le_nat_alt)
qed

definition demo_mapped :: "u64 set" where
  "demo_mapped = region 0x10000 181 \<union> region 0xFFFFFFFFC0100000 0x2000"

lemma demo_va_inj: "inj_on demo_va demo_mapped"
proof (rule inj_onI)
  fix x y assume xy: "x \<in> demo_mapped" "y \<in> demo_mapped" "demo_va x = demo_va y"
  have val: "unat (demo_va z) = (if unat z < 0x100000 then unat z else unat z - 0xFFFFFFFFC0000000) \<and>
      (unat z < 0x100000 \<and> unat (demo_va z) < 0x100000 \<or> 0xFFFFFFFFC0100000 \<le> unat z \<and> 0x100000 \<le> unat (demo_va z))"
    if "z \<in> demo_mapped" for z
  proof -
    from that consider "0x10000 \<le> unat z" "unat z < 0x100000" | "0xFFFFFFFFC0100000 \<le> unat z"
      by (auto simp: demo_mapped_def region_interval)
    then show ?thesis
    proof cases
      case 2
      then have "0xFFFFFFFFC0000000 \<le> z" by (simp add: word_le_nat_alt)
      then show ?thesis using 2 unat_sub[of "0xFFFFFFFFC0000000" z] by (simp add: demo_va_def)
    qed (simp add: demo_va_def word_le_nat_alt)
  qed
  show "x = y" using val[OF xy(1)] val[OF xy(2)] xy(3) by (simp add: word_unat_eq_iff split: if_splits) linarith
qed

lemma demo_kernel_ok: "kernel_image_ok demo_va demo_mapped 0x10000 181 (boot_view demo_va demo_kernel_mem)"
proof -
  let ?w = "boot_view demo_va demo_kernel_mem"
  have r: "loaded_region ?w 0x10000 0 = region 0xFFFFFFFFC0100000 3" "loaded_region ?w 0x10000 1 = region 0xFFFFFFFFC0101000 4"
    unfolding loaded_region_def Let_def demo_kernel_headers by (simp_all add: seg_size_def)
  have two: "(\<forall>i < (2 :: nat). P i) \<longleftrightarrow> P 0 \<and> P 1" for P by (auto simp: less_2_cases_iff)
  have d: "region 0xFFFFFFFFC0100000 3 \<subseteq> demo_mapped - region 0x10000 181"
      "region 0xFFFFFFFFC0101000 4 \<subseteq> demo_mapped - region 0x10000 181"
      "region 0xFFFFFFFFC0101000 4 \<inter> region 0xFFFFFFFFC0100000 3 = ({} :: u64 set)"
    by (auto simp: demo_mapped_def region_interval)
  show ?thesis
    unfolding kernel_image_ok_def two demo_kernel_headers r using demo_va_inj d
    by (simp add: demo_kernel_headers r) (simp add: demo_mapped_def)
qed

text \<open>
  C8: the boot loader puts the kernel in place: for an image whose headers and loadable segments lie
  inside it and whose segments go to mapped memory of their own, load\_and\_jump\_kernel ends and calls
  the entry point of the image; then every loadable segment, read through the tables in force, holds
  its bytes of the image followed by zeros up to its size in memory, and no other mapped memory has
  changed.
\<close>
theorem boot_kernel_loaded:
  assumes ok: "kernel_image_ok va D k len (boot_view va m)"
  shows "\<exists>m'. load_and_jump_kernel va k m = (e_entry (ehdr_at (boot_view va m) k), m') \<and>
    (\<forall>i < kernel_phnum (boot_view va m) k. let p = kernel_phdr (boot_view va m) k i in p_type p = PT_LOAD \<longrightarrow>
       mem_bytes (boot_view va m') (p_vaddr p) (seg_size p) =
         mem_bytes (boot_view va m) (k + p_offset p) (unat (p_filesz p)) @
         replicate (unat (p_memsz p) - unat (p_filesz p)) 0) \<and>
    (\<forall>x \<in> D. (\<forall>i < kernel_phnum (boot_view va m) k. x \<notin> loaded_region (boot_view va m) k i) \<longrightarrow>
       boot_view va m' x = boot_view va m x)"
proof -
  let ?w = "boot_view va m"
  let ?t = "boot_load_binary_segments va k (k + e_phoff (ehdr_at ?w k)) m"
  note I = load_binary_segments_loaded[OF ok]
  have j: "load_and_jump_kernel va k m = (e_entry (ehdr_at ?w k), ?t)"
    using segments_loaded_ehdr[OF ok I] by (simp add: load_and_jump_kernel_def Let_def)
  have "mem_bytes (boot_view va ?t) (p_vaddr p) (seg_size p) =
      mem_bytes ?w (k + p_offset p) (unat (p_filesz p)) @ replicate (unat (p_memsz p) - unat (p_filesz p)) 0"
    if "i < kernel_phnum ?w k" "p = kernel_phdr ?w k i" "p_type p = PT_LOAD" for i p
    using I that unfolding segments_loaded_def by (intro seg_view_bytes) (auto simp: loaded_region_def Let_def)
  then show ?thesis using j I unfolding segments_loaded_def Let_def by (intro exI[of _ ?t]) blast
qed

text \<open>The kernel of two segments, loaded to the upper half.\<close>
theorem boot_kernel_loaded_witness:
  "\<exists>m'. load_and_jump_kernel demo_va 0x10000 demo_kernel_mem = (0xFFFFFFFFC0100000, m') \<and>
     mem_bytes (boot_view demo_va m') 0xFFFFFFFFC0100000 3 = [1, 2, 3] \<and>
     mem_bytes (boot_view demo_va m') 0xFFFFFFFFC0101000 4 = [4, 5, 0, 0]"
proof -
  let ?w = "boot_view demo_va demo_kernel_mem"
  obtain m' where m: "load_and_jump_kernel demo_va 0x10000 demo_kernel_mem = (e_entry (ehdr_at ?w 0x10000), m')"
    and b: "\<forall>i < kernel_phnum ?w 0x10000. let p = kernel_phdr ?w 0x10000 i in p_type p = PT_LOAD \<longrightarrow>
       mem_bytes (boot_view demo_va m') (p_vaddr p) (seg_size p) =
         mem_bytes ?w (0x10000 + p_offset p) (unat (p_filesz p)) @ replicate (unat (p_memsz p) - unat (p_filesz p)) 0"
    using boot_kernel_loaded[OF demo_kernel_ok] by (elim exE conjE)
  have lt: "0 < kernel_phnum ?w 0x10000" "1 < kernel_phnum ?w 0x10000" by (simp_all add: demo_kernel_headers)
  note b0 = b[rule_format, OF lt(1), unfolded Let_def demo_kernel_headers]
  note b1 = b[rule_format, OF lt(2), unfolded Let_def demo_kernel_headers]
  have "replicate 2 (0 :: u8) = [0, 0]" by (simp add: numeral_2_eq_2)
  then show ?thesis using m b0 b1 demo_kernel_headers(2,6,7) by (intro exI[of _ m']) (simp add: seg_size_def)
qed

end
