(* ===== verification/Boot_Paging.thy ===== *)
theory Boot_Paging
  imports Boot_Kernel
begin

text \<open>
  The map of the kernel's half, boot/bootloader/bootloader\_paging.c: what the tables of
  init\_higher\_half\_kernel mean to the processor, and that the translations in force before are kept.
\<close>

section \<open>The walk of the processor\<close>

definition pte_frame :: "u64 \<Rightarrow> u64" where
  "pte_frame e = PAGE_TABLE_ENTRY_INDEX_TO_PAGE_ADDR (pte_index e)"

text \<open>
  The walk from the table cr3 names, with the large pages of 1 GiB and of 2 MiB. The result is the
  entries it reads and the address it ends at.
\<close>

definition boot_walk :: "mem \<Rightarrow> u64 \<Rightarrow> u64 \<Rightarrow> u64 list \<times> u64 option" where
  "boot_walk m root v =
     (let a4 = (root AND NOT 0xFFF) + va_plm4_index v * 8; e4 = read64 m a4
      in if \<not> pte_present e4 then ([a4], None)
         else let a3 = pte_frame e4 + va_pdp_index v * 8; e3 = read64 m a3
              in if \<not> pte_present e3 then ([a4, a3], None)
                 else if pte_huge_page e3 then ([a4, a3], Some ((pte_frame e3 AND NOT (mask 30)) + (v AND mask 30)))
                 else let a2 = pte_frame e3 + va_pd_index v * 8; e2 = read64 m a2
                      in if \<not> pte_present e2 then ([a4, a3, a2], None)
                         else if pte_huge_page e2
                              then ([a4, a3, a2], Some ((pte_frame e2 AND NOT (mask 21)) + (v AND mask 21)))
                              else let a1 = pte_frame e2 + va_pt_index v * 8; e1 = read64 m a1
                                   in ([a4, a3, a2, a1], if pte_present e1 then Some (pte_frame e1 + va_offset v) else None))"

definition boot_translate :: "mem \<Rightarrow> u64 \<Rightarrow> u64 \<Rightarrow> u64 option" where
  "boot_translate m root v = snd (boot_walk m root v)"

lemma boot_walk_cong:
  assumes "\<forall>a \<in> set (fst (boot_walk m root v)). read64 m' a = read64 m a"
  shows "boot_walk m' root v = boot_walk m root v"
  using assms by (auto simp: boot_walk_def Let_def split: if_splits)

section \<open>Addresses of the upper window\<close>

lemma window_address:
  fixes a :: u64
  assumes "a - 0xFFFFFFFFC0000000 < 0x200000"
  shows "va_plm4_index a = 511" "va_pdp_index a = 511" "va_pd_index a = 0" "a AND mask 21 = a - 0xFFFFFFFFC0000000"
proof -
  define c :: u64 where "c = NOT (mask 30)"
  define i :: u64 where "i = mask 9"
  define x where "x = a - c"
  have nums: "c = 0xFFFFFFFFC0000000" "i = 511" by (simp_all add: c_def i_def mask_eq_exp_minus_1)
  have "x < 2 ^ 21" using assms by (simp add: x_def nums)
  then have hi: "\<not> bit x n" if "21 \<le> n" for n
    using that by (metis bit_take_bit_iff less_mask_eq take_bit_eq_mask not_le)
  have cb: "bit c n \<longleftrightarrow> 30 \<le> n \<and> n < 64" for n by (auto simp: c_def bit_simps)
  have ib: "bit i n \<longleftrightarrow> n < 9" for n by (auto simp: i_def bit_simps)
  have "c AND x = 0" using hi cb by (intro bit_word_eqI) (auto simp: bit_simps)
  then have a: "a = c OR x" using disjunctive_add_eq_or[of c x] by (simp add: x_def)
  have lo: "bit x n \<Longrightarrow> n < 21" for n using hi[of n] by linarith
  have "va_plm4_index a = i" "va_pdp_index a = i" "va_pd_index a = 0" "a AND mask 21 = x"
    unfolding va_plm4_index_def va_pdp_index_def va_pd_index_def a
    by (rule bit_word_eqI; use hi ib cb lo in \<open>auto simp: bit_simps\<close>)+
  then show "va_plm4_index a = 511" "va_pdp_index a = 511" "va_pd_index a = 0" "a AND mask 21 = a - 0xFFFFFFFFC0000000"
    by (simp_all only: x_def nums)
qed

section \<open>The two tables\<close>

text \<open>The entries of init\_higher\_half\_kernel.\<close>

lemma boot_table_entry_fields:
  "pte_present (boot_table_entry h ix)" "pte_huge_page (boot_table_entry h ix) = h"
  "pte_index (boot_table_entry h ix) = ix AND mask 40"
proof -
  have b: "boot_table_entry h ix = 1 OR push_bit 1 1 OR push_bit 3 1 OR push_bit 7 (of_bool h) OR push_bit 12 (ix AND mask 40)"
    by (simp add: boot_table_entry_def)
  show "pte_present (boot_table_entry h ix)" "pte_huge_page (boot_table_entry h ix) = h"
    unfolding b pte_present_def pte_huge_page_def by (auto simp: bit_simps)
  show "pte_index (boot_table_entry h ix) = ix AND mask 40"
    unfolding b pte_index_def by (rule bit_word_eqI) (auto simp: bit_simps)
qed

lemma boot_table_entry_frame:
  assumes "page_aligned t" "unat t < 2 ^ 52"
  shows "pte_frame (boot_table_entry h (drop_bit 12 t)) = t"
proof -
  have lo: "\<not> bit t n" if "n < 12" for n
  proof -
    have "take_bit 12 t = 0" using assms(1)
      by (simp add: page_aligned_def word_unat_eq_iff take_bit_eq_mod unat_mod_distrib dvd_eq_mod_eq_0)
    then have "\<not> bit (take_bit 12 t) n" by simp
    then show ?thesis using that by (simp only: bit_take_bit_iff simp_thms)
  qed
  have hi: "\<not> bit t n" if "52 \<le> n" for n
  proof -
    have "t < 2 ^ 52" using assms(2) by (simp add: word_less_nat_alt)
    then show ?thesis using that by (metis bit_take_bit_iff less_mask_eq take_bit_eq_mask not_le)
  qed
  have within: "12 \<le> n \<and> n < 52 \<and> n - 12 < 40" if "bit t n" for n using that lo[of n] hi[of n] by linarith
  show ?thesis
    unfolding pte_frame_def boot_table_entry_fields PAGE_TABLE_ENTRY_INDEX_TO_PAGE_ADDR_def
    by (rule bit_word_eqI) (use within in \<open>auto simp: bit_simps\<close>)
qed

lemma page_round_up:
  fixes n :: nat
  shows "4096 dvd n + (if n mod 4096 = 0 then 0 else 4096 - n mod 4096)"
proof -
  have "n + (4096 - n mod 4096) = 4096 * (n div 4096) + 4096"
    using mult_div_mod_eq[of 4096 n] pos_mod_bound[of 4096 "int n"] mod_less_divisor[of 4096 n] by linarith
  then show ?thesis by (simp add: dvd_eq_mod_eq_0)
qed

lemma malloc_aligned_page:
  assumes base: "unat (s_buffer s) + unat (s_buffer_size s) \<le> 2 ^ 52"
    and room: "unat (s_buffer_offset s) + (if page_aligned (s_buffer s + s_buffer_offset s) then 0x1000 else 0x2000) \<le>
      unat (s_buffer_size s)"
  shows "\<exists>o'. boot_malloc_aligned 0x1000 0x1000 s = Inr (s_buffer s + o', s\<lparr>s_buffer_offset := o' + 0x1000\<rparr>) \<and>
    page_aligned (s_buffer s + o') \<and> unat (s_buffer_offset s) \<le> unat o' \<and> unat o' < unat (s_buffer_offset s) + 0x1000 \<and>
    (page_aligned (s_buffer s + s_buffer_offset s) \<longrightarrow> o' = s_buffer_offset s)"
proof -
  let ?b = "s_buffer s + s_buffer_offset s" and ?o = "unat (s_buffer_offset s)"
  let ?r = "?b mod 0x1000"
  have room': "?o + 0x1000 \<le> unat (s_buffer_size s)" using room by (simp split: if_splits)
  have b: "unat ?b = unat (s_buffer s) + ?o" by (rule unat_add_if_fits) (use base room' in simp)
  have r: "unat ?r = unat ?b mod 4096" by (simp add: unat_mod_distrib)
  define o' where "o' = (if ?r \<noteq> 0 then s_buffer_offset s + (0x1000 - ?r) else s_buffer_offset s)"
  have o': "unat o' = ?o + (if unat ?b mod 4096 = 0 then 0 else 4096 - unat ?b mod 4096)"
  proof (cases "?r = 0")
    case True
    then show ?thesis using r by (simp add: o'_def)
  next
    case False
    have "unat (0x1000 - ?r) = 4096 - unat ?b mod 4096" using r by (subst unat_sub) (simp_all add: word_le_nat_alt)
    moreover have "unat ?b mod 4096 \<noteq> 0" using False r by (metis unat_eq_0)
    ultimately show ?thesis using False room' base unat_add_if_fits[of "s_buffer_offset s" "0x1000 - ?r"] by (simp add: o'_def)
  qed
  have le: "unat o' < ?o + 4096" "?o \<le> unat o'" using o' by (auto split: if_splits)
  have fits: "unat o' + 4096 \<le> unat (s_buffer_size s)"
    using room o' by (cases "page_aligned ?b") (simp_all add: page_aligned_def dvd_eq_mod_eq_0)
  have "unat (s_buffer s + o') = unat (s_buffer s) + unat o'" by (rule unat_add_if_fits) (use base fits in simp)
  then have "unat (s_buffer s + o') = unat ?b + (if unat ?b mod 4096 = 0 then 0 else 4096 - unat ?b mod 4096)"
    using o' b by (simp only: add.assoc)
  then have al: "page_aligned (s_buffer s + o')" unfolding page_aligned_def by (simp only: page_round_up)
  have "unat (o' + 0x1000) = unat o' + 4096" by (subst unat_add_if_fits) (use base fits in simp_all)
  then have "\<not> o' + 0x1000 > s_buffer_size s" using fits by (simp add: word_less_nat_alt)
  moreover have "boot_malloc_aligned 0x1000 0x1000 s = boot_malloc 0x1000 (s\<lparr>s_buffer_offset := o'\<rparr>)"
    by (cases "?r = 0") (simp_all add: boot_malloc_aligned_def Let_def o'_def)
  ultimately have "boot_malloc_aligned 0x1000 0x1000 s = Inr (s_buffer s + o', s\<lparr>s_buffer_offset := o' + 0x1000\<rparr>)"
    by (simp add: boot_malloc_def)
  moreover have "o' = s_buffer_offset s" if "page_aligned ?b"
  proof -
    have "unat ?r = 0" using that r unfolding page_aligned_def dvd_eq_mod_eq_0 by (simp only:)
    then show ?thesis unfolding o'_def unat_eq_0 by simp
  qed
  ultimately show ?thesis using al le by (intro exI[of _ o']) simp
qed

section \<open>The memory the set-up leaves\<close>

lemma read64_within:
  assumes "\<forall>x \<in> region a 8. w x = w' x"
  shows "read64 w a = read64 w' a"
  using mem_bytes_within[OF assms, of 0 8] by (simp add: read64_def)

lemma write64_apart: "region a 8 \<inter> region b 8 = {} \<Longrightarrow> read64 (write64 m a v) b = read64 m b"
  by (rule read64_within) (auto simp: write64_def mem_store_def region_def)

text \<open>Where the set-up writes: its two tables and the last entry of the top table.\<close>

definition higher_half_writes :: "u64 \<Rightarrow> u64 \<Rightarrow> u64 \<Rightarrow> u64 set" where
  "higher_half_writes pdp pd root = region pdp 0x1000 \<union> region pd 0x1000 \<union> region (root + 511 * 8) 8"

definition higher_half_mem :: "u64 \<Rightarrow> u64 \<Rightarrow> u64 \<Rightarrow> mem \<Rightarrow> mem" where
  "higher_half_mem pdp pd root m =
     write64 (write64 (write64 (memset pd 0 0x1000 (memset pdp 0 0x1000 m))
       (pdp + 511 * 8) (boot_table_entry False (drop_bit 12 pd)))
       pd (boot_table_entry True 0))
       (root + 511 * 8) (boot_table_entry False (drop_bit 12 pdp))"

lemma entry_in_page: "region (t + 511 * 8) 8 \<subseteq> region t 0x1000" "region t 8 \<subseteq> region t 0x1000"
  by (rule region_offset_subset; simp) (rule Heap_Blocks.region_mono, simp)

lemma higher_half_mem_outside: "x \<notin> higher_half_writes pdp pd root \<Longrightarrow> higher_half_mem pdp pd root m x = m x"
  using entry_in_page[of pdp] entry_in_page[of pd]
  by (auto simp: higher_half_writes_def higher_half_mem_def write64_def mem_store_def memset_closed region_def)

lemma higher_half_mem_entries:
  assumes "region pdp 0x1000 \<inter> region pd 0x1000 = {}" "region pdp 0x1000 \<inter> region root 0x1000 = {}"
    "region pd 0x1000 \<inter> region root 0x1000 = {}"
  shows "read64 (higher_half_mem pdp pd root m) (root + 511 * 8) = boot_table_entry False (drop_bit 12 pdp)"
    "read64 (higher_half_mem pdp pd root m) (pdp + 511 * 8) = boot_table_entry False (drop_bit 12 pd)"
    "read64 (higher_half_mem pdp pd root m) pd = boot_table_entry True 0"
proof -
  have d: "region (root + 511 * 8) 8 \<inter> region (pdp + 511 * 8) 8 = {}" "region (root + 511 * 8) 8 \<inter> region pd 8 = {}"
    "region pd 8 \<inter> region (pdp + 511 * 8) 8 = {}"
    using assms entry_in_page[of pdp] entry_in_page[of pd] entry_in_page[of root] by blast+
  show "read64 (higher_half_mem pdp pd root m) (root + 511 * 8) = boot_table_entry False (drop_bit 12 pdp)"
    by (simp only: higher_half_mem_def read64_write64_same)
  show "read64 (higher_half_mem pdp pd root m) (pdp + 511 * 8) = boot_table_entry False (drop_bit 12 pd)"
    by (simp only: higher_half_mem_def write64_apart[OF d(1)] write64_apart[OF d(3)] read64_write64_same)
  show "read64 (higher_half_mem pdp pd root m) pd = boot_table_entry True 0"
    by (simp only: higher_half_mem_def write64_apart[OF d(2)] read64_write64_same)
qed

lemma higher_half_translates:
  assumes e: "read64 m ((root AND NOT 0xFFF) + 511 * 8) = boot_table_entry False (drop_bit 12 pdp)"
    "read64 m (pdp + 511 * 8) = boot_table_entry False (drop_bit 12 pd)" "read64 m pd = boot_table_entry True 0"
    and al: "page_aligned pdp" "page_aligned pd" "unat pdp < 2 ^ 52" "unat pd < 2 ^ 52"
    and a: "a - 0xFFFFFFFFC0000000 < 0x200000"
  shows "boot_translate m root a = Some (a - 0xFFFFFFFFC0000000)"
proof -
  note f = boot_table_entry_frame[OF al(1,3)] boot_table_entry_frame[OF al(2,4)] boot_table_entry_fields
  have z: "pte_frame (boot_table_entry True 0) = 0"
    by (simp add: pte_frame_def boot_table_entry_fields PAGE_TABLE_ENTRY_INDEX_TO_PAGE_ADDR_def)
  have e3: "read64 m (pdp + va_pdp_index a * 8) = boot_table_entry False (drop_bit 12 pd)"
    and e4: "read64 m ((root AND NOT 0xFFF) + va_plm4_index a * 8) = boot_table_entry False (drop_bit 12 pdp)"
    and e2: "read64 m (pd + va_pd_index a * 8) = boot_table_entry True 0"
    using e by (simp_all only: window_address[OF a] mult_zero_left add_0_right)
  show ?thesis
    unfolding boot_translate_def boot_walk_def Let_def e4 f e3 e2 z
    by (simp only: simp_thms if_True if_False f e3 e2 z snd_conv window_address(4)[OF a] and_zero_eq zero_and_eq add_0_left)
qed

text \<open>The set-up on a buffer with room for three pages.\<close>

lemma init_higher_half_kernel_mem:
  assumes base: "unat (s_buffer s) + unat (s_buffer_size s) \<le> 2 ^ 52"
    and room: "unat (s_buffer_offset s) + 0x3000 \<le> unat (s_buffer_size s)"
  shows "\<exists>pdp s'. init_higher_half_kernel s = Inr s' \<and> bcr3 s' = bcr3 s \<and>
    bmem s' = higher_half_mem pdp (pdp + 0x1000) (bcr3 s AND NOT 0xFFF) (bmem s) \<and>
    page_aligned pdp \<and> page_aligned (pdp + 0x1000) \<and> unat pdp < 2 ^ 52 \<and> unat (pdp + 0x1000) < 2 ^ 52 \<and>
    region pdp 0x2000 \<subseteq> region (s_buffer s) (unat (s_buffer_size s))"
proof -
  have "unat (s_buffer_offset s) + (if page_aligned (s_buffer s + s_buffer_offset s) then 0x1000 else 0x2000) \<le>
      unat (s_buffer_size s)" using room by (simp split: if_splits)
  then obtain o1 where m1: "boot_malloc_aligned 0x1000 0x1000 s = Inr (s_buffer s + o1, s\<lparr>s_buffer_offset := o1 + 0x1000\<rparr>)"
    and al: "page_aligned (s_buffer s + o1)" and o1: "unat o1 < unat (s_buffer_offset s) + 0x1000"
    using malloc_aligned_page[OF base] by (elim meta_impE exE conjE)
  have o2: "unat (o1 + 0x1000) = unat o1 + 0x1000" by (subst unat_add_if_fits) (use base room o1 in simp_all)
  have p: "unat (s_buffer s + o1) = unat (s_buffer s) + unat o1" by (rule unat_add_if_fits) (use base room o1 in simp)
  have p2: "unat (s_buffer s + o1 + 0x1000) = unat (s_buffer s) + unat o1 + 0x1000"
    using p by (subst unat_add_if_fits) (use base room o1 in simp_all)
  have al2: "page_aligned (s_buffer s + o1 + 0x1000)" using al p p2 by (simp add: page_aligned_def)
  let ?s1 = "s\<lparr>s_buffer_offset := o1 + 0x1000, bmem := memset (s_buffer s + o1) 0 0x1000 (bmem s)\<rparr>"
  have "page_aligned (s_buffer ?s1 + s_buffer_offset ?s1)" using al2 by (simp add: add.assoc)
  then have m2: "boot_malloc_aligned 0x1000 0x1000 ?s1 = Inr (s_buffer s + o1 + 0x1000, ?s1\<lparr>s_buffer_offset := o1 + 0x1000 + 0x1000\<rparr>)"
    using malloc_aligned_page[of ?s1] al2 base room o1 o2 by (auto simp: add.assoc)
  have "init_higher_half_kernel s = Inr (?s1\<lparr>s_buffer_offset := o1 + 0x1000 + 0x1000,
      bmem := higher_half_mem (s_buffer s + o1) (s_buffer s + o1 + 0x1000) (bcr3 s AND NOT 0xFFF) (bmem s)\<rparr>)"
    unfolding init_higher_half_kernel_def m1 by (simp add: m2 Let_def higher_half_mem_def)
  moreover have "region (s_buffer s + o1) 0x2000 \<subseteq> region (s_buffer s) (unat (s_buffer_size s))"
    by (rule region_offset_subset) (use o1 room base in simp_all)
  ultimately show ?thesis using al al2 p p2 o1 room base by (intro exI[of _ "s_buffer s + o1"]) auto
qed

text \<open>The buffer bootloader.c gives the allocator, with the top table at 0x1000.\<close>

definition boot_demo :: "mem \<Rightarrow> vga_state \<Rightarrow> unit boot_state" where
  "boot_demo m v =
     \<lparr>bmem = m, bdev = (), bvga = v, s_buffer = 0x180000, s_buffer_offset = 0x123, s_buffer_size = 0x80000, bcr3 = 0x1000\<rparr>"

text \<open>
  C9: the boot loader maps the kernel's half: when the allocator has room for three pages below 2 to
  the 52, away from the top table in force, init\_higher\_half\_kernel returns; then the 2 MiB from
  0xFFFFFFFFC0000000 on translate to the first 2 MiB of memory, and every address whose walk reads
  neither the buffer of the allocator nor the last entry of the top table translates as before.
\<close>
theorem higher_half_mapped:
  assumes base: "unat (s_buffer s) + unat (s_buffer_size s) \<le> 2 ^ 52"
    and room: "unat (s_buffer_offset s) + 0x3000 \<le> unat (s_buffer_size s)"
    and apart: "region (bcr3 s AND NOT 0xFFF) 0x1000 \<inter> region (s_buffer s) (unat (s_buffer_size s)) = {}"
  shows "\<exists>s'. init_higher_half_kernel s = Inr s' \<and>
    (\<forall>a. a - 0xFFFFFFFFC0000000 < 0x200000 \<longrightarrow>
       boot_translate (bmem s') (bcr3 s') a = Some (a - 0xFFFFFFFFC0000000)) \<and>
    (\<forall>a. (\<forall>e \<in> set (fst (boot_walk (bmem s) (bcr3 s) a)).
            region e 8 \<inter> (region (s_buffer s) (unat (s_buffer_size s)) \<union>
              region ((bcr3 s AND NOT 0xFFF) + 511 * 8) 8) = {}) \<longrightarrow>
       boot_translate (bmem s') (bcr3 s') a = boot_translate (bmem s) (bcr3 s) a)"
proof -
  let ?root = "bcr3 s AND NOT 0xFFF" and ?buf = "region (s_buffer s) (unat (s_buffer_size s))"
  obtain pdp s' where s': "init_higher_half_kernel s = Inr s'" "bcr3 s' = bcr3 s"
      "bmem s' = higher_half_mem pdp (pdp + 0x1000) ?root (bmem s)"
    and al: "page_aligned pdp" "page_aligned (pdp + 0x1000)" "unat pdp < 2 ^ 52" "unat (pdp + 0x1000) < 2 ^ 52"
    and sub: "region pdp 0x2000 \<subseteq> ?buf"
    using init_higher_half_kernel_mem[OF base room] by (elim exE conjE)
  have tabs: "region pdp 0x1000 \<subseteq> region pdp 0x2000" "region (pdp + 0x1000) 0x1000 \<subseteq> region pdp 0x2000"
    by (rule Heap_Blocks.region_mono, simp) (rule region_offset_subset; simp)
  have dis: "region pdp 0x1000 \<inter> region (pdp + 0x1000) 0x1000 = {}" by (rule regions_apart) simp_all
  have "region pdp 0x1000 \<inter> region ?root 0x1000 = {}" "region (pdp + 0x1000) 0x1000 \<inter> region ?root 0x1000 = {}"
    using apart tabs sub by blast+
  note e = higher_half_mem_entries[OF dis this, of "bmem s"]
  have "boot_translate (bmem s') (bcr3 s') a = Some (a - 0xFFFFFFFFC0000000)" if "a - 0xFFFFFFFFC0000000 < 0x200000" for a
    unfolding s'(2,3) by (rule higher_half_translates[OF e al that])
  moreover have "boot_translate (bmem s') (bcr3 s') a = boot_translate (bmem s) (bcr3 s) a"
    if a: "\<forall>e \<in> set (fst (boot_walk (bmem s) (bcr3 s) a)). region e 8 \<inter> (?buf \<union> region (?root + 511 * 8) 8) = {}" for a
  proof -
    have "read64 (bmem s') t = read64 (bmem s) t" if t: "t \<in> set (fst (boot_walk (bmem s) (bcr3 s) a))" for t
      unfolding s'(3)
    proof (rule read64_within, rule ballI, rule higher_half_mem_outside)
      fix x assume "x \<in> region t 8"
      then show "x \<notin> higher_half_writes pdp (pdp + 0x1000) ?root"
        using a t tabs sub unfolding higher_half_writes_def by blast
    qed
    then show ?thesis unfolding boot_translate_def s'(2) by (subst boot_walk_cong) simp_all
  qed
  ultimately show ?thesis using s'(1) by blast
qed

text \<open>Memory below the kernel, seen through the upper window.\<close>
theorem higher_half_mapped_witness:
  "\<forall>m v. \<exists>s'. init_higher_half_kernel (boot_demo m v) = Inr s' \<and>
     boot_translate (bmem s') (bcr3 s') 0xFFFFFFFFC0012345 = Some 0x12345"
proof (intro allI)
  fix m v
  let ?s = "boot_demo m v"
  have "region (0x1000 :: u64) 0x1000 \<inter> region 0x180000 0x80000 = {}" by (auto simp: region_interval)
  then have "region (bcr3 ?s AND NOT 0xFFF) 0x1000 \<inter> region (s_buffer ?s) (unat (s_buffer_size ?s)) = {}"
    by (simp add: boot_demo_def)
  then obtain s' where "init_higher_half_kernel ?s = Inr s'"
      "\<forall>a. a - 0xFFFFFFFFC0000000 < 0x200000 \<longrightarrow> boot_translate (bmem s') (bcr3 s') a = Some (a - 0xFFFFFFFFC0000000)"
    using higher_half_mapped[of ?s] by (auto simp: boot_demo_def)
  then show "\<exists>s'. init_higher_half_kernel ?s = Inr s' \<and> boot_translate (bmem s') (bcr3 s') 0xFFFFFFFFC0012345 = Some 0x12345"
    by (intro exI[of _ s']) simp
qed

end
