(* ===== verification/Spec2Isabelle.thy ===== *)
theory Spec2Isabelle
  imports C_Strings Ring_Buffer Heap_Laws Descriptor_Tables Apic Char_Device Serial Vga_Text Framebuffer Fat12_Open Keyboard_Wait Open_Files Heap_Queue Kmain Boot_Paging
begin

text \<open>
  A verification development of TrazelOs, a small x86-64 operating system in C: a boot loader, the
  kernel with its drivers, and the part of the C library both use.

  \<^bold>\<open>The system and the theories.\<close> The boot loader (boot/bootloader) finds the kernel on a FAT12
  partition of an ATA drive, maps the upper half of the address space and copies the kernel there.
  The kernel (kernel/kmain.c) sets up page frames, page tables and a heap, the descriptor tables,
  the interrupt controllers and the clock, the file systems and the first process; from then on
  interrupts and system calls drive it. The theories follow the components; each opens with a text
  that names the files it models, and a definition has the name of the C function it translates.

  \<^item> Tz\_Prelude: the C integer types, results of operations, loops over machine words. C\_Strings,
    Mem\_Utils, Bitmap, Ring\_Buffer: utils/libc\_tz. Fifo: the contract of a bounded queue.
  \<^item> Frame\_Alloc, Pmm: the page frames, kernel/mm/pmm/pmm\_bitmap.c, and the contract their clients
    rely on. Vmm, Vmm\_Walk: page tables, kernel/mm/vmm/vmm.c, and the translation they stand for.
  \<^item> Kernel\_Heap, Block\_List, Heap\_Blocks, Heap\_Spec, Heap\_Safety, Heap\_Laws: the heap,
    kernel/mm/heap/heap.c, its block lists, its contract and the proof that it meets it.
    Heap\_Client, Heap\_Frame: rules for code that uses the heap. Heap\_Queue:
    kernel/data\_structures/queue.c, a queue with nodes in the heap.
  \<^item> Hardware: port and register access, drivers/io.c and kernel/cpu. Descriptor\_Tables: kernel/gdt
    and the interrupt table of kernel/interrupts. Interrupts: the dispatch of exceptions and
    interrupts. Acpi: kernel/acpi and madt.c. Apic: apic.c and kernel/time/time.c. Rtc: the clock,
    kernel/cmos, and the timer delay, kernel/time/pit.c.
  \<^item> Char\_Device, Serial, Vga\_Text, Font, Framebuffer: the character devices under drivers.
    Block\_Device: drivers/block\_device.c and drivers/ata\_pio. Fat12, Fat12\_Files, Fat12\_Dirs,
    Fat12\_Paths, Fat12\_Open: drivers/fat12 and what the bytes of a volume mean.
  \<^item> Task\_Queue, Scheduler, Process\_Manager, Scheduling: kernel/process\_manager. User\_Memory: memory
    as the kernel sees it while a process is current. Kernel\_State: the state above the heap and the
    keyboard driver, drivers/ps2\_keyboard. Keyboard\_Wait: blocking reads. Vfs, File\_Reads,
    Open\_Files: kernel/vfs and the descriptors of processes. Elf\_Format, Elf\_Loader:
    kernel/elf\_loader. Syscalls: kernel/syscall. Printk: kernel/printk and kernel/panic. Kmain: the
    boot sequence of kernel/kmain.c.
  \<^item> Boot\_Alloc, Boot\_Fat12, Boot\_Loader: boot/bootloader. Boot\_Kernel, Boot\_Paging: what loading
    the kernel and mapping its half of the address space do.

  \<^bold>\<open>State and results.\<close> C integers are words of their width and wrap. Memory is a function from
  64-bit addresses to bytes; page tables, heap headers, framebuffer, buffers and on-disk structures
  are bytes of it. The global variables of the components are records that extend each other:
  pmm\_state, vmm\_state, heap\_state, sched\_state and kernel\_state, so that an operation of a lower
  component acts on every state above it. Control blocks, open files and wait queues, which are
  objects of the heap, are kept in stores by the address kmalloc gave them. An operation that may
  stop is of type \<open>kres\<close>: a panic of the kernel with its message, a fault (a NULL access, an array
  index out of range, a division by zero), or an endless loop. Loops over a counter are \<open>for_loop\<close>,
  which ends because the counter approaches its bound; loops that may run forever (the walk over
  MADT records, over a block list, over a cluster chain, the wait for a device, the idle loop) are
  partial functions, and not ending is the error \<open>Hang\<close>. No fuel is used anywhere: where a theorem
  says that such a loop returns, it is proved from what the loop walks over.

  \<^bold>\<open>What is an argument.\<close> Devices behind ports and memory-mapped registers are an argument \<open>hw\<close> over
  a device state; what a drive, a serial port or an interrupt controller does is stated by named
  predicates on it, each met by a concrete device in a witness. The responses of the boot protocol,
  the addresses the linker gives tables and stubs, the call of a handler at an address, and the
  interrupt taken while the processor is halted are arguments too.

  \<^bold>\<open>Contracts.\<close> Four locales hold the interfaces: \<open>fifo_queue\<close> (interpreted by the ring buffer),
  \<open>frame_allocator\<close> (by the bitmap allocator), \<open>heap_allocator\<close> (by kmalloc and kfree) and
  \<open>linked_queue\<close> (by the task queues). Each derives from its laws what any sequence of operations
  does; the properties on sequences are these lemmas on the interpretations.

  \<^bold>\<open>What is shown.\<close>
  \<^item> Memory: the frame search is first fit, no run is handed out twice, boot marks exactly the usable
    frames free; a mapped page translates to its frame and other pages translate as before; heap
    buffers held at the same time are disjoint and keep what their owners stored, in every sequence
    of operations; boot ends with a well-formed empty heap.
  \<^item> Files: a partition read gives the bytes of the drive; opening a path finds the file the volume
    holds under it; seeks and reads stream its content; descriptors always refer to live files with
    the right reference counts.
  \<^item> Processes: the timer switches round robin and resumes each process with its registers; a reader
    of the keyboard sleeps and is woken with the character.
  \<^item> Devices and tables: descriptors and gates hold what the code means to put there, interrupts are
    routed and dispatched to their handlers, the clock gives the seconds since 1970, text goes to the
    serial port, the screen and the framebuffer and nowhere else; numbers and formats print as they
    should.
  \<^item> Boot loader: the upper window translates to the first memory and other addresses translate as
    before; the segments of the kernel are where they run, and nothing else has changed.
  \<^item> Errors: requests for more frames than there are, a MADT record of length 0 and a backspace in
    the first cell of the screen do what no caller expects; the theorems say what.

  \<^bold>\<open>Not modelled.\<close> The assembly of boot/mbr, of the start of the boot loader and of the entry stubs
  of interrupts, system calls and tasks: it handles registers before and after the C code, which
  takes and returns the register frame. Caches and translation buffers, so reloading cr3 has no
  effect. Races: an interrupt handler runs between operations, not inside one, except in the idle
  loop. The port of the C library and the programs in user space, which are clients of the system
  calls. The C++ kernel in legacy\_src, which is not built any more. Of the vendor headers, only the
  structures and constants the code uses.
\<close>

end
